(* ===== verification/Prelude.thy ===== *)
theory Prelude
  imports Main "HOL-Library.Word"
begin

text \<open>
  Shared vocabulary of the development: machine types of the Go sources, the error values the
  components return, byte buffers with Go's slicing and copying, the fixed-width integer
  encodings of \<open>encoding/binary\<close>, and the interface of a fixed-length codec.

  Go errors are values compared with \<open>errors.Is\<close>; a sentinel wrapped by \<open>fmt.Errorf("...%w")\<close>
  is still that sentinel, so one constructor stands for a sentinel and all its wrappings.
  A run-time panic (a bslice or an index out of range, an explicit \<open>panic\<close>) is the value
  \<open>Panic\<close>.
\<close>

unbundle bit_operations_syntax

named_theorems codec_simps \<open>rewrite rules for the byte encodings\<close>
named_theorems buf_simps \<open>rewrite rules for slices of updated buffers\<close>

section \<open>Machine types and errors\<close>

type_synonym byte = "8 word"
type_synonym bytes = "byte list"
type_synonym u32 = "32 word"
type_synonym u64 = "64 word"

datatype error =
    ErrClosed | ErrInvalidCRC | ErrCorruptHeader | ErrIncompleteChunk | ErrSegmentSealed
  | ErrSegmentReaderClosed | ErrNoNewData | ErrSegmentFull
  | ErrSegmentNotFound | ErrOffsetOutOfBounds | ErrOffsetBeforeHeader | ErrFsync
  | ErrRecordTooLarge
  | ErrInvalidChunkMetadata | ErrKeyNotFound | ErrBucketNotFound | ErrInvalidArguments | ErrNotFound
  | ErrArenaSizeWillExceed | ErrWalNextOffset
  | ErrInvalidLSN | ErrInvalidOffset | ErrInCloseProcess | ErrInternalError | ErrMisMatchKeyType
  | ErrEngineReadOnly | ErrWaitTimeoutExceeded
  | ErrTxnAlreadyCommitted | ErrKeyChangedForChunkedType | ErrUnsupportedTxnType | ErrEmptyColumns
  | ErrDatabaseDirInUse | ErrCanceled
  | EOF | ErrUnexpectedEOF
  | ErrMsg string
  | Panic | Fatal
  | Wrapped string error

text \<open>\<open>errors.Is\<close>: the error itself or one wrapped by \<open>fmt.Errorf\<close> with \<open>%w\<close>.\<close>

fun errors_Is :: "error \<Rightarrow> error \<Rightarrow> bool" where
  "errors_Is (Wrapped m e) target = (Wrapped m e = target \<or> errors_Is e target)"
| "errors_Is e target = (e = target)"

text \<open>The values of Go's \<open>int64\<close>.\<close>

definition is_int64 :: "int \<Rightarrow> bool" where
  "is_int64 x \<longleftrightarrow> - (2 ^ 63) \<le> x \<and> x < 2 ^ 63"

lemma sint_word_of_int_int64 [simp]:
  "is_int64 x \<Longrightarrow> sint (word_of_int x :: u64) = x"
  by (simp add: is_int64_def signed_take_bit_int_eq_self signed_of_int)

section \<open>Buffers\<close>

text \<open>\<open>bslice a b xs\<close> is Go's \<open>xs[a:b]\<close> for \<open>a \<le> b \<le> len(xs)\<close>; \<open>blit off src xs\<close> is the
  buffer after \<open>copy(xs[off:], src)\<close>, which drops what does not fit.\<close>

definition bslice :: "nat \<Rightarrow> nat \<Rightarrow> 'a list \<Rightarrow> 'a list" where
  "bslice a b xs = take (b - a) (drop a xs)"

definition blit :: "nat \<Rightarrow> 'a list \<Rightarrow> 'a list \<Rightarrow> 'a list" where
  "blit off src xs = take off xs @ take (length xs - off) src @ drop (off + length src) xs"

lemma length_bslice [simp]: "length (bslice a b xs) = min (b - a) (length xs - a)"
  by (simp add: bslice_def)

lemma nth_bslice [simp]:
  "i < b - a \<Longrightarrow> a + i < length xs \<Longrightarrow> bslice a b xs ! i = xs ! (a + i)"
  by (simp add: bslice_def)

lemma bslice_empty [simp]: "b \<le> a \<Longrightarrow> bslice a b xs = []"
  by (simp add: bslice_def)

lemma bslice_all [simp]: "bslice 0 (length xs) xs = xs"
  by (simp add: bslice_def)

lemma length_blit [simp]: "length (blit off src xs) = length xs"
  by (simp add: blit_def)

lemma blit_Nil [simp]: "blit off [] xs = xs"
  by (simp add: blit_def)

lemma nth_blit:
  assumes "i < length xs"
  shows "blit off src xs ! i =
    (if off \<le> i \<and> i < off + length src then src ! (i - off) else xs ! i)"
  using assms by (auto simp: blit_def nth_append min_def not_less)

lemma bslice_blit_same [buf_simps]:
  assumes "off + length src \<le> length xs" and "b = off + length src"
  shows "bslice off b (blit off src xs) = src"
  using assms by (auto intro!: nth_equalityI simp: nth_blit)

lemma bslice_blit_before [buf_simps]:
  "b \<le> off \<Longrightarrow> bslice a b (blit off src xs) = bslice a b xs"
  by (auto intro!: nth_equalityI simp: nth_blit)

lemma bslice_blit_after [buf_simps]:
  "off + length src \<le> a \<Longrightarrow> bslice a b (blit off src xs) = bslice a b xs"
  by (auto intro!: nth_equalityI simp: nth_blit)

lemma bslice_bslice [simp]:
  "bslice a b (bslice c d xs) = bslice (c + a) (min (c + b) d) xs"
  by (auto simp: bslice_def drop_take ac_simps min_def intro!: arg_cong2 [where f = take])

lemma bslice_append:
  assumes "a \<le> b" and "b \<le> c"
  shows "bslice a b xs @ bslice b c xs = bslice a c xs"
proof -
  have "take (b - a) (drop a xs) @ take (c - b) (drop (b - a) (drop a xs)) = take (b - a + (c - b)) (drop a xs)"
    by (rule take_add [symmetric])
  with assms show ?thesis by (simp add: bslice_def)
qed

lemma blit_adjacent:
  assumes "off + length a + length b \<le> length xs"
  shows "blit (off + length a) b (blit off a xs) = blit off (a @ b) xs"
  by (rule nth_equalityI) (use assms in \<open>auto simp: nth_blit nth_append\<close>)

lemma blit_commute:
  "a + length x \<le> b \<or> b + length y \<le> a \<Longrightarrow> blit a x (blit b y m) = blit b y (blit a x m)"
  by (rule nth_equalityI) (auto simp: nth_blit)

lemma blit_overwrite [simp]: "length x = length y \<Longrightarrow> blit a x (blit a y m) = blit a x m"
  by (rule nth_equalityI) (auto simp: nth_blit)

lemma bslice_mid:
  "a = length xs \<Longrightarrow> b = a + length ys \<Longrightarrow> bslice a b (xs @ ys @ zs) = ys"
  by (simp add: bslice_def)

lemma bslice_take [simp]: "b \<le> n \<Longrightarrow> bslice a b (take n xs) = bslice a b xs"
  by (simp add: bslice_def drop_take min_def)

text \<open>Two buffers that agree on the positions from \<open>a\<close> up to \<open>b\<close>.\<close>

definition agree :: "nat \<Rightarrow> nat \<Rightarrow> 'a list \<Rightarrow> 'a list \<Rightarrow> bool" where
  "agree a b xs ys \<longleftrightarrow> length xs = length ys \<and> (\<forall>i. a \<le> i \<and> i < b \<and> i < length xs \<longrightarrow> xs ! i = ys ! i)"

lemma agree_refl [simp]: "agree a b xs xs"
  by (simp add: agree_def)

lemma agree_trans: "agree a b xs ys \<Longrightarrow> agree a b ys zs \<Longrightarrow> agree a b xs zs"
  by (simp add: agree_def)

lemma agree_mono: "agree a b xs ys \<Longrightarrow> a \<le> a' \<Longrightarrow> b' \<le> b \<Longrightarrow> agree a' b' xs ys"
  by (simp add: agree_def)

lemma agree_bslice: "agree a b xs ys \<Longrightarrow> a \<le> c \<Longrightarrow> d \<le> b \<Longrightarrow> bslice c d xs = bslice c d ys"
  by (rule nth_equalityI) (auto simp: agree_def less_diff_conv add.commute)

lemma agree_blit_before [intro]: "off + length src \<le> a \<Longrightarrow> agree a b xs (blit off src xs)"
  by (auto simp: agree_def nth_blit)

lemma agree_blit_after [intro]: "b \<le> off \<Longrightarrow> agree a b xs (blit off src xs)"
  by (auto simp: agree_def nth_blit)

section \<open>Fixed-width integers of \<open>encoding/binary\<close>\<close>

primrec le_bytes :: "nat \<Rightarrow> nat \<Rightarrow> bytes" where
  "le_bytes 0 v = []"
| "le_bytes (Suc n) v = word_of_nat (v mod 256) # le_bytes n (v div 256)"

primrec le_val :: "bytes \<Rightarrow> nat" where
  "le_val [] = 0"
| "le_val (b # bs) = unat b + 256 * le_val bs"

lemma length_le_bytes [simp]: "length (le_bytes n v) = n"
  by (induction n arbitrary: v) auto

lemma unat_byte_of_nat [simp]: "unat (word_of_nat (v mod 256) :: byte) = v mod 256"
  by (simp add: unat_of_nat)

lemma le_val_le_bytes: "le_val (le_bytes n v) = v mod 256 ^ n"
proof (induction n arbitrary: v)
  case (Suc n)
  have "v mod (256 * 256 ^ n) = 256 * (v div 256 mod 256 ^ n) + v mod 256"
    by (rule mod_mult2_eq)
  then show ?case by (simp add: Suc)
qed simp

lemma unat_bounds:
  "unat (b :: byte) < 256" "unat (v :: u32) < 4294967296" "unat (w :: u64) < 18446744073709551616"
proof -
  have "unat b < 2 ^ LENGTH(8)" "unat v < 2 ^ LENGTH(32)" "unat w < 2 ^ LENGTH(64)"
    by (rule unsigned_less)+
  then show "unat b < 256" "unat v < 4294967296" "unat w < 18446744073709551616" by simp_all
qed

lemma le_bytes_le_val: "le_bytes (length bs) (le_val bs) = bs"
  by (induction bs) (simp_all add: unat_bounds)

lemma le_val_bound: "le_val bs < 256 ^ length bs"
proof (induction bs)
  case (Cons b bs)
  have "unat b < 256" by (rule unat_bounds)
  with Cons show ?case by simp
qed simp

definition LE_PutUint32 :: "u32 \<Rightarrow> bytes" where
  "LE_PutUint32 v = le_bytes 4 (unat v)"

definition LE_Uint32 :: "bytes \<Rightarrow> u32" where
  "LE_Uint32 bs = word_of_nat (le_val (take 4 bs))"

definition LE_PutUint64 :: "u64 \<Rightarrow> bytes" where
  "LE_PutUint64 v = le_bytes 8 (unat v)"

definition LE_Uint64 :: "bytes \<Rightarrow> u64" where
  "LE_Uint64 bs = word_of_nat (le_val (take 8 bs))"

definition BE_PutUint32 :: "u32 \<Rightarrow> bytes" where
  "BE_PutUint32 v = rev (le_bytes 4 (unat v))"

definition BE_Uint32 :: "bytes \<Rightarrow> u32" where
  "BE_Uint32 bs = word_of_nat (le_val (rev (take 4 bs)))"

lemma length_PutUint [simp]:
  "length (LE_PutUint32 v) = 4" "length (LE_PutUint64 w) = 8" "length (BE_PutUint32 v) = 4"
  by (simp_all add: LE_PutUint32_def LE_PutUint64_def BE_PutUint32_def)

lemma PutUint_Uint:
  "length bs = 4 \<Longrightarrow> LE_PutUint32 (LE_Uint32 bs) = bs"
  "length bs = 8 \<Longrightarrow> LE_PutUint64 (LE_Uint64 bs) = bs"
  using le_val_bound [of bs] le_bytes_le_val [of bs]
  by (simp_all add: LE_PutUint32_def LE_Uint32_def LE_PutUint64_def LE_Uint64_def unat_of_nat)

section \<open>Fixed-length codecs\<close>

text \<open>The contract shared by every fixed-length encoding of the program: an encoding has
  \<open>width\<close> bytes, the decoder recovers the value from the encoding of a valid value and reads
  no further than the first \<open>width\<close> bytes.\<close>

locale fixed_codec =
  fixes enc :: "'a \<Rightarrow> bytes" and dec :: "bytes \<Rightarrow> 'a" and width :: nat and valid :: "'a \<Rightarrow> bool"
  assumes enc_length: "valid x \<Longrightarrow> length (enc x) = width"
    and dec_enc_append: "valid x \<Longrightarrow> dec (enc x @ rest) = x"
begin

lemma dec_enc: "valid x \<Longrightarrow> dec (enc x) = x"
  using dec_enc_append [of x "[]"] by simp

lemma enc_inj: "valid x \<Longrightarrow> valid y \<Longrightarrow> enc x = enc y \<Longrightarrow> x = y"
  by (metis dec_enc)

text \<open>Encodings are self-delimiting.\<close>

lemma enc_prefix_unique:
  "valid x \<Longrightarrow> valid y \<Longrightarrow> enc x @ xs = enc y @ ys \<Longrightarrow> x = y \<and> xs = ys"
  by (metis same_append_eq dec_enc_append)

end

lemma word_of_nat_le_val [simp]:
  "word_of_nat (le_val (le_bytes 4 (unat v))) = (v :: u32)"
  "word_of_nat (le_val (le_bytes 8 (unat w))) = (w :: u64)"
  by (simp_all add: le_val_le_bytes unat_bounds)

lemma Uint_PutUint_append [codec_simps]:
  "LE_Uint32 (LE_PutUint32 v @ rest) = v"
  "LE_Uint64 (LE_PutUint64 w @ rest) = w"
  "BE_Uint32 (BE_PutUint32 v @ rest) = v"
  by (simp_all add: LE_PutUint32_def LE_Uint32_def LE_PutUint64_def LE_Uint64_def
      BE_PutUint32_def BE_Uint32_def)

interpretation le32: fixed_codec LE_PutUint32 LE_Uint32 4 "\<lambda>_. True"
  by unfold_locales (rule length_PutUint Uint_PutUint_append)+

interpretation le64: fixed_codec LE_PutUint64 LE_Uint64 8 "\<lambda>_. True"
  by unfold_locales (rule length_PutUint Uint_PutUint_append)+

interpretation be32: fixed_codec BE_PutUint32 BE_Uint32 4 "\<lambda>_. True"
  by unfold_locales (rule length_PutUint Uint_PutUint_append)+

lemmas Uint_PutUint [simp] = le32.dec_enc [OF TrueI] le64.dec_enc [OF TrueI] be32.dec_enc [OF TrueI]

end
