(* ===== verification/Checksum.thy ===== *)
theory Checksum
  imports Prelude
begin

text \<open>
  The reflected 32-bit cyclic redundancy check of Go's \<open>hash/crc32\<close>, bit by bit: the
  Castagnoli polynomial guards WAL frames and segment headers (\<open>pkg/walfs/segment.go\<close>), the
  IEEE polynomial the transaction payloads (\<open>dbkernel/txn.go\<close>) and the chunk checksum
  (\<open>pkg/splitter/chunk.go\<close>).
\<close>

definition crc_shift :: "u32 \<Rightarrow> u32 \<Rightarrow> u32" where
  "crc_shift poly c = (if bit c 0 then drop_bit 1 c XOR poly else drop_bit 1 c)"

definition crc_byte :: "u32 \<Rightarrow> byte \<Rightarrow> u32 \<Rightarrow> u32" where
  "crc_byte poly b c = (crc_shift poly ^^ 8) (c XOR ucast b)"

text \<open>\<open>crc32.Update\<close>: the running value is stored complemented.\<close>

definition crc_update :: "u32 \<Rightarrow> u32 \<Rightarrow> bytes \<Rightarrow> u32" where
  "crc_update poly crc p = NOT (fold (crc_byte poly) p (NOT crc))"

definition Castagnoli :: u32 where "Castagnoli = 0x82F63B78"

definition IEEE :: u32 where "IEEE = 0xEDB88320"

definition crc32c_Update :: "u32 \<Rightarrow> bytes \<Rightarrow> u32" where
  "crc32c_Update = crc_update Castagnoli"

definition crc32c_Checksum :: "bytes \<Rightarrow> u32" where
  "crc32c_Checksum p = crc32c_Update 0 p"

definition ChecksumIEEE :: "bytes \<Rightarrow> u32" where
  "ChecksumIEEE p = crc_update IEEE 0 p"

subsection \<open>Rules for evaluating checksums\<close>

named_theorems crc_eval \<open>rules that evaluate a checksum of a concrete buffer\<close>

lemma not_u32: "NOT (c :: u32) = c XOR 0xFFFFFFFF"
proof -
  have "(0xFFFFFFFF :: u32) = - 1" by simp
  then show ?thesis by (simp only: bit.xor_one_right)
qed

lemma crc_update_eval [crc_eval]:
  "crc_update poly c p = fold (crc_byte poly) p (c XOR 0xFFFFFFFF) XOR 0xFFFFFFFF"
  by (simp add: crc_update_def not_u32)

lemma crc_byte_eval [crc_eval]:
  "crc_byte poly b c =
    crc_shift poly (crc_shift poly (crc_shift poly (crc_shift poly
      (crc_shift poly (crc_shift poly (crc_shift poly (crc_shift poly (c XOR ucast b))))))))"
  by (simp add: crc_byte_def eval_nat_numeral)

lemmas [crc_eval] =
  crc_shift_def crc32c_Checksum_def crc32c_Update_def ChecksumIEEE_def Castagnoli_def IEEE_def

text \<open>The check values of the two polynomials (the checksum of the ASCII digits 1 to 9).\<close>

lemma crc32c_check_value:
  "crc32c_Checksum [0x31, 0x32, 0x33, 0x34, 0x35, 0x36, 0x37, 0x38, 0x39] = 0xE3069283"
  by (simp add: crc_eval)

lemma crc32_check_value:
  "ChecksumIEEE [0x31, 0x32, 0x33, 0x34, 0x35, 0x36, 0x37, 0x38, 0x39] = 0xCBF43926"
  by (simp add: crc_eval)

subsection \<open>Streaming\<close>

lemma crc_update_append: "crc_update poly (crc_update poly c p) q = crc_update poly c (p @ q)"
  by (simp add: crc_update_def)

lemma crc_update_Nil [simp]: "crc_update poly c [] = c"
  by (simp add: crc_update_def)

end
