(* ===== verification/ReaderTracker.thy ===== *)
theory ReaderTracker
  imports Prelude
begin

text \<open>
  \<open>pkg/walfs/util.go\<close>: the set of active reader ids of a segment, split over 32 shards that
  are locked separately. A shard holds the ids whose low five bits are its index. Each method
  holds one shard's mutex at a time, so every method is one atomic step on that shard;
  \<open>HasAny\<close> visits the shards in order. The lemmas show that the sharded structure implements
  a plain set of ids.
\<close>

definition readerShardCount :: nat where "readerShardCount = 32"

definition readerShardMask :: u64 where "readerShardMask = 31"

record readerTracker =
  shards :: "u64 set list"

definition newReaderTracker :: readerTracker where
  "newReaderTracker = \<lparr>shards = replicate readerShardCount {}\<rparr>"

definition shard :: "u64 \<Rightarrow> nat" where
  "shard rid = unat (rid AND readerShardMask)"

definition rt_Add :: "readerTracker \<Rightarrow> u64 \<Rightarrow> readerTracker" where
  "rt_Add rt rid = rt\<lparr>shards := (shards rt)[shard rid := insert rid (shards rt ! shard rid)]\<rparr>"

definition rt_Remove :: "readerTracker \<Rightarrow> u64 \<Rightarrow> readerTracker \<times> bool" where
  "rt_Remove rt rid =
    (let items = shards rt ! shard rid; exists = rid \<in> items
     in (if exists then rt\<lparr>shards := (shards rt)[shard rid := items - {rid}]\<rparr> else rt, exists))"

definition rt_HasAny :: "readerTracker \<Rightarrow> bool" where
  "rt_HasAny rt = list_ex (\<lambda>items. items \<noteq> {}) (shards rt)"

definition rt_Contains :: "readerTracker \<Rightarrow> u64 \<Rightarrow> bool" where
  "rt_Contains rt rid = (rid \<in> shards rt ! shard rid)"

section \<open>Invariant and abstraction\<close>

definition rt_wf :: "readerTracker \<Rightarrow> bool" where
  "rt_wf rt \<longleftrightarrow> length (shards rt) = readerShardCount
     \<and> (\<forall>i < readerShardCount. \<forall>rid \<in> shards rt ! i. shard rid = i) \<and> (\<forall>s \<in> set (shards rt). finite s)"

definition rt_ids :: "readerTracker \<Rightarrow> u64 set" where
  "rt_ids rt = \<Union> (set (shards rt))"

lemma shard_bound: "shard rid < readerShardCount"
proof -
  have "rid AND 31 \<le> (31 :: u64)" by (rule word_and_le1)
  then have "unat (rid AND 31) \<le> unat (31 :: u64)" by (simp only: word_le_nat_alt)
  then show ?thesis by (simp add: shard_def readerShardMask_def readerShardCount_def)
qed

lemma rt_ids_iff:
  assumes "rt_wf rt" shows "rid \<in> rt_ids rt \<longleftrightarrow> rid \<in> shards rt ! shard rid"
proof
  assume "rid \<in> rt_ids rt"
  then obtain i where "i < length (shards rt)" "rid \<in> shards rt ! i"
    by (auto simp: rt_ids_def in_set_conv_nth)
  with assms show "rid \<in> shards rt ! shard rid" by (simp add: rt_wf_def)
next
  assume "rid \<in> shards rt ! shard rid"
  moreover have "shards rt ! shard rid \<in> set (shards rt)"
    using assms shard_bound by (simp add: rt_wf_def)
  ultimately show "rid \<in> rt_ids rt" by (auto simp: rt_ids_def)
qed

lemma rt_wf_new [simp]: "rt_wf newReaderTracker"
  by (simp add: rt_wf_def newReaderTracker_def)

lemma rt_ids_new [simp]: "rt_ids newReaderTracker = {}"
  by (simp add: rt_ids_def newReaderTracker_def)

lemma rt_wf_upd:
  assumes "rt_wf rt" "finite items" "\<forall>r \<in> items. shard r = i"
  shows "rt_wf (rt\<lparr>shards := (shards rt)[i := items]\<rparr>)"
  unfolding rt_wf_def
proof (intro conjI allI ballI impI)
  fix k rid assume "k < readerShardCount" "rid \<in> shards (rt\<lparr>shards := (shards rt)[i := items]\<rparr>) ! k"
  with assms show "shard rid = k" by (cases "k = i") (simp_all add: rt_wf_def)
next
  fix s assume "s \<in> set (shards (rt\<lparr>shards := (shards rt)[i := items]\<rparr>))"
  then have "s = items \<or> s \<in> set (shards rt)"
    using set_update_subset_insert by fastforce
  with assms show "finite s" by (auto simp: rt_wf_def)
qed (use assms in \<open>simp add: rt_wf_def\<close>)

lemma rt_wf_shard:
  assumes "rt_wf rt"
  shows "finite (shards rt ! shard rid)" "r \<in> shards rt ! shard rid \<Longrightarrow> shard r = shard rid"
  using assms shard_bound [of rid] by (auto simp: rt_wf_def)

lemma rt_wf_Add [simp]: "rt_wf rt \<Longrightarrow> rt_wf (rt_Add rt rid)"
  unfolding rt_Add_def by (rule rt_wf_upd) (auto dest: rt_wf_shard)

lemma rt_wf_Remove [simp]: "rt_wf rt \<Longrightarrow> rt_wf (fst (rt_Remove rt rid))"
  by (auto simp: rt_Remove_def Let_def intro!: rt_wf_upd dest: rt_wf_shard)

lemma rt_len: "rt_wf rt \<Longrightarrow> shard rid < length (shards rt)"
  using shard_bound [of rid] by (simp add: rt_wf_def)

lemma rt_ids_Add [simp]:
  assumes "rt_wf rt" shows "rt_ids (rt_Add rt rid) = insert rid (rt_ids rt)"
proof (rule set_eqI)
  fix r
  have "r \<in> shards (rt_Add rt rid) ! shard r \<longleftrightarrow> r = rid \<or> r \<in> shards rt ! shard r"
    using rt_len [OF assms] by (cases "shard r = shard rid") (auto simp: rt_Add_def)
  with assms show "r \<in> rt_ids (rt_Add rt rid) \<longleftrightarrow> r \<in> insert rid (rt_ids rt)"
    by (simp add: rt_ids_iff)
qed

lemma rt_Remove_found [simp]: "rt_wf rt \<Longrightarrow> snd (rt_Remove rt rid) = (rid \<in> rt_ids rt)"
  by (simp add: rt_Remove_def Let_def rt_ids_iff)

lemma rt_ids_Remove [simp]:
  assumes "rt_wf rt" shows "rt_ids (fst (rt_Remove rt rid)) = rt_ids rt - {rid}"
proof (rule set_eqI)
  fix r
  have "r \<in> shards (fst (rt_Remove rt rid)) ! shard r \<longleftrightarrow> r \<in> shards rt ! shard r \<and> r \<noteq> rid"
    using rt_len [OF assms] by (cases "shard r = shard rid") (auto simp: rt_Remove_def Let_def)
  with assms show "r \<in> rt_ids (fst (rt_Remove rt rid)) \<longleftrightarrow> r \<in> rt_ids rt - {rid}"
    by (simp add: rt_ids_iff)
qed

lemma rt_HasAny_ids: "rt_HasAny rt \<longleftrightarrow> rt_ids rt \<noteq> {}"
  by (auto simp: rt_HasAny_def rt_ids_def list_ex_iff)

lemma rt_Contains_ids: "rt_wf rt \<Longrightarrow> rt_Contains rt rid \<longleftrightarrow> rid \<in> rt_ids rt"
  by (simp add: rt_Contains_def rt_ids_iff)

lemma finite_rt_ids [simp]: "rt_wf rt \<Longrightarrow> finite (rt_ids rt)"
  by (auto simp: rt_ids_def rt_wf_def)

section \<open>The interface the segment uses\<close>

text \<open>A registry of active ids, specified by the set it stands for. The client counts its
  references by the number of registered ids.\<close>

locale id_registry =
  fixes wf :: "'r \<Rightarrow> bool" and ids :: "'r \<Rightarrow> u64 set"
    and add :: "'r \<Rightarrow> u64 \<Rightarrow> 'r" and remove :: "'r \<Rightarrow> u64 \<Rightarrow> 'r \<times> bool"
  assumes wf_add: "wf r \<Longrightarrow> wf (add r k)"
    and wf_remove: "wf r \<Longrightarrow> wf (fst (remove r k))"
    and ids_add: "wf r \<Longrightarrow> ids (add r k) = insert k (ids r)"
    and ids_remove: "wf r \<Longrightarrow> ids (fst (remove r k)) = ids r - {k}"
    and remove_found: "wf r \<Longrightarrow> snd (remove r k) = (k \<in> ids r)"
    and finite_ids: "wf r \<Longrightarrow> finite (ids r)"
begin

lemma card_add_fresh: "wf r \<Longrightarrow> k \<notin> ids r \<Longrightarrow> card (ids (add r k)) = Suc (card (ids r))"
  by (simp add: ids_add finite_ids)

lemma card_remove:
  assumes "wf r" shows "card (ids (fst (remove r k))) + of_bool (snd (remove r k)) = card (ids r)"
proof (cases "k \<in> ids r")
  case True
  with assms have "0 < card (ids r)" by (auto simp: card_gt_0_iff finite_ids)
  with True assms show ?thesis by (simp add: ids_remove remove_found card_Diff_singleton)
qed (use assms in \<open>simp add: ids_remove remove_found\<close>)

text \<open>Removing an id twice reports it present only once.\<close>

lemma remove_twice: "wf r \<Longrightarrow> \<not> snd (remove (fst (remove r k)) k)"
  by (simp add: remove_found wf_remove ids_remove)

end

interpretation tracker: id_registry rt_wf rt_ids rt_Add rt_Remove
  by unfold_locales simp_all

end
