(* ===== verification/Segment.thy ===== *)
theory Segment
  imports Checksum ReaderTracker
begin

text \<open>
  \<open>pkg/walfs/segment.go\<close>: one memory-mapped WAL segment. The mapping is a byte list of the
  segment's size; the 64-byte header at its front and the record frames behind it are read and
  written through the same slices and little-endian accessors as the source. Offsets and sizes
  are \<open>nat\<close>: the source bounds a segment by 4 GiB, so its \<open>int64\<close> sums do not wrap; the
  32-bit arithmetic and the truncations to \<open>uint32\<close> are kept at their width. The clock and the
  outcome of each system call are the fields of an \<open>ioenv\<close> argument. The scratch buffer
  \<open>Segment.header\<close> is local here, because every use overwrites all of it first. A method that
  takes \<open>writeMu\<close> is one atomic step.
\<close>

section \<open>Constants and environment\<close>

text \<open>\<open>FlagActive\<close> is \<open>1 << iota\<close> at the fourth entry of its const block, that is 8.\<close>

definition FlagActive :: u32 where "FlagActive = 8"
definition FlagSealed :: u32 where "FlagSealed = 2"
definition segmentMagicNumber :: u32 where "segmentMagicNumber = 0x5557414C"
definition segmentHeaderVersion :: u32 where "segmentHeaderVersion = 1"
definition trailerMarker :: bytes where
  "trailerMarker = [0xDE, 0xAD, 0xBE, 0xEF, 0xFE, 0xED, 0xFA, 0xCE]"
definition trailerWord :: u64 where "trailerWord = 0xCEFAEDFEEFBEADDE"

abbreviation (input) maxSegmentSize :: nat where "maxSegmentSize \<equiv> 4 * 1024 * 1024 * 1024"
abbreviation (input) segmentHeaderSize :: nat where "segmentHeaderSize \<equiv> 64"
abbreviation (input) recordHeaderSize :: nat where "recordHeaderSize \<equiv> 8"
abbreviation (input) recordTrailerMarkerSize :: nat where "recordTrailerMarkerSize \<equiv> 8"
abbreviation (input) alignMask :: int where "alignMask \<equiv> 7"

datatype MsyncOption = MsyncNone | MsyncOnWrite

datatype segState = StateOpen | StateClosing

record ioenv =
  io_now :: u64          \<comment> \<open>\<open>uint64(time.Now().UnixNano())\<close>\<close>
  io_stat_ok :: bool     \<comment> \<open>\<open>os.Stat\<close> fails only with "not exist"\<close>
  io_open_ok :: bool     \<comment> \<open>\<open>OpenFile\<close> and \<open>Truncate\<close>\<close>
  io_mmap_ok :: bool
  io_msync_ok :: bool    \<comment> \<open>\<open>MMap.Flush\<close>\<close>
  io_fsync_ok :: bool    \<comment> \<open>\<open>File.Sync\<close>\<close>
  io_unmap_ok :: bool
  io_close_ok :: bool
  io_remove_ok :: bool
  io_dirsync_ok :: bool

section \<open>Record positions\<close>

record RecordPosition =
  SegmentID :: u32
  Offset :: int

definition NilRecordPosition :: RecordPosition where
  "NilRecordPosition = \<lparr>SegmentID = 0, Offset = 0\<rparr>"

definition rp_Encode :: "RecordPosition \<Rightarrow> bytes" where
  "rp_Encode rp = blit 4 (LE_PutUint64 (word_of_int (Offset rp)))
     (blit 0 (LE_PutUint32 (SegmentID rp)) (replicate 12 0))"

definition EncodeRecordPositionTo :: "RecordPosition \<Rightarrow> bytes \<Rightarrow> bytes" where
  "EncodeRecordPositionTo pos buf =
    (let buf' = (if length buf < 12 then replicate 12 0 else take 12 buf)
     in blit 4 (LE_PutUint64 (word_of_int (Offset pos))) (blit 0 (LE_PutUint32 (SegmentID pos)) buf'))"

definition rp_IsZero :: "RecordPosition \<Rightarrow> bool" where
  "rp_IsZero rp \<longleftrightarrow> SegmentID rp = 0 \<and> Offset rp = 0"

definition DecodeRecordPosition :: "bytes \<Rightarrow> error + RecordPosition" where
  "DecodeRecordPosition data =
    (if length data < 12 then Inl ErrUnexpectedEOF
     else Inr \<lparr>SegmentID = LE_Uint32 (bslice 0 4 data), Offset = sint (LE_Uint64 (bslice 4 12 data))\<rparr>)"

section \<open>Segment header\<close>

record SegmentHeader =
  sh_Magic :: u32
  sh_Version :: u32
  sh_CreatedAt :: int
  sh_LastModifiedAt :: int
  sh_WriteOffset :: int
  sh_EntryCount :: int
  sh_Flags :: u32

definition decodeSegmentHeader :: "bytes \<Rightarrow> error + SegmentHeader" where
  "decodeSegmentHeader buf =
    (if length buf < 64 then Inl ErrUnexpectedEOF
     else if LE_Uint32 (bslice 56 60 buf) \<noteq> crc32c_Checksum (bslice 0 56 buf)
       then Inl (ErrMsg ''segment metadata CRC mismatch'')
     else Inr \<lparr>sh_Magic = LE_Uint32 (bslice 0 4 buf),
               sh_Version = LE_Uint32 (bslice 4 8 buf),
               sh_CreatedAt = sint (LE_Uint64 (bslice 8 16 buf)),
               sh_LastModifiedAt = sint (LE_Uint64 (bslice 16 24 buf)),
               sh_WriteOffset = sint (LE_Uint64 (bslice 24 32 buf)),
               sh_EntryCount = sint (LE_Uint64 (bslice 32 40 buf)),
               sh_Flags = LE_Uint32 (bslice 40 44 buf)\<rparr>)"

definition IsSealed :: "u32 \<Rightarrow> bool" where
  "IsSealed flags \<longleftrightarrow> flags AND FlagSealed \<noteq> 0"

definition IsActive :: "u32 \<Rightarrow> bool" where
  "IsActive flags \<longleftrightarrow> flags AND FlagActive \<noteq> 0"

text \<open>The last two statements of every header update: the checksum of the first 56 bytes.\<close>

definition putHeaderCRC :: "bytes \<Rightarrow> bytes" where
  "putHeaderCRC m = blit 56 (LE_PutUint32 (crc32c_Checksum (bslice 0 56 m))) m"

definition writeInitialMetadata :: "u64 \<Rightarrow> bytes \<Rightarrow> bytes" where
  "writeInitialMetadata now m =
    (let m1 = blit 0 (LE_PutUint32 segmentMagicNumber) m;
         m2 = blit 4 (LE_PutUint32 segmentHeaderVersion) m1;
         m3 = blit 8 (LE_PutUint64 now) m2;
         m4 = blit 16 (LE_PutUint64 now) m3;
         m5 = blit 24 (LE_PutUint64 64) m4;
         m6 = blit 32 (LE_PutUint64 0) m5;
         m7 = blit 40 (LE_PutUint32 FlagActive) m6
     in putHeaderCRC m7)"

section \<open>Segments\<close>

record Segment =
  seg_path :: string
  seg_id :: u32
  seg_mmapData :: bytes
  seg_mmapSize :: nat
  seg_writeOffset :: nat
  seg_closed :: bool
  seg_refCount :: int
  seg_state :: segState
  seg_markedForDeletion :: bool
  seg_readerIDCounter :: u64
  seg_activeReaders :: readerTracker
  seg_isSealed :: bool
  seg_inMemorySealed :: bool
  seg_syncOption :: MsyncOption
  seg_unmapped :: bool     \<comment> \<open>the mapping has been released (\<open>MMap.Unmap\<close>)\<close>
  seg_removed :: bool      \<comment> \<open>the file has been deleted from its directory\<close>

definition alignUp :: "nat \<Rightarrow> nat" where
  "alignUp n = nat ((int n + alignMask) AND NOT alignMask)"

definition crc32Checksum :: "bytes \<Rightarrow> bytes \<Rightarrow> u32" where
  "crc32Checksum header data = crc32c_Update (crc32c_Checksum header) data"

definition isNewSegment :: "ioenv \<Rightarrow> bytes option \<Rightarrow> error + bool" where
  "isNewSegment io file =
    (if file = None then Inr True
     else if \<not> io_stat_ok io then Inl (ErrMsg ''stat error'') else Inr False)"

text \<open>The recovery scan. The entry size is computed in \<open>uint32\<close>; slicing past the mapping
  panics. The fuel bounds the number of iterations.\<close>

fun scanLoop :: "nat \<Rightarrow> nat \<Rightarrow> bytes \<Rightarrow> nat \<Rightarrow> error + nat" where
  "scanLoop 0 sz m offset = Inl (ErrMsg ''out of fuel'')"
| "scanLoop (Suc fuel) sz m offset =
    (if \<not> offset + recordHeaderSize \<le> sz then Inr offset
     else let offset = alignUp offset in
       if offset + recordHeaderSize > sz then Inr offset
       else let header = bslice offset (offset + recordHeaderSize) m;
                len = LE_Uint32 (bslice 4 8 header);
                entrySize = alignUp (unat (8 + len + 8 :: u32)) in
         if offset + entrySize > sz then Inr offset
         else if offset + recordHeaderSize + unat len + recordTrailerMarkerSize > length m
           then Inl Panic
         else let data = bslice (offset + 8) (offset + 8 + unat len) m;
                  trailer = bslice (offset + 8 + unat len) (offset + 8 + unat len + 8) m;
                  savedSum = LE_Uint32 (bslice 0 4 header);
                  computedSum = crc32Checksum (bslice 4 8 header) data in
           if savedSum = 0 \<and> len = 0 then Inr offset
           else if savedSum = 0 \<or> savedSum \<noteq> computedSum \<or> trailer \<noteq> trailerMarker then Inr offset
           else scanLoop fuel sz m (offset + entrySize))"

definition scanForLastOffset :: "nat \<Rightarrow> bytes \<Rightarrow> error + nat" where
  "scanForLastOffset sz m = scanLoop (Suc sz) sz m segmentHeaderSize"

definition prepareSegmentFile :: "ioenv \<Rightarrow> nat \<Rightarrow> bytes option \<Rightarrow> error + bytes" where
  "prepareSegmentFile io sz file =
    (if \<not> io_open_ok io then Inl (ErrMsg ''truncate error'')
     else if \<not> io_mmap_ok io \<or> sz = 0 then Inl (ErrMsg ''mmap error'')
     else let content = (case file of None \<Rightarrow> [] | Some c \<Rightarrow> c)
          in Inr (take sz content @ replicate (sz - length content) 0))"

definition OpenSegmentFile ::
  "ioenv \<Rightarrow> string \<Rightarrow> u32 \<Rightarrow> nat \<Rightarrow> MsyncOption \<Rightarrow> bytes option \<Rightarrow> error + Segment" where
  "OpenSegmentFile io path sid sz opt file =
    (case isNewSegment io file of Inl e \<Rightarrow> Inl e | Inr isNew \<Rightarrow>
      let s = (\<lambda>m off sealed. \<lparr>seg_path = path, seg_id = sid, seg_mmapData = m, seg_mmapSize = sz,
                seg_writeOffset = off, seg_closed = False, seg_refCount = 0, seg_state = StateOpen,
                seg_markedForDeletion = False, seg_readerIDCounter = 0,
                seg_activeReaders = newReaderTracker, seg_isSealed = sealed,
                seg_inMemorySealed = False, seg_syncOption = opt,
                seg_unmapped = False, seg_removed = False\<rparr>) in
      if sz > maxSegmentSize then Inl (ErrMsg ''segment size exceeds 4 GiB limit'')
      else case prepareSegmentFile io sz file of Inl e \<Rightarrow> Inl e | Inr m \<Rightarrow>
        if isNew then
          (if sz < 60 then Inl Panic
           else Inr (s (writeInitialMetadata (io_now io) m) segmentHeaderSize False))
        else if sz < segmentHeaderSize then Inl Panic
        else (case decodeSegmentHeader (take segmentHeaderSize m) of Inl e \<Rightarrow> Inl e | Inr meta \<Rightarrow>
          if IsSealed (sh_Flags meta) then Inr (s m (nat (sh_WriteOffset meta)) True)
          else (case scanForLastOffset sz m of Inl e \<Rightarrow> Inl e
                | Inr off \<Rightarrow> Inr (s m off False))))"

definition SealSegment :: "ioenv \<Rightarrow> Segment \<Rightarrow> Segment \<times> error option" where
  "SealSegment io s =
    (if seg_closed s then (s, Some ErrClosed)
     else if seg_unmapped s then (s, Some Panic)
     else let m = seg_mmapData s;
              m1 = blit 16 (LE_PutUint64 (io_now io)) m;
              m2 = blit 24 (LE_PutUint64 (word_of_nat (seg_writeOffset s))) m1;
              flags = LE_Uint32 (bslice 40 44 m2);
              flags' = (flags AND NOT FlagActive) OR FlagSealed;
              m3 = blit 40 (LE_PutUint32 flags') m2
          in (s\<lparr>seg_mmapData := putHeaderCRC m3, seg_isSealed := True\<rparr>, None))"

definition MarkSealedInMemory :: "Segment \<Rightarrow> Segment" where
  "MarkSealedInMemory s = s\<lparr>seg_inMemorySealed := True\<rparr>"

text \<open>The four copies that lay a record out at an offset, and the header update that follows
  them; \<open>Write\<close> and \<open>WriteBatch\<close> contain the same statements.\<close>

definition putRecord :: "nat \<Rightarrow> bytes \<Rightarrow> bytes \<Rightarrow> bytes" where
  "putRecord offset data m =
    (let rawSize = recordHeaderSize + length data + recordTrailerMarkerSize;
         entrySize = alignUp rawSize;
         lenField = LE_PutUint32 (word_of_nat (length data));
         header = LE_PutUint32 (crc32Checksum lenField data) @ lenField;
         m1 = blit offset header m;
         m2 = blit (offset + recordHeaderSize) data m1;
         m3 = blit (offset + recordHeaderSize + length data) trailerMarker m2
     in blit (offset + rawSize) (replicate (entrySize - rawSize) 0) m3)"

definition putMeta :: "u64 \<Rightarrow> nat \<Rightarrow> nat \<Rightarrow> bytes \<Rightarrow> bytes" where
  "putMeta now newOffset n m =
    (let m1 = blit 24 (LE_PutUint32 (word_of_nat newOffset)) m;
         prevCount = LE_Uint64 (bslice 32 40 m1);
         m2 = blit 32 (LE_PutUint64 (prevCount + word_of_nat n)) m1;
         m3 = blit 16 (LE_PutUint64 now) m2
     in putHeaderCRC m3)"

definition entrySizeOf :: "bytes \<Rightarrow> nat" where
  "entrySizeOf data = alignUp (recordHeaderSize + length data + recordTrailerMarkerSize)"

definition seg_Write :: "ioenv \<Rightarrow> bytes \<Rightarrow> Segment \<Rightarrow> Segment \<times> (error + RecordPosition)" where
  "seg_Write io data s =
    (if seg_closed s \<or> seg_state s \<noteq> StateOpen then (s, Inl ErrClosed)
     else if IsSealed (LE_Uint32 (bslice 40 44 (seg_mmapData s))) then (s, Inl ErrSegmentSealed)
     else let offset = seg_writeOffset s; entrySize = entrySizeOf data in
       if offset + entrySize > seg_mmapSize s then (s, Inl (ErrMsg ''write exceeds Segment size''))
       else let m1 = putRecord offset data (seg_mmapData s);
                newOffset = offset + entrySize;
                s' = s\<lparr>seg_mmapData := putMeta (io_now io) newOffset 1 m1, seg_writeOffset := newOffset\<rparr>
            in if seg_syncOption s = MsyncOnWrite \<and> \<not> io_msync_ok io
                 then (s', Inl (ErrMsg ''mmap flush error after write''))
               else (s', Inr \<lparr>SegmentID = seg_id s, Offset = int offset\<rparr>))"

text \<open>First loop of \<open>WriteBatch\<close>: the positions of the records that fit, or the error for a
  record no segment can hold. Second loop: the writes.\<close>

fun batchFit :: "u32 \<Rightarrow> nat \<Rightarrow> nat \<Rightarrow> bytes list \<Rightarrow> error + RecordPosition list" where
  "batchFit sid sz off [] = Inr []"
| "batchFit sid sz off (data # rest) =
    (if int (entrySizeOf data) > int sz - int segmentHeaderSize
       then Inl (ErrMsg ''exceeds maximum segment capacity'')
     else if off + entrySizeOf data > sz then Inr []
     else case batchFit sid sz (off + entrySizeOf data) rest of Inl e \<Rightarrow> Inl e
          | Inr ps \<Rightarrow> Inr (\<lparr>SegmentID = sid, Offset = int off\<rparr> # ps))"

fun putRecords :: "nat \<Rightarrow> bytes list \<Rightarrow> bytes \<Rightarrow> nat \<times> bytes" where
  "putRecords off [] m = (off, m)"
| "putRecords off (data # rest) m = putRecords (off + entrySizeOf data) rest (putRecord off data m)"

definition seg_WriteBatch ::
  "ioenv \<Rightarrow> bytes list \<Rightarrow> Segment \<Rightarrow> Segment \<times> RecordPosition list \<times> nat \<times> error option" where
  "seg_WriteBatch io records s =
    (if records = [] then (s, [], 0, None)
     else if seg_closed s \<or> seg_state s \<noteq> StateOpen then (s, [], 0, Some ErrClosed)
     else if IsSealed (LE_Uint32 (bslice 40 44 (seg_mmapData s))) then (s, [], 0, Some ErrSegmentSealed)
     else case batchFit (seg_id s) (seg_mmapSize s) (seg_writeOffset s) records of
       Inl e \<Rightarrow> (s, [], 0, Some e)
     | Inr positions \<Rightarrow>
        let n = length positions in
        if n = 0 then (s, [], 0, Some ErrSegmentFull)
        else let (newOffset, m1) = putRecords (seg_writeOffset s) (take n records) (seg_mmapData s);
                 s' = s\<lparr>seg_mmapData := putMeta (io_now io) newOffset n m1, seg_writeOffset := newOffset\<rparr>
             in if seg_syncOption s = MsyncOnWrite \<and> \<not> io_msync_ok io
                  then (s', positions, n, Some (ErrMsg ''mmap flush error after batch write''))
                else (s', positions, n, if n < length records then Some ErrSegmentFull else None))"

definition seg_Read :: "nat \<Rightarrow> Segment \<Rightarrow> error + bytes \<times> RecordPosition" where
  "seg_Read offset s =
    (let m = seg_mmapData s; wo = seg_writeOffset s in
     if seg_closed s then Inl ErrClosed
     else if offset + recordHeaderSize > seg_mmapSize s then Inl EOF
     else if seg_unmapped s then Inl Panic
     else let header = bslice offset (offset + recordHeaderSize) m;
              len = LE_Uint32 (bslice 4 8 header);
              dataSize = unat len;
              entrySize = alignUp (recordHeaderSize + dataSize + recordTrailerMarkerSize) in
       if len > word_of_int (int wo - int offset - int recordHeaderSize) then Inl ErrCorruptHeader
       else if offset + entrySize > wo then Inl EOF
       else let trailerOffset = offset + recordHeaderSize + dataSize;
                end' = trailerOffset + recordTrailerMarkerSize in
         if end' > seg_mmapSize s then Inl ErrIncompleteChunk
         else if LE_Uint64 (bslice trailerOffset end' m) \<noteq> trailerWord then Inl ErrIncompleteChunk
         else let data = bslice (offset + recordHeaderSize) (offset + recordHeaderSize + dataSize) m in
           if seg_isSealed s \<and> \<not> seg_inMemorySealed s
              \<and> LE_Uint32 (bslice 0 4 header) \<noteq> crc32Checksum (bslice 4 8 header) data
             then Inl ErrInvalidCRC
           else Inr (data, \<lparr>SegmentID = seg_id s, Offset = int (offset + entrySize)\<rparr>))"

definition seg_Sync :: "ioenv \<Rightarrow> Segment \<Rightarrow> error option" where
  "seg_Sync io s =
    (if seg_closed s then Some ErrClosed
     else if \<not> io_msync_ok io then Some (ErrMsg ''mmap flush error'')
     else if \<not> io_fsync_ok io then Some (ErrMsg ''fsync error'') else None)"

definition seg_MSync :: "ioenv \<Rightarrow> Segment \<Rightarrow> error option" where
  "seg_MSync io s =
    (if seg_closed s then Some ErrClosed
     else if \<not> io_msync_ok io then Some (ErrMsg ''mmap flush error'') else None)"

definition WillExceed :: "nat \<Rightarrow> Segment \<Rightarrow> bool" where
  "WillExceed dataSize s =
    (seg_writeOffset s + alignUp (recordHeaderSize + dataSize + recordTrailerMarkerSize) > seg_mmapSize s)"

text \<open>The header accessors panic when the mapping is gone or the header does not decode.\<close>

definition GetLastModifiedAt :: "Segment \<Rightarrow> error + int" where
  "GetLastModifiedAt s = (if seg_unmapped s then Inl Panic else case decodeSegmentHeader (take segmentHeaderSize (seg_mmapData s)) of
     Inl e \<Rightarrow> Inl Panic | Inr meta \<Rightarrow> Inr (sh_LastModifiedAt meta))"

definition GetEntryCount :: "Segment \<Rightarrow> error + int" where
  "GetEntryCount s = (if seg_unmapped s then Inl Panic else case decodeSegmentHeader (take segmentHeaderSize (seg_mmapData s)) of
     Inl e \<Rightarrow> Inl Panic | Inr meta \<Rightarrow> Inr (sh_EntryCount meta))"

definition GetFlags :: "Segment \<Rightarrow> error + u32" where
  "GetFlags s = (if seg_unmapped s then Inl Panic else case decodeSegmentHeader (take segmentHeaderSize (seg_mmapData s)) of
     Inl e \<Rightarrow> Inl Panic | Inr meta \<Rightarrow> Inr (sh_Flags meta))"

end
