(* ===== verification/SegmentFrames.thy ===== *)
theory SegmentFrames
  imports Segment
begin

text \<open>
  The contents of a segment as a list of records. A frame is a record's checksum, length,
  payload and trailer at an offset; \<open>frames_at\<close> is a run of adjacent frames. The lemmas say
  how the copies of a write change the run, and how the header fields read back after each
  header update. The operations themselves are treated in \<open>SegmentCorrect\<close>.
\<close>

section \<open>Alignment\<close>

lemma alignUp_eq: "alignUp n = (n + 7) div 8 * 8"
proof -
  have mask: "(7 :: int) = mask 3" by (simp add: mask_eq_exp_minus_1)
  have "(int n + 7) AND NOT 7 = push_bit 3 (drop_bit 3 (int n + 7))"
    by (rule bit_eqI) (auto simp: mask bit_simps)
  also have "\<dots> = int ((n + 7) div 8 * 8)"
    by (simp add: push_bit_eq_mult drop_bit_eq_div zdiv_int)
  finally show ?thesis by (simp add: alignUp_def)
qed

lemma alignUp_ge: "n \<le> alignUp n"
  and alignUp_lt: "alignUp n < n + 8"
  and alignUp_dvd [simp]: "8 dvd alignUp n"
  and alignUp_aligned [simp]: "8 dvd n \<Longrightarrow> alignUp n = n"
  unfolding alignUp_eq by (presburger | simp)+

lemma entrySizeOf_ge: "16 + length d \<le> entrySizeOf d"
  and entrySizeOf_pos [simp]: "0 < entrySizeOf d"
  and entrySizeOf_dvd [simp]: "8 dvd entrySizeOf d"
  using alignUp_ge [of "16 + length d"] by (auto simp: entrySizeOf_def)

section \<open>Frames\<close>

definition frame_at :: "bytes \<Rightarrow> nat \<Rightarrow> bytes \<Rightarrow> bool" where
  "frame_at m off d \<longleftrightarrow> off + entrySizeOf d \<le> length m
     \<and> bslice off (off + 4) m = LE_PutUint32 (crc32Checksum (LE_PutUint32 (word_of_nat (length d))) d)
     \<and> bslice (off + 4) (off + 8) m = LE_PutUint32 (word_of_nat (length d))
     \<and> bslice (off + 8) (off + 8 + length d) m = d
     \<and> bslice (off + 8 + length d) (off + 8 + length d + 8) m = trailerMarker"

primrec frames_at :: "bytes \<Rightarrow> nat \<Rightarrow> bytes list \<Rightarrow> nat \<Rightarrow> bool" where
  "frames_at m off [] e \<longleftrightarrow> e = off"
| "frames_at m off (d # ds) e \<longleftrightarrow> frame_at m off d \<and> frames_at m (off + entrySizeOf d) ds e"

definition run_size :: "bytes list \<Rightarrow> nat" where
  "run_size ds = sum_list (map entrySizeOf ds)"

lemma run_size_simps [simp]:
  "run_size [] = 0" "run_size (d # ds) = entrySizeOf d + run_size ds"
  "run_size (ds @ es) = run_size ds + run_size es" "8 dvd run_size ds"
  by (induction ds) (simp_all add: run_size_def)

lemma frames_at_end: "frames_at m off ds e \<Longrightarrow> e = off + run_size ds"
proof (induction ds arbitrary: off)
  case (Cons d ds)
  then have "e = (off + entrySizeOf d) + run_size ds" by simp
  then show ?case by simp
qed simp

lemma frames_at_append:
  "frames_at m off (ds @ es) e \<longleftrightarrow>
     frames_at m off ds (off + run_size ds) \<and> frames_at m (off + run_size ds) es e"
  by (induction ds arbitrary: off) (auto simp: add.assoc)

lemma frame_at_agree:
  "frame_at m off d \<Longrightarrow> agree a b m m' \<Longrightarrow> a \<le> off \<Longrightarrow> off + entrySizeOf d \<le> b \<Longrightarrow> frame_at m' off d"
  using entrySizeOf_ge [of d]
  by (simp add: frame_at_def agree_bslice [of a b m m', symmetric]) (simp add: agree_def)

lemma frames_at_agree:
  "frames_at m off ds e \<Longrightarrow> agree a b m m' \<Longrightarrow> a \<le> off \<Longrightarrow> e \<le> b \<Longrightarrow> frames_at m' off ds e"
proof (induction ds arbitrary: off)
  case (Cons d ds)
  then have "off + entrySizeOf d \<le> b"
    using frames_at_end [of m "off + entrySizeOf d" ds e] by simp
  with Cons show ?case by (auto intro: frame_at_agree)
qed simp

lemma length_trailerMarker [simp]: "length trailerMarker = 8"
  by (simp add: trailerMarker_def)

text \<open>The bytes one record occupies; the four copies of \<open>Write\<close> amount to one copy of them.\<close>

definition record_frame :: "bytes \<Rightarrow> bytes" where
  "record_frame d =
    (let lenField = LE_PutUint32 (word_of_nat (length d)); raw = 8 + length d + 8
     in (LE_PutUint32 (crc32Checksum lenField d) @ lenField) @ d @ trailerMarker
        @ replicate (alignUp raw - raw) 0)"

lemma length_record_frame [simp]: "length (record_frame d) = entrySizeOf d"
  using alignUp_ge [of "16 + length d"] by (simp add: record_frame_def Let_def entrySizeOf_def)

lemma putRecord_blit:
  assumes "off + entrySizeOf d \<le> length m"
  shows "putRecord off d m = blit off (record_frame d) m"
proof -
  define h where "h = LE_PutUint32 (crc32Checksum (LE_PutUint32 (word_of_nat (length d))) d)
    @ LE_PutUint32 (word_of_nat (length d))"
  define z where "z = replicate (alignUp (8 + length d + 8) - (8 + length d + 8)) (0 :: byte)"
  have h: "length h = 8" by (simp add: h_def)
  have z: "length z + 16 + length d = entrySizeOf d"
    using alignUp_ge [of "16 + length d"] by (simp add: z_def entrySizeOf_def)
  have "putRecord off d m =
    blit (off + length ((h @ d) @ trailerMarker)) z (blit (off + length (h @ d)) trailerMarker
      (blit (off + length h) d (blit off h m)))"
    by (simp add: putRecord_def Let_def h_def z_def ac_simps)
  also have "blit (off + length h) d (blit off h m) = blit off (h @ d) m"
    by (rule blit_adjacent) (use assms h z in simp)
  also have "blit (off + length (h @ d)) trailerMarker (blit off (h @ d) m)
      = blit off ((h @ d) @ trailerMarker) m"
    by (rule blit_adjacent) (use assms h z in simp)
  also have "blit (off + length ((h @ d) @ trailerMarker)) z (blit off ((h @ d) @ trailerMarker) m)
      = blit off (((h @ d) @ trailerMarker) @ z) m"
    by (rule blit_adjacent) (use assms h z in simp)
  finally show ?thesis by (simp add: record_frame_def Let_def h_def z_def)
qed

lemma length_putRecord [simp]: "length (putRecord off d m) = length m"
  by (simp add: putRecord_def Let_def)

lemma frame_at_record_frame:
  assumes fits: "off + entrySizeOf d \<le> length m"
    and eq: "bslice off (off + entrySizeOf d) m = record_frame d"
  shows "frame_at m off d"
proof -
  let ?len = "LE_PutUint32 (word_of_nat (length d))"
  let ?crc = "LE_PutUint32 (crc32Checksum ?len d)"
  let ?z = "replicate (alignUp (8 + length d + 8) - (8 + length d + 8)) 0"
  have frame: "record_frame d = ?crc @ ?len @ d @ trailerMarker @ ?z"
    by (simp add: record_frame_def Let_def)
  have sub: "bslice (off + a) (off + b) m = bslice a b (record_frame d)" if "b \<le> entrySizeOf d" for a b
    using that by (simp add: eq [symmetric] min_def)
  have bound: "8 + length d + 8 \<le> entrySizeOf d" using entrySizeOf_ge [of d] by simp
  have 1: "bslice 0 4 (record_frame d) = ?crc"
    using bslice_mid [of 0 "[]" 4 ?crc] by (simp add: frame)
  have 2: "bslice 4 8 (record_frame d) = ?len"
    using bslice_mid [of 4 ?crc 8 ?len] by (simp add: frame)
  have 3: "bslice 8 (8 + length d) (record_frame d) = d"
    using bslice_mid [of 8 "?crc @ ?len" "8 + length d" d] by (simp add: frame)
  have 4: "bslice (8 + length d) (8 + length d + 8) (record_frame d) = trailerMarker"
    using bslice_mid [of "8 + length d" "?crc @ ?len @ d" "8 + length d + 8" trailerMarker]
    by (simp add: frame)
  show ?thesis
    using fits bound sub [of 4 0] sub [of 8 4] sub [of "8 + length d" 8]
      sub [of "8 + length d + 8" "8 + length d"] 1 2 3 4
    by (simp add: frame_at_def add.assoc)
qed

lemma frame_at_putRecord:
  "off + entrySizeOf d \<le> length m \<Longrightarrow> frame_at (putRecord off d m) off d"
  by (rule frame_at_record_frame) (simp_all add: putRecord_blit bslice_blit_same)

lemma agree_putRecord:
  assumes "off + entrySizeOf d \<le> length m" and "b \<le> off \<or> off + entrySizeOf d \<le> a"
  shows "agree a b m (putRecord off d m)"
  using assms by (auto simp: putRecord_blit)

lemma agree_putHeaderCRC: "60 \<le> a \<or> b \<le> 56 \<Longrightarrow> agree a b m (putHeaderCRC m)"
  by (auto simp: putHeaderCRC_def)

lemma agree_putMeta: "64 \<le> a \<Longrightarrow> agree a b m (putMeta now e n m)"
  unfolding putMeta_def Let_def
  by (intro agree_trans [OF _ agree_putHeaderCRC] agree_trans [OF _ agree_blit_before])
    (auto intro: agree_blit_before)

lemma length_putHeaderCRC [simp]: "length (putHeaderCRC m) = length m"
  by (simp add: putHeaderCRC_def)

lemma length_putMeta [simp]: "length (putMeta now e n m) = length m"
  by (simp add: putMeta_def Let_def)

lemma length_writeInitialMetadata [simp]: "length (writeInitialMetadata now m) = length m"
  by (simp add: writeInitialMetadata_def Let_def)

section \<open>The segment header\<close>

definition header_of :: "bytes \<Rightarrow> SegmentHeader" where
  "header_of m = \<lparr>sh_Magic = LE_Uint32 (bslice 0 4 m), sh_Version = LE_Uint32 (bslice 4 8 m),
     sh_CreatedAt = sint (LE_Uint64 (bslice 8 16 m)), sh_LastModifiedAt = sint (LE_Uint64 (bslice 16 24 m)),
     sh_WriteOffset = sint (LE_Uint64 (bslice 24 32 m)), sh_EntryCount = sint (LE_Uint64 (bslice 32 40 m)),
     sh_Flags = LE_Uint32 (bslice 40 44 m)\<rparr>"

definition header_valid :: "bytes \<Rightarrow> bool" where
  "header_valid m \<longleftrightarrow> 64 \<le> length m \<and> LE_Uint32 (bslice 56 60 m) = crc32c_Checksum (bslice 0 56 m)"

lemma decode_header: "header_valid m \<Longrightarrow> decodeSegmentHeader (take 64 m) = Inr (header_of m)"
  by (simp add: decodeSegmentHeader_def header_valid_def header_of_def)

lemma decode_header_iff:
  "decodeSegmentHeader (take 64 m) = Inr h \<longleftrightarrow> header_valid m \<and> h = header_of m"
  by (auto simp: decodeSegmentHeader_def header_valid_def header_of_def)

lemma header_valid_putHeaderCRC [simp]: "64 \<le> length m \<Longrightarrow> header_valid (putHeaderCRC m)"
  by (simp add: header_valid_def putHeaderCRC_def buf_simps le32.dec_enc)

lemma header_valid_agree: "header_valid m \<Longrightarrow> agree 0 64 m m' \<Longrightarrow> header_valid m'"
  by (simp add: header_valid_def agree_bslice [of 0 64 m m', symmetric]) (simp add: agree_def)

lemma header_of_agree: "agree 0 56 m m' \<Longrightarrow> header_of m' = header_of m"
  by (simp add: header_of_def agree_bslice [of 0 56 m m'])

lemma header_of_putHeaderCRC [simp]: "header_of (putHeaderCRC m) = header_of m"
  by (rule header_of_agree) (simp add: agree_putHeaderCRC)

lemma LE_Uint_blit [buf_simps]:
  "off + 4 \<le> length m \<Longrightarrow> b = off + 4 \<Longrightarrow> LE_Uint32 (bslice off b (blit off (LE_PutUint32 v) m)) = v"
  "off + 8 \<le> length m \<Longrightarrow> b = off + 8 \<Longrightarrow> LE_Uint64 (bslice off b (blit off (LE_PutUint64 w) m)) = w"
  by (simp_all add: bslice_blit_same le32.dec_enc le64.dec_enc)

lemma header_of_putMeta:
  assumes "64 \<le> length m"
  shows "header_of (putMeta now e n m) = (header_of m)
    \<lparr>sh_LastModifiedAt := sint now,
     sh_WriteOffset := sint (LE_Uint64 (LE_PutUint32 (word_of_nat e) @ bslice 28 32 m)),
     sh_EntryCount := sint (LE_Uint64 (bslice 32 40 m) + word_of_nat n)\<rparr>"
proof -
  have wo: "bslice 24 32 (blit 24 (LE_PutUint32 (word_of_nat e)) m) = LE_PutUint32 (word_of_nat e) @ bslice 28 32 m"
    using assms bslice_append [of 24 28 32 "blit 24 (LE_PutUint32 (word_of_nat e)) m"]
    by (simp add: buf_simps)
  with assms show ?thesis
    by (simp add: putMeta_def putHeaderCRC_def Let_def header_of_def buf_simps)
qed

end
