(* ===== verification/SegmentCorrect.thy ===== *)
theory SegmentCorrect
  imports SegmentFrames
begin

text \<open>
  What a segment promises: \<open>seg_inv s rs\<close> says that the segment's mapping holds exactly the
  records \<open>rs\<close> and a valid header. \<open>Write\<close> and \<open>WriteBatch\<close> extend the list, \<open>SealSegment\<close> keeps
  it, \<open>Read\<close> returns its elements, and reopening the file after a crash recovers it.
\<close>

section \<open>Invariant\<close>

definition seg_inv :: "Segment \<Rightarrow> bytes list \<Rightarrow> bool" where
  "seg_inv s rs \<longleftrightarrow> length (seg_mmapData s) = seg_mmapSize s \<and> seg_mmapSize s \<le> maxSegmentSize
     \<and> header_valid (seg_mmapData s)
     \<and> IsSealed (sh_Flags (header_of (seg_mmapData s))) = seg_isSealed s
     \<and> frames_at (seg_mmapData s) 64 rs (seg_writeOffset s) \<and> seg_writeOffset s \<le> seg_mmapSize s
     \<and> (seg_isSealed s \<longrightarrow> sh_WriteOffset (header_of (seg_mmapData s)) = int (seg_writeOffset s))"

definition writable :: "Segment \<Rightarrow> bool" where
  "writable s \<longleftrightarrow> \<not> seg_closed s \<and> seg_state s = StateOpen \<and> \<not> seg_unmapped s \<and> \<not> seg_isSealed s"

lemma seg_inv_offset: "seg_inv s rs \<Longrightarrow> seg_writeOffset s = 64 + run_size rs"
  by (auto simp: seg_inv_def dest: frames_at_end)

lemma seg_inv_aligned: "seg_inv s rs \<Longrightarrow> 8 dvd seg_writeOffset s"
  by (simp add: seg_inv_offset)

lemma seg_inv_flags:
  "seg_inv s rs \<Longrightarrow> IsSealed (LE_Uint32 (bslice 40 44 (seg_mmapData s))) = seg_isSealed s"
  by (simp add: seg_inv_def header_of_def)

lemma seg_inv_fits:
  assumes "seg_inv s (xs @ d # ys)" shows "length d + 80 \<le> maxSegmentSize"
  using assms entrySizeOf_ge [of d] seg_inv_offset [OF assms] by (simp add: seg_inv_def)

section \<open>Write\<close>

definition appended :: "ioenv \<Rightarrow> bytes \<Rightarrow> Segment \<Rightarrow> Segment" where
  "appended io d s = (let e = seg_writeOffset s + entrySizeOf d in
     s\<lparr>seg_mmapData := putMeta (io_now io) e 1 (putRecord (seg_writeOffset s) d (seg_mmapData s)),
       seg_writeOffset := e\<rparr>)"

definition msync_fails :: "ioenv \<Rightarrow> Segment \<Rightarrow> bool" where
  "msync_fails io s \<longleftrightarrow> seg_syncOption s = MsyncOnWrite \<and> \<not> io_msync_ok io"

lemma seg_Write_ok:
  assumes "seg_inv s rs" "writable s" "seg_writeOffset s + entrySizeOf d \<le> seg_mmapSize s"
  shows "seg_Write io d s = (appended io d s,
    if msync_fails io s then Inl (ErrMsg ''mmap flush error after write'')
    else Inr \<lparr>SegmentID = seg_id s, Offset = int (seg_writeOffset s)\<rparr>)"
  using assms seg_inv_flags [OF assms(1)]
  by (simp add: seg_Write_def writable_def appended_def msync_fails_def Let_def)

lemma frames_at_snoc_putRecord:
  assumes "frames_at m 64 rs off" "off + entrySizeOf d \<le> length m"
  shows "frames_at (putRecord off d m) 64 (rs @ [d]) (off + entrySizeOf d)"
proof -
  have off: "off = 64 + run_size rs" using assms(1) by (rule frames_at_end)
  have "frames_at (putRecord off d m) 64 rs off"
    using assms(1) by (rule frames_at_agree [where a = 64 and b = off]) (auto intro: agree_putRecord assms(2))
  with assms(2) show ?thesis by (simp add: frames_at_append frame_at_putRecord off)
qed

lemma seg_inv_appended:
  assumes inv: "seg_inv s rs" and fits: "seg_writeOffset s + entrySizeOf d \<le> seg_mmapSize s"
    and unsealed: "\<not> seg_isSealed s"
  shows "seg_inv (appended io d s) (rs @ [d])"
proof -
  let ?m = "seg_mmapData s" and ?off = "seg_writeOffset s"
  let ?m1 = "putRecord ?off d ?m"
  let ?m2 = "putMeta (io_now io) (?off + entrySizeOf d) 1 ?m1"
  have len: "64 \<le> length ?m" and fits': "?off + entrySizeOf d \<le> length ?m"
    using inv fits by (simp_all add: seg_inv_def header_valid_def)
  have off: "64 \<le> ?off" using seg_inv_offset [OF inv] by simp
  have "frames_at ?m1 64 (rs @ [d]) (?off + entrySizeOf d)"
    using inv fits' by (intro frames_at_snoc_putRecord) (simp_all add: seg_inv_def)
  then have frames: "frames_at ?m2 64 (rs @ [d]) (?off + entrySizeOf d)"
    by (rule frames_at_agree) (auto intro: agree_putMeta)
  have "agree 0 56 ?m ?m1" using off fits' by (intro agree_putRecord) auto
  then have "header_of ?m1 = header_of ?m" by (rule header_of_agree)
  then have "sh_Flags (header_of ?m2) = sh_Flags (header_of ?m)"
    using len by (simp add: header_of_putMeta)
  moreover have "header_valid ?m2" using len by (simp add: putMeta_def Let_def)
  ultimately show ?thesis
    using inv frames fits unsealed by (simp add: seg_inv_def appended_def Let_def)
qed

lemma appended_fields [simp]:
  "seg_writeOffset (appended io d s) = seg_writeOffset s + entrySizeOf d"
  "seg_mmapSize (appended io d s) = seg_mmapSize s"
  "seg_id (appended io d s) = seg_id s"
  "seg_closed (appended io d s) = seg_closed s"
  "seg_isSealed (appended io d s) = seg_isSealed s"
  "seg_inMemorySealed (appended io d s) = seg_inMemorySealed s"
  "seg_state (appended io d s) = seg_state s" "seg_unmapped (appended io d s) = seg_unmapped s"
  "seg_syncOption (appended io d s) = seg_syncOption s"
  "writable (appended io d s) = writable s"
  "msync_fails io' (appended io d s) = msync_fails io' s"
  by (simp_all add: appended_def Let_def writable_def msync_fails_def)

text \<open>A refused write leaves the segment as it was.\<close>

lemma seg_Write_refused:
  assumes "seg_closed s \<or> seg_state s \<noteq> StateOpen \<or> seg_isSealed s
      \<or> seg_mmapSize s < seg_writeOffset s + entrySizeOf d" "seg_inv s rs"
  shows "fst (seg_Write io d s) = s \<and> (\<exists>e. snd (seg_Write io d s) = Inl e)"
  using assms seg_inv_flags [OF assms(2)] by (auto simp: seg_Write_def writable_def Let_def)

section \<open>Read\<close>

lemma LE_Uint64_trailerMarker [simp]: "LE_Uint64 trailerMarker = trailerWord"
  by (simp add: LE_Uint64_def trailerMarker_def trailerWord_def)

lemma bslice_header:
  "off + 8 \<le> length m \<Longrightarrow> bslice 4 8 (bslice off (off + 8) m) = bslice (off + 4) (off + 8) m"
  "off + 8 \<le> length m \<Longrightarrow> bslice 0 4 (bslice off (off + 8) m) = bslice off (off + 4) m"
  by simp_all

lemma unat_length [simp]:
  "length d < 4294967296 \<Longrightarrow> unat (word_of_nat (length d) :: u32) = length d"
  by (simp add: unat_of_nat)

lemma seg_Read_frame:
  assumes "frame_at (seg_mmapData s) off d" "off + entrySizeOf d \<le> seg_writeOffset s"
    and "seg_writeOffset s \<le> seg_mmapSize s" "seg_mmapSize s \<le> maxSegmentSize" "64 \<le> off"
    and "\<not> seg_closed s" "\<not> seg_unmapped s"
  shows "seg_Read off s = Inr (d, \<lparr>SegmentID = seg_id s, Offset = int (off + entrySizeOf d)\<rparr>)"
proof -
  let ?m = "seg_mmapData s"
  have e: "16 + length d \<le> entrySizeOf d" by (rule entrySizeOf_ge)
  have ld: "length d < 4294967296" using assms e by simp
  have es: "alignUp (16 + length d) = entrySizeOf d" by (simp add: entrySizeOf_def)
  define k where "k = seg_writeOffset s - off - 8"
  have k: "int (seg_writeOffset s) - int off - 8 = int k" "length d \<le> k" "k < 4294967296"
    using assms e by (simp_all add: k_def)
  then have le: "\<not> word_of_int (int (seg_writeOffset s) - int off - 8) < (word_of_nat (length d) :: u32)"
    by (simp only: k(1)) (simp add: word_less_nat_alt unat_of_nat)
  have "off + entrySizeOf d \<le> length ?m" using assms(1) by (simp add: frame_at_def)
  then show ?thesis
    using assms e ld le unfolding seg_Read_def Let_def
    by (simp add: frame_at_def bslice_header le32.dec_enc es add.assoc)
qed

lemma seg_Read_record:
  assumes "seg_inv s (xs @ d # ys)" "\<not> seg_closed s" "\<not> seg_unmapped s"
  shows "seg_Read (64 + run_size xs) s =
    Inr (d, \<lparr>SegmentID = seg_id s, Offset = int (64 + run_size xs + entrySizeOf d)\<rparr>)"
  using assms seg_inv_offset [OF assms(1)]
  by (intro seg_Read_frame) (auto simp: seg_inv_def frames_at_append)

section \<open>Batches\<close>

primrec positions :: "u32 \<Rightarrow> nat \<Rightarrow> bytes list \<Rightarrow> RecordPosition list" where
  "positions sid off [] = []"
| "positions sid off (d # ds) =
    \<lparr>SegmentID = sid, Offset = int off\<rparr> # positions sid (off + entrySizeOf d) ds"

lemma length_positions [simp]: "length (positions sid off ds) = length ds"
  by (induction ds arbitrary: off) auto

lemma fst_putRecords [simp]: "fst (putRecords off ds m) = off + run_size ds"
  by (induction ds arbitrary: off m) (auto simp: add.assoc)

lemma length_putRecords [simp]: "length (snd (putRecords off ds m)) = length m"
  by (induction ds arbitrary: off m) auto

lemma agree_putRecords:
  "off + run_size ds \<le> length m \<Longrightarrow> agree 0 off m (snd (putRecords off ds m))"
proof (induction ds arbitrary: off m)
  case (Cons d ds)
  have "agree 0 off m (putRecord off d m)"
    using Cons.prems by (intro agree_putRecord) auto
  moreover have "agree 0 off (putRecord off d m) (snd (putRecords (off + entrySizeOf d) ds (putRecord off d m)))"
    using Cons.prems by (intro agree_mono [OF Cons.IH]) (auto simp: add.assoc)
  ultimately show ?case by (auto intro: agree_trans)
qed simp

lemma frames_at_putRecords:
  "frames_at m 64 rs off \<Longrightarrow> off + run_size ds \<le> length m \<Longrightarrow>
    frames_at (snd (putRecords off ds m)) 64 (rs @ ds) (off + run_size ds)"
proof (induction ds arbitrary: off m rs)
  case (Cons d ds)
  have "frames_at (putRecord off d m) 64 (rs @ [d]) (off + entrySizeOf d)"
    using Cons.prems by (intro frames_at_snoc_putRecord) auto
  from Cons.IH [OF this] Cons.prems show ?case by (simp add: add.assoc)
qed simp

definition batched :: "ioenv \<Rightarrow> bytes list \<Rightarrow> Segment \<Rightarrow> Segment" where
  "batched io ds s = (let e = seg_writeOffset s + run_size ds in
     s\<lparr>seg_mmapData := putMeta (io_now io) e (length ds) (snd (putRecords (seg_writeOffset s) ds (seg_mmapData s))),
       seg_writeOffset := e\<rparr>)"

lemma seg_inv_batched:
  assumes inv: "seg_inv s rs" and fits: "seg_writeOffset s + run_size ds \<le> seg_mmapSize s"
    and unsealed: "\<not> seg_isSealed s"
  shows "seg_inv (batched io ds s) (rs @ ds)"
proof -
  let ?m = "seg_mmapData s" and ?off = "seg_writeOffset s"
  let ?m1 = "snd (putRecords ?off ds ?m)"
  let ?m2 = "putMeta (io_now io) (?off + run_size ds) (length ds) ?m1"
  have len: "64 \<le> length ?m" and fits': "?off + run_size ds \<le> length ?m"
    using inv fits by (simp_all add: seg_inv_def header_valid_def)
  have "frames_at ?m1 64 (rs @ ds) (?off + run_size ds)"
    using inv fits' by (intro frames_at_putRecords) (simp_all add: seg_inv_def)
  then have frames: "frames_at ?m2 64 (rs @ ds) (?off + run_size ds)"
    by (rule frames_at_agree) (auto intro: agree_putMeta)
  have "agree 0 56 ?m ?m1"
    by (rule agree_mono [OF agree_putRecords [OF fits']]) (use seg_inv_offset [OF inv] in auto)
  then have "header_of ?m1 = header_of ?m" by (rule header_of_agree)
  then have "sh_Flags (header_of ?m2) = sh_Flags (header_of ?m)"
    using len by (simp add: header_of_putMeta)
  moreover have "header_valid ?m2" using len by (simp add: putMeta_def Let_def)
  ultimately show ?thesis
    using inv frames fits unsealed by (simp add: seg_inv_def batched_def Let_def)
qed

text \<open>The number of records of a batch that go into the segment.\<close>

fun fit_count :: "nat \<Rightarrow> nat \<Rightarrow> bytes list \<Rightarrow> nat" where
  "fit_count sz off [] = 0"
| "fit_count sz off (d # ds) =
    (if off + entrySizeOf d > sz then 0 else Suc (fit_count sz (off + entrySizeOf d) ds))"

lemma fit_count_le: "fit_count sz off ds \<le> length ds"
  by (induction sz off ds rule: fit_count.induct) auto

lemma fit_count_fits: "off \<le> sz \<Longrightarrow> off + run_size (take (fit_count sz off ds) ds) \<le> sz"
  by (induction sz off ds rule: fit_count.induct) (auto simp: add.assoc)

lemma fit_count_maximal:
  "fit_count sz off ds < length ds \<Longrightarrow> sz < off + run_size (take (Suc (fit_count sz off ds)) ds)"
  by (induction ds arbitrary: off) (auto simp flip: add.assoc)

lemma batchFit_fit_count:
  "\<forall>d \<in> set ds. 64 + entrySizeOf d \<le> sz \<Longrightarrow>
    batchFit sid sz off ds = Inr (positions sid off (take (fit_count sz off ds) ds))"
  by (induction ds arbitrary: off) auto

lemma seg_WriteBatch_ok:
  assumes "seg_inv s rs" "writable s" "ds \<noteq> []"
    and "\<forall>d \<in> set ds. 64 + entrySizeOf d \<le> seg_mmapSize s"
  defines "n \<equiv> fit_count (seg_mmapSize s) (seg_writeOffset s) ds"
  shows "seg_WriteBatch io ds s =
    (if n = 0 then (s, [], 0, Some ErrSegmentFull)
     else (batched io (take n ds) s, positions (seg_id s) (seg_writeOffset s) (take n ds), n,
       if msync_fails io s then Some (ErrMsg ''mmap flush error after batch write'')
       else if n < length ds then Some ErrSegmentFull else None))"
  using assms(1-4) seg_inv_flags [OF assms(1)] fit_count_le [of "seg_mmapSize s" "seg_writeOffset s" ds]
  by (auto simp: seg_WriteBatch_def writable_def batchFit_fit_count n_def [symmetric] Let_def
      batched_def msync_fails_def case_prod_beta)

lemma fit_count_all: "off + run_size ds \<le> sz \<Longrightarrow> fit_count sz off ds = length ds"
  by (induction sz off ds rule: fit_count.induct) (auto simp: add.assoc)

subsection \<open>A batch is the sequence of its writes\<close>

lemma putHeaderCRC_blit_CRC:
  "length c = 4 \<Longrightarrow> putHeaderCRC (blit 56 c m) = putHeaderCRC m"
  by (simp add: putHeaderCRC_def buf_simps)

lemma blit_putHeaderCRC:
  "a + length x \<le> 56 \<Longrightarrow> putHeaderCRC (blit a x (putHeaderCRC m)) = putHeaderCRC (blit a x m)"
  by (simp add: putHeaderCRC_def [of m] blit_commute [of a] putHeaderCRC_blit_CRC)

lemma putMeta_putMeta:
  assumes "64 \<le> length m"
  shows "putMeta now e' n' (putMeta now e n m) = putMeta now e' (n + n') m"
proof -
  define c where "c = LE_Uint64 (bslice 32 40 m)"
  have meta: "putMeta now e n m = putHeaderCRC (blit 16 (LE_PutUint64 now)
      (blit 32 (LE_PutUint64 (c + word_of_nat n)) (blit 24 (LE_PutUint32 (word_of_nat e)) m)))" for e n
    by (simp add: putMeta_def Let_def buf_simps c_def)
  let ?x = "blit 16 (LE_PutUint64 now)
      (blit 32 (LE_PutUint64 (c + word_of_nat n)) (blit 24 (LE_PutUint32 (word_of_nat e)) m))"
  have cnt: "LE_Uint64 (bslice 32 40 (putHeaderCRC ?x)) = c + word_of_nat n"
    using assms by (simp add: putHeaderCRC_def buf_simps)
  have "putMeta now e' n' (putHeaderCRC ?x) = putHeaderCRC (blit 16 (LE_PutUint64 now)
      (blit 32 (LE_PutUint64 (c + word_of_nat n + word_of_nat n'))
        (blit 24 (LE_PutUint32 (word_of_nat e')) (putHeaderCRC ?x))))"
    by (simp add: putMeta_def Let_def buf_simps cnt)
  also have "\<dots> = putHeaderCRC (blit 16 (LE_PutUint64 now)
      (blit 32 (LE_PutUint64 (c + word_of_nat (n + n'))) (blit 24 (LE_PutUint32 (word_of_nat e')) ?x)))"
    by (simp add: putHeaderCRC_def [of ?x] blit_commute [of 24 _ 56] blit_commute [of 32 _ 56]
        blit_commute [of 16 _ 56] putHeaderCRC_blit_CRC add.assoc)
  also have "\<dots> = putMeta now e' (n + n') m"
    by (simp add: meta blit_commute [of 24 _ 16] blit_commute [of 24 _ 32] blit_commute [of 32 _ 16])
  finally show ?thesis by (simp add: meta)
qed

lemma putRecord_putMeta:
  assumes "64 \<le> off" "off + entrySizeOf d \<le> length m"
  shows "putRecord off d (putMeta now e n m) = putMeta now e n (putRecord off d m)"
proof -
  have "blit off (record_frame d) (putHeaderCRC x) = putHeaderCRC (blit off (record_frame d) x)"
    if "length x = length m" for x
    using assms(1) that by (simp add: putHeaderCRC_def buf_simps blit_commute [of off])
  with assms show ?thesis
    by (simp add: putRecord_blit putMeta_def Let_def buf_simps blit_commute [of off])
qed

lemma putRecords_putMeta:
  "64 \<le> off \<Longrightarrow> off + run_size ds \<le> length m \<Longrightarrow>
    putRecords off ds (putMeta now e n m) =
      (off + run_size ds, putMeta now e n (snd (putRecords off ds m)))"
  by (induction ds arbitrary: off m) (simp_all add: putRecord_putMeta add.assoc)

lemma batched_appended:
  assumes "seg_inv s rs" "seg_writeOffset s + run_size (d # ds) \<le> seg_mmapSize s"
  shows "batched io ds (appended io d s) = batched io (d # ds) s"
proof -
  have "64 \<le> seg_writeOffset s" using seg_inv_offset [OF assms(1)] by simp
  moreover have "64 \<le> length (seg_mmapData s)" "seg_writeOffset s + run_size (d # ds) \<le> length (seg_mmapData s)"
    using assms by (simp_all add: seg_inv_def header_valid_def)
  ultimately show ?thesis
    by (simp add: batched_def appended_def Let_def putRecords_putMeta putMeta_putMeta add.assoc)
qed

definition seq_Write :: "ioenv \<Rightarrow> bytes list \<Rightarrow> Segment \<Rightarrow> Segment" where
  "seq_Write io ds s = fold (\<lambda>d s. fst (seg_Write io d s)) ds s"

lemma seq_Write_batched:
  assumes "seg_inv s rs" "writable s" "seg_writeOffset s + run_size ds \<le> seg_mmapSize s" "ds \<noteq> []"
  shows "seq_Write io ds s = batched io ds s"
  using assms
proof (induction ds arbitrary: s rs)
  case (Cons d ds)
  have step: "fst (seg_Write io d s) = appended io d s"
    using Cons.prems by (simp add: seg_Write_ok)
  have inv: "seg_inv (appended io d s) (rs @ [d])"
    using Cons.prems by (intro seg_inv_appended) (auto simp: writable_def)
  show ?case
  proof (cases ds)
    case Nil
    then show ?thesis
      by (simp add: seq_Write_def step batched_def appended_def Let_def)
  next
    case (Cons d' ds')
    with Cons.IH [OF inv] Cons.prems show ?thesis
      by (simp add: seq_Write_def step batched_appended add.assoc)
  qed
qed simp

end
