(* ===== verification/SegmentRecovery.thy ===== *)
theory SegmentRecovery
  imports SegmentCorrect
begin

text \<open>
  Sealing a segment and opening an existing file. The scan stops at the first offset that holds
  no acceptable frame, so on any file it returns the end of a run of intact records; a file
  written by this code is reopened with exactly the records written to it. Two cases the scan
  does not handle are stated as theorems in the root theory: a length field within 16 of
  \<open>2^32\<close>, which makes the scan panic, and a record whose checksum is zero, at which it stops.
\<close>

section \<open>Sealing\<close>

lemma IsSealed_bit: "IsSealed f \<longleftrightarrow> bit f 1"
  using and_exp_eq_0_iff_not_bit [of f 1] by (simp add: IsSealed_def FlagSealed_def)

lemma IsSealed_FlagActive [simp]: "\<not> IsSealed FlagActive"
  by (simp add: IsSealed_def FlagActive_def FlagSealed_def)

lemma IsSealed_seal [simp]: "IsSealed ((f AND NOT FlagActive) OR FlagSealed)"
  by (simp add: IsSealed_bit FlagSealed_def bit_simps)

lemma IsActive_seal [simp]: "\<not> IsActive ((f AND NOT FlagActive) OR FlagSealed)"
  by (simp add: IsActive_def FlagSealed_def FlagActive_def and.assoc bit.conj_disj_distrib2)

definition sealed :: "ioenv \<Rightarrow> Segment \<Rightarrow> Segment" where
  "sealed io s = fst (SealSegment io s)"

lemma SealSegment_ok: "\<not> seg_closed s \<Longrightarrow> \<not> seg_unmapped s \<Longrightarrow> SealSegment io s = (sealed io s, None)"
  by (simp add: sealed_def SealSegment_def Let_def)

lemma sealed_fields [simp]:
  "seg_id (sealed io s) = seg_id s" "seg_mmapSize (sealed io s) = seg_mmapSize s"
  "seg_writeOffset (sealed io s) = seg_writeOffset s" "seg_closed (sealed io s) = seg_closed s"
  "seg_state (sealed io s) = seg_state s"
  "seg_inMemorySealed (sealed io s) = seg_inMemorySealed s"
  "seg_syncOption (sealed io s) = seg_syncOption s"
  "seg_path (sealed io s) = seg_path s" "seg_unmapped (sealed io s) = seg_unmapped s"
  "seg_refCount (sealed io s) = seg_refCount s" "seg_activeReaders (sealed io s) = seg_activeReaders s"
  "seg_markedForDeletion (sealed io s) = seg_markedForDeletion s"
  by (simp_all add: sealed_def SealSegment_def Let_def)

lemma seg_inv_sealed:
  assumes inv: "seg_inv s rs" and "\<not> seg_closed s" "\<not> seg_unmapped s"
  shows "seg_inv (sealed io s) rs" "seg_isSealed (sealed io s)"
proof -
  let ?m = "seg_mmapData s" and ?m' = "seg_mmapData (sealed io s)"
  have len: "64 \<le> length ?m" using inv by (simp add: seg_inv_def header_valid_def)
  define f where "f = (LE_Uint32 (bslice 40 44 ?m) AND NOT FlagActive) OR FlagSealed"
  have m': "?m' = putHeaderCRC (blit 40 (LE_PutUint32 f)
      (blit 24 (LE_PutUint64 (word_of_nat (seg_writeOffset s))) (blit 16 (LE_PutUint64 (io_now io)) ?m)))"
    using assms(2,3) by (simp add: sealed_def SealSegment_def Let_def buf_simps f_def)
  have agree: "agree 64 b ?m ?m'" for b
    unfolding m' by (intro agree_trans [OF _ agree_putHeaderCRC] agree_trans [OF _ agree_blit_before]) auto
  have frames: "frames_at ?m' 64 rs (seg_writeOffset s)"
    by (rule frames_at_agree [OF _ agree]) (use inv in \<open>auto simp: seg_inv_def\<close>)
  have "is_int64 (int (seg_writeOffset s))" using inv by (simp add: seg_inv_def is_int64_def)
  then have "sh_WriteOffset (header_of ?m') = int (seg_writeOffset s)"
    using len sint_word_of_int_int64 [of "int (seg_writeOffset s)"]
    by (simp add: m' header_of_def putHeaderCRC_def buf_simps)
  moreover have "IsSealed (sh_Flags (header_of ?m'))"
    using len by (simp add: m' header_of_def putHeaderCRC_def buf_simps f_def)
  moreover have "header_valid ?m'" "length ?m' = length ?m" using len by (simp_all add: m')
  moreover show "seg_isSealed (sealed io s)"
    using assms(2,3) by (simp add: sealed_def SealSegment_def Let_def)
  ultimately show "seg_inv (sealed io s) rs"
    using inv frames by (simp add: seg_inv_def)
qed

section \<open>The recovery scan\<close>

definition sum_of :: "bytes \<Rightarrow> u32" where
  "sum_of d = crc32Checksum (LE_PutUint32 (word_of_nat (length d))) d"

text \<open>A frame the scan accepts.\<close>

definition good_frame :: "bytes \<Rightarrow> nat \<Rightarrow> bytes \<Rightarrow> bool" where
  "good_frame m off d \<longleftrightarrow> frame_at m off d \<and> sum_of d \<noteq> 0"

definition len_field :: "bytes \<Rightarrow> nat \<Rightarrow> u32" where
  "len_field m off = LE_Uint32 (bslice (off + 4) (off + 8) m)"

lemma unat_entry:
  "unat len < 4294967280 \<Longrightarrow> unat (8 + len + 8 :: u32) = 16 + unat len"
  "4294967280 \<le> unat len \<Longrightarrow> unat (8 + len + 8 :: u32) = unat len - 4294967280"
  using unat_bounds(2) [of len] by (simp_all add: unat_word_ariths le_mod_geq)

lemma frame_at_len:
  assumes "frame_at m off d" "64 \<le> off" "length m \<le> maxSegmentSize"
  shows "len_field m off = word_of_nat (length d)" "length d < 4294967280"
    "unat (len_field m off) = length d"
  using assms entrySizeOf_ge [of d] by (simp_all add: frame_at_def len_field_def unat_of_nat)

lemma scan_good:
  assumes "good_frame m off d" "8 dvd off" "64 \<le> off" "length m = sz" "sz \<le> maxSegmentSize"
  shows "scanLoop (Suc f) sz m off = scanLoop f sz m (off + entrySizeOf d)"
proof -
  have fr: "frame_at m off d" and nz: "sum_of d \<noteq> 0" using assms by (simp_all add: good_frame_def)
  have len: "len_field m off = word_of_nat (length d)" "length d < 4294967280"
    using frame_at_len [OF fr] assms by simp_all
  have u: "unat (8 + word_of_nat (length d) + 8 :: u32) = 16 + length d"
    using len(2) by (subst unat_entry) (simp_all add: unat_of_nat)
  have es: "alignUp (16 + length d) = entrySizeOf d" by (simp add: entrySizeOf_def)
  have fits: "off + entrySizeOf d \<le> sz" using fr assms by (simp add: frame_at_def)
  show ?thesis
    using fr nz assms(2-5) len(2) fits entrySizeOf_ge [of d] u es
    by (simp add: frame_at_def sum_of_def bslice_header Let_def unat_of_nat)
qed

text \<open>Bytes that pass every check of the scan are a frame.\<close>

lemma checks_frame_at:
  assumes "unat (len_field m off) < 4294967280" "length m = sz"
    and "off + alignUp (16 + unat (len_field m off)) \<le> sz"
    and "LE_Uint32 (bslice off (off + 4) m) =
      crc32Checksum (bslice (off + 4) (off + 8) m) (bslice (off + 8) (off + 8 + unat (len_field m off)) m)"
    and "bslice (off + 8 + unat (len_field m off)) (off + 8 + unat (len_field m off) + 8) m = trailerMarker"
  shows "frame_at m off (bslice (off + 8) (off + 8 + unat (len_field m off)) m)"
    and "sum_of (bslice (off + 8) (off + 8 + unat (len_field m off)) m) = LE_Uint32 (bslice off (off + 4) m)"
proof -
  define n where "n = unat (len_field m off)"
  define d where "d = bslice (off + 8) (off + 8 + n) m"
  have bound: "off + (16 + n) \<le> sz" using assms(3) alignUp_ge [of "16 + n"] by (simp add: n_def)
  have len: "length d = n" using bound assms(2) by (simp add: d_def)
  have es: "entrySizeOf d = alignUp (16 + n)" by (simp add: entrySizeOf_def len)
  have lenw: "(word_of_nat (length d) :: u32) = len_field m off" by (simp add: len n_def)
  have lf: "LE_PutUint32 (word_of_nat (length d)) = bslice (off + 4) (off + 8) m"
    using bound assms(2) by (simp only: lenw) (simp add: len_field_def PutUint_Uint)
  have cf: "LE_PutUint32 (LE_Uint32 (bslice off (off + 4) m)) = bslice off (off + 4) m"
    using bound assms(2) by (simp add: PutUint_Uint)
  have dd: "bslice (off + 8) (off + (8 + n)) m = d" by (simp add: d_def add.assoc)
  show "sum_of (bslice (off + 8) (off + 8 + unat (len_field m off)) m) = LE_Uint32 (bslice off (off + 4) m)"
    using lf assms(4) by (simp add: sum_of_def d_def n_def)
  then show "frame_at m off (bslice (off + 8) (off + 8 + unat (len_field m off)) m)"
    using assms(2,3,5) lf cf es len dd unfolding frame_at_def n_def [symmetric] d_def [symmetric] sum_of_def
    by (simp add: add.assoc)
qed

lemma scan_no_good:
  assumes "\<nexists>d. good_frame m off d" "8 dvd off" "length m = sz"
    and "64 \<le> off" "sz \<le> maxSegmentSize"
  shows "scanLoop (Suc f) sz m off = Inr off \<or>
    4294967280 \<le> unat (len_field m off) \<and> off + 8 \<le> sz \<and> scanLoop (Suc f) sz m off = Inl Panic"
proof (cases "off + 8 \<le> sz \<and> off + alignUp (unat (8 + len_field m off + 8 :: u32)) \<le> sz")
  case False
  with assms show ?thesis by (auto simp: Let_def bslice_header len_field_def)
next
  case True
  let ?n = "unat (len_field m off)"
  show ?thesis
  proof (cases "?n < 4294967280")
    case True
    note fits = \<open>off + 8 \<le> sz \<and> _\<close>
    have fits': "off + alignUp (16 + ?n) \<le> sz" using fits True by (simp only: unat_entry)
    with alignUp_ge [of "16 + ?n"] have "off + (16 + ?n) \<le> sz" by simp
    then show ?thesis
      using fits fits' assms checks_frame_at [OF True assms(3) fits']
      by (auto simp: Let_def bslice_header good_frame_def add.assoc simp flip: len_field_def)
  next
    case big: False
    then have "sz < off + 8 + ?n + 8" using assms(4,5) by simp
    with True big assms show ?thesis
      by (simp add: Let_def bslice_header add.assoc flip: len_field_def)
  qed
qed

text \<open>The scan of any file: it returns the end of a run of good frames that no further good
  frame follows, or panics.\<close>

lemma scanLoop_sound:
  assumes "8 dvd off" "64 \<le> off" "length m = sz" "sz \<le> maxSegmentSize" "sz - off < f"
  shows "\<exists>ds e. frames_at m off ds e \<and> (\<forall>d \<in> set ds. sum_of d \<noteq> 0) \<and> (\<nexists>d. good_frame m e d)
    \<and> (off \<le> sz \<longrightarrow> e \<le> sz)
    \<and> (scanLoop f sz m off = Inr e \<or>
       4294967280 \<le> unat (len_field m e) \<and> e + 8 \<le> sz \<and> scanLoop f sz m off = Inl Panic)"
  using assms
proof (induction f arbitrary: off)
  case (Suc f)
  show ?case
  proof (cases "\<exists>d. good_frame m off d")
    case True
    then obtain d where d: "good_frame m off d" ..
    have step: "scanLoop (Suc f) sz m off = scanLoop f sz m (off + entrySizeOf d)"
      using d Suc.prems by (intro scan_good) auto
    have fits: "off + entrySizeOf d \<le> sz"
      using d Suc.prems by (simp add: good_frame_def frame_at_def)
    have "sz - (off + entrySizeOf d) < f"
      using Suc.prems(5) fits entrySizeOf_pos [of d] by linarith
    then obtain ds e where "frames_at m (off + entrySizeOf d) ds e" "\<forall>d \<in> set ds. sum_of d \<noteq> 0"
        "\<nexists>d. good_frame m e d" "e \<le> sz"
        "scanLoop f sz m (off + entrySizeOf d) = Inr e \<or> 4294967280 \<le> unat (len_field m e)
          \<and> e + 8 \<le> sz \<and> scanLoop f sz m (off + entrySizeOf d) = Inl Panic"
      using Suc.IH [of "off + entrySizeOf d"] Suc.prems fits by auto
    with d show ?thesis unfolding step
      by (intro exI [of _ "d # ds"] exI [of _ e]) (simp add: good_frame_def)
  next
    case False
    with scan_no_good [OF False Suc.prems(1,3,2,4), of f] show ?thesis
      by (intro exI [of _ "[]"] exI [of _ off]) auto
  qed
qed simp

lemma frame_at_unique:
  assumes "frame_at m off d" "frame_at m off d'" "64 \<le> off" "length m \<le> maxSegmentSize"
  shows "d = d'"
proof -
  have "length d = length d'"
    using frame_at_len(3) [OF assms(1)] frame_at_len(3) [OF assms(2)] assms(3,4) by simp
  then show ?thesis using assms(1,2) by (simp add: frame_at_def)
qed

lemma frames_at_unique:
  assumes "frames_at m off ds e" "frames_at m off ds' e'" "64 \<le> off" "length m \<le> maxSegmentSize"
    and "\<forall>d \<in> set ds. sum_of d \<noteq> 0" "\<forall>d \<in> set ds'. sum_of d \<noteq> 0"
    and "\<nexists>d. good_frame m e d" "\<nexists>d. good_frame m e' d"
  shows "ds = ds' \<and> e = e'"
  using assms
proof (induction ds arbitrary: off ds')
  case Nil
  then show ?case by (cases ds') (auto simp: good_frame_def)
next
  case (Cons d ds)
  then obtain d' ds'' where ds': "ds' = d' # ds''" by (cases ds') (auto simp: good_frame_def)
  have f: "frame_at m off d" "frame_at m off d'" using Cons.prems ds' by auto
  have "d = d'" using f Cons.prems(3,4) by (rule frame_at_unique)
  with Cons.IH [of "off + entrySizeOf d" ds''] Cons.prems ds' show ?case by simp
qed

text \<open>A file that holds the records \<open>rs\<close> and no good frame behind them is scanned to its end.\<close>

lemma scan_complete:
  assumes "frames_at m 64 rs e" "\<forall>d \<in> set rs. sum_of d \<noteq> 0" "\<nexists>d. good_frame m e d"
    and "length m = sz" "64 \<le> sz" "sz \<le> maxSegmentSize"
  shows "scanForLastOffset sz m = Inr e \<or> 4294967280 \<le> unat (len_field m e)
    \<and> e + 8 \<le> sz \<and> scanForLastOffset sz m = Inl Panic"
proof -
  obtain ds e' where ds: "frames_at m 64 ds e'" "\<forall>d \<in> set ds. sum_of d \<noteq> 0" "\<nexists>d. good_frame m e' d"
    and res: "scanForLastOffset sz m = Inr e' \<or> 4294967280 \<le> unat (len_field m e')
      \<and> e' + 8 \<le> sz \<and> scanForLastOffset sz m = Inl Panic"
  proof -
    have "sz - 64 < Suc sz" by simp
    with scanLoop_sound [of 64 m sz "Suc sz"] assms(4-6) that show thesis
      unfolding scanForLastOffset_def by auto
  qed
  have "rs = ds \<and> e = e'"
    using frames_at_unique [OF assms(1) ds(1)] assms ds by blast
  with res show ?thesis by simp
qed

lemma frames_at_bound: "frames_at m off ds e \<Longrightarrow> off \<le> length m \<Longrightarrow> e \<le> length m"
  by (induction ds arbitrary: off) (auto simp: frame_at_def)

text \<open>Whatever follows them, frames at the start of the record area are recovered first.\<close>

lemma scanLoop_frames:
  assumes "frames_at m off rs e" "\<forall>d \<in> set rs. sum_of d \<noteq> 0" "8 dvd off" "64 \<le> off"
    and "length m = sz" "sz \<le> maxSegmentSize"
  shows "scanLoop (length rs + f) sz m off = scanLoop f sz m e"
  using assms
proof (induction rs arbitrary: off)
  case (Cons d rs)
  then have "scanLoop (Suc (length rs + f)) sz m off = scanLoop (length rs + f) sz m (off + entrySizeOf d)"
    by (intro scan_good) (auto simp: good_frame_def)
  with Cons show ?case by simp
qed simp

lemma length_run_size: "length rs \<le> run_size rs"
proof (induction rs)
  case (Cons d rs)
  moreover have "0 < entrySizeOf d" by (rule entrySizeOf_pos)
  ultimately show ?case unfolding run_size_simps list.size by linarith
qed simp

lemma scan_prefix:
  assumes "frames_at m 64 rs e" "\<forall>d \<in> set rs. sum_of d \<noteq> 0"
    and "length m = sz" "64 \<le> sz" "sz \<le> maxSegmentSize"
  shows "\<exists>ds e'. frames_at m 64 (rs @ ds) e' \<and> e' \<le> sz \<and> (\<forall>d \<in> set ds. sum_of d \<noteq> 0)
    \<and> (\<nexists>d. good_frame m e' d)
    \<and> (scanForLastOffset sz m = Inr e' \<or>
       4294967280 \<le> unat (len_field m e') \<and> e' + 8 \<le> sz \<and> scanForLastOffset sz m = Inl Panic)"
proof -
  have e: "e = 64 + run_size rs" using assms(1) by (rule frames_at_end)
  have le: "e \<le> sz" using frames_at_bound [OF assms(1)] assms(3,4) by simp
  obtain f where f: "Suc sz = length rs + f" "sz - e < f"
  proof
    show "Suc sz = length rs + (Suc sz - length rs)" "sz - e < Suc sz - length rs"
      using length_run_size [of rs] e le by auto
  qed
  have "scanForLastOffset sz m = scanLoop f sz m e"
    unfolding scanForLastOffset_def f(1) using assms by (intro scanLoop_frames) auto
  moreover obtain ds e' where "frames_at m e ds e'" "\<forall>d \<in> set ds. sum_of d \<noteq> 0"
      "\<nexists>d. good_frame m e' d" "e' \<le> sz"
      "scanLoop f sz m e = Inr e' \<or>
       4294967280 \<le> unat (len_field m e') \<and> e' + 8 \<le> sz \<and> scanLoop f sz m e = Inl Panic"
    using scanLoop_sound [of e m sz f] f(2) e le assms(3,5) by auto
  moreover have "frames_at m 64 (rs @ ds) e'"
    using calculation(2) assms(1) e by (auto simp: frames_at_append)
  ultimately show ?thesis by (intro exI [of _ ds] exI [of _ e']) simp
qed

section \<open>Opening a segment\<close>

definition opens :: "ioenv \<Rightarrow> nat \<Rightarrow> bool" where
  "opens io sz \<longleftrightarrow> io_stat_ok io \<and> io_open_ok io \<and> io_mmap_ok io \<and> 64 \<le> sz \<and> sz \<le> maxSegmentSize"

definition zero_tail :: "bytes \<Rightarrow> nat \<Rightarrow> bool" where
  "zero_tail m e \<longleftrightarrow> (\<forall>i. e \<le> i \<and> i < length m \<longrightarrow> m ! i = 0)"

lemma zero_tail_bslice:
  "zero_tail m e \<Longrightarrow> e \<le> a \<Longrightarrow> b \<le> length m \<Longrightarrow> bslice a b m = replicate (b - a) 0"
  by (auto simp: zero_tail_def nth_bslice intro!: nth_equalityI)

lemma zero_tail_agree:
  "zero_tail m e \<Longrightarrow> agree e (length m) m m' \<Longrightarrow> zero_tail m' e"
  by (auto simp: zero_tail_def agree_def)

lemma zero_tail_mono: "zero_tail m e \<Longrightarrow> e \<le> e' \<Longrightarrow> zero_tail m e'"
  by (simp add: zero_tail_def)

lemma le_val_zero: "le_val (replicate n 0) = 0"
  by (induction n) simp_all

lemma LE_Uint32_zero: "LE_Uint32 (replicate 4 0) = 0"
  by (simp add: LE_Uint32_def le_val_zero)

lemma zero_tail_no_good: assumes "zero_tail m e" shows "\<not> good_frame m e d"
proof
  assume g: "good_frame m e d"
  then have "e + 16 \<le> length m" "LE_Uint32 (bslice e (e + 4) m) = sum_of d"
    using entrySizeOf_ge [of d] by (auto simp: good_frame_def frame_at_def sum_of_def)
  then have "sum_of d = 0" using zero_tail_bslice [OF assms, of e "e + 4"] by (simp add: LE_Uint32_zero)
  with g show False by (simp add: good_frame_def)
qed

lemma zero_tail_len: "zero_tail m e \<Longrightarrow> e + 8 \<le> length m \<Longrightarrow> len_field m e = 0"
  using zero_tail_bslice [of m e "e + 4" "e + 8"] by (simp add: len_field_def LE_Uint32_zero)

lemma scan_zero_tail:
  assumes "frames_at m 64 rs e" "\<forall>d \<in> set rs. sum_of d \<noteq> 0" "zero_tail m e"
    and "length m = sz" "64 \<le> sz" "sz \<le> maxSegmentSize"
  shows "scanForLastOffset sz m = Inr e"
  using scan_complete [OF assms(1,2) _ assms(4-6)] zero_tail_no_good [OF assms(3)]
    zero_tail_len [OF assms(3)] assms(4) by auto

lemmas initial_defs = writeInitialMetadata_def Let_def

lemma initial_metadata:
  assumes "64 \<le> length m"
  shows "header_valid (writeInitialMetadata now m)"
    and "length (writeInitialMetadata now m) = length m"
    and "sh_Flags (header_of (writeInitialMetadata now m)) = FlagActive"
    and "sh_EntryCount (header_of (writeInitialMetadata now m)) = 0"
    and "agree 60 (length m) m (writeInitialMetadata now m)"
proof -
  show "header_valid (writeInitialMetadata now m)" using assms by (simp add: initial_defs)
  show "length (writeInitialMetadata now m) = length m" by (simp add: initial_defs putHeaderCRC_def)
  show "sh_Flags (header_of (writeInitialMetadata now m)) = FlagActive"
    using assms by (simp add: initial_defs) (simp add: header_of_def buf_simps)
  show "sh_EntryCount (header_of (writeInitialMetadata now m)) = 0"
    using assms by (simp add: initial_defs) (simp add: header_of_def buf_simps)
  show "agree 60 (length m) m (writeInitialMetadata now m)"
    unfolding initial_defs
    by (intro agree_trans [OF _ agree_putHeaderCRC] agree_trans [OF _ agree_blit_before])
      (auto intro: agree_blit_before)
qed

lemma OpenSegmentFile_new:
  assumes "opens io sz"
  shows "\<exists>s. OpenSegmentFile io path sid sz opt None = Inr s \<and> seg_inv s [] \<and> writable s
    \<and> seg_id s = sid \<and> seg_mmapSize s = sz \<and> zero_tail (seg_mmapData s) 64"
proof -
  define z :: bytes where "z = replicate sz 0"
  define m where "m = writeInitialMetadata (io_now io) z"
  have len: "length z = sz" "64 \<le> length z" using assms by (simp_all add: z_def opens_def)
  have "zero_tail z 60" by (simp add: zero_tail_def z_def)
  then have "zero_tail m 60"
    by (rule zero_tail_agree) (use len initial_metadata(5) [of z] in \<open>simp add: m_def\<close>)
  then have tail: "zero_tail m 64" by (rule zero_tail_mono) simp
  have nf: "\<not> IsSealed FlagActive" by (simp add: IsSealed_bit FlagActive_def bit_simps)
  have "OpenSegmentFile io path sid sz opt None = Inr \<lparr>seg_path = path, seg_id = sid,
      seg_mmapData = m, seg_mmapSize = sz, seg_writeOffset = 64, seg_closed = False,
      seg_refCount = 0, seg_state = StateOpen, seg_markedForDeletion = False,
      seg_readerIDCounter = 0, seg_activeReaders = newReaderTracker, seg_isSealed = False,
      seg_inMemorySealed = False, seg_syncOption = opt, seg_unmapped = False, seg_removed = False\<rparr>"
    using assms by (simp add: OpenSegmentFile_def opens_def isNewSegment_def prepareSegmentFile_def
        Let_def m_def z_def)
  with assms tail nf len initial_metadata(1-3) [of z "io_now io", folded m_def] show ?thesis
    by (simp add: seg_inv_def writable_def opens_def)
qed

lemma OpenSegmentFile_existing:
  assumes "opens io sz" "length m = sz"
  shows "OpenSegmentFile io path sid sz opt (Some m) =
    (let s = (\<lambda>off sealed. \<lparr>seg_path = path, seg_id = sid, seg_mmapData = m, seg_mmapSize = sz,
                seg_writeOffset = off, seg_closed = False, seg_refCount = 0, seg_state = StateOpen,
                seg_markedForDeletion = False, seg_readerIDCounter = 0,
                seg_activeReaders = newReaderTracker, seg_isSealed = sealed,
                seg_inMemorySealed = False, seg_syncOption = opt,
                seg_unmapped = False, seg_removed = False\<rparr>) in
     case decodeSegmentHeader (take 64 m) of Inl e \<Rightarrow> Inl e | Inr meta \<Rightarrow>
       if IsSealed (sh_Flags meta) then Inr (s (nat (sh_WriteOffset meta)) True)
       else map_sum id (\<lambda>off. s off False) (scanForLastOffset sz m))"
  using assms
  by (auto simp: OpenSegmentFile_def opens_def isNewSegment_def prepareSegmentFile_def Let_def
      split: sum.splits)

text \<open>Reopening the file of a segment: a sealed one, and an unsealed one whose unused tail is
  still zero.\<close>

lemma reopen_sealed:
  assumes "seg_inv s rs" "seg_isSealed s" "opens io (seg_mmapSize s)"
  shows "\<exists>s'. OpenSegmentFile io path sid (seg_mmapSize s) opt (Some (seg_mmapData s)) = Inr s' \<and> seg_inv s' rs
    \<and> seg_isSealed s' \<and> seg_mmapData s' = seg_mmapData s \<and> seg_writeOffset s' = seg_writeOffset s"
  using assms
  by (simp add: OpenSegmentFile_existing seg_inv_def decode_header Let_def)

lemma reopen_unsealed:
  assumes "seg_inv s rs" "\<not> seg_isSealed s" "opens io (seg_mmapSize s)"
    and "\<forall>d \<in> set rs. sum_of d \<noteq> 0" "zero_tail (seg_mmapData s) (seg_writeOffset s)"
  shows "\<exists>s'. OpenSegmentFile io path sid (seg_mmapSize s) opt (Some (seg_mmapData s)) = Inr s' \<and> seg_inv s' rs
    \<and> writable s' \<and> seg_mmapData s' = seg_mmapData s \<and> seg_writeOffset s' = seg_writeOffset s"
  using assms scan_zero_tail [of "seg_mmapData s" rs "seg_writeOffset s" "seg_mmapSize s"]
  by (simp add: OpenSegmentFile_existing seg_inv_def decode_header Let_def opens_def writable_def)

text \<open>Crash recovery. The record area starts with the committed records; what follows them, a torn
  write for example, is arbitrary.\<close>

lemma reopen_torn:
  assumes "opens io sz" "length m = sz" "header_valid m" "\<not> IsSealed (sh_Flags (header_of m))"
    and "frames_at m 64 rs e" "\<forall>d \<in> set rs. sum_of d \<noteq> 0"
  shows "(\<exists>s ds. OpenSegmentFile io path sid sz opt (Some m) = Inr s \<and> seg_inv s (rs @ ds) \<and> writable s
      \<and> (\<forall>d \<in> set ds. sum_of d \<noteq> 0))
    \<or> (\<exists>e'. 4294967280 \<le> unat (len_field m e') \<and> OpenSegmentFile io path sid sz opt (Some m) = Inl Panic)"
proof -
  obtain ds e' where ds: "frames_at m 64 (rs @ ds) e'" "e' \<le> sz" "\<forall>d \<in> set ds. sum_of d \<noteq> 0"
    and res: "scanForLastOffset sz m = Inr e' \<or>
       4294967280 \<le> unat (len_field m e') \<and> e' + 8 \<le> sz \<and> scanForLastOffset sz m = Inl Panic"
    using scan_prefix [OF assms(5,6,2)] assms(1) unfolding opens_def by blast
  from res show ?thesis
  proof
    assume "scanForLastOffset sz m = Inr e'"
    with ds assms show ?thesis
      by (intro disjI1) (auto simp: OpenSegmentFile_existing decode_header Let_def seg_inv_def
          writable_def opens_def intro!: exI [of _ ds])
  next
    assume "4294967280 \<le> unat (len_field m e') \<and> e' + 8 \<le> sz \<and> scanForLastOffset sz m = Inl Panic"
    with assms show ?thesis
      by (intro disjI2) (auto simp: OpenSegmentFile_existing decode_header Let_def)
  qed
qed

text \<open>The length field at a record boundary decides it: from \<open>2^32 - 16\<close> on, \<open>uint32\<close> arithmetic
  makes the entry look small and the slice expression leaves the mapping.\<close>

lemma scan_overflow:
  assumes "frames_at m 64 rs e" "\<forall>d \<in> set rs. sum_of d \<noteq> 0" "4294967280 \<le> unat (len_field m e)"
    and "length m = sz" "e + 16 \<le> sz" "sz \<le> maxSegmentSize"
  shows "scanForLastOffset sz m = Inl Panic"
proof -
  have "unat (len_field m e) < 2 ^ 32" using unsigned_less [of "len_field m e"] by simp
  then have "unat (8 + len_field m e + 8 :: u32) \<le> 15"
    using assms(3) by (simp add: unat_word_ariths le_mod_geq)
  then have small: "alignUp (unat (8 + len_field m e + 8 :: u32)) \<le> 16"
    by (simp add: alignUp_eq)
  have e: "e = 64 + run_size rs" using assms(1) by (rule frames_at_end)
  then have al: "alignUp e = e" by simp
  obtain f where f: "Suc sz = length rs + Suc f"
  proof
    show "Suc sz = length rs + Suc (sz - length rs)" using length_run_size [of rs] e assms(5) by linarith
  qed
  have "scanForLastOffset sz m = scanLoop (Suc f) sz m e"
    unfolding scanForLastOffset_def f using assms by (intro scanLoop_frames) auto
  also have "\<dots> = Inl Panic"
  proof -
    have "sz < e + 8 + unat (len_field m e) + 8" using assms(3,6) e by linarith
    with assms(4,5) small al show ?thesis
      by (simp add: Let_def bslice_header add.assoc flip: len_field_def)
  qed
  finally show ?thesis .
qed

end
