(* ===== verification/SegmentLifecycle.thy ===== *)
theory SegmentLifecycle
  imports SegmentRecovery
begin

text \<open>
  \<open>pkg/walfs/segment.go\<close>, reference counts and readers: \<open>NewReader\<close>, \<open>SegmentReader.Next\<close> and
  \<open>Close\<close>, \<open>incrRef\<close>, \<open>decrRef\<close>, \<open>releaseRef\<close>, \<open>MarkForDeletion\<close>, \<open>cleanup\<close> and \<open>Segment.Close\<close>.
  \<open>Close\<close> waits on a condition variable while the reference count is positive; a call that waits
  is the value \<open>None\<close>. The bytes \<open>seg_mmapData\<close> stand for the file, which outlives its mapping;
  \<open>seg_unmapped\<close> records the end of the mapping and \<open>seg_removed\<close> that of the file.
\<close>

section \<open>Closing and deleting\<close>

definition closeFinish :: "ioenv \<Rightarrow> Segment \<Rightarrow> Segment \<times> error option" where
  "closeFinish io s =
    (case seg_Sync io s of
       Some e \<Rightarrow> (s\<lparr>seg_unmapped := True\<rparr>, Some (ErrMsg ''sync error during close''))
     | None \<Rightarrow> let s' = s\<lparr>seg_closed := True, seg_unmapped := True\<rparr> in
         if \<not> io_unmap_ok io then (s', Some (ErrMsg ''unmap error''))
         else if \<not> io_close_ok io then (s', Some (ErrMsg ''file close error''))
         else (s', None))"

definition seg_Close :: "ioenv \<Rightarrow> Segment \<Rightarrow> (Segment \<times> error option) option" where
  "seg_Close io s =
    (if seg_state s \<noteq> StateOpen then Some (s, None)
     else let s1 = s\<lparr>seg_state := StateClosing\<rparr> in
       if seg_refCount s1 > 0 then None else Some (closeFinish io s1))"

text \<open>\<open>cleanup\<close> logs the errors of \<open>Close\<close> and of the removal.\<close>

definition cleanup :: "ioenv \<Rightarrow> Segment \<Rightarrow> Segment option" where
  "cleanup io s = (case seg_Close io s of None \<Rightarrow> None
     | Some (s', _) \<Rightarrow> Some (if io_remove_ok io then s'\<lparr>seg_removed := True\<rparr> else s'))"

definition MarkForDeletion :: "ioenv \<Rightarrow> Segment \<Rightarrow> Segment option" where
  "MarkForDeletion io s =
    (if seg_markedForDeletion s then Some s
     else let s' = s\<lparr>seg_markedForDeletion := True\<rparr> in
       if seg_refCount s' = 0 then cleanup io s' else Some s')"

definition HasActiveReaders :: "Segment \<Rightarrow> bool" where
  "HasActiveReaders s = rt_HasAny (seg_activeReaders s)"

definition incrRef :: "Segment \<Rightarrow> Segment" where
  "incrRef s = s\<lparr>seg_refCount := seg_refCount s + 1\<rparr>"

definition releaseRef :: "ioenv \<Rightarrow> Segment \<Rightarrow> Segment option" where
  "releaseRef io s =
    (let count = seg_refCount s - 1; s' = s\<lparr>seg_refCount := count\<rparr> in
     if count = 0 \<and> seg_markedForDeletion s' then cleanup io s' else Some s')"

definition decrRef :: "ioenv \<Rightarrow> u64 \<Rightarrow> Segment \<Rightarrow> Segment option" where
  "decrRef io rid s =
    (let (rt, ok) = rt_Remove (seg_activeReaders s) rid; s' = s\<lparr>seg_activeReaders := rt\<rparr> in
     if ok then releaseRef io s' else Some s')"

section \<open>Segment readers\<close>

text \<open>The reader's \<open>segment\<close> pointer is the segment its methods are given.\<close>

record SegmentReader =
  rd_id :: u64
  rd_readOffset :: nat
  rd_lastRecordOffset :: nat
  rd_closed :: bool

text \<open>\<open>NewReader\<close> is a check followed by the registration; the two parts are not one atomic step.\<close>

definition readerAllowed :: "Segment \<Rightarrow> bool" where
  "readerAllowed s \<longleftrightarrow> \<not> (seg_markedForDeletion s \<or> seg_state s \<noteq> StateOpen)"

definition registerReader :: "Segment \<Rightarrow> Segment \<times> SegmentReader" where
  "registerReader s =
    (let rid = seg_readerIDCounter s + 1;
         s1 = s\<lparr>seg_readerIDCounter := rid\<rparr>;
         s2 = s1\<lparr>seg_activeReaders := rt_Add (seg_activeReaders s1) rid\<rparr>
     in (incrRef s2, \<lparr>rd_id = rid, rd_readOffset = segmentHeaderSize, rd_lastRecordOffset = 0, rd_closed = False\<rparr>))"

definition NewReader :: "Segment \<Rightarrow> (Segment \<times> SegmentReader) option" where
  "NewReader s = (if readerAllowed s then Some (registerReader s) else None)"

definition reader_Close :: "ioenv \<Rightarrow> SegmentReader \<Rightarrow> Segment \<Rightarrow> (SegmentReader \<times> Segment) option" where
  "reader_Close io r s =
    (if rd_closed r then Some (r, s)
     else map_option (\<lambda>s'. (r\<lparr>rd_closed := True\<rparr>, s')) (decrRef io (rd_id r) s))"

definition reader_Next ::
  "Segment \<Rightarrow> SegmentReader \<Rightarrow> SegmentReader \<times> (error + bytes \<times> RecordPosition)" where
  "reader_Next s r =
    (if rd_closed r then (r, Inl ErrSegmentReaderClosed)
     else if rd_readOffset r \<ge> seg_writeOffset s
       then (r, Inl (if seg_isSealed s then EOF else ErrNoNewData))
     else let currentOffset = rd_readOffset r in
       case seg_Read currentOffset s of
         Inl err \<Rightarrow> (r, Inl (if \<not> seg_isSealed s \<and> err = EOF then ErrNoNewData else err))
       | Inr (data, next) \<Rightarrow>
          (r\<lparr>rd_lastRecordOffset := currentOffset, rd_readOffset := nat (Offset next)\<rparr>,
           Inr (data, \<lparr>SegmentID = seg_id s, Offset = int currentOffset\<rparr>)))"

definition reader_LastRecordPosition :: "Segment \<Rightarrow> SegmentReader \<Rightarrow> RecordPosition" where
  "reader_LastRecordPosition s r = \<lparr>SegmentID = seg_id s, Offset = int (rd_lastRecordOffset r)\<rparr>"

section \<open>Iteration\<close>

text \<open>A reader at the boundary behind the records \<open>xs\<close>.\<close>

definition reader_at :: "SegmentReader \<Rightarrow> bytes list \<Rightarrow> bool" where
  "reader_at r xs \<longleftrightarrow> \<not> rd_closed r \<and> rd_readOffset r = 64 + run_size xs"

definition readable :: "Segment \<Rightarrow> bool" where
  "readable s \<longleftrightarrow> \<not> seg_closed s \<and> \<not> seg_unmapped s"

lemma reader_Next_record:
  assumes "seg_inv s (xs @ d # ys)" "readable s" "reader_at r xs"
  shows "snd (reader_Next s r) = Inr (d, \<lparr>SegmentID = seg_id s, Offset = int (64 + run_size xs)\<rparr>)"
    and "reader_at (fst (reader_Next s r)) (xs @ [d])"
proof -
  have "seg_Read (64 + run_size xs) s =
      Inr (d, \<lparr>SegmentID = seg_id s, Offset = int (64 + run_size xs + entrySizeOf d)\<rparr>)"
    using assms by (intro seg_Read_record) (auto simp: readable_def)
  moreover have "64 + run_size xs < seg_writeOffset s"
    using seg_inv_offset [OF assms(1)] entrySizeOf_pos [of d] by simp
  moreover have "nat (int (64 + run_size xs + entrySizeOf d)) = 64 + run_size xs + entrySizeOf d"
    by (rule nat_int)
  ultimately show "snd (reader_Next s r) = Inr (d, \<lparr>SegmentID = seg_id s, Offset = int (64 + run_size xs)\<rparr>)"
    and "reader_at (fst (reader_Next s r)) (xs @ [d])"
    using assms(3) by (simp_all add: reader_Next_def reader_at_def Let_def del: of_nat_add)
qed

lemma reader_Next_end:
  assumes "seg_inv s xs" "reader_at r xs"
  shows "reader_Next s r = (r, Inl (if seg_isSealed s then EOF else ErrNoNewData))"
  using assms seg_inv_offset [OF assms(1)] by (simp add: reader_Next_def reader_at_def)

text \<open>The caller's loop: \<open>Next\<close> until it fails.\<close>

fun drain :: "nat \<Rightarrow> Segment \<Rightarrow> SegmentReader \<Rightarrow> (bytes \<times> RecordPosition) list \<times> error option" where
  "drain 0 s r = ([], None)"
| "drain (Suc n) s r = (case reader_Next s r of
     (r', Inl e) \<Rightarrow> ([], Some e)
   | (r', Inr rec) \<Rightarrow> (let (recs, e) = drain n s r' in (rec # recs, e)))"

lemma drain_all:
  assumes "seg_inv s (xs @ ys)" "readable s" "reader_at r xs" "length ys < n"
  shows "drain n s r = (zip ys (positions (seg_id s) (64 + run_size xs) ys),
    Some (if seg_isSealed s then EOF else ErrNoNewData))"
  using assms
proof (induction ys arbitrary: xs r n)
  case Nil
  then obtain k where "n = Suc k" by (cases n) auto
  with Nil show ?case by (simp add: reader_Next_end)
next
  case (Cons d ys)
  then obtain k where n: "n = Suc k" by (cases n) auto
  obtain r' res where nxt: "reader_Next s r = (r', res)" by (cases "reader_Next s r")
  have "res = Inr (d, \<lparr>SegmentID = seg_id s, Offset = int (64 + run_size xs)\<rparr>)" "reader_at r' (xs @ [d])"
    using reader_Next_record [OF Cons.prems(1,2,3)] nxt by simp_all
  with Cons.IH [of "xs @ [d]" r' k] Cons.prems n nxt show ?case by (simp add: add.assoc)
qed

section \<open>The reference count\<close>

text \<open>The steps that change a segment's life cycle, each taken by some goroutine. A call of \<open>Close\<close>
  is two steps, between which it waits for the readers. \<open>decrRef\<close> is called by \<open>SegmentReader.Close\<close>
  and by the runtime's cleanup of an abandoned reader, so any id may be released at any time.\<close>

inductive life_step :: "Segment \<Rightarrow> Segment \<Rightarrow> bool" where
  new_reader: "NewReader s = Some (s', r) \<Longrightarrow> unat (seg_readerIDCounter s) + 1 < 2 ^ 64 \<Longrightarrow> life_step s s'"
| release: "decrRef io rid s = Some s' \<Longrightarrow> life_step s s'"
| mark: "MarkForDeletion io s = Some s' \<Longrightarrow> life_step s s'"
| close_begin: "seg_state s = StateOpen \<Longrightarrow> life_step s (s\<lparr>seg_state := StateClosing\<rparr>)"
| close_end: "seg_state s = StateClosing \<Longrightarrow> \<not> seg_unmapped s \<Longrightarrow> seg_refCount s \<le> 0
    \<Longrightarrow> life_step s (fst (closeFinish io s))"
| write_record: "life_step s (fst (seg_Write io d s))"
| write_batch: "life_step s (fst (seg_WriteBatch io ds s))"
| seal: "life_step s (fst (SealSegment io s))"

abbreviation reg_ids :: "Segment \<Rightarrow> u64 set" where
  "reg_ids s \<equiv> rt_ids (seg_activeReaders s)"

definition life_inv :: "Segment \<Rightarrow> bool" where
  "life_inv s \<longleftrightarrow> rt_wf (seg_activeReaders s) \<and> seg_refCount s = int (card (reg_ids s))
     \<and> (\<forall>rid \<in> reg_ids s. rid \<le> seg_readerIDCounter s)
     \<and> (seg_unmapped s \<longrightarrow> seg_state s \<noteq> StateOpen \<and> reg_ids s = {})
     \<and> (seg_closed s \<longrightarrow> seg_unmapped s)
     \<and> (seg_removed s \<longrightarrow> seg_state s \<noteq> StateOpen \<and> reg_ids s = {})
     \<and> (seg_markedForDeletion s \<and> reg_ids s = {} \<longrightarrow> seg_state s \<noteq> StateOpen)"

lemma life_inv_refs: "life_inv s \<Longrightarrow> seg_refCount s = 0 \<longleftrightarrow> reg_ids s = {}"
  by (simp add: life_inv_def)

lemma life_inv_frame:
  assumes "life_inv s" "seg_activeReaders s' = seg_activeReaders s" "seg_refCount s' = seg_refCount s"
    "seg_readerIDCounter s' = seg_readerIDCounter s" "seg_unmapped s' = seg_unmapped s"
    "seg_closed s' = seg_closed s" "seg_removed s' = seg_removed s" "seg_state s' = seg_state s"
    "seg_markedForDeletion s' = seg_markedForDeletion s"
  shows "life_inv s'"
  using assms by (simp add: life_inv_def)

lemma life_inv_closeFinish:
  assumes "life_inv s" "seg_state s = StateClosing" "reg_ids s = {}"
  shows "life_inv (fst (closeFinish io s))"
  using assms by (auto simp: life_inv_def closeFinish_def Let_def split: option.splits)

lemma closeFinish_fields [simp]:
  "seg_activeReaders (fst (closeFinish io s)) = seg_activeReaders s"
  "seg_state (fst (closeFinish io s)) = seg_state s"
  "seg_unmapped (fst (closeFinish io s))"
  "seg_mmapData (fst (closeFinish io s)) = seg_mmapData s"
  by (auto simp: closeFinish_def Let_def split: option.splits)

text \<open>Without registered readers \<open>cleanup\<close> does not wait; it leaves the segment closed.\<close>

definition life_pre :: "Segment \<Rightarrow> bool" where
  "life_pre s \<longleftrightarrow> rt_wf (seg_activeReaders s) \<and> seg_refCount s = 0 \<and> reg_ids s = {}
     \<and> (seg_unmapped s \<longrightarrow> seg_state s \<noteq> StateOpen) \<and> (seg_closed s \<longrightarrow> seg_unmapped s)
     \<and> (seg_removed s \<longrightarrow> seg_state s \<noteq> StateOpen)"

lemma cleanup_ok:
  assumes "life_pre s"
  shows "\<exists>s'. cleanup io s = Some s' \<and> life_inv s' \<and> seg_state s' \<noteq> StateOpen
    \<and> (io_remove_ok io \<longrightarrow> seg_removed s') \<and> (seg_state s = StateOpen \<longrightarrow> seg_unmapped s')"
proof (cases "seg_state s = StateOpen")
  case True
  let ?s = "s\<lparr>seg_state := StateClosing\<rparr>"
  have "life_inv ?s" using assms by (simp add: life_pre_def life_inv_def)
  then have "life_inv (fst (closeFinish io ?s))"
    by (rule life_inv_closeFinish) (use assms in \<open>simp_all add: life_pre_def\<close>)
  moreover obtain s2 e where cf: "closeFinish io ?s = (s2, e)" by (cases "closeFinish io ?s")
  moreover have "reg_ids s2 = {}" "seg_state s2 = StateClosing" "seg_unmapped s2"
    using closeFinish_fields [of io ?s] assms unfolding cf by (simp_all add: life_pre_def)
  moreover have "cleanup io s = Some (if io_remove_ok io then s2\<lparr>seg_removed := True\<rparr> else s2)"
    using True assms cf by (simp add: cleanup_def seg_Close_def life_pre_def Let_def)
  ultimately show ?thesis by (simp add: life_inv_def)
next
  case False
  with assms show ?thesis by (simp add: cleanup_def seg_Close_def life_pre_def life_inv_def)
qed

lemma cleanup_ids:
  "cleanup io s = Some s' \<Longrightarrow> seg_activeReaders s' = seg_activeReaders s
    \<and> seg_markedForDeletion s' = seg_markedForDeletion s"
  by (auto simp: cleanup_def seg_Close_def closeFinish_def Let_def split: if_splits option.splits)

lemma registerReader_fields:
  "registerReader s = (s', r) \<Longrightarrow> seg_activeReaders s' = rt_Add (seg_activeReaders s) (rd_id r)
    \<and> rd_id r = seg_readerIDCounter s + 1 \<and> seg_readerIDCounter s' = seg_readerIDCounter s + 1
    \<and> seg_refCount s' = seg_refCount s + 1 \<and> seg_unmapped s' = seg_unmapped s
    \<and> seg_state s' = seg_state s \<and> seg_closed s' = seg_closed s \<and> seg_removed s' = seg_removed s
    \<and> seg_markedForDeletion s' = seg_markedForDeletion s \<and> \<not> rd_closed r \<and> seg_writeOffset s' = seg_writeOffset s
    \<and> seg_mmapSize s' = seg_mmapSize s \<and> seg_isSealed s' = seg_isSealed s \<and> rd_readOffset r = 64"
  by (auto simp: registerReader_def incrRef_def Let_def)

lemma life_inv_NewReader:
  assumes "life_inv s" "NewReader s = Some (s', r)" "unat (seg_readerIDCounter s) + 1 < 2 ^ 64"
  shows "life_inv s'" "reg_ids s' = insert (rd_id r) (reg_ids s)" "rd_id r \<notin> reg_ids s"
proof -
  have f: "registerReader s = (s', r)" and ok: "\<not> seg_markedForDeletion s" "seg_state s = StateOpen"
    using assms(2) by (auto simp: NewReader_def readerAllowed_def split: if_splits)
  have lt: "seg_readerIDCounter s < seg_readerIDCounter s + 1"
    using assms(3) by (simp add: word_less_nat_alt unat_word_ariths)
  show fresh: "rd_id r \<notin> reg_ids s"
    using assms(1) lt registerReader_fields [OF f] unfolding life_inv_def by (metis leD)
  show ids: "reg_ids s' = insert (rd_id r) (reg_ids s)"
    using assms(1) registerReader_fields [OF f] by (simp add: life_inv_def)
  have "card (reg_ids s') = Suc (card (reg_ids s))"
    using fresh ids assms(1) by (simp add: life_inv_def)
  moreover have "\<forall>rid \<in> reg_ids s. rid \<le> seg_readerIDCounter s + 1"
    using assms(1) lt unfolding life_inv_def by (meson order.strict_implies_order order.trans)
  moreover have "rt_wf (seg_activeReaders s')" "seg_refCount s = int (card (reg_ids s))"
    using registerReader_fields [OF f] assms(1) by (simp_all add: life_inv_def)
  moreover have "\<not> seg_unmapped s" "\<not> seg_closed s" "\<not> seg_removed s"
    using assms(1) ok by (auto simp: life_inv_def)
  ultimately show "life_inv s'"
    using registerReader_fields [OF f] ok ids unfolding life_inv_def by simp
qed

lemma life_inv_decrRef:
  assumes "life_inv s"
  shows "\<exists>s'. decrRef io rid s = Some s' \<and> life_inv s' \<and> reg_ids s' = reg_ids s - {rid}"
proof (cases "rid \<in> reg_ids s")
  case False
  with assms have "rt_Remove (seg_activeReaders s) rid = (seg_activeReaders s, False)"
    by (simp add: rt_Remove_def life_inv_def rt_ids_iff)
  with False assms show ?thesis by (simp add: decrRef_def)
next
  case True
  obtain rt ok where rm: "rt_Remove (seg_activeReaders s) rid = (rt, ok)"
    by (cases "rt_Remove (seg_activeReaders s) rid")
  have wf: "rt_wf (seg_activeReaders s)" using assms by (simp add: life_inv_def)
  then have rt: "rt_wf rt" "ok" "rt_ids rt = reg_ids s - {rid}"
    using tracker.wf_remove [OF wf, of rid] tracker.remove_found [OF wf, of rid]
      tracker.ids_remove [OF wf, of rid] rm True by simp_all
  let ?s = "s\<lparr>seg_activeReaders := rt, seg_refCount := seg_refCount s - 1\<rparr>"
  have "card (rt_ids rt) + 1 = card (reg_ids s)"
    using tracker.card_remove [OF wf, of rid] rm rt(2) by simp
  then have cnt: "seg_refCount ?s = int (card (rt_ids rt))"
    using assms by (simp add: life_inv_def)
  have st: "\<not> seg_unmapped s" "\<not> seg_closed s" "\<not> seg_removed s" using True assms by (auto simp: life_inv_def)
  have dr: "decrRef io rid s = (if seg_refCount s = 1 \<and> seg_markedForDeletion s then cleanup io ?s else Some ?s)"
    using rm rt(2) by (simp add: decrRef_def releaseRef_def Let_def)
  show ?thesis
  proof (cases "seg_refCount s = 1 \<and> seg_markedForDeletion s")
    case True
    then have "life_pre ?s" using cnt rt st finite_rt_ids [of rt] by (simp add: life_pre_def)
    then obtain s' where "cleanup io ?s = Some s'" "life_inv s'" using cleanup_ok [of ?s io] by blast
    with cleanup_ids [OF this(1)] dr True rt show ?thesis by simp
  next
    case False
    have "seg_markedForDeletion s \<Longrightarrow> rt_ids rt \<noteq> {}" using False cnt by auto
    then have "life_inv ?s" using cnt rt(1) st assms by (auto simp: life_inv_def rt(3))
    with False dr rt show ?thesis by auto
  qed
qed

lemma life_inv_Mark:
  assumes "life_inv s"
  shows "\<exists>s'. MarkForDeletion io s = Some s' \<and> life_inv s' \<and> reg_ids s' = reg_ids s \<and> seg_markedForDeletion s'"
proof (cases "seg_markedForDeletion s \<or> seg_refCount s \<noteq> 0")
  case True
  with assms show ?thesis by (auto simp: MarkForDeletion_def life_inv_def Let_def)
next
  case False
  let ?s = "s\<lparr>seg_markedForDeletion := True\<rparr>"
  have "life_pre ?s" using False assms life_inv_refs [OF assms] by (simp add: life_pre_def life_inv_def)
  then obtain s' where "cleanup io ?s = Some s'" "life_inv s'" using cleanup_ok [of ?s io] by blast
  with cleanup_ids [OF this(1)] False show ?thesis by (simp add: MarkForDeletion_def)
qed

definition same_life :: "Segment \<Rightarrow> Segment \<Rightarrow> bool" where
  "same_life s s' \<longleftrightarrow> seg_activeReaders s' = seg_activeReaders s \<and> seg_refCount s' = seg_refCount s
    \<and> seg_readerIDCounter s' = seg_readerIDCounter s \<and> seg_unmapped s' = seg_unmapped s
    \<and> seg_closed s' = seg_closed s \<and> seg_removed s' = seg_removed s \<and> seg_state s' = seg_state s
    \<and> seg_markedForDeletion s' = seg_markedForDeletion s"

lemma same_life_ops:
  "same_life s (fst (seg_Write io d s))" "same_life s (fst (seg_WriteBatch io ds s))"
  "same_life s (fst (SealSegment io s))"
  by (auto simp: same_life_def seg_Write_def seg_WriteBatch_def SealSegment_def Let_def
      split: sum.splits prod.splits)

lemma life_inv_same: "life_inv s \<Longrightarrow> same_life s s' \<Longrightarrow> life_inv s'"
  unfolding same_life_def by (rule life_inv_frame [of s]) auto

lemma life_step_inv: "life_step s s' \<Longrightarrow> life_inv s \<Longrightarrow> life_inv s'"
proof (induction rule: life_step.induct)
  case (close_begin s)
  then show ?case by (auto simp: life_inv_def)
next
  case (close_end s io)
  then have "reg_ids s = {}" by (simp add: life_inv_def)
  with close_end show ?case by (intro life_inv_closeFinish)
qed (use life_inv_NewReader life_inv_decrRef life_inv_Mark life_inv_same same_life_ops in \<open>(metis option.inject)+\<close>)

lemma life_steps_inv: "life_step\<^sup>*\<^sup>* s s' \<Longrightarrow> life_inv s \<Longrightarrow> life_inv s'"
  by (induction rule: rtranclp_induct) (auto intro: life_step_inv)

lemma life_inv_opened:
  "OpenSegmentFile io path sid sz opt file = Inr s \<Longrightarrow> life_inv s"
  by (auto simp: OpenSegmentFile_def life_inv_def Let_def split: sum.splits if_splits)

text \<open>A registered reader pins the mapping.\<close>

lemma life_inv_pinned: "life_inv s \<Longrightarrow> rid \<in> reg_ids s \<Longrightarrow> readable s \<and> \<not> seg_removed s"
  by (auto simp: life_inv_def readable_def)

lemma MarkForDeletion_unread:
  assumes "life_inv s" "reg_ids s = {}" "\<not> seg_markedForDeletion s" "seg_state s = StateOpen"
  shows "\<exists>s'. MarkForDeletion io s = Some s' \<and> seg_unmapped s' \<and> reg_ids s' = {} \<and> seg_writeOffset s' = seg_writeOffset s
    \<and> seg_mmapSize s' = seg_mmapSize s \<and> seg_closed s' = (io_msync_ok io \<and> io_fsync_ok io) \<and> (seg_removed s' = io_remove_ok io)"
proof -
  have "seg_refCount s = 0" "\<not> seg_removed s" "\<not> seg_closed s" using assms by (auto simp: life_inv_def)
  with assms show ?thesis
    by (simp add: MarkForDeletion_def cleanup_def seg_Close_def closeFinish_def seg_Sync_def Let_def)
qed

text \<open>The check of \<open>NewReader\<close> and its registration with a deletion in between: the reader that is
  returned belongs to a segment that has been unmapped.\<close>

lemma NewReader_race:
  assumes "life_inv s" "reg_ids s = {}" "readerAllowed s" "64 < seg_writeOffset s" "72 \<le> seg_mmapSize s"
  shows "\<exists>s1 s2 r. MarkForDeletion io s = Some s1 \<and> registerReader s1 = (s2, r)
    \<and> seg_unmapped s2 \<and> rd_id r \<in> reg_ids s2
    \<and> snd (reader_Next s2 r) = Inl (if io_msync_ok io \<and> io_fsync_ok io then ErrClosed else Panic)"
proof -
  obtain s1 where s1: "MarkForDeletion io s = Some s1" "seg_unmapped s1" "reg_ids s1 = {}"
      "seg_writeOffset s1 = seg_writeOffset s" "seg_mmapSize s1 = seg_mmapSize s"
      "seg_closed s1 = (io_msync_ok io \<and> io_fsync_ok io)"
    using MarkForDeletion_unread [OF assms(1,2), of io] assms(3) by (auto simp: readerAllowed_def)
  obtain s2 r where r: "registerReader s1 = (s2, r)" by (cases "registerReader s1")
  have "life_inv s1" using life_inv_Mark [OF assms(1), of io] s1(1) by auto
  then have "rd_id r \<in> reg_ids s2" using registerReader_fields [OF r] by (simp add: life_inv_def)
  moreover have "snd (reader_Next s2 r) = Inl (if io_msync_ok io \<and> io_fsync_ok io then ErrClosed else Panic)"
    using registerReader_fields [OF r] s1 assms(4,5) by (simp add: reader_Next_def seg_Read_def Let_def)
  ultimately show ?thesis using registerReader_fields [OF r] s1 r by blast
qed

end
