(* ===== verification/SegmentLog.thy ===== *)
theory SegmentLog
  imports SegmentLifecycle
begin

text \<open>
  A segment as a log of records. The locale \<open>append_log\<close> is the contract of a component whose
  operations only ever append records; a segment under \<open>Write\<close>, \<open>WriteBatch\<close> and \<open>SealSegment\<close> is one
  instance of it. The last section holds the properties of the segment component.
\<close>

section \<open>The contract of an append-only log\<close>

text \<open>The records a sequence of operations adds, in order.\<close>

fun appends :: "('op \<Rightarrow> 's \<Rightarrow> 's) \<Rightarrow> ('op \<Rightarrow> 's \<Rightarrow> bytes list) \<Rightarrow> 'op list \<Rightarrow> 's \<Rightarrow> bytes list" where
  "appends exec added [] s = []"
| "appends exec added (x # xs) s = added x s @ appends exec added xs (exec x s)"

locale append_log =
  fixes holds :: "'s \<Rightarrow> bytes list \<Rightarrow> bool" and exec :: "'op \<Rightarrow> 's \<Rightarrow> 's" and added :: "'op \<Rightarrow> 's \<Rightarrow> bytes list"
  assumes exec_holds: "holds s rs \<Longrightarrow> holds (exec x s) (rs @ added x s)"
begin

text \<open>Nothing is lost or reordered: the contents before are a prefix of the contents after.\<close>

lemma run_holds: "holds s rs \<Longrightarrow> holds (fold exec xs s) (rs @ appends exec added xs s)"
proof (induction xs arbitrary: s rs)
  case (Cons x xs)
  from Cons.IH [OF exec_holds [OF Cons.prems]] show ?case by simp
qed simp

lemma appends_append:
  "appends exec added (xs @ ys) s = appends exec added xs s @ appends exec added ys (fold exec xs s)"
  by (induction xs arbitrary: s) simp_all

end

section \<open>Operations on a segment\<close>

datatype segop = OpWrite ioenv bytes | OpBatch ioenv "bytes list" | OpSeal ioenv

fun seg_exec :: "segop \<Rightarrow> Segment \<Rightarrow> Segment" where
  "seg_exec (OpWrite io d) s = fst (seg_Write io d s)"
| "seg_exec (OpBatch io ds) s = fst (seg_WriteBatch io ds s)"
| "seg_exec (OpSeal io) s = fst (SealSegment io s)"

text \<open>The records an operation adds, read off its result. A write whose flush fails reports an
  error although the record is in the log.\<close>

fun seg_added :: "segop \<Rightarrow> Segment \<Rightarrow> bytes list" where
  "seg_added (OpWrite io d) s = (case snd (seg_Write io d s) of
     Inr _ \<Rightarrow> [d] | Inl e \<Rightarrow> if e = ErrMsg ''mmap flush error after write'' then [d] else [])"
| "seg_added (OpBatch io ds) s = (case seg_WriteBatch io ds s of (_, _, n, _) \<Rightarrow> take n ds)"
| "seg_added (OpSeal io) s = []"

definition seg_holds :: "Segment \<Rightarrow> bytes list \<Rightarrow> bool" where
  "seg_holds s rs \<longleftrightarrow> seg_inv s rs \<and> zero_tail (seg_mmapData s) (seg_writeOffset s)"

lemma zero_tail_putMeta:
  "zero_tail m e \<Longrightarrow> 64 \<le> e \<Longrightarrow> zero_tail (putMeta now e' n m) e"
  by (rule zero_tail_agree [of m]) (auto intro: agree_putMeta)

lemma zero_tail_putRecord:
  assumes "zero_tail m off" "off + entrySizeOf d \<le> length m"
  shows "zero_tail (putRecord off d m) (off + entrySizeOf d)"
proof (rule zero_tail_agree [of m])
  show "agree (off + entrySizeOf d) (length m) m (putRecord off d m)"
    using assms(2) by (intro agree_putRecord) auto
qed (rule zero_tail_mono [OF assms(1)], simp)

lemma zero_tail_putRecords:
  "zero_tail m off \<Longrightarrow> off + run_size ds \<le> length m \<Longrightarrow>
    zero_tail (snd (putRecords off ds m)) (off + run_size ds)"
proof (induction ds arbitrary: off m)
  case (Cons d ds)
  have "zero_tail (putRecord off d m) (off + entrySizeOf d)"
    using Cons.prems by (intro zero_tail_putRecord) auto
  moreover have "length (putRecord off d m) = length m"
    using agree_putRecord [of off d m 0 0] Cons.prems by (simp add: agree_def)
  ultimately show ?case using Cons.IH [of "putRecord off d m" "off + entrySizeOf d"] Cons.prems
    by (simp add: add.assoc)
qed simp

lemma seg_holds_appended:
  assumes "seg_holds s rs" "seg_writeOffset s + entrySizeOf d \<le> seg_mmapSize s" "\<not> seg_isSealed s"
  shows "seg_holds (appended io d s) (rs @ [d])"
proof -
  have inv: "seg_inv s rs" using assms(1) by (simp add: seg_holds_def)
  have "zero_tail (putRecord (seg_writeOffset s) d (seg_mmapData s)) (seg_writeOffset s + entrySizeOf d)"
    using assms inv by (intro zero_tail_putRecord) (auto simp: seg_holds_def seg_inv_def)
  then have "zero_tail (seg_mmapData (appended io d s)) (seg_writeOffset (appended io d s))"
    using seg_inv_offset [OF inv] by (simp add: appended_def Let_def zero_tail_putMeta)
  with seg_inv_appended [OF inv assms(2,3), of io] show ?thesis by (simp add: seg_holds_def)
qed

lemma seg_holds_batched:
  assumes "seg_holds s rs" "seg_writeOffset s + run_size ds \<le> seg_mmapSize s" "\<not> seg_isSealed s"
  shows "seg_holds (batched io ds s) (rs @ ds)"
proof -
  have inv: "seg_inv s rs" using assms(1) by (simp add: seg_holds_def)
  have "zero_tail (snd (putRecords (seg_writeOffset s) ds (seg_mmapData s))) (seg_writeOffset s + run_size ds)"
    using assms inv by (intro zero_tail_putRecords) (auto simp: seg_holds_def seg_inv_def)
  then have "zero_tail (seg_mmapData (batched io ds s)) (seg_writeOffset (batched io ds s))"
    using seg_inv_offset [OF inv] by (simp add: batched_def Let_def zero_tail_putMeta)
  with seg_inv_batched [OF inv assms(2,3), of io] show ?thesis by (simp add: seg_holds_def)
qed

lemma seg_holds_Write:
  assumes "seg_holds s rs"
  shows "seg_holds (fst (seg_Write io d s)) (rs @ seg_added (OpWrite io d) s)"
proof -
  have inv: "seg_inv s rs" using assms by (simp add: seg_holds_def)
  have wr: "seg_Write io d s =
    (if seg_closed s \<or> seg_state s \<noteq> StateOpen then (s, Inl ErrClosed)
     else if seg_isSealed s then (s, Inl ErrSegmentSealed)
     else if seg_writeOffset s + entrySizeOf d > seg_mmapSize s then (s, Inl (ErrMsg ''write exceeds Segment size''))
     else (appended io d s, if msync_fails io s then Inl (ErrMsg ''mmap flush error after write'')
       else Inr \<lparr>SegmentID = seg_id s, Offset = int (seg_writeOffset s)\<rparr>))"
    using seg_inv_flags [OF inv] by (simp add: seg_Write_def appended_def msync_fails_def Let_def)
  show ?thesis using assms seg_holds_appended [OF assms, of d io] by (auto simp: wr)
qed

lemma batchFit_Inr:
  "batchFit sid sz off ds = Inr ps \<Longrightarrow> ps = positions sid off (take (fit_count sz off ds) ds)"
proof (induction ds arbitrary: off ps)
  case (Cons d ds)
  then show ?case by (auto split: if_splits sum.splits)
qed simp

lemma seg_WriteBatch_cases:
  assumes "seg_inv s rs"
  obtains (refused) ps e where "seg_WriteBatch io ds s = (s, ps, 0, e)"
  | (wrote) n ps e where "seg_WriteBatch io ds s = (batched io (take n ds) s, ps, n, e)"
      "seg_writeOffset s + run_size (take n ds) \<le> seg_mmapSize s" "\<not> seg_isSealed s"
proof -
  let ?n = "fit_count (seg_mmapSize s) (seg_writeOffset s) ds"
  consider (no) "(ds = [] \<or> seg_closed s \<or> seg_state s \<noteq> StateOpen \<or> seg_isSealed s)
        \<or> (\<exists>e. batchFit (seg_id s) (seg_mmapSize s) (seg_writeOffset s) ds = Inl e)"
    | (fit) ps where "batchFit (seg_id s) (seg_mmapSize s) (seg_writeOffset s) ds = Inr ps"
        "\<not> (ds = [] \<or> seg_closed s \<or> seg_state s \<noteq> StateOpen \<or> seg_isSealed s)"
    by (cases "batchFit (seg_id s) (seg_mmapSize s) (seg_writeOffset s) ds") auto
  then show thesis
  proof cases
    case fit
    have ps: "ps = positions (seg_id s) (seg_writeOffset s) (take ?n ds)" using fit(1) by (rule batchFit_Inr)
    then have len: "length ps = ?n" using fit_count_le [of "seg_mmapSize s" "seg_writeOffset s" ds] by simp
    have "seg_writeOffset s + run_size (take ?n ds) \<le> seg_mmapSize s"
      using assms by (intro fit_count_fits) (simp add: seg_inv_def)
    moreover have "seg_WriteBatch io ds s = (if ?n = 0 then (s, [], 0, Some ErrSegmentFull)
        else (batched io (take ?n ds) s, ps, ?n,
          if msync_fails io s then Some (ErrMsg ''mmap flush error after batch write'')
          else if ?n < length ds then Some ErrSegmentFull else None))"
      using fit len seg_inv_flags [OF assms]
        fit_count_le [of "seg_mmapSize s" "seg_writeOffset s" ds]
      by (simp add: seg_WriteBatch_def Let_def batched_def case_prod_beta msync_fails_def)
    ultimately show thesis
      using fit(2) by (cases "?n = 0") (auto intro: refused wrote)
  next
    case no
    then have "\<exists>ps e. seg_WriteBatch io ds s = (s, ps, 0, e)"
      using seg_inv_flags [OF assms] by (auto simp: seg_WriteBatch_def)
    then show thesis by (auto intro: refused)
  qed
qed

lemma seg_holds_WriteBatch:
  assumes "seg_holds s rs"
  shows "seg_holds (fst (seg_WriteBatch io ds s)) (rs @ seg_added (OpBatch io ds) s)"
proof -
  have "seg_inv s rs" using assms by (simp add: seg_holds_def)
  then show ?thesis
    by (rule seg_WriteBatch_cases [of _ _ io ds]) (use assms in \<open>auto intro: seg_holds_batched\<close>)
qed

lemma agree_sealed:
  assumes "\<not> seg_closed s" "\<not> seg_unmapped s" "64 \<le> a"
  shows "agree a b (seg_mmapData s) (seg_mmapData (sealed io s))"
proof -
  obtain x where "seg_mmapData (sealed io s) = putHeaderCRC (blit 40 (LE_PutUint32 x)
      (blit 24 (LE_PutUint64 (word_of_nat (seg_writeOffset s))) (blit 16 (LE_PutUint64 (io_now io)) (seg_mmapData s))))"
    using assms(1,2) by (simp add: sealed_def SealSegment_def Let_def)
  then show ?thesis
    using assms(3) by (simp only:) (intro agree_trans [OF _ agree_putHeaderCRC] agree_trans [OF _ agree_blit_before]
      agree_blit_before, simp_all)
qed

lemma sealed_not_active:
  assumes "seg_inv s rs" "\<not> seg_closed s" "\<not> seg_unmapped s"
  shows "\<not> IsActive (sh_Flags (header_of (seg_mmapData (sealed io s))))"
proof -
  have len: "64 \<le> length (seg_mmapData s)" using assms(1) by (simp add: seg_inv_def header_valid_def)
  obtain x where "seg_mmapData (sealed io s) = putHeaderCRC (blit 40 (LE_PutUint32 ((x AND NOT FlagActive) OR FlagSealed))
      (blit 24 (LE_PutUint64 (word_of_nat (seg_writeOffset s))) (blit 16 (LE_PutUint64 (io_now io)) (seg_mmapData s))))"
    using assms(2,3) by (simp add: sealed_def SealSegment_def Let_def)
  with len show ?thesis by (simp only: header_of_putHeaderCRC) (simp add: header_of_def buf_simps IsActive_seal)
qed

lemma seg_holds_Seal:
  assumes "seg_holds s rs" shows "seg_holds (fst (SealSegment io s)) rs"
proof (cases "seg_closed s \<or> seg_unmapped s")
  case True
  with assms show ?thesis by (auto simp: SealSegment_def)
next
  case False
  have inv: "seg_inv s rs" using assms by (simp add: seg_holds_def)
  have "64 \<le> seg_writeOffset s" using seg_inv_offset [OF inv] by simp
  then have "agree (seg_writeOffset s) (length (seg_mmapData s)) (seg_mmapData s) (seg_mmapData (sealed io s))"
    by (intro agree_sealed) (use False in simp_all)
  then have "zero_tail (seg_mmapData (sealed io s)) (seg_writeOffset s)"
    by (rule zero_tail_agree [rotated]) (use assms in \<open>simp add: seg_holds_def\<close>)
  moreover have "seg_inv (sealed io s) rs" using inv False by (auto intro: seg_inv_sealed)
  ultimately show ?thesis using False by (simp add: seg_holds_def SealSegment_ok)
qed

interpretation seglog: append_log seg_holds seg_exec seg_added
proof
  fix s rs x assume "seg_holds s rs"
  then show "seg_holds (seg_exec x s) (rs @ seg_added x s)"
  proof (cases x)
    case (OpWrite io d)
    then show ?thesis using seg_holds_Write [OF \<open>seg_holds s rs\<close>, of io d]
      by (simp only: seg_exec.simps seg_added.simps)
  next
    case (OpBatch io ds)
    then show ?thesis using seg_holds_WriteBatch [OF \<open>seg_holds s rs\<close>, of io ds]
      by (simp only: seg_exec.simps seg_added.simps)
  next
    case (OpSeal io)
    then show ?thesis using seg_holds_Seal [OF \<open>seg_holds s rs\<close>, of io] by simp
  qed
qed

lemma seg_holds_opened:
  "opens io sz \<Longrightarrow> OpenSegmentFile io path sid sz opt None = Inr s \<Longrightarrow> seg_holds s [] \<and> seg_mmapSize s = sz"
  using OpenSegmentFile_new [of io sz path sid opt] seg_inv_offset [of s "[]"] by (auto simp: seg_holds_def)

lemma seg_exec_mmapSize [simp]: "seg_mmapSize (seg_exec x s) = seg_mmapSize s"
  by (cases x) (auto simp: seg_Write_def seg_WriteBatch_def SealSegment_def Let_def split: sum.splits prod.splits)

lemma seg_run_mmapSize [simp]: "seg_mmapSize (fold seg_exec xs s) = seg_mmapSize s"
  by (induction xs arbitrary: s) simp_all

lemma opened_fields:
  "OpenSegmentFile io path sid sz opt file = Inr s \<Longrightarrow> seg_syncOption s = opt \<and> seg_id s = sid
    \<and> seg_mmapSize s = sz \<and> seg_state s = StateOpen \<and> seg_path s = path \<and> reg_ids s = {}
    \<and> \<not> seg_closed s \<and> \<not> seg_unmapped s \<and> \<not> seg_markedForDeletion s \<and> seg_readerIDCounter s = 0
    \<and> \<not> seg_inMemorySealed s"
  by (auto simp: OpenSegmentFile_def Let_def split: sum.splits if_splits)

lemma seg_holds_reopen:
  assumes "seg_holds s rs" "opens io (seg_mmapSize s)" "\<forall>d \<in> set rs. sum_of d \<noteq> 0"
  shows "\<exists>s'. OpenSegmentFile io path sid (seg_mmapSize s) opt (Some (seg_mmapData s)) = Inr s' \<and> seg_holds s' rs
    \<and> seg_isSealed s' = seg_isSealed s \<and> readable s'"
proof -
  have "\<exists>s'. OpenSegmentFile io path sid (seg_mmapSize s) opt (Some (seg_mmapData s)) = Inr s' \<and> seg_inv s' rs
    \<and> seg_isSealed s' = seg_isSealed s \<and> seg_mmapData s' = seg_mmapData s \<and> seg_writeOffset s' = seg_writeOffset s"
  proof (cases "seg_isSealed s")
    case True
    with assms reopen_sealed [of s rs io path sid opt] show ?thesis by (auto simp: seg_holds_def)
  next
    case False
    with assms reopen_unsealed [of s rs io path sid opt] show ?thesis by (auto simp: seg_holds_def writable_def)
  qed
  then obtain s' where s': "OpenSegmentFile io path sid (seg_mmapSize s) opt (Some (seg_mmapData s)) = Inr s'"
    "seg_inv s' rs" "seg_isSealed s' = seg_isSealed s" "seg_mmapData s' = seg_mmapData s"
    "seg_writeOffset s' = seg_writeOffset s" by blast
  then show ?thesis using assms(1) opened_fields [OF s'(1)] by (auto simp: seg_holds_def readable_def)
qed

text \<open>A record whose checksum is zero ends the recovery scan.\<close>

lemma reopen_zero_sum:
  assumes "seg_inv s (xs @ d # ys)" "\<not> seg_isSealed s" "sum_of d = 0" "\<forall>x \<in> set xs. sum_of x \<noteq> 0"
    and "opens io (seg_mmapSize s)"
  shows "\<exists>s'. OpenSegmentFile io path sid (seg_mmapSize s) opt (Some (seg_mmapData s)) = Inr s' \<and> seg_inv s' xs
    \<and> seg_writeOffset s' = 64 + run_size xs"
proof -
  let ?m = "seg_mmapData s" and ?e = "64 + run_size xs"
  have fr: "frames_at ?m 64 xs ?e" "frame_at ?m ?e d" and len: "length ?m = seg_mmapSize s"
    and sz: "64 \<le> seg_mmapSize s" "seg_mmapSize s \<le> maxSegmentSize"
    using assms(1,5) frames_at_end by (auto simp: seg_inv_def frames_at_append opens_def)
  have no: "\<nexists>d'. good_frame ?m ?e d'"
  proof
    assume "\<exists>d'. good_frame ?m ?e d'"
    then obtain d' where d': "frame_at ?m ?e d'" "sum_of d' \<noteq> 0" by (auto simp: good_frame_def)
    have "d = d'" by (rule frame_at_unique [OF fr(2) d'(1)]) (use len sz in simp_all)
    with assms(3) d'(2) show False by simp
  qed
  have small: "unat (len_field ?m ?e) < 4294967280"
    using frame_at_len [OF fr(2)] len sz by simp
  have "scanForLastOffset (seg_mmapSize s) ?m = Inr ?e"
    using scan_complete [OF fr(1) assms(4) no len sz] small by auto
  with assms sz len fr(1) frames_at_bound [OF fr(1)] show ?thesis
    by (simp add: OpenSegmentFile_existing decode_header seg_inv_def Let_def)
qed

end
