(* ===== verification/SegmentProps.thy ===== *)
theory SegmentProps
  imports SegmentLog
begin

text \<open>
  The properties of the segment component (\<open>pkg/walfs/segment.go\<close>, \<open>pkg/walfs/util.go\<close>), each with a
  concrete instance: a fresh segment of 4096 bytes in an environment whose system calls succeed.
\<close>

section \<open>A concrete segment\<close>

definition io_good :: ioenv where
  "io_good = \<lparr>io_now = 1700000000, io_stat_ok = True, io_open_ok = True, io_mmap_ok = True,
     io_msync_ok = True, io_fsync_ok = True, io_unmap_ok = True, io_close_ok = True,
     io_remove_ok = True, io_dirsync_ok = True\<rparr>"

definition fresh :: Segment where
  "fresh = projr (OpenSegmentFile io_good ''000000001.seg'' 1 4096 MsyncNone None)"

lemma opens_good [simp]: "64 \<le> sz \<Longrightarrow> sz \<le> maxSegmentSize \<Longrightarrow> opens io_good sz"
  by (simp add: opens_def io_good_def)

lemma fresh_open: "OpenSegmentFile io_good ''000000001.seg'' 1 4096 MsyncNone None = Inr fresh"
  using OpenSegmentFile_new [of io_good 4096 "''000000001.seg''" 1 MsyncNone] by (auto simp: fresh_def)

lemma fresh_facts:
  "seg_holds fresh []" "seg_inv fresh []" "writable fresh" "seg_id fresh = 1" "seg_mmapSize fresh = 4096"
  "seg_writeOffset fresh = 64" "life_inv fresh" "\<not> msync_fails io fresh" "seg_syncOption fresh = MsyncNone"
proof -
  show "seg_inv fresh []" "writable fresh" "seg_id fresh = 1" "seg_mmapSize fresh = 4096"
    using OpenSegmentFile_new [of io_good 4096 "''000000001.seg''" 1 MsyncNone] fresh_open by auto
  then show "seg_writeOffset fresh = 64" using seg_inv_offset [of fresh "[]"] by simp
  show "seg_holds fresh []" using seg_holds_opened [OF _ fresh_open] by simp
  show "life_inv fresh" using fresh_open by (rule life_inv_opened)
  show "seg_syncOption fresh = MsyncNone"
    using opened_fields [OF fresh_open] by simp
  then show "\<not> msync_fails io fresh" by (simp add: msync_fails_def)
qed

lemma entrySizeOf_small: "length d \<le> 100 \<Longrightarrow> entrySizeOf d \<le> 120"
  by (simp add: entrySizeOf_def alignUp_eq)

section \<open>Writing and reading\<close>

text \<open>C7. \<open>Segment.Write\<close> on an open, unsealed segment with room for the record returns the position of
  the old write offset, appends exactly that record to the contents, and \<open>Read\<close> at the returned
  position gives the record back, with the position just behind it; every record written before is
  still read unchanged at its own position.\<close>

theorem segment_write_read:
  assumes "seg_inv s rs" "writable s" "seg_writeOffset s + entrySizeOf d \<le> seg_mmapSize s"
    and "\<not> msync_fails io s"
  shows "\<exists>s'. seg_Write io d s = (s', Inr \<lparr>SegmentID = seg_id s, Offset = int (seg_writeOffset s)\<rparr>)
    \<and> seg_inv s' (rs @ [d])
    \<and> seg_Read (seg_writeOffset s) s'
       = Inr (d, \<lparr>SegmentID = seg_id s, Offset = int (seg_writeOffset s + entrySizeOf d)\<rparr>)
    \<and> (\<forall>xs x ys. rs = xs @ x # ys \<longrightarrow> seg_Read (64 + run_size xs) s' = seg_Read (64 + run_size xs) s
        \<and> seg_Read (64 + run_size xs) s = Inr (x, \<lparr>SegmentID = seg_id s, Offset = int (64 + run_size xs + entrySizeOf x)\<rparr>))"
proof -
  let ?s = "appended io d s"
  have wr: "seg_Write io d s = (?s, Inr \<lparr>SegmentID = seg_id s, Offset = int (seg_writeOffset s)\<rparr>)"
    using assms by (simp add: seg_Write_ok)
  have inv: "seg_inv ?s (rs @ [d])" using assms by (auto intro: seg_inv_appended simp: writable_def)
  have "seg_Read (64 + run_size rs) ?s =
      Inr (d, \<lparr>SegmentID = seg_id s, Offset = int (64 + run_size rs + entrySizeOf d)\<rparr>)"
    using seg_Read_record [of ?s rs d "[]"] inv assms(2) by (simp add: writable_def)
  moreover have "seg_Read (64 + run_size xs) ?s = Inr (x, \<lparr>SegmentID = seg_id s, Offset = int (64 + run_size xs + entrySizeOf x)\<rparr>)
      \<and> seg_Read (64 + run_size xs) s = Inr (x, \<lparr>SegmentID = seg_id s, Offset = int (64 + run_size xs + entrySizeOf x)\<rparr>)"
    if "rs = xs @ x # ys" for xs x ys
    using seg_Read_record [of ?s xs x "ys @ [d]"] seg_Read_record [of s xs x ys] inv assms(1,2) that
    by (simp add: writable_def)
  ultimately show ?thesis using wr inv seg_inv_offset [OF assms(1)] by auto
qed

theorem segment_write_read_witness:
  "seg_writeOffset fresh = 64 \<and> (\<exists>s'. seg_Write io_good [1, 2, 3] fresh = (s', Inr \<lparr>SegmentID = 1, Offset = 64\<rparr>)
    \<and> seg_inv s' [[1, 2, 3]] \<and> seg_Read 64 s' = Inr ([1, 2, 3], \<lparr>SegmentID = 1, Offset = 88\<rparr>))"
  using segment_write_read [of fresh "[]" "[1, 2, 3]" io_good] fresh_facts
  by (simp add: entrySizeOf_def alignUp_eq)

text \<open>C10. \<open>Segment.WriteBatch\<close> of records that each fit an empty segment stores the longest prefix of
  the batch that fits, returns the positions of that prefix, and leaves the segment byte for byte as the
  same number of single \<open>Write\<close> calls would; what does not fit is reported by \<open>ErrSegmentFull\<close> and
  left to the caller.\<close>

theorem segment_batch_is_writes:
  assumes "seg_inv s rs" "writable s" "ds \<noteq> []" "\<forall>d \<in> set ds. 64 + entrySizeOf d \<le> seg_mmapSize s"
    and "\<not> msync_fails io s"
  shows "\<exists>n. n \<le> length ds \<and> seg_WriteBatch io ds s = (seq_Write io (take n ds) s,
        positions (seg_id s) (seg_writeOffset s) (take n ds), n, if n < length ds then Some ErrSegmentFull else None)
    \<and> seg_inv (seq_Write io (take n ds) s) (rs @ take n ds)
    \<and> (n < length ds \<longrightarrow> seg_mmapSize s < seg_writeOffset s + run_size (take (Suc n) ds))"
proof -
  let ?n = "fit_count (seg_mmapSize s) (seg_writeOffset s) ds"
  have fits: "seg_writeOffset s + run_size (take ?n ds) \<le> seg_mmapSize s"
    using assms(1) by (intro fit_count_fits) (simp add: seg_inv_def)
  have seq: "seq_Write io (take ?n ds) s = (if ?n = 0 then s else batched io (take ?n ds) s)"
    using seq_Write_batched [OF assms(1,2) fits, of io] assms(3) by (auto simp: seq_Write_def)
  have "seg_inv (seq_Write io (take ?n ds) s) (rs @ take ?n ds)"
    using seg_inv_batched [OF assms(1) fits, of io] assms(1,2) by (simp add: seq writable_def)
  with fit_count_maximal [of "seg_mmapSize s" "seg_writeOffset s" ds] seg_WriteBatch_ok [OF assms(1-4), of io] assms(3,5) seq
  show ?thesis
    by (intro exI [of _ ?n]) (auto simp: fit_count_le)
qed

theorem segment_batch_is_writes_witness:
  "seg_WriteBatch io_good [[1], [2, 2]] fresh = (seq_Write io_good [[1], [2, 2]] fresh,
      [\<lparr>SegmentID = 1, Offset = 64\<rparr>, \<lparr>SegmentID = 1, Offset = 88\<rparr>], 2, None)"
proof -
  have e: "entrySizeOf [1] = 24" "entrySizeOf [2, 2] = 24" by (simp_all add: entrySizeOf_def alignUp_eq)
  obtain n where n: "n \<le> 2" "seg_WriteBatch io_good [[1], [2, 2]] fresh = (seq_Write io_good (take n [[1], [2, 2]]) fresh,
        positions 1 64 (take n [[1], [2, 2]]), n, if n < 2 then Some ErrSegmentFull else None)"
      "n < 2 \<longrightarrow> 4096 < 64 + run_size (take (Suc n) [[1], [2, 2]])"
    using segment_batch_is_writes [of fresh "[]" "[[1], [2, 2]]" io_good] fresh_facts e by auto
  have "n = 2" using n(1,3) e by (cases n rule: nat.exhaust) (auto simp: le_Suc_eq numeral_2_eq_2)
  with n(2) e show ?thesis by (simp add: numeral_2_eq_2)
qed

section \<open>Recovery\<close>

text \<open>C8. Durability of a segment: run any sequence of \<open>Write\<close>, \<open>WriteBatch\<close> and \<open>SealSegment\<close> calls on a
  newly created segment, whatever their system calls do, and open the file again. If no record has the
  checksum 0, the reopened segment holds exactly the records those calls added, in order, and
  \<open>Read\<close> returns each of them.\<close>

theorem segment_reopen_recovers:
  assumes "OpenSegmentFile io path sid sz opt None = Inr s" "opens io sz"
    and "\<forall>d \<in> set (appends seg_exec seg_added ops s). sum_of d \<noteq> 0"
  shows "\<exists>s'. OpenSegmentFile io path sid sz opt (Some (seg_mmapData (fold seg_exec ops s))) = Inr s'
    \<and> seg_inv s' (appends seg_exec seg_added ops s)
    \<and> (\<forall>xs d ys. appends seg_exec seg_added ops s = xs @ d # ys \<longrightarrow>
        seg_Read (64 + run_size xs) s' = Inr (d, \<lparr>SegmentID = sid, Offset = int (64 + run_size xs + entrySizeOf d)\<rparr>))"
proof -
  let ?rs = "appends seg_exec seg_added ops s" and ?t = "fold seg_exec ops s"
  have "seg_holds s []" and sz: "seg_mmapSize ?t = sz" using seg_holds_opened [OF assms(2,1)] by simp_all
  then have "seg_holds ?t ?rs" using seglog.run_holds [of s "[]" ops] by simp
  then obtain s' where s': "OpenSegmentFile io path sid sz opt (Some (seg_mmapData ?t)) = Inr s'"
      "seg_holds s' ?rs" "readable s'"
    using seg_holds_reopen [of ?t ?rs io path sid opt] assms(2,3) sz by auto
  moreover have "seg_Read (64 + run_size xs) s' = Inr (d, \<lparr>SegmentID = sid, Offset = int (64 + run_size xs + entrySizeOf d)\<rparr>)"
    if "?rs = xs @ d # ys" for xs d ys
    using seg_Read_record [of s' xs d ys] s'(2,3) that opened_fields [OF s'(1)]
    by (simp add: seg_holds_def readable_def)
  ultimately show ?thesis by (auto simp: seg_holds_def)
qed

lemma LE_PutUint32_small:
  assumes "n < 256" shows "LE_PutUint32 (word_of_nat n) = [word_of_nat n, 0, 0, 0]"
proof -
  have four: "(4::nat) = Suc (Suc (Suc (Suc 0)))" by simp
  show ?thesis using assms unfolding LE_PutUint32_def four by (simp add: unat_of_nat)
qed

lemma sum_123: "sum_of [1, 2, 3] \<noteq> 0"
proof -
  have "LE_PutUint32 (word_of_nat (length [1, 2, 3 :: byte])) = [3, 0, 0, 0]"
    using LE_PutUint32_small [of 3] by simp
  then show ?thesis by (simp only: sum_of_def crc32Checksum_def) (simp add: crc_eval)
qed

lemma added_123: "appends seg_exec seg_added [OpWrite io_good [1, 2, 3]] fresh = [[1, 2, 3]]"
  using seg_Write_ok [of fresh "[]" "[1, 2, 3]" io_good] fresh_facts by (simp add: entrySizeOf_def alignUp_eq)

theorem segment_reopen_recovers_witness:
  "appends seg_exec seg_added [OpWrite io_good [1, 2, 3]] fresh = [[1, 2, 3]] \<and>
   (\<exists>s'. OpenSegmentFile io_good ''000000001.seg'' 1 4096 MsyncNone
      (Some (seg_mmapData (fold seg_exec [OpWrite io_good [1, 2, 3]] fresh))) = Inr s' \<and> seg_inv s' [[1, 2, 3]])"
  using segment_reopen_recovers [OF fresh_open, of "[OpWrite io_good [1, 2, 3]]"] sum_123
  unfolding added_123 by (auto simp del: fold.simps)

text \<open>C9. Crash recovery: a file with a valid unsealed header whose record area starts with the records
  \<open>rs\<close>, followed by arbitrary bytes such as a torn write, either opens to a writable segment whose
  contents start with all of \<open>rs\<close> (and continue only with records whose checksum and trailer are
  intact), or the scan panics, and then some length field in the file is at least \<open>2^32 - 16\<close>.\<close>

theorem segment_crash_recovery:
  assumes "opens io sz" "length m = sz" "header_valid m" "\<not> IsSealed (sh_Flags (header_of m))"
    and "frames_at m 64 rs e" "\<forall>d \<in> set rs. sum_of d \<noteq> 0"
  shows "(\<exists>s ds. OpenSegmentFile io path sid sz opt (Some m) = Inr s \<and> seg_inv s (rs @ ds) \<and> writable s
      \<and> (\<forall>d \<in> set ds. sum_of d \<noteq> 0))
    \<or> (\<exists>e'. 4294967280 \<le> unat (len_field m e') \<and> OpenSegmentFile io path sid sz opt (Some m) = Inl Panic)"
  using assms by (rule reopen_torn)

definition torn :: bytes where
  "torn = blit 90 [7, 7, 7, 7] (seg_mmapData (appended io_good [1, 2, 3] fresh))"

lemma fresh_123: "seg_inv (appended io_good [1, 2, 3] fresh) [[1, 2, 3]]"
  using seg_inv_appended [of fresh "[]" "[1, 2, 3]" io_good] fresh_facts
  by (simp add: writable_def entrySizeOf_def alignUp_eq)

lemma torn_facts:
  "length torn = 4096" "header_valid torn" "\<not> IsSealed (sh_Flags (header_of torn))"
  "frames_at torn 64 [[1, 2, 3]] 88"
proof -
  let ?m = "seg_mmapData (appended io_good [1, 2, 3] fresh)"
  have a: "agree 0 88 ?m torn" unfolding torn_def by (rule agree_blit_after) simp
  have inv: "length ?m = 4096" "header_valid ?m" "\<not> IsSealed (sh_Flags (header_of ?m))"
      "frames_at ?m 64 [[1, 2, 3]] (seg_writeOffset (appended io_good [1, 2, 3] fresh))"
    using fresh_123 fresh_facts by (simp_all add: seg_inv_def writable_def)
  have o: "seg_writeOffset (appended io_good [1, 2, 3] fresh) = 88"
    using fresh_facts by (simp add: entrySizeOf_def alignUp_eq)
  show "length torn = 4096" using inv by (simp add: torn_def)
  show "header_valid torn" by (rule header_valid_agree [OF inv(2)], rule agree_mono [OF a]) simp_all
  have "header_of torn = header_of ?m" by (rule header_of_agree, rule agree_mono [OF a]) simp_all
  with inv show "\<not> IsSealed (sh_Flags (header_of torn))" by simp
  show "frames_at torn 64 [[1, 2, 3]] 88"
    by (rule frames_at_agree [OF inv(4)[unfolded o] a]) simp_all
qed

theorem segment_crash_recovery_witness:
  "(\<exists>s ds. OpenSegmentFile io_good ''a'' 1 4096 MsyncNone (Some torn) = Inr s \<and> seg_inv s ([[1, 2, 3]] @ ds) \<and> writable s
      \<and> (\<forall>d \<in> set ds. sum_of d \<noteq> 0))
    \<or> (\<exists>e'. 4294967280 \<le> unat (len_field torn e') \<and> OpenSegmentFile io_good ''a'' 1 4096 MsyncNone (Some torn) = Inl Panic)"
  using segment_crash_recovery [OF opens_good torn_facts(1-4)] sum_123 by simp

text \<open>C14. The panic of the recovery scan: \<open>scanForLastOffset\<close> adds the header and trailer sizes to the
  length field in \<open>uint32\<close>, so a length of \<open>2^32 - 16\<close> or more behind the last good record, with sixteen
  bytes of the file left, passes the bounds check, and slicing the mapping panics: the file cannot be
  opened, although everything before that point is intact.\<close>

theorem segment_scan_overflow_panics:
  assumes "opens io sz" "length m = sz" "header_valid m" "\<not> IsSealed (sh_Flags (header_of m))"
    and "frames_at m 64 rs e" "\<forall>d \<in> set rs. sum_of d \<noteq> 0" "4294967280 \<le> unat (len_field m e)" "e + 16 \<le> sz"
  shows "OpenSegmentFile io path sid sz opt (Some m) = Inl Panic"
  using scan_overflow [OF assms(5-7,2,8)] assms
  by (simp add: OpenSegmentFile_existing decode_header Let_def opens_def)

definition overlong :: bytes where
  "overlong = blit 68 [240, 255, 255, 255] (seg_mmapData fresh)"

lemma overlong_facts:
  "length overlong = 4096" "header_valid overlong" "\<not> IsSealed (sh_Flags (header_of overlong))"
  "unat (len_field overlong 64) = 4294967280"
proof -
  have a: "agree 0 64 (seg_mmapData fresh) overlong" unfolding overlong_def by (rule agree_blit_after) simp
  have inv: "length (seg_mmapData fresh) = 4096" "header_valid (seg_mmapData fresh)"
      "\<not> IsSealed (sh_Flags (header_of (seg_mmapData fresh)))"
    using fresh_facts by (simp_all add: seg_inv_def writable_def)
  show "length overlong = 4096" using inv by (simp add: overlong_def)
  show "header_valid overlong" by (rule header_valid_agree [OF inv(2) a])
  have "header_of overlong = header_of (seg_mmapData fresh)"
    by (rule header_of_agree, rule agree_mono [OF a]) simp_all
  with inv show "\<not> IsSealed (sh_Flags (header_of overlong))" by simp
  have "bslice 68 72 overlong = [240, 255, 255, 255]"
    unfolding overlong_def by (rule bslice_blit_same) (simp_all add: inv)
  moreover have "LE_Uint32 [240, 255, 255, 255] = 4294967280" by (simp add: LE_Uint32_def)
  ultimately show "unat (len_field overlong 64) = 4294967280" by (simp add: len_field_def)
qed

theorem segment_scan_overflow_panics_witness:
  "OpenSegmentFile io_good ''a'' 1 4096 MsyncNone (Some overlong) = Inl Panic"
  using segment_scan_overflow_panics [OF opens_good overlong_facts(1-3), of "[]" 64] overlong_facts(4) by simp

text \<open>C15. A committed record whose CRC-32C is 0 is treated as the end of the log: after reopening, that
  record and every record behind it are gone, although \<open>Write\<close> accepted them and nothing is corrupt.\<close>

theorem segment_zero_checksum_loses_tail:
  assumes "seg_inv s (xs @ d # ys)" "\<not> seg_isSealed s" "sum_of d = 0" "\<forall>x \<in> set xs. sum_of x \<noteq> 0"
    and "opens io (seg_mmapSize s)"
  shows "\<exists>s'. OpenSegmentFile io path sid (seg_mmapSize s) opt (Some (seg_mmapData s)) = Inr s' \<and> seg_inv s' xs
    \<and> seg_writeOffset s' = 64 + run_size xs"
  using assms by (rule reopen_zero_sum)

lemma sum_zero: "sum_of [159, 225, 165, 168] = 0"
proof -
  have "LE_PutUint32 (word_of_nat (length [159, 225, 165, 168 :: byte])) = [4, 0, 0, 0]"
    using LE_PutUint32_small [of 4] by simp
  then show ?thesis by (simp only: sum_of_def crc32Checksum_def) (simp add: crc_eval)
qed

theorem segment_zero_checksum_loses_tail_witness:
  "\<exists>s s'. seg_Write io_good [159, 225, 165, 168] fresh = (s, Inr \<lparr>SegmentID = 1, Offset = 64\<rparr>)
    \<and> seg_inv s [[159, 225, 165, 168]]
    \<and> OpenSegmentFile io_good ''a'' 1 (seg_mmapSize s) MsyncNone (Some (seg_mmapData s)) = Inr s' \<and> seg_inv s' []"
proof -
  let ?s = "appended io_good [159, 225, 165, 168] fresh"
  have inv: "seg_inv ?s ([] @ [159, 225, 165, 168] # [])"
    using seg_inv_appended [of fresh "[]" "[159, 225, 165, 168]" io_good] fresh_facts
    by (simp add: writable_def entrySizeOf_def alignUp_eq)
  have "\<not> seg_isSealed ?s" "opens io_good (seg_mmapSize ?s)" using fresh_facts by (simp_all add: writable_def)
  from segment_zero_checksum_loses_tail [OF inv this(1) sum_zero _ this(2), of "''a''" 1 MsyncNone]
  obtain s' where "OpenSegmentFile io_good ''a'' 1 (seg_mmapSize ?s) MsyncNone (Some (seg_mmapData ?s)) = Inr s'"
      "seg_inv s' []" by auto
  moreover have "seg_Write io_good [159, 225, 165, 168] fresh = (?s, Inr \<lparr>SegmentID = 1, Offset = 64\<rparr>)"
    using fresh_facts by (subst seg_Write_ok) (auto simp: entrySizeOf_def alignUp_eq)
  ultimately show ?thesis using inv by auto
qed

section \<open>Sealing\<close>

text \<open>C13. \<open>SealSegment\<close> keeps the contents and makes them immutable: the header is valid, carries the sealed
  flag without the active one and the exact write offset; every later \<open>Write\<close> is refused with
  \<open>ErrSegmentSealed\<close> and changes nothing; and reopening the file with the same size gives back the same
  records without a scan.\<close>

theorem segment_seal:
  assumes "seg_inv s rs" "writable s" "opens io (seg_mmapSize s)"
  shows "\<exists>s'. SealSegment io s = (s', None) \<and> seg_inv s' rs \<and> seg_isSealed s'
    \<and> IsSealed (sh_Flags (header_of (seg_mmapData s'))) \<and> \<not> IsActive (sh_Flags (header_of (seg_mmapData s')))
    \<and> sh_WriteOffset (header_of (seg_mmapData s')) = int (seg_writeOffset s)
    \<and> (\<forall>io' d. seg_Write io' d s' = (s', Inl ErrSegmentSealed))
    \<and> (\<exists>t. OpenSegmentFile io path sid (seg_mmapSize s) opt (Some (seg_mmapData s')) = Inr t \<and> seg_inv t rs \<and> seg_isSealed t)"
proof -
  let ?s = "sealed io s"
  have st: "\<not> seg_closed s" "\<not> seg_unmapped s" "seg_state s = StateOpen" using assms(2) by (simp_all add: writable_def)
  have inv: "seg_inv ?s rs" "seg_isSealed ?s" using assms(1) st by (auto intro: seg_inv_sealed)
  have "\<not> IsActive (sh_Flags (header_of (seg_mmapData ?s)))"
    by (rule sealed_not_active) (use assms(1) st in auto)
  moreover have "seg_Write io' d ?s = (?s, Inl ErrSegmentSealed)" for io' d
    using seg_inv_flags [OF inv(1)] inv(2) st by (simp add: seg_Write_def)
  moreover have "\<exists>t. OpenSegmentFile io path sid (seg_mmapSize s) opt (Some (seg_mmapData ?s)) = Inr t \<and> seg_inv t rs \<and> seg_isSealed t"
    using reopen_sealed [OF inv, of io path sid opt] assms(3) by auto
  ultimately show ?thesis
    using inv SealSegment_ok [of s io] st by (auto simp: seg_inv_def)
qed

theorem segment_seal_witness:
  "\<exists>s'. SealSegment io_good fresh = (s', None) \<and> seg_inv s' [] \<and> (\<forall>io' d. seg_Write io' d s' = (s', Inl ErrSegmentSealed))"
  using segment_seal [of fresh "[]" io_good "''a''" 1 MsyncNone] fresh_facts by auto

section \<open>Readers\<close>

text \<open>C12. A reader made by \<open>NewReader\<close> and driven by \<open>Next\<close> returns every record of the segment once, in the
  order they were written and with the position of each; then it reports \<open>io.EOF\<close> on a sealed segment and
  \<open>ErrNoNewData\<close> on one that may still grow.\<close>

theorem segment_reader_complete:
  assumes "seg_inv s rs" "life_inv s" "NewReader s = Some (s', r)" "length rs < n"
  shows "drain n s' r = (zip rs (positions (seg_id s) 64 rs), Some (if seg_isSealed s then EOF else ErrNoNewData))"
proof -
  have reg: "registerReader s = (s', r)" and st: "seg_state s = StateOpen"
    using assms(3) by (auto simp: NewReader_def readerAllowed_def split: if_splits)
  have inv: "seg_inv s' ([] @ rs)" "seg_id s' = seg_id s" "seg_isSealed s' = seg_isSealed s"
    using assms(1) reg by (auto simp: registerReader_def incrRef_def Let_def seg_inv_def)
  have "readable s'" "reader_at r []"
    using registerReader_fields [OF reg] assms(2) st by (auto simp: readable_def life_inv_def reader_at_def)
  from drain_all [OF inv(1) this assms(4)] inv show ?thesis by simp
qed

theorem segment_reader_complete_witness:
  "\<exists>s' r. NewReader fresh = Some (s', r) \<and> drain 1 s' r = ([], Some ErrNoNewData)"
proof -
  obtain s' r where nr: "NewReader fresh = Some (s', r)"
    using opened_fields [OF fresh_open] by (cases "registerReader fresh") (auto simp: NewReader_def readerAllowed_def)
  with segment_reader_complete [OF fresh_facts(2,7) nr, of 1] fresh_facts(3) show ?thesis
    by (auto simp: writable_def)
qed



text \<open>C16. The check of \<open>NewReader\<close> and its registration are separate steps. When \<open>MarkForDeletion\<close> runs
  between them on a segment without readers, the caller gets a reader of a segment that is already unmapped;
  its \<open>Next\<close> returns \<open>ErrClosed\<close>, or, when the final sync of the deletion failed, panics on the released
  mapping.\<close>

theorem segment_new_reader_race:
  assumes "life_inv s" "rt_ids (seg_activeReaders s) = {}" "readerAllowed s" "64 < seg_writeOffset s" "72 \<le> seg_mmapSize s"
  shows "\<exists>s1 s2 r. MarkForDeletion io s = Some s1 \<and> registerReader s1 = (s2, r)
    \<and> seg_unmapped s2 \<and> rd_id r \<in> rt_ids (seg_activeReaders s2)
    \<and> snd (reader_Next s2 r) = Inl (if io_msync_ok io \<and> io_fsync_ok io then ErrClosed else Panic)"
  using assms by (rule NewReader_race)

theorem segment_new_reader_race_witness:
  "\<exists>s1 s2 r. MarkForDeletion (io_good\<lparr>io_fsync_ok := False\<rparr>) (appended io_good [1, 2, 3] fresh) = Some s1
    \<and> registerReader s1 = (s2, r) \<and> snd (reader_Next s2 r) = Inl Panic"
proof -
  let ?s = "appended io_good [1, 2, 3] fresh"
  have "same_life fresh ?s" by (simp add: same_life_def appended_def Let_def)
  then have l: "life_inv ?s" and "rt_ids (seg_activeReaders ?s) = {}" "readerAllowed ?s"
    using life_inv_same [OF fresh_facts(7)] opened_fields [OF fresh_open] by (auto simp: same_life_def readerAllowed_def)
  from segment_new_reader_race [OF this, of "io_good\<lparr>io_fsync_ok := False\<rparr>"] fresh_facts
  show ?thesis using entrySizeOf_pos [of "[1, 2, 3]"] by auto
qed

lemma rp_decode_blits:
  assumes "length b = 12" "is_int64 (Offset p)"
  shows "DecodeRecordPosition (blit 4 (LE_PutUint64 (word_of_int (Offset p))) (blit 0 (LE_PutUint32 (SegmentID p)) b)) = Inr p"
  using assms by (simp add: DecodeRecordPosition_def buf_simps)

lemma rp_decode_encode: "is_int64 (Offset p) \<Longrightarrow> DecodeRecordPosition (rp_Encode p) = Inr p"
  unfolding rp_Encode_def by (rule rp_decode_blits) simp_all

lemma rp_decode_encode_to: "is_int64 (Offset p) \<Longrightarrow> DecodeRecordPosition (EncodeRecordPositionTo p buf) = Inr p"
  unfolding EncodeRecordPositionTo_def Let_def by (rule rp_decode_blits) simp_all

text \<open>C17. A record position survives its 12-byte encoding, both through \<open>Encode\<close> and through
  \<open>EncodeRecordPositionTo\<close> with any buffer, for every segment id and every \<open>int64\<close> offset; distinct positions have
  distinct encodings, and a shorter buffer is refused.\<close>

theorem record_position_round_trip:
  assumes "is_int64 (Offset p)" "is_int64 (Offset q)"
  shows "DecodeRecordPosition (rp_Encode p) = Inr p \<and> DecodeRecordPosition (EncodeRecordPositionTo p buf) = Inr p
    \<and> (rp_Encode p = rp_Encode q \<longleftrightarrow> p = q) \<and> length (rp_Encode p) = 12
    \<and> (length buf < 12 \<longrightarrow> DecodeRecordPosition buf = Inl ErrUnexpectedEOF)"
proof (intro conjI impI)
  show p: "DecodeRecordPosition (rp_Encode p) = Inr p" using assms(1) by (rule rp_decode_encode)
  show "DecodeRecordPosition (EncodeRecordPositionTo p buf) = Inr p"
    using assms(1) by (rule rp_decode_encode_to)
  show "rp_Encode p = rp_Encode q \<longleftrightarrow> p = q" using p rp_decode_encode [OF assms(2)] by (metis sum.inject(2))
  show "length (rp_Encode p) = 12" by (simp add: rp_Encode_def)
  show "length buf < 12 \<Longrightarrow> DecodeRecordPosition buf = Inl ErrUnexpectedEOF" by (simp add: DecodeRecordPosition_def)
qed

theorem record_position_round_trip_witness:
  "DecodeRecordPosition (rp_Encode \<lparr>SegmentID = 7, Offset = 4096\<rparr>) = Inr \<lparr>SegmentID = 7, Offset = 4096\<rparr>"
  using record_position_round_trip [of "\<lparr>SegmentID = 7, Offset = 4096\<rparr>" "\<lparr>SegmentID = 7, Offset = 4096\<rparr>" "[]"]
  by (simp add: is_int64_def)

end
