(* ===== verification/SegmentNames.thy ===== *)
theory SegmentNames
  imports Prelude
begin

text \<open>
  Names of segment files: \<open>SegmentFileName\<close> of \<open>pkg/walfs/segment.go\<close> (the \<open>"%09d"\<close> verb of \<open>fmt\<close>) and the
  parsing of directory entries in \<open>WALog.recoverSegments\<close> (\<open>strings.HasSuffix\<close>, \<open>strings.TrimSuffix\<close> and
  \<open>strconv.ParseUint\<close> with base 10 and 32 bits). Names are relative to the log's directory.
\<close>

section \<open>Decimal numerals\<close>

definition digit :: "nat \<Rightarrow> char" where
  "digit d = char_of (48 + d)"

definition is_digit :: "char \<Rightarrow> bool" where
  "is_digit c \<longleftrightarrow> 48 \<le> (of_char c :: nat) \<and> (of_char c :: nat) \<le> 57"

definition digit_val :: "char \<Rightarrow> nat" where
  "digit_val c = of_char c - 48"

fun decimal :: "nat \<Rightarrow> string" where
  "decimal n = (if n < 10 then [digit n] else decimal (n div 10) @ [digit (n mod 10)])"

declare decimal.simps [simp del]

definition decimal_val :: "string \<Rightarrow> nat" where
  "decimal_val cs = fold (\<lambda>c v. 10 * v + digit_val c) cs 0"

definition format09d :: "nat \<Rightarrow> string" where
  "format09d n = replicate (9 - length (decimal n)) (digit 0) @ decimal n"

definition ParseUint32 :: "string \<Rightarrow> nat option" where
  "ParseUint32 cs = (if cs = [] \<or> \<not> list_all is_digit cs then None
     else if decimal_val cs \<ge> 2 ^ 32 then None else Some (decimal_val cs))"

section \<open>Names\<close>

definition SegmentFileName :: "string \<Rightarrow> u32 \<Rightarrow> string" where
  "SegmentFileName ext sid = format09d (unat sid) @ ext"

definition HasSuffix :: "string \<Rightarrow> string \<Rightarrow> bool" where
  "HasSuffix name ext \<longleftrightarrow> length ext \<le> length name \<and> drop (length name - length ext) name = ext"

definition TrimSuffix :: "string \<Rightarrow> string \<Rightarrow> string" where
  "TrimSuffix name ext = (if HasSuffix name ext then take (length name - length ext) name else name)"

text \<open>The id of a directory entry, when it is a segment file.\<close>

definition segmentIDOf :: "string \<Rightarrow> string \<Rightarrow> u32 option" where
  "segmentIDOf ext name = (if \<not> HasSuffix name ext then None
     else map_option word_of_nat (ParseUint32 (TrimSuffix name ext)))"

section \<open>Round trip\<close>

lemma of_char_digit: "d < 10 \<Longrightarrow> (of_char (digit d) :: nat) = 48 + d"
  by (simp add: digit_def)

lemma digit_facts [simp]: "d < 10 \<Longrightarrow> is_digit (digit d)" "d < 10 \<Longrightarrow> digit_val (digit d) = d"
  by (simp_all add: is_digit_def digit_val_def of_char_digit)

lemma decimal_ne [simp]: "decimal n \<noteq> []"
  by (subst decimal.simps) simp

lemma decimal_digits: "list_all is_digit (decimal n)"
  by (induction n rule: decimal.induct) (subst decimal.simps, simp)

lemma decimal_val_append: "decimal_val (cs @ ds) = fold (\<lambda>c v. 10 * v + digit_val c) ds (decimal_val cs)"
  by (simp add: decimal_val_def)

lemma decimal_val_decimal [simp]: "decimal_val (decimal n) = n"
proof (induction n rule: decimal.induct)
  case (1 n)
  then show ?case by (subst decimal.simps) (simp add: decimal_val_append decimal_val_def)
qed

lemma decimal_val_zeros: "decimal_val (replicate k (digit 0) @ cs) = decimal_val cs"
proof -
  have "decimal_val (replicate k (digit 0)) = 0"
    by (induction k) (simp_all add: decimal_val_def)
  then show ?thesis by (simp only: decimal_val_append) (simp add: decimal_val_def)
qed

lemma ParseUint32_format: "n < 2 ^ 32 \<Longrightarrow> ParseUint32 (format09d n) = Some n"
  by (simp add: ParseUint32_def format09d_def decimal_val_zeros decimal_digits list_all_append)
    (simp add: list_all_iff)

lemma segmentIDOf_name [simp]: "segmentIDOf ext (SegmentFileName ext sid) = Some sid"
proof -
  have "unat sid < 2 ^ 32" using unsigned_less [of sid] by simp
  from ParseUint32_format [OF this] show ?thesis
    by (simp add: segmentIDOf_def SegmentFileName_def HasSuffix_def TrimSuffix_def)
qed

lemma SegmentFileName_inj [simp]: "SegmentFileName ext a = SegmentFileName ext b \<longleftrightarrow> a = b"
  using segmentIDOf_name [of ext a] segmentIDOf_name [of ext b] by (metis option.inject)

end
