(* ===== verification/WALog.thy ===== *)
theory WALog
  imports SegmentLog SegmentNames
begin

text \<open>
  \<open>pkg/walfs/walog.go\<close>: the log over many segments. The Go maps, the current segment, the snapshot for
  readers and the deletion queue share pointers to \<open>Segment\<close> objects; here the objects live in
  \<open>wl_heap\<close>, addressed by segment id, and the other fields hold ids. \<open>wl_files\<close> is the rest of the
  directory: the files that no open segment maps. The operations take the outcome of the system calls as
  an \<open>ioenv\<close>; those that loop take one for each round.
\<close>

section \<open>State\<close>

record WALog =
  wl_ext :: string
  wl_maxSegmentSize :: nat
  wl_bytesPerSync :: int
  wl_unSynced :: int
  wl_forceSyncEveryWrite :: MsyncOption
  wl_bytesPerSyncCalled :: int
  wl_segmentRotated :: int
  wl_currentSegment :: "u32 option"
  wl_segments :: "u32 list"
  wl_segmentSnapshot :: "u32 list"
  wl_segmentMaxAge :: int
  wl_minSegmentsToRetain :: int
  wl_maxSegmentsToRetain :: int
  wl_enableAutoCleanup :: bool
  wl_pendingDeletion :: "u32 list"
  wl_heap :: "u32 \<rightharpoonup> Segment"
  wl_files :: "string \<rightharpoonup> bytes"

definition put_segment :: "u32 \<Rightarrow> Segment \<Rightarrow> WALog \<Rightarrow> WALog" where
  "put_segment sid s w = w\<lparr>wl_heap := (wl_heap w)(sid \<mapsto> s)\<rparr>"

definition recordOverhead :: "nat \<Rightarrow> nat" where
  "recordOverhead dataLen = alignUp dataLen + recordHeaderSize + recordTrailerMarkerSize"

section \<open>Opening and recovery\<close>

text \<open>A new file that cannot be made durable is closed again, but stays in the directory.\<close>

definition openSegment :: "ioenv \<Rightarrow> u32 \<Rightarrow> WALog \<Rightarrow> WALog \<times> (error + Segment)" where
  "openSegment io sid w =
    (let name = SegmentFileName (wl_ext w) sid; file = wl_files w name in
     case isNewSegment io file of Inl e \<Rightarrow> (w, Inl (Wrapped ''checking segment state'' e))
     | Inr isNew \<Rightarrow>
       case OpenSegmentFile io name sid (wl_maxSegmentSize w) (wl_forceSyncEveryWrite w) file of
         Inl e \<Rightarrow> (w, Inl e)
       | Inr seg \<Rightarrow>
         if isNew \<and> \<not> io_dirsync_ok io
           then (w\<lparr>wl_files := (wl_files w)(name \<mapsto> seg_mmapData seg)\<rparr>,
                 Inl (Wrapped ''fsync wal directory'' (ErrMsg ''sync'')))
         else (w, Inr seg))"

definition snapshotSegments :: "WALog \<Rightarrow> WALog" where
  "snapshotSegments w = w\<lparr>wl_segmentSnapshot := sort (wl_segments w)\<rparr>"

text \<open>Storing an opened segment under its id, in the segment map and as the current segment.\<close>

definition addCurrent :: "u32 \<Rightarrow> Segment \<Rightarrow> WALog \<Rightarrow> WALog" where
  "addCurrent sid seg w =
    (put_segment sid seg w)\<lparr>wl_segments := (if sid \<in> set (wl_segments w) then wl_segments w
       else wl_segments w @ [sid]), wl_currentSegment := Some sid\<rparr>"

fun recoverLoop :: "(nat \<Rightarrow> ioenv) \<Rightarrow> u32 list \<Rightarrow> WALog \<Rightarrow> error + WALog" where
  "recoverLoop io [] w = Inr w"
| "recoverLoop io (sid # rest) w =
    (case openSegment (io 0) sid w of
       (_, Inl e) \<Rightarrow> Inl (Wrapped ''failed to open segment'' e)
     | (w1, Inr seg) \<Rightarrow>
       case GetFlags seg of Inl e \<Rightarrow> Inl e
       | Inr flags \<Rightarrow>
         let (seg', err) = (if rest \<noteq> [] \<and> \<not> IsSealed flags then SealSegment (io 0) seg else (seg, None)) in
         case err of Some e \<Rightarrow> Inl e
         | None \<Rightarrow> recoverLoop (\<lambda>i. io (Suc i)) rest (addCurrent sid seg' w1))"

definition recoverSegments :: "(nat \<Rightarrow> ioenv) \<Rightarrow> string list \<Rightarrow> WALog \<Rightarrow> error + WALog" where
  "recoverSegments io listing w =
    (let segmentIDs = sort (List.map_filter (segmentIDOf (wl_ext w)) listing) in
     if segmentIDs = [] then
       (case openSegment (io 0) 1 w of
          (_, Inl e) \<Rightarrow> Inl (Wrapped ''failed to create initial segment'' e)
        | (w1, Inr seg) \<Rightarrow> Inr (snapshotSegments (addCurrent 1 seg w1)))
     else map_sum id snapshotSegments (recoverLoop io segmentIDs w))"

text \<open>\<open>NewWALog\<close> with its options applied. \<open>listing\<close> holds the names of the plain files of the
  directory and \<open>files\<close> their contents.\<close>

record WALogConfig =
  cfg_ext :: string
  cfg_maxSegmentSize :: nat
  cfg_bytesPerSync :: int
  cfg_forceSyncEveryWrite :: MsyncOption
  cfg_segmentMaxAge :: int
  cfg_minSegmentsToRetain :: int
  cfg_maxSegmentsToRetain :: int
  cfg_enableAutoCleanup :: bool

definition segmentSize :: nat where
  "segmentSize = 16 * 1024 * 1024"

definition defaultConfig :: "string \<Rightarrow> WALogConfig" where
  "defaultConfig ext = \<lparr>cfg_ext = ext, cfg_maxSegmentSize = segmentSize, cfg_bytesPerSync = 0,
     cfg_forceSyncEveryWrite = MsyncNone, cfg_segmentMaxAge = 0, cfg_minSegmentsToRetain = 0,
     cfg_maxSegmentsToRetain = 0, cfg_enableAutoCleanup = False\<rparr>"

definition WithMaxSegmentSize :: "nat \<Rightarrow> WALogConfig \<Rightarrow> WALogConfig" where
  "WithMaxSegmentSize sz sm = sm\<lparr>cfg_maxSegmentSize := sz\<rparr>"

definition WithBytesPerSync :: "int \<Rightarrow> WALogConfig \<Rightarrow> WALogConfig" where
  "WithBytesPerSync bytes sm = sm\<lparr>cfg_bytesPerSync := bytes\<rparr>"

definition WithMSyncEveryWrite :: "bool \<Rightarrow> WALogConfig \<Rightarrow> WALogConfig" where
  "WithMSyncEveryWrite enabled sm = (if enabled then sm\<lparr>cfg_forceSyncEveryWrite := MsyncOnWrite\<rparr> else sm)"

text \<open>The conditional assignments of \<open>WithAutoCleanupPolicy\<close> are overwritten by the unconditional ones behind them.\<close>

definition WithAutoCleanupPolicy :: "int \<Rightarrow> int \<Rightarrow> int \<Rightarrow> bool \<Rightarrow> WALogConfig \<Rightarrow> WALogConfig" where
  "WithAutoCleanupPolicy maxAge minSegments maxSegments enable sm =
    (let sm = (if minSegments > 0 then sm\<lparr>cfg_minSegmentsToRetain := minSegments\<rparr> else sm);
         sm = (if maxSegments > 0 then sm\<lparr>cfg_maxSegmentsToRetain := maxSegments\<rparr> else sm);
         sm = (if maxAge > 0 then sm\<lparr>cfg_segmentMaxAge := maxAge\<rparr> else sm)
     in sm\<lparr>cfg_segmentMaxAge := maxAge, cfg_minSegmentsToRetain := minSegments,
          cfg_maxSegmentsToRetain := maxSegments, cfg_enableAutoCleanup := enable\<rparr>)"

definition NewWALog ::
  "(nat \<Rightarrow> ioenv) \<Rightarrow> WALogConfig \<Rightarrow> string list \<Rightarrow> (string \<rightharpoonup> bytes) \<Rightarrow> error + WALog" where
  "NewWALog io cfg listing files =
    (let manager = \<lparr>wl_ext = cfg_ext cfg, wl_maxSegmentSize = cfg_maxSegmentSize cfg,
       wl_bytesPerSync = cfg_bytesPerSync cfg, wl_unSynced = 0,
       wl_forceSyncEveryWrite = cfg_forceSyncEveryWrite cfg, wl_bytesPerSyncCalled = 0,
       wl_segmentRotated = 0, wl_currentSegment = None, wl_segments = [], wl_segmentSnapshot = [],
       wl_segmentMaxAge = cfg_segmentMaxAge cfg, wl_minSegmentsToRetain = cfg_minSegmentsToRetain cfg,
       wl_maxSegmentsToRetain = cfg_maxSegmentsToRetain cfg, wl_enableAutoCleanup = cfg_enableAutoCleanup cfg,
       wl_pendingDeletion = [], wl_heap = Map.empty, wl_files = files\<rparr>
     in case recoverSegments io listing manager of
          Inl e \<Rightarrow> Inl (Wrapped ''segment recovery failed'' e) | Inr w \<Rightarrow> Inr w)"

section \<open>Rotation\<close>

text \<open>The first half of \<open>rotateSegment\<close>: seal and sync the current segment unless it is sealed.\<close>

definition sealCurrent :: "ioenv \<Rightarrow> WALog \<Rightarrow> WALog \<times> error option" where
  "sealCurrent io w =
    (case wl_currentSegment w of None \<Rightarrow> (w, None)
     | Some sid \<Rightarrow>
       case wl_heap w sid of None \<Rightarrow> (w, None)
       | Some cur \<Rightarrow>
         case GetFlags cur of Inl e \<Rightarrow> (w, Some e)
         | Inr flags \<Rightarrow>
           if IsSealed flags then (w, None)
           else let (cur', err) = SealSegment io cur; w1 = put_segment sid cur' w in
             case err of Some e \<Rightarrow> (w1, Some (Wrapped ''failed to seal current segment'' e))
             | None \<Rightarrow>
               case seg_Sync io cur' of Some e \<Rightarrow> (w1, Some e)
               | None \<Rightarrow> (put_segment sid (MarkSealedInMemory cur') w1, None))"

definition rotateSegment :: "ioenv \<Rightarrow> WALog \<Rightarrow> WALog \<times> error option" where
  "rotateSegment io w =
    (case sealCurrent io w of (w1, Some e) \<Rightarrow> (w1, Some e)
     | (w1, None) \<Rightarrow>
       let newID = (case wl_currentSegment w1 of None \<Rightarrow> 1 | Some sid \<Rightarrow> sid + 1) in
       case openSegment io newID w1 of
         (w2, Inl e) \<Rightarrow> (w2, Some (Wrapped ''failed to create new segment'' e))
       | (w2, Inr seg) \<Rightarrow>
         let w3 = addCurrent newID seg w2 in
         (snapshotSegments (w3\<lparr>wl_bytesPerSyncCalled := 0, wl_segmentRotated := wl_segmentRotated w3 + 1\<rparr>), None))"

section \<open>Writing\<close>

text \<open>The batched msync after a write: it runs when enough bytes have accumulated.\<close>

definition msyncIfDue :: "ioenv \<Rightarrow> Segment \<Rightarrow> WALog \<Rightarrow> WALog \<times> error option" where
  "msyncIfDue io cur w =
    (if wl_bytesPerSync w > 0 \<and> wl_unSynced w \<ge> wl_bytesPerSync w then
       (case seg_MSync io cur of Some e \<Rightarrow> (w, Some e)
        | None \<Rightarrow> (w\<lparr>wl_unSynced := 0, wl_bytesPerSyncCalled := wl_bytesPerSyncCalled w + 1\<rparr>, None))
     else (w, None))"

definition current :: "WALog \<Rightarrow> (u32 \<times> Segment) option" where
  "current w = (case wl_currentSegment w of None \<Rightarrow> None
     | Some sid \<Rightarrow> map_option (\<lambda>s. (sid, s)) (wl_heap w sid))"

definition wl_Write :: "ioenv \<Rightarrow> bytes \<Rightarrow> WALog \<Rightarrow> WALog \<times> (error + RecordPosition)" where
  "wl_Write io data w =
    (case current w of None \<Rightarrow> (w, Inl (ErrMsg ''no active segment''))
     | Some (_, cur) \<Rightarrow>
       let estimatedSize = recordOverhead (length data) in
       if int estimatedSize > int (wl_maxSegmentSize w) - int segmentHeaderSize then (w, Inl ErrRecordTooLarge)
       else
         case (if WillExceed (length data) cur then rotateSegment io w else (w, None)) of
           (w1, Some e) \<Rightarrow> (w1, Inl (Wrapped ''failed to rotate segment'' e))
         | (w1, None) \<Rightarrow>
           case current w1 of None \<Rightarrow> (w1, Inl Panic)
           | Some (sid, cur) \<Rightarrow>
             let (cur', res) = seg_Write io data cur; w2 = put_segment sid cur' w1 in
             case res of Inl e \<Rightarrow> (w2, Inl (Wrapped ''write failed'' e))
             | Inr pos \<Rightarrow>
               case msyncIfDue io cur' (w2\<lparr>wl_unSynced := wl_unSynced w2 + int estimatedSize\<rparr>) of
                 (w3, Some e) \<Rightarrow> (w3, Inl e)
               | (w3, None) \<Rightarrow> (w3, Inr pos))"

text \<open>The loop of \<open>WriteBatch\<close>: it ends by returning, or goes on with the records that are left in a new
  segment. The fuel bounds its rounds.\<close>

fun writeBatchLoop ::
  "nat \<Rightarrow> (nat \<Rightarrow> ioenv) \<Rightarrow> bytes list \<Rightarrow> RecordPosition list \<Rightarrow> WALog
    \<Rightarrow> WALog \<times> RecordPosition list \<times> error option" where
  "writeBatchLoop 0 io remaining allPositions w = (w, allPositions, Some (ErrMsg ''out of fuel''))"
| "writeBatchLoop (Suc fuel) io remaining allPositions w =
    (if remaining = [] then (w, allPositions, None)
     else case current w of None \<Rightarrow> (w, allPositions, Some Panic)
     | Some (sid, cur) \<Rightarrow>
       let (cur', positions, written, batchErr) = seg_WriteBatch (io 0) remaining cur;
           w1 = put_segment sid cur' w in
       if batchErr \<noteq> None \<and> batchErr \<noteq> Some ErrSegmentFull then (w1, allPositions, batchErr)
       else
         let allPositions = allPositions @ positions;
             w2 = w1\<lparr>wl_unSynced := wl_unSynced w1
               + (\<Sum>d\<leftarrow>take written remaining. int (recordOverhead (length d)))\<rparr> in
         case msyncIfDue (io 0) cur' w2 of (w3, Some e) \<Rightarrow> (w3, allPositions, Some e)
         | (w3, None) \<Rightarrow>
           if written = length remaining then (w3, allPositions, None)
           else if batchErr = Some ErrSegmentFull \<and> written < length remaining then
             (case rotateSegment (io 0) w3 of
                (w4, Some e) \<Rightarrow> (w4, allPositions, Some (Wrapped ''failed to rotate segment during batch write'' e))
              | (w4, None) \<Rightarrow>
                  writeBatchLoop fuel (\<lambda>i. io (Suc i)) (drop written remaining) allPositions w4)
           else (w3, allPositions, Some (ErrMsg ''unexpected state'')))"

definition wl_WriteBatch ::
  "(nat \<Rightarrow> ioenv) \<Rightarrow> bytes list \<Rightarrow> WALog \<Rightarrow> WALog \<times> RecordPosition list \<times> error option" where
  "wl_WriteBatch io records w =
    (if records = [] then (w, [], None)
     else if current w = None then (w, [], Some (ErrMsg ''no active segment''))
     else if list_ex (\<lambda>data. int (recordOverhead (length data)) > int (wl_maxSegmentSize w) - int segmentHeaderSize) records
       then (w, [], Some ErrRecordTooLarge)
     else writeBatchLoop (length records + 2) io records [] w)"

section \<open>Reading and closing\<close>

definition wl_Read :: "RecordPosition \<Rightarrow> WALog \<Rightarrow> error + bytes" where
  "wl_Read pos w =
    (if SegmentID pos \<notin> set (wl_segments w) then Inl ErrSegmentNotFound
     else case wl_heap w (SegmentID pos) of None \<Rightarrow> Inl ErrSegmentNotFound
     | Some seg \<Rightarrow>
       if Offset pos < int segmentHeaderSize then Inl ErrOffsetBeforeHeader
       else if Offset pos > int (seg_mmapSize seg) then Inl ErrOffsetOutOfBounds
       else case seg_Read (nat (Offset pos)) seg of
         Inl e \<Rightarrow> Inl (Wrapped ''read failed'' e) | Inr (data, _) \<Rightarrow> Inr data)"

definition wl_Sync :: "ioenv \<Rightarrow> WALog \<Rightarrow> error option" where
  "wl_Sync io w = (case current w of None \<Rightarrow> Some (ErrMsg ''no active segment'')
     | Some (_, cur) \<Rightarrow>
       if seg_closed cur then None
       else case seg_Sync io cur of Some e \<Rightarrow> Some (Wrapped ''fsync error'' ErrFsync) | None \<Rightarrow> None)"

definition RotateSegment :: "ioenv \<Rightarrow> WALog \<Rightarrow> WALog \<times> error option" where
  "RotateSegment io w = rotateSegment io w"

text \<open>\<open>Close\<close> of the log waits (\<open>None\<close>) while a reader holds one of the segments. It joins the errors
  of the segments; the list keeps them in the order the segments are visited.\<close>

fun closeSegments :: "ioenv \<Rightarrow> u32 list \<Rightarrow> WALog \<Rightarrow> error list \<Rightarrow> (WALog \<times> error list) option" where
  "closeSegments io [] w errs = Some (w, errs)"
| "closeSegments io (sid # rest) w errs =
    (case wl_heap w sid of None \<Rightarrow> closeSegments io rest w errs
     | Some seg \<Rightarrow>
       case seg_Close io seg of None \<Rightarrow> None
       | Some (seg', e) \<Rightarrow> closeSegments io rest (put_segment sid seg' w)
           (case e of None \<Rightarrow> errs | Some e \<Rightarrow> errs @ [e]))"

definition wl_Close :: "ioenv \<Rightarrow> WALog \<Rightarrow> (WALog \<times> error list) option" where
  "wl_Close io w = (case closeSegments io (wl_segments w) w [] of None \<Rightarrow> None
     | Some (w', errs) \<Rightarrow> Some (w', if io_dirsync_ok io then errs else errs @ [ErrMsg ''fsync wal directory'']))"

end
