(* ===== verification/WALogCorrect.thy ===== *)
theory WALogCorrect
  imports WALog
begin

text \<open>
  The log over all segments as one sequence of records. \<open>wal_inv w L\<close> says that the log \<open>w\<close> consists of the
  segments and contents listed in \<open>L\<close>, in ascending order of their ids, all but the last sealed;
  \<open>wal_log L\<close> is the sequence of its records with their positions.
\<close>

section \<open>Contents\<close>

type_synonym layout = "(u32 \<times> bytes list) list"

definition seg_entries :: "u32 \<times> bytes list \<Rightarrow> (RecordPosition \<times> bytes) list" where
  "seg_entries = (\<lambda>(sid, rs). zip (positions sid 64 rs) rs)"

definition wal_log :: "layout \<Rightarrow> (RecordPosition \<times> bytes) list" where
  "wal_log L = concat (map seg_entries L)"

definition seg_ok :: "nat \<Rightarrow> u32 \<Rightarrow> Segment \<Rightarrow> bytes list \<Rightarrow> bool" where
  "seg_ok sz sid s rs \<longleftrightarrow> seg_holds s rs \<and> seg_id s = sid \<and> seg_mmapSize s = sz \<and> readable s
     \<and> seg_state s = StateOpen \<and> \<not> seg_markedForDeletion s \<and> life_inv s"

definition wal_inv :: "WALog \<Rightarrow> layout \<Rightarrow> bool" where
  "wal_inv w L \<longleftrightarrow> L \<noteq> [] \<and> sorted_wrt (<) (map fst L) \<and> wl_segmentSnapshot w = map fst L
     \<and> distinct (wl_segments w) \<and> set (wl_segments w) = fst ` set L \<and> wl_currentSegment w = Some (fst (last L))
     \<and> (\<forall>x \<in> set L. \<exists>s. wl_heap w (fst x) = Some s \<and> seg_ok (wl_maxSegmentSize w) (fst x) s (snd x))
     \<and> (\<forall>x \<in> set (butlast L). \<forall>s. wl_heap w (fst x) = Some s \<longrightarrow> seg_isSealed s)
     \<and> (\<forall>sid. fst (last L) < sid \<longrightarrow> wl_files w (SegmentFileName (wl_ext w) sid) = None)
     \<and> 64 \<le> wl_maxSegmentSize w \<and> wl_maxSegmentSize w \<le> maxSegmentSize"

text \<open>The current segment accepts writes.\<close>

definition wal_active :: "WALog \<Rightarrow> bool" where
  "wal_active w \<longleftrightarrow> (case current w of None \<Rightarrow> False | Some (_, s) \<Rightarrow> \<not> seg_isSealed s)"

definition all_ok :: "ioenv \<Rightarrow> bool" where
  "all_ok io \<longleftrightarrow> io_stat_ok io \<and> io_open_ok io \<and> io_mmap_ok io \<and> io_msync_ok io \<and> io_fsync_ok io \<and> io_dirsync_ok io"

lemma recordOverhead_entrySize: "recordOverhead (length d) = entrySizeOf d"
proof -
  have "(23 + length d) div 8 = 2 + (length d + 7) div 8" by presburger
  then show ?thesis by (simp add: recordOverhead_def entrySizeOf_def alignUp_eq)
qed

lemma WillExceed_iff: "WillExceed (length d) s \<longleftrightarrow> seg_mmapSize s < seg_writeOffset s + entrySizeOf d"
  by (simp add: WillExceed_def entrySizeOf_def)

lemma wal_log_append [simp]: "wal_log (L @ L') = wal_log L @ wal_log L'"
  by (simp add: wal_log_def)

lemma positions_append:
  "positions sid off (xs @ ys) = positions sid off xs @ positions sid (off + run_size xs) ys"
  by (induction xs arbitrary: off) (simp_all add: add.assoc)

lemma seg_entries_append:
  "seg_entries (sid, xs @ ys) = seg_entries (sid, xs) @ zip (positions sid (64 + run_size xs) ys) ys"
  by (simp add: seg_entries_def positions_append)

lemma seg_entries_Nil [simp]: "seg_entries (sid, []) = []"
  by (simp add: seg_entries_def)

lemma in_seg_entriesD:
  assumes "(p, d) \<in> set (seg_entries (sid, rs))"
  shows "\<exists>xs ys. rs = xs @ d # ys \<and> p = \<lparr>SegmentID = sid, Offset = int (64 + run_size xs)\<rparr>"
  using assms
proof (induction rs rule: rev_induct)
  case (snoc x rs)
  then consider "(p, d) \<in> set (seg_entries (sid, rs))"
    | "p = \<lparr>SegmentID = sid, Offset = int (64 + run_size rs)\<rparr>" "d = x"
    by (auto simp: seg_entries_append)
  then show ?case
  proof cases
    case 1
    with snoc.IH obtain xs ys where "rs = xs @ d # ys" "p = \<lparr>SegmentID = sid, Offset = int (64 + run_size xs)\<rparr>"
      by blast
    then show ?thesis by (intro exI [of _ xs] exI [of _ "ys @ [x]"]) simp
  qed auto
qed simp

lemma seg_entries_split:
  "seg_entries (sid, rs) = us @ (p, d) # vs \<Longrightarrow>
    \<exists>xs ys. rs = xs @ d # ys \<and> us = seg_entries (sid, xs) \<and> p = \<lparr>SegmentID = sid, Offset = int (64 + run_size xs)\<rparr>"
proof (induction rs arbitrary: vs rule: rev_induct)
  case (snoc x rs)
  show ?case
  proof (cases vs rule: rev_cases)
    case Nil
    with snoc.prems show ?thesis by (auto simp: seg_entries_append)
  next
    case (snoc vs' v)
    with snoc.prems have "seg_entries (sid, rs) = us @ (p, d) # vs'" by (simp add: seg_entries_append)
    with snoc.IH obtain xs ys where "rs = xs @ d # ys" "us = seg_entries (sid, xs)"
      "p = \<lparr>SegmentID = sid, Offset = int (64 + run_size xs)\<rparr>" by blast
    then show ?thesis by (intro exI [of _ xs] exI [of _ "ys @ [x]"]) simp
  qed
qed simp

lemma wal_log_split:
  "wal_log L = us @ (p, d) # vs \<Longrightarrow>
    \<exists>P sid xs ys R. L = P @ (sid, xs @ d # ys) # R \<and> p = \<lparr>SegmentID = sid, Offset = int (64 + run_size xs)\<rparr>
      \<and> us = wal_log P @ seg_entries (sid, xs)"
proof (induction L arbitrary: us)
  case (Cons x L)
  obtain sid rs where x: "x = (sid, rs)" by (cases x)
  have "seg_entries x @ wal_log L = us @ (p, d) # vs" using Cons.prems by (simp add: wal_log_def)
  then obtain zs where zs: "seg_entries x = us @ zs \<and> zs @ wal_log L = (p, d) # vs
      \<or> seg_entries x @ zs = us \<and> wal_log L = zs @ (p, d) # vs"
    by (auto simp: append_eq_append_conv2)
  consider us' where "us = seg_entries x @ us'" "wal_log L = us' @ (p, d) # vs"
    | vs' where "seg_entries x = us @ (p, d) # vs'"
    using zs by (cases zs) fastforce+
  then show ?case
  proof cases
    case 1
    from Cons.IH [OF 1(2)] obtain P sid' xs ys R where "L = P @ (sid', xs @ d # ys) # R"
        "p = \<lparr>SegmentID = sid', Offset = int (64 + run_size xs)\<rparr>" "us' = wal_log P @ seg_entries (sid', xs)" by blast
    then show ?thesis using 1(1) by (intro exI [of _ "x # P"]) (auto simp: wal_log_def)
  next
    case 2
    from seg_entries_split [OF 2[unfolded x]] obtain xs ys where "rs = xs @ d # ys" "us = seg_entries (sid, xs)"
        "p = \<lparr>SegmentID = sid, Offset = int (64 + run_size xs)\<rparr>" by blast
    then show ?thesis using x by (intro exI [of _ "[]"] exI [of _ sid] exI [of _ xs] exI [of _ ys] exI [of _ L]) (simp add: wal_log_def)
  qed
qed (simp add: wal_log_def)

section \<open>The current segment\<close>

lemma wal_inv_snoc:
  assumes "wal_inv w L"
  obtains B cid rs s where "L = B @ [(cid, rs)]" "current w = Some (cid, s)" "wl_heap w cid = Some s"
    "seg_ok (wl_maxSegmentSize w) cid s rs" "cid \<notin> fst ` set B"
proof -
  obtain B x where L: "L = B @ [x]" using assms by (cases L rule: rev_cases) (auto simp: wal_inv_def)
  obtain cid rs where x: "x = (cid, rs)" by (cases x)
  obtain s where s: "wl_heap w cid = Some s" "seg_ok (wl_maxSegmentSize w) cid s rs"
    using assms by (auto simp: wal_inv_def L x)
  have "current w = Some (cid, s)" using assms s by (simp add: wal_inv_def L x current_def)
  moreover have "cid \<notin> fst ` set B" using assms by (auto simp: wal_inv_def L x sorted_wrt_append)
  ultimately show thesis using that L x s by blast
qed

lemma wal_inv_current:
  assumes "wal_inv w L" "current w = Some (cid, s)"
  shows "\<exists>B rs. L = B @ [(cid, rs)] \<and> seg_ok (wl_maxSegmentSize w) cid s rs"
  using assms(1) by (rule wal_inv_snoc) (use assms(2) in simp)

lemma wal_inv_segment:
  assumes "wal_inv w L" "(sid, rs) \<in> set L"
  shows "\<exists>s. wl_heap w sid = Some s \<and> seg_ok (wl_maxSegmentSize w) sid s rs" "sid \<in> set (wl_segments w)"
proof -
  have "\<forall>x \<in> set L. \<exists>s. wl_heap w (fst x) = Some s \<and> seg_ok (wl_maxSegmentSize w) (fst x) s (snd x)"
    using assms(1) by (simp add: wal_inv_def)
  from bspec [OF this assms(2)] show "\<exists>s. wl_heap w sid = Some s \<and> seg_ok (wl_maxSegmentSize w) sid s rs" by simp
  have "set (wl_segments w) = fst ` set L" using assms(1) by (simp add: wal_inv_def)
  then show "sid \<in> set (wl_segments w)" using assms(2) by force
qed

lemma wal_inv_put:
  assumes "wal_inv w (B @ [(cid, rs)])" "seg_ok (wl_maxSegmentSize w) cid s' rs'"
  shows "wal_inv (put_segment cid s' w) (B @ [(cid, rs')])"
proof -
  have ne: "cid \<notin> fst ` set B" using assms(1) by (auto simp: wal_inv_def sorted_wrt_append)
  then have "(sid, r) \<in> set B \<Longrightarrow> sid \<noteq> cid" for sid r by force
  with assms show ?thesis by (fastforce simp: wal_inv_def put_segment_def butlast_append)
qed

lemma wal_inv_counters [simp]:
  "wal_inv (w\<lparr>wl_unSynced := x\<rparr>) L = wal_inv w L"
  "wal_inv (w\<lparr>wl_bytesPerSyncCalled := y\<rparr>) L = wal_inv w L"
  by (simp_all add: wal_inv_def)

lemma current_put [simp]:
  "wl_currentSegment w = Some cid \<Longrightarrow> current (put_segment cid s w) = Some (cid, s)"
  by (simp add: current_def put_segment_def)

lemma put_segment_fields [simp]:
  "wl_maxSegmentSize (put_segment sid s w) = wl_maxSegmentSize w" "wl_ext (put_segment sid s w) = wl_ext w"
  "wl_currentSegment (put_segment sid s w) = wl_currentSegment w" "wl_files (put_segment sid s w) = wl_files w"
  "wl_segments (put_segment sid s w) = wl_segments w" "wl_bytesPerSync (put_segment sid s w) = wl_bytesPerSync w"
  "wl_heap (put_segment sid s w) = (wl_heap w)(sid \<mapsto> s)"
  "wl_forceSyncEveryWrite (put_segment sid s w) = wl_forceSyncEveryWrite w"
  by (simp_all add: put_segment_def)

lemma seg_ok_GetFlags: "seg_ok sz sid s rs \<Longrightarrow> GetFlags s = Inr (sh_Flags (header_of (seg_mmapData s)))
    \<and> IsSealed (sh_Flags (header_of (seg_mmapData s))) = seg_isSealed s"
  by (simp add: seg_ok_def seg_holds_def seg_inv_def readable_def GetFlags_def decode_header)

section \<open>Rotation\<close>

lemma seg_ok_sealed:
  assumes "seg_ok sz sid s rs"
  shows "seg_ok sz sid (MarkSealedInMemory (sealed io s)) rs" "seg_isSealed (MarkSealedInMemory (sealed io s))"
    "seg_ok sz sid (sealed io s) rs" "seg_isSealed (sealed io s)"
proof -
  have st: "\<not> seg_closed s" "\<not> seg_unmapped s" using assms by (auto simp: seg_ok_def readable_def)
  then have h: "seg_holds (sealed io s) rs"
    using seg_holds_Seal [of s rs io] assms by (simp add: seg_ok_def SealSegment_ok)
  have l: "life_inv (sealed io s)"
    using assms same_life_ops(3) [of s io] by (auto simp: seg_ok_def sealed_def intro: life_inv_same)
  show sl: "seg_isSealed (sealed io s)"
    using assms st by (intro seg_inv_sealed(2) [of s rs]) (auto simp: seg_ok_def seg_holds_def)
  show ok: "seg_ok sz sid (sealed io s) rs"
    using assms h l by (simp add: seg_ok_def readable_def)
  then show "seg_ok sz sid (MarkSealedInMemory (sealed io s)) rs"
    by (auto simp: seg_ok_def MarkSealedInMemory_def seg_holds_def seg_inv_def readable_def life_inv_def)
  show "seg_isSealed (MarkSealedInMemory (sealed io s))" using sl by (simp add: MarkSealedInMemory_def)
qed

lemma openSegment_fresh:
  assumes "all_ok io" "wl_files w (SegmentFileName (wl_ext w) sid) = None"
    and "64 \<le> wl_maxSegmentSize w" "wl_maxSegmentSize w \<le> maxSegmentSize"
  shows "\<exists>s. openSegment io sid w = (w, Inr s) \<and> seg_ok (wl_maxSegmentSize w) sid s [] \<and> \<not> seg_isSealed s
    \<and> seg_syncOption s = wl_forceSyncEveryWrite w"
proof -
  have op: "opens io (wl_maxSegmentSize w)" using assms by (simp add: opens_def all_ok_def)
  let ?name = "SegmentFileName (wl_ext w) sid"
  obtain s where s: "OpenSegmentFile io ?name sid (wl_maxSegmentSize w) (wl_forceSyncEveryWrite w) None = Inr s"
      "writable s"
    using OpenSegmentFile_new [OF op] by blast
  have "seg_ok (wl_maxSegmentSize w) sid s []"
    using opened_fields [OF s(1)] life_inv_opened [OF s(1)] seg_holds_opened [OF op s(1)]
    by (simp add: seg_ok_def readable_def)
  with s assms(1,2) opened_fields [OF s(1)] show ?thesis
    by (simp add: openSegment_def isNewSegment_def Let_def all_ok_def writable_def)
qed

lemma sort_snoc_segments:
  assumes "sorted_wrt (<) (map fst L)" "distinct segs" "set segs = fst ` set L" "\<forall>x \<in> fst ` set L. x < (n :: u32)"
  shows "sort (segs @ [n]) = map fst L @ [n]"
proof (rule sorted_distinct_set_unique)
  show "sorted (map fst L @ [n])"
    using assms(1,4) by (auto simp: sorted_append strict_sorted_iff less_imp_le)
  show "distinct (map fst L @ [n])"
    using assms(1,4) by (auto simp: strict_sorted_iff)
qed (use assms in auto)

lemma wal_inv_add:
  assumes "wal_inv w L" "fst (last L) < n" "seg_ok (wl_maxSegmentSize w) n s rs"
    and "\<forall>s. wl_heap w (fst (last L)) = Some s \<longrightarrow> seg_isSealed s"
  shows "wal_inv (snapshotSegments ((addCurrent n s w)\<lparr>wl_bytesPerSyncCalled := b, wl_segmentRotated := r\<rparr>)) (L @ [(n, rs)])"
proof -
  obtain B cid r0 where L: "L = B @ [(cid, r0)]"
    using assms(1) by (cases L rule: rev_cases) (auto simp: wal_inv_def)
  have lt: "\<forall>x \<in> fst ` set L. x < n"
    using assms(1,2) by (force simp: wal_inv_def L sorted_wrt_append)
  then have n: "n \<notin> fst ` set L" by auto
  have srt: "sort (wl_segments w @ [n]) = map fst L @ [n]"
    using assms(1) lt by (intro sort_snoc_segments) (auto simp: wal_inv_def)
  have fresh: "n \<notin> set (wl_segments w)" using assms(1) n by (simp add: wal_inv_def)
  have files: "\<forall>sid. n < sid \<longrightarrow> wl_files w (SegmentFileName (wl_ext w) sid) = None"
    using assms(1,2) unfolding wal_inv_def by (meson less_trans)
  have ne: "fst x \<noteq> n" if "x \<in> set L" for x using that n by force
  have ok: "\<forall>x \<in> set (L @ [(n, rs)]). \<exists>t. ((wl_heap w)(n \<mapsto> s)) (fst x) = Some t
      \<and> seg_ok (wl_maxSegmentSize w) (fst x) t (snd x)"
    using assms(1,3) ne by (simp add: wal_inv_def)
  have sealed: "\<forall>x \<in> set L. \<forall>t. ((wl_heap w)(n \<mapsto> s)) (fst x) = Some t \<longrightarrow> seg_isSealed t"
  proof -
    have "\<forall>x \<in> set B. \<forall>t. wl_heap w (fst x) = Some t \<longrightarrow> seg_isSealed t"
      using assms(1) by (simp add: wal_inv_def L butlast_append)
    moreover have "\<forall>t. wl_heap w cid = Some t \<longrightarrow> seg_isSealed t" using assms(4) by (simp add: L)
    ultimately show ?thesis using ne by (simp add: L)
  qed
  have "sorted_wrt (<) (map fst (L @ [(n, rs)]))"
    using assms(1) lt by (simp add: wal_inv_def sorted_wrt_append)
  then show ?thesis
    using assms(1) srt fresh files ok sealed
    unfolding wal_inv_def snapshotSegments_def addCurrent_def put_segment_def by simp
qed

definition same_config :: "WALog \<Rightarrow> WALog \<Rightarrow> bool" where
  "same_config w w' \<longleftrightarrow> wl_maxSegmentSize w' = wl_maxSegmentSize w \<and> wl_ext w' = wl_ext w
    \<and> wl_forceSyncEveryWrite w' = wl_forceSyncEveryWrite w \<and> wl_bytesPerSync w' = wl_bytesPerSync w"

lemma same_config_refl [simp]: "same_config w w"
  by (simp add: same_config_def)

lemma same_config_trans: "same_config w w' \<Longrightarrow> same_config w' w'' \<Longrightarrow> same_config w w''"
  by (simp add: same_config_def)

lemma same_config_put [simp]: "same_config w (put_segment sid s w') = same_config w w'"
  by (simp add: same_config_def put_segment_def)

lemma sealCurrent_ok:
  assumes "wal_inv w L" "all_ok io"
  shows "\<exists>w1. sealCurrent io w = (w1, None) \<and> wal_inv w1 L \<and> same_config w w1
    \<and> (\<forall>t. wl_heap w1 (fst (last L)) = Some t \<longrightarrow> seg_isSealed t)"
proof -
  obtain B cid rs s where L: "L = B @ [(cid, rs)]" and cur: "wl_heap w cid = Some s"
    and ok: "seg_ok (wl_maxSegmentSize w) cid s rs"
    using assms(1) by (rule wal_inv_snoc)
  have cs: "wl_currentSegment w = Some cid" using assms(1) by (simp add: wal_inv_def L)
  have st: "\<not> seg_closed s" "\<not> seg_unmapped s" using ok by (auto simp: seg_ok_def readable_def)
  show ?thesis
  proof (cases "seg_isSealed s")
    case True
    then have "sealCurrent io w = (w, None)" using seg_ok_GetFlags [OF ok] cur cs by (simp add: sealCurrent_def)
    with True assms(1) cur show ?thesis by (simp add: L)
  next
    case False
    let ?w1 = "put_segment cid (MarkSealedInMemory (sealed io s)) (put_segment cid (sealed io s) w)"
    have "seg_Sync io (sealed io s) = None" using st assms(2) by (simp add: seg_Sync_def all_ok_def)
    then have "sealCurrent io w = (?w1, None)"
      using False seg_ok_GetFlags [OF ok] cur cs SealSegment_ok [OF st, of io] by (simp add: sealCurrent_def)
    moreover have "wal_inv ?w1 L"
      unfolding L
      by (rule wal_inv_put [OF wal_inv_put [OF assms(1)[unfolded L] seg_ok_sealed(3) [OF ok]]])
        (simp add: seg_ok_sealed [OF ok])
    moreover have "wl_heap ?w1 cid = Some (MarkSealedInMemory (sealed io s))" by simp
    ultimately show ?thesis using seg_ok_sealed(2) [OF ok, of io] by (simp add: L)
  qed
qed

lemma rotateSegment_ok:
  assumes "wal_inv w L" "all_ok io" "unat (fst (last L)) + 1 < 2 ^ 32"
  shows "\<exists>w' s. rotateSegment io w = (w', None) \<and> wal_inv w' (L @ [(fst (last L) + 1, [])])
    \<and> current w' = Some (fst (last L) + 1, s) \<and> \<not> seg_isSealed s \<and> seg_syncOption s = wl_forceSyncEveryWrite w
    \<and> same_config w w'"
proof -
  let ?n = "fst (last L) + 1"
  obtain w1 where w1: "sealCurrent io w = (w1, None)" "wal_inv w1 L" "same_config w w1"
      "\<forall>t. wl_heap w1 (fst (last L)) = Some t \<longrightarrow> seg_isSealed t"
    using sealCurrent_ok [OF assms(1,2)] by blast
  have cs: "wl_currentSegment w1 = Some (fst (last L))" using w1(2) by (simp add: wal_inv_def)
  have lt: "fst (last L) < ?n" using assms(3) by (simp add: word_less_nat_alt unat_word_ariths)
  have "wl_files w1 (SegmentFileName (wl_ext w1) ?n) = None" "64 \<le> wl_maxSegmentSize w1" "wl_maxSegmentSize w1 \<le> maxSegmentSize"
    using w1(2) lt by (simp_all add: wal_inv_def)
  then obtain s where s: "openSegment io ?n w1 = (w1, Inr s)" "seg_ok (wl_maxSegmentSize w1) ?n s []" "\<not> seg_isSealed s"
      "seg_syncOption s = wl_forceSyncEveryWrite w1"
    using openSegment_fresh [OF assms(2)] by blast
  let ?w' = "snapshotSegments ((addCurrent ?n s w1)\<lparr>wl_bytesPerSyncCalled := 0,
      wl_segmentRotated := wl_segmentRotated (addCurrent ?n s w1) + 1\<rparr>)"
  have "rotateSegment io w = (?w', None)"
    using w1(1) cs s(1) by (simp add: rotateSegment_def Let_def)
  moreover have "wal_inv ?w' (L @ [(?n, [])])" by (rule wal_inv_add [OF w1(2) lt s(2) w1(4)])
  moreover have "current ?w' = Some (?n, s)"
    by (simp add: current_def snapshotSegments_def addCurrent_def put_segment_def)
  moreover have "same_config w ?w'"
    using w1(3) by (simp add: same_config_def snapshotSegments_def addCurrent_def put_segment_def)
  moreover have "wl_forceSyncEveryWrite w1 = wl_forceSyncEveryWrite w" using w1(3) by (simp add: same_config_def)
  ultimately show ?thesis using s(3,4) by auto
qed

section \<open>Reading\<close>

lemma wl_Read_entry:
  assumes "wal_inv w L" "(p, d) \<in> set (wal_log L)"
  shows "wl_Read p w = Inr d"
proof -
  obtain x where x: "x \<in> set L" "(p, d) \<in> set (seg_entries x)"
    using assms(2) by (auto simp: wal_log_def)
  obtain sid rs where sid: "x = (sid, rs)" by (cases x)
  obtain xs ys where rs: "rs = xs @ d # ys" and p: "p = \<lparr>SegmentID = sid, Offset = int (64 + run_size xs)\<rparr>"
    using in_seg_entriesD x(2) sid by blast
  obtain s where s: "wl_heap w sid = Some s" "seg_ok (wl_maxSegmentSize w) sid s rs"
    using wal_inv_segment(1) [OF assms(1)] x(1) sid by blast
  have inv: "seg_inv s (xs @ d # ys)" using s(2) rs by (simp add: seg_ok_def seg_holds_def)
  have "seg_Read (64 + run_size xs) s =
      Inr (d, \<lparr>SegmentID = seg_id s, Offset = int (64 + run_size xs + entrySizeOf d)\<rparr>)"
    using inv s(2) by (intro seg_Read_record) (auto simp: seg_ok_def readable_def)
  moreover have "64 + run_size xs \<le> seg_mmapSize s"
    using seg_inv_offset [OF inv] inv by (simp add: seg_inv_def)
  moreover have "sid \<in> set (wl_segments w)" using wal_inv_segment(2) [OF assms(1)] x(1) sid by blast
  moreover have "nat (int (64 + run_size xs)) = 64 + run_size xs" by (rule nat_int)
  ultimately show ?thesis using s(1) by (simp add: wl_Read_def p del: of_nat_add)
qed

section \<open>Writing\<close>

lemma seg_ok_appended:
  assumes "seg_ok sz sid s rs" "\<not> seg_isSealed s" "seg_writeOffset s + entrySizeOf d \<le> seg_mmapSize s"
  shows "seg_ok sz sid (appended io d s) (rs @ [d])"
proof -
  have "life_inv (appended io d s)"
    by (rule life_inv_same [of s]) (use assms(1) in \<open>simp_all add: seg_ok_def same_life_def appended_def Let_def\<close>)
  moreover have "seg_markedForDeletion (appended io d s) = seg_markedForDeletion s"
    by (simp add: appended_def Let_def)
  ultimately show ?thesis using assms seg_holds_appended [of s rs d io] by (simp add: seg_ok_def readable_def)
qed

lemma seg_ok_batched:
  assumes "seg_ok sz sid s rs" "\<not> seg_isSealed s" "seg_writeOffset s + run_size ds \<le> seg_mmapSize s"
  shows "seg_ok sz sid (batched io ds s) (rs @ ds)"
proof -
  have "life_inv (batched io ds s)"
    by (rule life_inv_same [of s]) (use assms(1) in \<open>simp_all add: seg_ok_def same_life_def batched_def Let_def\<close>)
  with assms seg_holds_batched [of s rs ds io] show ?thesis
    by (simp add: seg_ok_def readable_def batched_def Let_def)
qed

lemma msyncIfDue_ok:
  assumes "all_ok io" "\<not> seg_closed s"
  shows "\<exists>x y. msyncIfDue io s w = (w\<lparr>wl_unSynced := x, wl_bytesPerSyncCalled := y\<rparr>, None)"
proof (cases "wl_bytesPerSync w > 0 \<and> wl_unSynced w \<ge> wl_bytesPerSync w")
  case True
  with assms show ?thesis by (auto simp: msyncIfDue_def seg_MSync_def all_ok_def)
next
  case False
  then show ?thesis
    by (intro exI [of _ "wl_unSynced w"] exI [of _ "wl_bytesPerSyncCalled w"]) (auto simp: msyncIfDue_def)
qed

lemma seg_ok_writable: "seg_ok sz sid s rs \<Longrightarrow> writable s \<longleftrightarrow> \<not> seg_isSealed s"
  by (auto simp: seg_ok_def writable_def readable_def)

text \<open>Writing to the current segment when the record fits.\<close>

lemma wl_Write_fits:
  assumes "wal_inv w (B @ [(cid, rs)])" "current w = Some (cid, s)" "\<not> seg_isSealed s" "all_ok io"
    and "seg_writeOffset s + entrySizeOf d \<le> seg_mmapSize s"
  shows "\<exists>w'. wl_Write io d w = (w', Inr \<lparr>SegmentID = cid, Offset = int (64 + run_size rs)\<rparr>)
    \<and> wal_inv w' (B @ [(cid, rs @ [d])]) \<and> same_config w w' \<and> current w' = Some (cid, appended io d s)"
proof -
  have cs: "wl_currentSegment w = Some cid" and h: "wl_heap w cid = Some s"
    using assms(2) by (auto simp: current_def split: option.splits)
  have ok: "seg_ok (wl_maxSegmentSize w) cid s rs" using assms(1) h by (simp add: wal_inv_def)
  have inv: "seg_inv s rs" and sz: "seg_mmapSize s = wl_maxSegmentSize w" "seg_id s = cid"
    using ok by (simp_all add: seg_ok_def seg_holds_def)
  have off: "seg_writeOffset s = 64 + run_size rs" by (rule seg_inv_offset [OF inv])
  have wr: "seg_Write io d s = (appended io d s, Inr \<lparr>SegmentID = cid, Offset = int (64 + run_size rs)\<rparr>)"
    using seg_Write_ok [OF inv _ assms(5), of io] seg_ok_writable [OF ok] assms(3,4) sz off
    by (simp add: msync_fails_def all_ok_def)
  let ?w2 = "put_segment cid (appended io d s) w"
  have ok': "seg_ok (wl_maxSegmentSize w) cid (appended io d s) (rs @ [d])"
    using ok assms(3,5) by (rule seg_ok_appended)
  have inv2: "wal_inv ?w2 (B @ [(cid, rs @ [d])])" using assms(1) ok' by (rule wal_inv_put)
  obtain x y where ms: "msyncIfDue io (appended io d s)
      (?w2\<lparr>wl_unSynced := wl_unSynced ?w2 + int (recordOverhead (length d))\<rparr>)
      = (?w2\<lparr>wl_unSynced := wl_unSynced ?w2 + int (recordOverhead (length d))\<rparr>
          \<lparr>wl_unSynced := x, wl_bytesPerSyncCalled := y\<rparr>, None)"
    using msyncIfDue_ok [OF assms(4)] ok' by (metis seg_ok_def readable_def)
  have cur: "current w = Some (cid, s)" by (rule assms(2))
  have ro: "int (recordOverhead (length d)) \<le> int (wl_maxSegmentSize w) - 64"
    using assms(5) off sz by (simp add: recordOverhead_entrySize)
  have we: "\<not> WillExceed (length d) s" using assms(5) by (simp add: WillExceed_iff)
  have "wl_Write io d w = (?w2\<lparr>wl_unSynced := wl_unSynced ?w2 + int (recordOverhead (length d))\<rparr>
          \<lparr>wl_unSynced := x, wl_bytesPerSyncCalled := y\<rparr>, Inr \<lparr>SegmentID = cid, Offset = int (64 + run_size rs)\<rparr>)"
    using ro we ms unfolding wl_Write_def cur by (simp add: cur wr Let_def)
  with inv2 cs show ?thesis by (auto simp: same_config_def current_def)
qed

text \<open>Writing, with a rotation first when the record does not fit.\<close>

lemma wl_Write_rotates:
  assumes "current w = Some (cid, s)" "WillExceed (length d) s"
    and "int (recordOverhead (length d)) \<le> int (wl_maxSegmentSize w) - 64"
    and "rotateSegment io w = (w1, None)" "current w1 = Some (cid1, s1)" "\<not> WillExceed (length d) s1"
    and "wl_maxSegmentSize w1 = wl_maxSegmentSize w"
  shows "wl_Write io d w = wl_Write io d w1"
  using assms by (simp add: wl_Write_def Let_def)

definition extends :: "layout \<Rightarrow> (RecordPosition \<times> bytes) list \<Rightarrow> layout \<Rightarrow> bool" where
  "extends L new L' \<longleftrightarrow> wal_log L' = wal_log L @ new \<and> fst (last L) \<le> fst (last L')
    \<and> (\<exists>ids. map fst L' = map fst L @ ids)"

lemma new_segment_room:
  assumes "wal_inv w L" "seg_ok (wl_maxSegmentSize w) sid s []" "int (recordOverhead (length d)) \<le> int (wl_maxSegmentSize w) - 64"
  shows "seg_writeOffset s + entrySizeOf d \<le> seg_mmapSize s"
  using assms seg_inv_offset [of s "[]"] by (simp add: seg_ok_def seg_holds_def recordOverhead_entrySize)

lemma wl_Write_ok:
  assumes "wal_inv w L" "wal_active w" "all_ok io" "unat (fst (last L)) + 1 < 2 ^ 32"
    and "int (recordOverhead (length d)) \<le> int (wl_maxSegmentSize w) - 64"
  shows "\<exists>w' L' p. wl_Write io d w = (w', Inr p) \<and> wal_inv w' L' \<and> wal_active w'
    \<and> extends L [(p, d)] L' \<and> same_config w w'"
proof -
  obtain B cid rs s where L: "L = B @ [(cid, rs)]" and cur: "current w = Some (cid, s)"
    and ok: "seg_ok (wl_maxSegmentSize w) cid s rs" using assms(1) by (rule wal_inv_snoc)
  have uns: "\<not> seg_isSealed s" using assms(2) cur by (simp add: wal_active_def)
  show ?thesis
  proof (cases "WillExceed (length d) s")
    case False
    then have "seg_writeOffset s + entrySizeOf d \<le> seg_mmapSize s" by (simp add: WillExceed_iff)
    from wl_Write_fits [OF assms(1)[unfolded L] cur uns assms(3) this] show ?thesis
      using uns by (auto simp: L extends_def wal_log_def seg_entries_append wal_active_def
          intro!: exI [of _ "B @ [(cid, rs @ [d])]"])
  next
    case True
    obtain w1 s1 where w1: "rotateSegment io w = (w1, None)" "wal_inv w1 (L @ [(cid + 1, [])])"
        "current w1 = Some (cid + 1, s1)" "\<not> seg_isSealed s1" "same_config w w1"
      using rotateSegment_ok [OF assms(1,3,4)] by (auto simp: L)
    have sz: "wl_maxSegmentSize w1 = wl_maxSegmentSize w" using w1(5) by (simp add: same_config_def)
    have "wl_heap w1 (cid + 1) = Some s1" using w1(3) by (auto simp: current_def split: option.splits)
    then have "seg_ok (wl_maxSegmentSize w1) (cid + 1) s1 []" using w1(2) by (simp add: wal_inv_def)
    then have fits: "seg_writeOffset s1 + entrySizeOf d \<le> seg_mmapSize s1"
      using new_segment_room [OF w1(2)] assms(5) sz by simp
    then have "\<not> WillExceed (length d) s1" by (simp add: WillExceed_iff)
    then have "wl_Write io d w = wl_Write io d w1"
      using wl_Write_rotates [OF cur True assms(5) w1(1,3) _ sz] by simp
    moreover have "unat (cid + 1) = unat cid + 1" using assms(4) by (simp add: L unat_word_ariths)
    moreover have "cid \<le> cid + 1" using calculation(2) by (simp add: word_le_nat_alt)
    moreover obtain w' where "wl_Write io d w1 = (w', Inr \<lparr>SegmentID = cid + 1, Offset = 64\<rparr>)"
        "wal_inv w' (L @ [(cid + 1, [d])])" "same_config w1 w'" "current w' = Some (cid + 1, appended io d s1)"
      using wl_Write_fits [OF w1(2,3,4) assms(3) fits] by auto
    ultimately show ?thesis
      using same_config_trans [OF w1(5)] w1(4)
      by (auto simp: L extends_def wal_log_def seg_entries_def wal_active_def
          intro!: exI [of _ "L @ [(cid + 1, [d])]"])
  qed
qed

section \<open>Batches\<close>

lemma seg_WriteBatch_fits:
  assumes "seg_ok sz cid s rs" "\<not> seg_isSealed s" "all_ok io" "ds \<noteq> []"
    and "\<forall>d \<in> set ds. int (recordOverhead (length d)) \<le> int sz - 64"
  defines "n \<equiv> fit_count (seg_mmapSize s) (seg_writeOffset s) ds"
  shows "\<exists>s'. seg_WriteBatch io ds s = (s', positions cid (64 + run_size rs) (take n ds), n,
      if n < length ds then Some ErrSegmentFull else None)
    \<and> seg_ok sz cid s' (rs @ take n ds) \<and> \<not> seg_isSealed s'"
proof -
  have inv: "seg_inv s rs" and sz: "seg_mmapSize s = sz" "seg_id s = cid"
    using assms(1) by (simp_all add: seg_ok_def seg_holds_def)
  have off: "seg_writeOffset s = 64 + run_size rs" by (rule seg_inv_offset [OF inv])
  have all: "\<forall>d \<in> set ds. 64 + entrySizeOf d \<le> seg_mmapSize s"
    using assms(5) sz by (auto simp: recordOverhead_entrySize)
  have wr: "writable s" using seg_ok_writable [OF assms(1)] assms(2) by simp
  have nf: "\<not> msync_fails io s" using assms(3) by (simp add: msync_fails_def all_ok_def)
  have "seg_writeOffset s + run_size (take n ds) \<le> seg_mmapSize s"
    unfolding n_def using inv by (intro fit_count_fits) (simp add: seg_inv_def)
  then have ok: "seg_ok sz cid (batched io (take n ds) s) (rs @ take n ds)"
    using assms(1,2) by (intro seg_ok_batched)
  have b: "\<not> seg_isSealed (batched io (take n ds) s)" using assms(2) by (simp add: batched_def Let_def)
  show ?thesis
    using seg_WriteBatch_ok [OF inv wr assms(4) all, of io] nf off sz ok b assms(1,2,4)
    by (cases "n = 0") (auto simp: n_def)
qed

lemma batch_round:
  assumes "wal_inv w (B @ [(cid, rs)])" "current w = Some (cid, s)" "\<not> seg_isSealed s" "all_ok (io 0)" "ds \<noteq> []"
    and "\<forall>d \<in> set ds. int (recordOverhead (length d)) \<le> int (wl_maxSegmentSize w) - 64"
  defines "n \<equiv> fit_count (seg_mmapSize s) (seg_writeOffset s) ds"
  shows "\<exists>w3 s3. wal_inv w3 (B @ [(cid, rs @ take n ds)]) \<and> same_config w w3 \<and> current w3 = Some (cid, s3) \<and> \<not> seg_isSealed s3
    \<and> writeBatchLoop (Suc fuel) io ds acc w =
      (let acc' = acc @ positions cid (64 + run_size rs) (take n ds) in
       if n = length ds then (w3, acc', None)
       else case rotateSegment (io 0) w3 of
         (w4, Some e) \<Rightarrow> (w4, acc', Some (Wrapped ''failed to rotate segment during batch write'' e))
       | (w4, None) \<Rightarrow> writeBatchLoop fuel (\<lambda>i. io (Suc i)) (drop n ds) acc' w4)"
proof -
  have cs: "wl_currentSegment w = Some cid" and h: "wl_heap w cid = Some s"
    using assms(2) by (auto simp: current_def split: option.splits)
  have ok: "seg_ok (wl_maxSegmentSize w) cid s rs" using assms(1) h by (simp add: wal_inv_def)
  obtain s' where s': "seg_WriteBatch (io 0) ds s = (s', positions cid (64 + run_size rs) (take n ds), n,
      if n < length ds then Some ErrSegmentFull else None)"
      "seg_ok (wl_maxSegmentSize w) cid s' (rs @ take n ds)" "\<not> seg_isSealed s'"
    using seg_WriteBatch_fits [OF ok assms(3-6)] unfolding n_def by blast
  have le: "n \<le> length ds" unfolding n_def by (rule fit_count_le)
  have inv1: "wal_inv (put_segment cid s' w) (B @ [(cid, rs @ take n ds)])" using assms(1) s'(2) by (rule wal_inv_put)
  define w2 where "w2 = (put_segment cid s' w)\<lparr>wl_unSynced := wl_unSynced (put_segment cid s' w)
      + (\<Sum>d\<leftarrow>take n ds. int (recordOverhead (length d)))\<rparr>"
  have "\<not> seg_closed s'" using s'(2) by (simp add: seg_ok_def readable_def)
  then obtain x y where ms: "msyncIfDue (io 0) s' w2 = (w2\<lparr>wl_unSynced := x, wl_bytesPerSyncCalled := y\<rparr>, None)"
    using msyncIfDue_ok [OF assms(4)] by blast
  let ?w3 = "w2\<lparr>wl_unSynced := x, wl_bytesPerSyncCalled := y\<rparr>"
  have "wal_inv ?w3 (B @ [(cid, rs @ take n ds)])" using inv1 by (simp add: w2_def)
  moreover have "same_config w ?w3" by (simp add: same_config_def w2_def)
  moreover have "current ?w3 = Some (cid, s')" using cs by (simp add: current_def w2_def)
  moreover have "writeBatchLoop (Suc fuel) io ds acc w =
      (let acc' = acc @ positions cid (64 + run_size rs) (take n ds) in
       if n = length ds then (?w3, acc', None)
       else case rotateSegment (io 0) ?w3 of
         (w4, Some e) \<Rightarrow> (w4, acc', Some (Wrapped ''failed to rotate segment during batch write'' e))
       | (w4, None) \<Rightarrow> writeBatchLoop fuel (\<lambda>i. io (Suc i)) (drop n ds) acc' w4)"
    using assms(5) le ms
    by (cases "n = length ds") (simp_all add: assms(2) s'(1) w2_def Let_def)
  ultimately show ?thesis using s'(3) by blast
qed

definition first_fits :: "Segment \<Rightarrow> bytes list \<Rightarrow> bool" where
  "first_fits s ds \<longleftrightarrow> ds = [] \<or> fit_count (seg_mmapSize s) (seg_writeOffset s) ds \<noteq> 0"

lemma first_fits_empty:
  assumes "seg_ok sz sid s []" "\<forall>d \<in> set ds. int (recordOverhead (length d)) \<le> int sz - 64"
  shows "first_fits s ds"
proof (cases ds)
  case (Cons d ds')
  have "seg_writeOffset s = 64" "seg_mmapSize s = sz"
    using assms(1) seg_inv_offset [of s "[]"] by (simp_all add: seg_ok_def seg_holds_def)
  with Cons assms(2) show ?thesis by (auto simp: first_fits_def recordOverhead_entrySize)
qed (simp add: first_fits_def)

lemma writeBatchLoop_ok:
  assumes "wal_inv w L" "current w = Some (cid, s)" "\<not> seg_isSealed s" "\<forall>i. all_ok (io i)"
    and "unat cid + length ds + of_bool (\<not> first_fits s ds) \<le> 2 ^ 32"
    and "\<forall>d \<in> set ds. int (recordOverhead (length d)) \<le> int (wl_maxSegmentSize w) - 64"
    and "length ds + of_bool (\<not> first_fits s ds) < fuel"
  shows "\<exists>w' L' ps. writeBatchLoop fuel io ds acc w = (w', acc @ ps, None) \<and> wal_inv w' L' \<and> wal_active w'
    \<and> length ps = length ds \<and> extends L (zip ps ds) L' \<and> same_config w w'"
  using assms
proof (induction fuel arbitrary: io ds acc w L cid s)
  case (Suc fuel)
  obtain B rs where L: "L = B @ [(cid, rs)]"
    using wal_inv_current [OF Suc.prems(1,2)] by blast
  show ?case
  proof (cases "ds = []")
    case True
    then show ?thesis using Suc.prems(1-3)
      by (auto simp: extends_def wal_active_def intro!: exI [of _ L])
  next
    case ne: False
    define n where "n = fit_count (seg_mmapSize s) (seg_writeOffset s) ds"
    have n: "n \<le> length ds" unfolding n_def by (rule fit_count_le)
    let ?ps = "positions cid (64 + run_size rs) (take n ds)"
    let ?L3 = "B @ [(cid, rs @ take n ds)]"
    have log3: "wal_log ?L3 = wal_log L @ zip ?ps (take n ds)"
      by (simp add: L wal_log_def seg_entries_append)
    obtain w3 s3 where w3: "wal_inv w3 ?L3" "same_config w w3" "current w3 = Some (cid, s3)" "\<not> seg_isSealed s3"
      and loop: "writeBatchLoop (Suc fuel) io ds acc w =
        (let acc' = acc @ ?ps in if n = length ds then (w3, acc', None)
         else case rotateSegment (io 0) w3 of
           (w4, Some e) \<Rightarrow> (w4, acc', Some (Wrapped ''failed to rotate segment during batch write'' e))
         | (w4, None) \<Rightarrow> writeBatchLoop fuel (\<lambda>i. io (Suc i)) (drop n ds) acc' w4)"
      using batch_round [OF Suc.prems(1)[unfolded L] Suc.prems(2,3) _ ne Suc.prems(6), of io fuel acc] Suc.prems(4)
      unfolding n_def by blast
    show ?thesis
    proof (cases "n = length ds")
      case True
      then show ?thesis using loop w3 log3
        by (auto simp: extends_def wal_active_def L intro!: exI [of _ ?L3])
    next
      case False
      have nz: "n = 0 \<Longrightarrow> \<not> first_fits s ds" using ne by (simp add: first_fits_def n_def)
      have "1 + of_bool (first_fits s ds) \<le> length ds"
        using False n nz ne by (cases "n = 0") (auto simp: Suc_le_eq)
      then have id: "unat cid + 1 < 2 ^ 32" "fst (last ?L3) = cid"
        using Suc.prems(5) by (cases "first_fits s ds"; simp)+
      obtain w4 s4 where w4: "rotateSegment (io 0) w3 = (w4, None)" "wal_inv w4 (?L3 @ [(cid + 1, [])])"
          "current w4 = Some (cid + 1, s4)" "\<not> seg_isSealed s4" "same_config w3 w4"
        using rotateSegment_ok [OF w3(1), of "io 0"] Suc.prems(4) id by auto
      have sz: "wl_maxSegmentSize w4 = wl_maxSegmentSize w" using w3(2) w4(5) by (simp add: same_config_def)
      have "wl_heap w4 (cid + 1) = Some s4" using w4(3) by (auto simp: current_def split: option.splits)
      then have ok4: "seg_ok (wl_maxSegmentSize w) (cid + 1) s4 []" using w4(2) sz by (simp add: wal_inv_def)
      have sub: "\<forall>d \<in> set (drop n ds). int (recordOverhead (length d)) \<le> int (wl_maxSegmentSize w) - 64"
        using Suc.prems(6) by (meson in_set_dropD)
      have ff: "first_fits s4 (drop n ds)" using first_fits_empty [OF ok4 sub] .
      have un: "unat (cid + 1) = unat cid + 1" using id by (simp add: unat_word_ariths)
      have bounds: "length (drop n ds) + of_bool (\<not> first_fits s4 (drop n ds)) < fuel"
          "unat (cid + 1) + length (drop n ds) + of_bool (\<not> first_fits s4 (drop n ds)) \<le> 2 ^ 32"
        using Suc.prems(5,7) ff n nz un by (cases "n = 0"; simp)+
      have io': "\<forall>i. all_ok (io (Suc i))" using Suc.prems(4) by simp
      obtain w' L' ps where rec: "writeBatchLoop fuel (\<lambda>i. io (Suc i)) (drop n ds) (acc @ ?ps) w4 = (w', (acc @ ?ps) @ ps, None)"
          "wal_inv w' L'" "wal_active w'" "length ps = length (drop n ds)"
          "extends (?L3 @ [(cid + 1, [])]) (zip ps (drop n ds)) L'" "same_config w4 w'"
        using Suc.IH [OF w4(2,3,4) io' bounds(2) _ bounds(1), of "acc @ ?ps"] sub sz by auto
      have "zip (?ps @ ps) ds = zip ?ps (take n ds) @ zip ps (drop n ds)"
        using n by (simp add: zip_append1)
      moreover have "cid \<le> cid + 1" using un by (simp add: word_le_nat_alt)
      ultimately have "extends L (zip (?ps @ ps) ds) L'"
        using rec(5) log3 by (auto simp: extends_def L wal_log_def)
      moreover have "writeBatchLoop (Suc fuel) io ds acc w = (w', acc @ (?ps @ ps), None)"
        using loop w4(1) rec(1) False by simp
      moreover have "length (?ps @ ps) = length ds" using rec(4) n by simp
      ultimately show ?thesis
        using rec(2,3) same_config_trans [OF w3(2) same_config_trans [OF w4(5) rec(6)]] by blast
    qed
  qed
qed simp

lemma wl_WriteBatch_ok:
  assumes "wal_inv w L" "wal_active w" "\<forall>i. all_ok (io i)" "unat (fst (last L)) + length ds < 2 ^ 32"
    and "\<forall>d \<in> set ds. int (recordOverhead (length d)) \<le> int (wl_maxSegmentSize w) - 64"
  shows "\<exists>w' L' ps. wl_WriteBatch io ds w = (w', ps, None) \<and> wal_inv w' L' \<and> wal_active w'
    \<and> length ps = length ds \<and> extends L (zip ps ds) L' \<and> same_config w w'"
proof (cases "ds = []")
  case True
  with assms(1,2) show ?thesis by (auto simp: wl_WriteBatch_def extends_def intro!: exI [of _ L])
next
  case False
  obtain cid s where cur: "current w = Some (cid, s)" and uns: "\<not> seg_isSealed s"
    using assms(2) by (auto simp: wal_active_def split: option.splits)
  then have cid: "fst (last L) = cid" using wal_inv_current [OF assms(1) cur] by auto
  have "\<not> list_ex (\<lambda>d. int (recordOverhead (length d)) > int (wl_maxSegmentSize w) - 64) ds"
    using assms(5) by (auto simp: list_ex_iff)
  then have "wl_WriteBatch io ds w = writeBatchLoop (length ds + 2) io ds [] w"
    using False cur by (simp add: wl_WriteBatch_def)
  moreover have "unat cid + length ds + of_bool (\<not> first_fits s ds) \<le> 2 ^ 32"
    "length ds + of_bool (\<not> first_fits s ds) < length ds + 2"
    using assms(4) cid by (cases "first_fits s ds"; simp)+
  ultimately show ?thesis
    using writeBatchLoop_ok [OF assms(1) cur uns assms(3) _ assms(5), of "length ds + 2" "[]"] by simp
qed

section \<open>The records of a log are determined\<close>

lemma segment_records_unique:
  assumes "\<forall>(p, d) \<in> set (zip (positions sid off xs) xs). f p = Inr d" "\<forall>(p, d) \<in> set (zip (positions sid off ys) ys). f p = Inr d"
    and "run_size xs = run_size ys"
  shows "xs = ys"
  using assms
proof (induction xs arbitrary: ys off)
  case Nil
  show ?case
  proof (cases ys)
    case (Cons y zs)
    then show ?thesis using Nil.prems(3) entrySizeOf_pos [of y] by simp
  qed simp
next
  case (Cons x xs)
  obtain y zs where ys: "ys = y # zs" using Cons.prems(3) entrySizeOf_pos [of x] by (cases ys) auto
  have "f \<lparr>SegmentID = sid, Offset = int off\<rparr> = Inr x" "f \<lparr>SegmentID = sid, Offset = int off\<rparr> = Inr y" using Cons.prems(1,2) by (auto simp: ys)
  then have "x = y" by simp
  then show ?case using Cons.IH [of "off + entrySizeOf x" zs] Cons.prems by (simp add: ys)
qed

lemma wal_inv_unique:
  assumes "wal_inv w L" "wal_inv w L'" shows "L = L'"
proof (rule nth_equalityI)
  have ids: "map fst L = map fst L'" using assms by (simp add: wal_inv_def)
  then show len: "length L = length L'" by (rule map_eq_imp_length_eq)
  fix i assume i: "i < length L"
  then have i': "i < length L'" by (simp add: len)
  obtain sid xs where x: "L ! i = (sid, xs)" by (cases "L ! i")
  obtain ys where y: "L' ! i = (sid, ys)" using arg_cong [OF ids, of "\<lambda>zs. zs ! i"] i i' x by (cases "L' ! i") simp
  have m: "(sid, xs) \<in> set L" "(sid, ys) \<in> set L'" using nth_mem [OF i] nth_mem [OF i'] x y by simp_all
  obtain s where "wl_heap w sid = Some s" "seg_ok (wl_maxSegmentSize w) sid s xs" "seg_ok (wl_maxSegmentSize w) sid s ys"
    using assms m unfolding wal_inv_def by fastforce
  then have "run_size xs = run_size ys" using seg_inv_offset [of s xs] seg_inv_offset [of s ys] by (simp add: seg_ok_def seg_holds_def)
  moreover have "wl_Read p w = Inr d" if "(p, d) \<in> set (zip (positions sid 64 xs) xs)" for p d
    by (rule wl_Read_entry [OF assms(1)]) (use that m(1) in \<open>auto simp: wal_log_def seg_entries_def intro!: bexI [of _ "(sid, xs)"]\<close>)
  moreover have "wl_Read p w = Inr d" if "(p, d) \<in> set (zip (positions sid 64 ys) ys)" for p d
    by (rule wl_Read_entry [OF assms(2)]) (use that m(2) in \<open>auto simp: wal_log_def seg_entries_def intro!: bexI [of _ "(sid, ys)"]\<close>)
  ultimately show "L ! i = L' ! i" using segment_records_unique [of sid 64 xs "\<lambda>p. wl_Read p w" ys] by (auto simp: x y)
qed

end
