(* ===== verification/WALogReader.thy ===== *)
theory WALogReader
  imports WALogCorrect
begin

text \<open>
  \<open>Reader\<close> of \<open>pkg/walfs/walog.go\<close>: it walks the segments of a snapshot in order, registering a segment
  reader on one after the other. A reader that starts at a position skips the segments before it. Closing
  a segment reader never waits (lemma \<open>decrRef_returns\<close>), so the branch in which it would is not reached.
\<close>

section \<open>The reader\<close>

record Reader =
  wr_segments :: "u32 list"
  wr_segmentIndex :: nat
  wr_currentReader :: "(u32 \<times> SegmentReader) option"
  wr_startOffset :: nat

definition wl_NewReader :: "WALog \<Rightarrow> Reader" where
  "wl_NewReader w = \<lparr>wr_segments = wl_segmentSnapshot w, wr_segmentIndex = 0, wr_currentReader = None, wr_startOffset = 0\<rparr>"

definition wr_Close :: "ioenv \<Rightarrow> WALog \<Rightarrow> Reader \<Rightarrow> WALog \<times> Reader" where
  "wr_Close io w r = (case wr_currentReader r of None \<Rightarrow> (w, r)
     | Some (sid, rd) \<Rightarrow>
       case wl_heap w sid of None \<Rightarrow> (w, r)
       | Some seg \<Rightarrow>
         case reader_Close io rd seg of None \<Rightarrow> (w, r)
         | Some (rd', seg') \<Rightarrow> (put_segment sid seg' w, r\<lparr>wr_currentReader := Some (sid, rd')\<rparr>))"

text \<open>The part of \<open>Next\<close> behind the opening of a segment reader: \<open>Inl\<close> is a result to return,
  \<open>Inr\<close> the state with which the loop goes on.\<close>

definition readCurrent ::
  "ioenv \<Rightarrow> WALog \<Rightarrow> Reader \<Rightarrow> u32 \<Rightarrow> SegmentReader
    \<Rightarrow> (WALog \<times> Reader \<times> (error + bytes \<times> RecordPosition)) + WALog \<times> Reader" where
  "readCurrent io w r sid rd =
    (case wl_heap w sid of None \<Rightarrow> Inl (w, r, Inl Panic)
     | Some seg \<Rightarrow>
       case reader_Next seg rd of
         (rd', Inr (data, pos)) \<Rightarrow> Inl (w, r\<lparr>wr_currentReader := Some (sid, rd')\<rparr>, Inr (data, pos))
       | (rd', Inl err) \<Rightarrow>
         if errors_Is err EOF then
           (case reader_Close io rd' seg of None \<Rightarrow> Inl (w, r, Inl Panic)
            | Some (_, seg') \<Rightarrow> Inr (put_segment sid seg' w, r\<lparr>wr_currentReader := None\<rparr>))
         else Inl (w, r\<lparr>wr_currentReader := Some (sid, rd')\<rparr>, Inl err))"

text \<open>The part that opens the next segment: \<open>None\<close> when there is none left.\<close>

definition openNext :: "WALog \<Rightarrow> Reader \<Rightarrow> (WALog \<times> Reader) option" where
  "openNext w r =
    (if wr_segmentIndex r \<ge> length (wr_segments r) then None
     else
       let sid = wr_segments r ! wr_segmentIndex r; r1 = r\<lparr>wr_segmentIndex := wr_segmentIndex r + 1\<rparr> in
       case wl_heap w sid of None \<Rightarrow> Some (w, r1)
       | Some seg \<Rightarrow>
         case NewReader seg of None \<Rightarrow> Some (w, r1)
         | Some (seg', rd) \<Rightarrow>
           let rd' = (if wr_segmentIndex r1 = 1 \<and> wr_startOffset r1 > segmentHeaderSize
                      then rd\<lparr>rd_readOffset := wr_startOffset r1\<rparr> else rd)
           in Some (put_segment sid seg' w, r1\<lparr>wr_currentReader := Some (sid, rd')\<rparr>))"

lemma openNext_progress:
  "openNext w r = Some (w', r') \<Longrightarrow> wr_segments r' = wr_segments r \<and> wr_segmentIndex r' = wr_segmentIndex r + 1
    \<and> wr_segmentIndex r < length (wr_segments r)"
  by (auto simp: openNext_def Let_def split: if_splits option.splits)

lemma readCurrent_progress:
  "readCurrent io w r sid rd = Inr (w', r') \<Longrightarrow> wr_segments r' = wr_segments r
    \<and> wr_segmentIndex r' = wr_segmentIndex r \<and> wr_currentReader r' = None"
  by (auto simp: readCurrent_def split: option.splits prod.splits sum.splits if_splits)

text \<open>The loop of \<open>Next\<close>. Every round that does not return uses up a segment or the current
  segment reader.\<close>

function wr_Next :: "ioenv \<Rightarrow> WALog \<Rightarrow> Reader \<Rightarrow> WALog \<times> Reader \<times> (error + bytes \<times> RecordPosition)" where
  "wr_Next io w r =
    (case wr_currentReader r of
       Some (sid, rd) \<Rightarrow>
         (case readCurrent io w r sid rd of Inl res \<Rightarrow> res | Inr (w', r') \<Rightarrow> wr_Next io w' r')
     | None \<Rightarrow>
         (case openNext w r of None \<Rightarrow> (w, r, Inl EOF)
          | Some (w', r') \<Rightarrow> wr_Next io w' r'))"
  by pat_completeness auto
termination
  by (relation "measure (\<lambda>(io, w, r). 2 * (length (wr_segments r) - wr_segmentIndex r)
        + (case wr_currentReader r of None \<Rightarrow> 0 | Some _ \<Rightarrow> 1))")
    (auto dest!: openNext_progress readCurrent_progress split: option.splits)

declare wr_Next.simps [simp del]

definition SeekNext :: "ioenv \<Rightarrow> WALog \<Rightarrow> Reader \<Rightarrow> WALog \<times> Reader \<times> error option" where
  "SeekNext io w r = (case wr_Next io w r of
     (w', r', Inl e) \<Rightarrow> (w', r', Some e) | (w', r', Inr _) \<Rightarrow> (w', r', None))"

text \<open>A nil current reader makes \<open>LastRecordPosition\<close> panic.\<close>

definition wr_LastRecordPosition :: "WALog \<Rightarrow> Reader \<Rightarrow> error + RecordPosition" where
  "wr_LastRecordPosition w r = (case wr_currentReader r of None \<Rightarrow> Inl Panic
     | Some (sid, rd) \<Rightarrow>
       case wl_heap w sid of None \<Rightarrow> Inl Panic | Some seg \<Rightarrow> Inr (reader_LastRecordPosition seg rd))"

section \<open>Starting at a position\<close>

text \<open>The backwards scan over the snapshot; the list is given in reverse.\<close>

fun startScan ::
  "WALog \<Rightarrow> RecordPosition \<Rightarrow> u32 list \<Rightarrow> u32 list \<Rightarrow> bool \<Rightarrow> nat \<Rightarrow> error + u32 list \<times> bool \<times> nat" where
  "startScan w pos [] filtered found start = Inr (filtered, found, start)"
| "startScan w pos (sid # rest) filtered found start =
    (if sid < SegmentID pos then Inr (filtered, found, start)
     else if sid = SegmentID pos then
       (case wl_heap w sid of None \<Rightarrow> Inl Panic
        | Some seg \<Rightarrow>
          if Offset pos > int (seg_mmapSize seg) then Inl ErrOffsetOutOfBounds
          else startScan w pos rest (sid # filtered) True
            (if Offset pos > int segmentHeaderSize then nat (Offset pos) else start))
     else startScan w pos rest (sid # filtered) found start)"

definition NewReaderWithStart :: "RecordPosition \<Rightarrow> WALog \<Rightarrow> error + Reader" where
  "NewReaderWithStart pos w =
    (if SegmentID pos = 0 then Inr (wl_NewReader w)
     else case startScan w pos (rev (wl_segmentSnapshot w)) [] False segmentHeaderSize of
       Inl e \<Rightarrow> Inl e
     | Inr (filtered, found, start) \<Rightarrow>
       if \<not> found then Inl ErrSegmentNotFound
       else Inr \<lparr>wr_segments = filtered, wr_segmentIndex = 0, wr_currentReader = None, wr_startOffset = start\<rparr>)"

definition NewReaderAfter :: "ioenv \<Rightarrow> RecordPosition \<Rightarrow> WALog \<Rightarrow> WALog \<times> (error + Reader)" where
  "NewReaderAfter io pos w =
    (case NewReaderWithStart pos w of Inl e \<Rightarrow> (w, Inl e)
     | Inr r \<Rightarrow>
       case SeekNext io w r of
         (w', r', Some e) \<Rightarrow> if errors_Is e EOF then (w', Inr r') else (w', Inl e)
       | (w', r', None) \<Rightarrow> (w', Inr r'))"

end
