(* ===== verification/WALogReaderCorrect.thy ===== *)
theory WALogReaderCorrect
  imports WALogReader
begin

text \<open>
  What a \<open>Reader\<close> returns. \<open>reader_todo w R r T\<close> says that the reader \<open>r\<close> over the segments \<open>R\<close> still has the
  entries \<open>T\<close> to return; \<open>Next\<close> returns the first of them and leaves the rest.
\<close>

section \<open>Segment readers inside the log\<close>

lemma decrRef_returns: "\<exists>s'. decrRef io rid s = Some s'"
  by (auto simp: decrRef_def releaseRef_def cleanup_def seg_Close_def Let_def split: option.splits prod.splits)

lemma seg_ok_NewReader:
  assumes "seg_ok sz sid s rs" "unat (seg_readerIDCounter s) + 1 < 2 ^ 64"
  shows "\<exists>s' rd. NewReader s = Some (s', rd) \<and> seg_ok sz sid s' rs \<and> seg_isSealed s' = seg_isSealed s \<and> reader_at rd []"
proof -
  obtain s' rd where reg: "registerReader s = (s', rd)" by (cases "registerReader s")
  then have nr: "NewReader s = Some (s', rd)"
    using assms(1) by (simp add: NewReader_def readerAllowed_def seg_ok_def)
  have "life_inv s'" using life_inv_NewReader(1) [OF _ nr assms(2)] assms(1) by (simp add: seg_ok_def)
  moreover have "seg_holds s' rs \<and> seg_id s' = seg_id s \<and> seg_isSealed s' = seg_isSealed s"
    using reg assms(1) by (auto simp: registerReader_def incrRef_def Let_def seg_ok_def seg_holds_def seg_inv_def)
  ultimately show ?thesis
    using nr registerReader_fields [OF reg] assms(1) by (simp add: seg_ok_def readable_def reader_at_def)
qed

lemma seg_ok_reader_Close:
  assumes "seg_ok sz sid s rs" "\<not> rd_closed rd"
  shows "\<exists>rd' s'. reader_Close io rd s = Some (rd', s') \<and> seg_ok sz sid s' rs \<and> seg_isSealed s' = seg_isSealed s"
proof -
  obtain rt ok where rm: "rt_Remove (seg_activeReaders s) (rd_id rd) = (rt, ok)"
    by (cases "rt_Remove (seg_activeReaders s) (rd_id rd)")
  let ?s = "if ok then s\<lparr>seg_activeReaders := rt, seg_refCount := seg_refCount s - 1\<rparr> else s\<lparr>seg_activeReaders := rt\<rparr>"
  have dr: "decrRef io (rd_id rd) s = Some ?s"
    using assms(1) rm by (auto simp: decrRef_def releaseRef_def Let_def seg_ok_def)
  have "life_inv ?s"
    using life_inv_decrRef [of s io "rd_id rd"] assms(1) dr by (auto simp: seg_ok_def)
  then have "seg_ok sz sid ?s rs"
    using assms(1) by (auto simp: seg_ok_def seg_holds_def seg_inv_def readable_def)
  with dr assms(2) show ?thesis by (auto simp: reader_Close_def)
qed

lemma wal_inv_put_any:
  assumes "wal_inv w L" "(sid, rs) \<in> set L" "wl_heap w sid = Some s"
    and "seg_ok (wl_maxSegmentSize w) sid s' rs" "seg_isSealed s' = seg_isSealed s"
  shows "wal_inv (put_segment sid s' w) L"
proof -
  have srt: "sorted_wrt (<) (map fst L)" and ok: "\<forall>x \<in> set L. \<exists>s. wl_heap w (fst x) = Some s
      \<and> seg_ok (wl_maxSegmentSize w) (fst x) s (snd x)"
    and sl: "\<forall>x \<in> set (butlast L). \<forall>s. wl_heap w (fst x) = Some s \<longrightarrow> seg_isSealed s"
    using assms(1) by (simp_all add: wal_inv_def)
  have "distinct (map fst L)" using srt by (simp add: strict_sorted_iff)
  then have uniq: "snd x = rs" if "x \<in> set L" "fst x = sid" for x
    using that assms(2) by (metis eq_key_imp_eq_value prod.collapse)
  have "\<forall>x \<in> set L. \<exists>t. ((wl_heap w)(sid \<mapsto> s')) (fst x) = Some t \<and> seg_ok (wl_maxSegmentSize w) (fst x) t (snd x)"
    using ok uniq assms(4) by auto
  moreover have "\<forall>x \<in> set (butlast L). \<forall>t. ((wl_heap w)(sid \<mapsto> s')) (fst x) = Some t \<longrightarrow> seg_isSealed t"
    using sl assms(3,5) by auto
  ultimately show ?thesis using assms(1) by (simp add: wal_inv_def put_segment_def)
qed

text \<open>Which segments are sealed does not depend on the readers.\<close>

definition sealed_in :: "WALog \<Rightarrow> u32 \<Rightarrow> bool" where
  "sealed_in w sid \<longleftrightarrow> (\<exists>s. wl_heap w sid = Some s \<and> seg_isSealed s)"

definition same_seals :: "WALog \<Rightarrow> WALog \<Rightarrow> bool" where
  "same_seals w w' \<longleftrightarrow> sealed_in w' = sealed_in w"

lemma same_seals_put:
  "wl_heap w sid = Some s \<Longrightarrow> seg_isSealed s' = seg_isSealed s \<Longrightarrow> same_seals w (put_segment sid s' w)"
  by (auto simp: same_seals_def sealed_in_def fun_eq_iff)

lemma wal_inv_sealed_in:
  assumes "wal_inv w L" "(sid, rs) \<in> set L" "sid \<noteq> fst (last L)"
  shows "sealed_in w sid"
proof -
  have "(sid, rs) \<in> set (butlast L)"
    using assms(2,3) by (cases L rule: rev_cases) auto
  moreover have "\<forall>x \<in> set (butlast L). \<forall>s. wl_heap w (fst x) = Some s \<longrightarrow> seg_isSealed s"
    using assms(1) by (simp add: wal_inv_def)
  ultimately show ?thesis using wal_inv_segment(1) [OF assms(1,2)] by (force simp: sealed_in_def)
qed

section \<open>Entries a reader has still to return\<close>

definition entries_from :: "u32 \<Rightarrow> bytes list \<Rightarrow> bytes list \<Rightarrow> (RecordPosition \<times> bytes) list" where
  "entries_from sid rs0 rs1 = zip (positions sid (64 + run_size rs0) rs1) rs1"

definition fresh_ids :: "WALog \<Rightarrow> layout \<Rightarrow> bool" where
  "fresh_ids w R \<longleftrightarrow> (\<forall>x \<in> set R. \<forall>s. wl_heap w (fst x) = Some s \<longrightarrow> unat (seg_readerIDCounter s) + 1 < 2 ^ 64)"

definition reader_todo :: "WALog \<Rightarrow> layout \<Rightarrow> Reader \<Rightarrow> (RecordPosition \<times> bytes) list \<Rightarrow> bool" where
  "reader_todo w R r T \<longleftrightarrow> wr_segments r = map fst R \<and> wr_segmentIndex r \<le> length R
     \<and> fresh_ids w (drop (wr_segmentIndex r) R)
     \<and> (wr_currentReader r = None \<and> wr_segmentIndex r = length R \<longrightarrow> sealed_in w (fst (last R)))
     \<and> (case wr_currentReader r of
          Some (sid, rd) \<Rightarrow> \<exists>A rs0 rs1. R = A @ (sid, rs0 @ rs1) # drop (wr_segmentIndex r) R \<and> reader_at rd rs0
            \<and> wr_segmentIndex r = Suc (length A)
            \<and> T = entries_from sid rs0 rs1 @ wal_log (drop (wr_segmentIndex r) R)
        | None \<Rightarrow>
          if wr_segmentIndex r = 0 \<and> 64 < wr_startOffset r
          then \<exists>sid rs0 rs1 R'. R = (sid, rs0 @ rs1) # R' \<and> wr_startOffset r = 64 + run_size rs0
            \<and> T = entries_from sid rs0 rs1 @ wal_log R'
          else T = wal_log (drop (wr_segmentIndex r) R))"

lemma wal_log_Cons: "wal_log ((sid, rs) # R) = entries_from sid [] rs @ wal_log R"
  by (simp add: wal_log_def seg_entries_def entries_from_def)

lemma fresh_ids_put:
  assumes "fresh_ids w R" "sid \<notin> fst ` set R" shows "fresh_ids (put_segment sid s w) R"
  using assms by (force simp: fresh_ids_def)

lemma layout_unique:
  assumes "wal_inv w (P @ R)" "R = A @ (sid, rs) # R'"
  shows "sid \<notin> fst ` set A" "sid \<notin> fst ` set R'" "(sid, rs) \<in> set (P @ R)"
  using assms by (auto simp: wal_inv_def sorted_wrt_append)

lemma openNext_todo:
  assumes "wal_inv w (P @ R)" "reader_todo w R r T" "wr_currentReader r = None" "wr_segmentIndex r < length R"
  shows "\<exists>w' r'. openNext w r = Some (w', r') \<and> wal_inv w' (P @ R) \<and> reader_todo w' R r' T \<and> same_seals w w'"
proof -
  let ?i = "wr_segmentIndex r"
  define A where "A = take ?i R"
  define R' where "R' = drop (Suc ?i) R"
  obtain sid rs where x: "R ! ?i = (sid, rs)" by (cases "R ! ?i")
  have R: "R = A @ (sid, rs) # R'" "length A = ?i" "drop ?i R = (sid, rs) # R'"
    using id_take_nth_drop [OF assms(4)] Cons_nth_drop_Suc [OF assms(4)] assms(4) x by (simp_all add: A_def R'_def)
  have segs: "wr_segments r = map fst R" and fresh: "fresh_ids w ((sid, rs) # R')"
    using assms(2) R(3) by (simp_all add: reader_todo_def)
  have nth: "wr_segments r ! ?i = sid" using segs assms(4) x by simp
  note u = layout_unique [OF assms(1) R(1)]
  obtain s where s: "wl_heap w sid = Some s" "seg_ok (wl_maxSegmentSize w) sid s rs"
    using wal_inv_segment(1) [OF assms(1) u(3)] by blast
  then obtain s' rd where rd: "NewReader s = Some (s', rd)" "seg_ok (wl_maxSegmentSize w) sid s' rs"
      "seg_isSealed s' = seg_isSealed s" "reader_at rd []"
    using seg_ok_NewReader [OF s(2)] fresh by (auto simp: fresh_ids_def)
  let ?w' = "put_segment sid s' w"
  let ?rd = "if ?i = 0 \<and> 64 < wr_startOffset r then rd\<lparr>rd_readOffset := wr_startOffset r\<rparr> else rd"
  let ?r' = "r\<lparr>wr_segmentIndex := ?i + 1, wr_currentReader := Some (sid, ?rd)\<rparr>"
  have op: "openNext w r = Some (?w', ?r')"
    using assms(4) nth s(1) rd(1) segs by (simp add: openNext_def Let_def)
  have inv: "wal_inv ?w' (P @ R)" using assms(1) u(3) s(1) rd(2,3) by (rule wal_inv_put_any)
  have fresh': "fresh_ids ?w' R'"
    by (rule fresh_ids_put) (use fresh u(2) in \<open>simp_all add: fresh_ids_def\<close>)
  have "\<exists>rs0 rs1. rs = rs0 @ rs1 \<and> reader_at ?rd rs0 \<and> T = entries_from sid rs0 rs1 @ wal_log R'"
  proof (cases "?i = 0 \<and> 64 < wr_startOffset r")
    case True
    then obtain rs0 rs1 where "rs = rs0 @ rs1" "wr_startOffset r = 64 + run_size rs0"
        "T = entries_from sid rs0 rs1 @ wal_log R'"
      using assms(2,3) R by (auto simp: reader_todo_def)
    with True rd(4) show ?thesis by (auto simp: reader_at_def)
  next
    case False
    then have "T = wal_log ((sid, rs) # R')" using assms(2,3) R(3) by (auto simp: reader_todo_def)
    then have "rs = [] @ rs \<and> reader_at ?rd [] \<and> T = entries_from sid [] rs @ wal_log R'"
      using False rd(4) by (auto simp: wal_log_Cons)
    then show ?thesis by blast
  qed
  then obtain rs0 rs1 where e: "rs = rs0 @ rs1" "reader_at ?rd rs0" "T = entries_from sid rs0 rs1 @ wal_log R'"
    by blast
  have ex: "\<exists>A rs0 rs1. R = A @ (sid, rs0 @ rs1) # R' \<and> reader_at ?rd rs0 \<and> ?i + 1 = Suc (length A)
      \<and> T = entries_from sid rs0 rs1 @ wal_log R'"
    using e R(1,2) by (intro exI [of _ A] exI [of _ rs0] exI [of _ rs1]) simp
  have "drop (?i + 1) R = R'" by (simp add: R'_def)
  then have "reader_todo ?w' R ?r' T"
    unfolding reader_todo_def using segs assms(4) fresh' ex by simp
  with op inv same_seals_put [OF s(1) rd(3)] show ?thesis by blast
qed

lemma reader_todo_current:
  assumes "reader_todo w R r T" "wr_currentReader r = Some (sid, rd)"
  obtains A rs0 rs1 where "R = A @ (sid, rs0 @ rs1) # drop (wr_segmentIndex r) R" "reader_at rd rs0"
    "wr_segmentIndex r = Suc (length A)" "T = entries_from sid rs0 rs1 @ wal_log (drop (wr_segmentIndex r) R)"
  using assms by (auto simp: reader_todo_def)

lemma reader_at_closed: "reader_at rd rs \<Longrightarrow> \<not> rd_closed rd"
  by (simp add: reader_at_def)

lemma readCurrent_record:
  assumes "wal_inv w (P @ R)" "reader_todo w R r T" "wr_currentReader r = Some (sid, rd)"
    and "R = A @ (sid, rs0 @ d # ys) # drop (wr_segmentIndex r) R" "reader_at rd rs0" "wr_segmentIndex r = Suc (length A)"
    and "T = entries_from sid rs0 (d # ys) @ wal_log (drop (wr_segmentIndex r) R)"
  shows "\<exists>r' p T'. T = (p, d) # T' \<and> readCurrent io w r sid rd = Inl (w, r', Inr (d, p)) \<and> reader_todo w R r' T'"
proof -
  obtain s where s: "wl_heap w sid = Some s" "seg_ok (wl_maxSegmentSize w) sid s (rs0 @ d # ys)"
    using wal_inv_segment(1) [OF assms(1)] layout_unique(3) [OF assms(1,4)] by blast
  have inv: "seg_inv s (rs0 @ d # ys)" "readable s" "seg_id s = sid"
    using s(2) by (simp_all add: seg_ok_def seg_holds_def)
  obtain rd' res where nx: "reader_Next s rd = (rd', res)" by (cases "reader_Next s rd")
  let ?p = "\<lparr>SegmentID = sid, Offset = int (64 + run_size rs0)\<rparr>"
  let ?T' = "entries_from sid (rs0 @ [d]) ys @ wal_log (drop (wr_segmentIndex r) R)"
  let ?r' = "r\<lparr>wr_currentReader := Some (sid, rd')\<rparr>"
  have "res = Inr (d, ?p)" and at: "reader_at rd' (rs0 @ [d])"
    using reader_Next_record [OF inv(1,2) assms(5)] inv(3) nx by simp_all
  then have "readCurrent io w r sid rd = Inl (w, ?r', Inr (d, ?p))"
    using s(1) nx by (simp add: readCurrent_def)
  moreover have "T = (?p, d) # ?T'" using assms(7) by (simp add: entries_from_def add.assoc)
  moreover have "\<exists>A rs0 rs1. R = A @ (sid, rs0 @ rs1) # drop (wr_segmentIndex r) R \<and> reader_at rd' rs0
      \<and> wr_segmentIndex r = Suc (length A) \<and> ?T' = entries_from sid rs0 rs1 @ wal_log (drop (wr_segmentIndex r) R)"
    using assms(4,6) at by (intro exI [of _ A] exI [of _ "rs0 @ [d]"] exI [of _ ys]) simp
  then have "reader_todo w R ?r' ?T'" using assms(2) by (simp add: reader_todo_def)
  ultimately show ?thesis by blast
qed

lemma readCurrent_end:
  assumes "wal_inv w (P @ R)" "reader_todo w R r T" "wr_currentReader r = Some (sid, rd)"
    and "R = A @ (sid, rs0) # drop (wr_segmentIndex r) R" "reader_at rd rs0"
    and "T = wal_log (drop (wr_segmentIndex r) R)" "wr_segmentIndex r \<noteq> 0"
  shows "if sealed_in w sid
     then \<exists>w' r'. readCurrent io w r sid rd = Inr (w', r') \<and> wal_inv w' (P @ R) \<and> reader_todo w' R r' T \<and> same_seals w w'
     else \<exists>r'. readCurrent io w r sid rd = Inl (w, r', Inl ErrNoNewData)"
proof -
  note u = layout_unique [OF assms(1,4)]
  obtain s where s: "wl_heap w sid = Some s" "seg_ok (wl_maxSegmentSize w) sid s rs0"
    using wal_inv_segment(1) [OF assms(1) u(3)] by blast
  have nx: "reader_Next s rd = (rd, Inl (if seg_isSealed s then EOF else ErrNoNewData))"
    using s(2) assms(5) by (intro reader_Next_end) (auto simp: seg_ok_def seg_holds_def)
  show ?thesis
  proof (cases "seg_isSealed s")
    case True
    obtain rd' s' where cl: "reader_Close io rd s = Some (rd', s')" "seg_ok (wl_maxSegmentSize w) sid s' rs0"
        "seg_isSealed s' = seg_isSealed s"
      using seg_ok_reader_Close [OF s(2) reader_at_closed [OF assms(5)]] by blast
    let ?w' = "put_segment sid s' w" and ?r' = "r\<lparr>wr_currentReader := None\<rparr>"
    have rc: "readCurrent io w r sid rd = Inr (?w', ?r')" using s(1) nx True cl(1) by (simp add: readCurrent_def)
    have inv: "wal_inv ?w' (P @ R)" using assms(1) u(3) s(1) cl(2,3) by (rule wal_inv_put_any)
    have "fresh_ids ?w' (drop (wr_segmentIndex r) R)"
      using assms(2) u(2) by (intro fresh_ids_put) (simp_all add: reader_todo_def)
    moreover have "wr_segmentIndex r = length R \<longrightarrow> sealed_in ?w' (fst (last R))"
    proof
      assume "wr_segmentIndex r = length R"
      then have "R = A @ [(sid, rs0)]" using assms(4) by simp
      then show "sealed_in ?w' (fst (last R))" using True cl(3) by (simp add: sealed_in_def)
    qed
    ultimately have "reader_todo ?w' R ?r' T" using assms(2,6,7) by (simp add: reader_todo_def)
    with rc inv show ?thesis using True s(1) same_seals_put [OF s(1) cl(3)] by (auto simp: sealed_in_def)
  next
    case False
    then show ?thesis using s(1) nx by (simp add: sealed_in_def readCurrent_def)
  qed
qed

section \<open>Next\<close>

definition next_result :: "WALog \<Rightarrow> layout \<Rightarrow> error" where
  "next_result w R = (if sealed_in w (fst (last R)) then EOF else ErrNoNewData)"

definition next_ok :: "ioenv \<Rightarrow> layout \<Rightarrow> layout \<Rightarrow> WALog \<Rightarrow> Reader \<Rightarrow> (RecordPosition \<times> bytes) list \<Rightarrow> bool" where
  "next_ok io P R w r T \<longleftrightarrow> (\<exists>w' r'. wal_inv w' (P @ R) \<and> same_seals w w'
     \<and> (case T of [] \<Rightarrow> wr_Next io w r = (w', r', Inl (next_result w R))
        | (p, d) # T' \<Rightarrow> wr_Next io w r = (w', r', Inr (d, p)) \<and> reader_todo w' R r' T'))"

lemma next_ok_step:
  assumes "next_ok io P R w' r' T" "wr_Next io w r = wr_Next io w' r'" "same_seals w w'"
  shows "next_ok io P R w r T"
  using assms by (cases T) (auto simp: next_ok_def same_seals_def next_result_def)

lemma wr_Next_ok:
  "wal_inv w (P @ R) \<Longrightarrow> R \<noteq> [] \<Longrightarrow> reader_todo w R r T \<Longrightarrow> next_ok io P R w r T"
proof (induction io w r rule: wr_Next.induct)
  case (1 io w r)
  show ?case
  proof (cases "wr_currentReader r")
    case None
    show ?thesis
    proof (cases "wr_segmentIndex r < length R")
      case True
      then obtain w' r' where op: "openNext w r = Some (w', r')" "wal_inv w' (P @ R)" "reader_todo w' R r' T" "same_seals w w'"
        using openNext_todo [OF "1.prems"(1,3) None] by blast
      have "next_ok io P R w' r' T"
        using "1.IH"(1) [OF None op(1) refl op(2) "1.prems"(2) op(3)] .
      moreover have "wr_Next io w r = wr_Next io w' r'"
        by (subst wr_Next.simps) (simp add: None op(1))
      ultimately show ?thesis using op(4) by (rule next_ok_step)
    next
      case False
      then have ix: "wr_segmentIndex r = length R" and "T = []" and "sealed_in w (fst (last R))"
        using "1.prems"(2,3) None by (auto simp: reader_todo_def wal_log_def)
      moreover have "openNext w r = None" using ix "1.prems"(3) by (simp add: openNext_def reader_todo_def)
      then have "wr_Next io w r = (w, r, Inl EOF)" by (subst wr_Next.simps) (simp add: None)
      ultimately show ?thesis
        using "1.prems"(1) by (auto simp: next_ok_def next_result_def same_seals_def)
    qed
  next
    case (Some cur)
    obtain sid rd where cur: "wr_currentReader r = Some (sid, rd)" using Some by (cases cur) auto
    obtain A rs0 rs1 where t: "R = A @ (sid, rs0 @ rs1) # drop (wr_segmentIndex r) R" "reader_at rd rs0"
        "wr_segmentIndex r = Suc (length A)" "T = entries_from sid rs0 rs1 @ wal_log (drop (wr_segmentIndex r) R)"
      using "1.prems"(3) cur by (rule reader_todo_current)
    show ?thesis
    proof (cases rs1)
      case (Cons d ys)
      obtain r' p T' where c: "T = (p, d) # T'" "readCurrent io w r sid rd = Inl (w, r', Inr (d, p))" "reader_todo w R r' T'"
        using readCurrent_record [OF "1.prems"(1,3) cur t(1)[unfolded Cons] t(2,3) t(4)[unfolded Cons], of io] by blast
      then have "wr_Next io w r = (w, r', Inr (d, p))" by (subst wr_Next.simps) (simp add: cur)
      with c "1.prems"(1) show ?thesis by (auto simp: next_ok_def same_seals_def)
    next
      case Nil
      have T: "T = wal_log (drop (wr_segmentIndex r) R)" using t(4) Nil by (simp add: entries_from_def)
      have R: "R = A @ (sid, rs0) # drop (wr_segmentIndex r) R" using t(1) Nil by simp
      note e = readCurrent_end [OF "1.prems"(1,3) cur R t(2) T, of io]
      show ?thesis
      proof (cases "sealed_in w sid")
        case True
        then obtain w' r' where c: "readCurrent io w r sid rd = Inr (w', r')" "wal_inv w' (P @ R)" "reader_todo w' R r' T" "same_seals w w'"
          using e t(3) by auto
        have "next_ok io P R w' r' T"
          using "1.IH"(2) [OF cur refl c(1) refl c(2) "1.prems"(2) c(3)] .
        moreover have "wr_Next io w r = wr_Next io w' r'" by (subst wr_Next.simps) (simp add: cur c(1))
        ultimately show ?thesis using c(4) by (rule next_ok_step)
      next
        case False
        have last: "sid = fst (last (P @ R))"
          using False wal_inv_sealed_in [OF "1.prems"(1) layout_unique(3) [OF "1.prems"(1) R]] by blast
        have "drop (wr_segmentIndex r) R = []"
        proof (rule ccontr)
          assume ne: "drop (wr_segmentIndex r) R \<noteq> []"
          then have "last (P @ R) = last (drop (wr_segmentIndex r) R)" using "1.prems"(2) by simp
          then have "sid \<in> fst ` set (drop (wr_segmentIndex r) R)"
            using imageI [OF last_in_set [OF ne], of fst] last by metis
          with layout_unique(2) [OF "1.prems"(1) R] show False by simp
        qed
        then have "T = []" using T by (simp add: wal_log_def)
        moreover obtain r' where "readCurrent io w r sid rd = Inl (w, r', Inl ErrNoNewData)" using e False t(3) by auto
        then have "wr_Next io w r = (w, r', Inl ErrNoNewData)" by (subst wr_Next.simps) (simp add: cur)
        ultimately show ?thesis
          using "1.prems"(1,2) False last by (auto simp: next_ok_def next_result_def same_seals_def)
      qed
    qed
  qed
qed

text \<open>The caller's loop: \<open>Next\<close> until it fails.\<close>

fun wr_drain :: "nat \<Rightarrow> ioenv \<Rightarrow> WALog \<Rightarrow> Reader \<Rightarrow> (RecordPosition \<times> bytes) list \<times> error option" where
  "wr_drain 0 io w r = ([], None)"
| "wr_drain (Suc n) io w r = (case wr_Next io w r of
     (w', r', Inl e) \<Rightarrow> ([], Some e)
   | (w', r', Inr (d, p)) \<Rightarrow> (let (es, e) = wr_drain n io w' r' in ((p, d) # es, e)))"

lemma wr_drain_ok:
  "wal_inv w (P @ R) \<Longrightarrow> R \<noteq> [] \<Longrightarrow> reader_todo w R r T \<Longrightarrow> length T < n
    \<Longrightarrow> wr_drain n io w r = (T, Some (next_result w R))"
proof (induction n arbitrary: w r T)
  case (Suc n)
  have ok: "next_ok io P R w r T" using Suc.prems by (intro wr_Next_ok)
  show ?case
  proof (cases T)
    case Nil
    with ok show ?thesis by (auto simp: next_ok_def)
  next
    case (Cons x T')
    obtain p d where x: "x = (p, d)" by (cases x)
    obtain w' r' where n: "wal_inv w' (P @ R)" "same_seals w w'" "wr_Next io w r = (w', r', Inr (d, p))" "reader_todo w' R r' T'"
      using ok Cons x by (auto simp: next_ok_def)
    have "wr_drain n io w' r' = (T', Some (next_result w' R))"
      using Suc.IH [OF n(1) Suc.prems(2) n(4)] Suc.prems(4) Cons by simp
    moreover have "next_result w' R = next_result w R" using n(2) by (simp add: next_result_def same_seals_def)
    ultimately show ?thesis using n(3) Cons x by simp
  qed
qed simp

section \<open>Where a reader starts\<close>

lemma NewReader_todo:
  assumes "wal_inv w L" "fresh_ids w L" shows "reader_todo w L (wl_NewReader w) (wal_log L)"
  using assms by (simp add: reader_todo_def wl_NewReader_def wal_inv_def)

lemma startScan_above:
  assumes "\<forall>x \<in> set ids. SegmentID pos < x"
  shows "startScan w pos (ids @ rest) fl fo st = startScan w pos rest (rev ids @ fl) fo st"
  using assms by (induction ids arbitrary: fl) auto

lemma NewReaderWithStart_todo:
  assumes "wal_inv w (P @ (sid, xs @ ys) # R')" "fresh_ids w (P @ (sid, xs @ ys) # R')" "sid \<noteq> 0"
  shows "\<exists>r. NewReaderWithStart \<lparr>SegmentID = sid, Offset = int (64 + run_size xs)\<rparr> w = Inr r
    \<and> reader_todo w ((sid, xs @ ys) # R') r (entries_from sid xs ys @ wal_log R')"
proof -
  let ?pos = "\<lparr>SegmentID = sid, Offset = int (64 + run_size xs)\<rparr>"
  let ?st = "if run_size xs = 0 then 64 else 64 + run_size xs"
  have snap: "wl_segmentSnapshot w = map fst P @ sid # map fst R'"
    and srt: "sorted_wrt (<) (map fst P @ sid # map fst R')"
    using assms(1) by (simp_all add: wal_inv_def)
  obtain s where s: "wl_heap w sid = Some s" "seg_ok (wl_maxSegmentSize w) sid s (xs @ ys)"
    using wal_inv_segment(1) [OF assms(1), of sid "xs @ ys"] by auto
  have inv: "seg_inv s (xs @ ys)" using s(2) by (simp add: seg_ok_def seg_holds_def)
  then have bound: "64 + run_size xs \<le> seg_mmapSize s"
    using seg_inv_offset [OF inv] by (simp add: seg_inv_def)
  have below: "startScan w ?pos (rev (map fst P)) fl True st = Inr (fl, True, st)" for fl st
    using srt by (cases P rule: rev_cases) (auto simp: sorted_wrt_append)
  have "startScan w ?pos (rev (wl_segmentSnapshot w)) [] False 64
      = startScan w ?pos (sid # rev (map fst P)) (map fst R') False 64"
    using startScan_above [of "rev (map fst R')" ?pos w "sid # rev (map fst P)" "[]" False 64] srt
    by (simp add: snap sorted_wrt_append)
  also have "\<dots> = Inr (sid # map fst R', True, ?st)"
    using s(1) bound below by (simp add: nat_add_distrib)
  finally have "NewReaderWithStart ?pos w = Inr \<lparr>wr_segments = sid # map fst R', wr_segmentIndex = 0,
      wr_currentReader = None, wr_startOffset = ?st\<rparr>"
    using assms(3) by (simp add: NewReaderWithStart_def)
  moreover have "run_size xs = 0 \<longleftrightarrow> xs = []"
    using entrySizeOf_pos by (cases xs) auto
  moreover have "fresh_ids w ((sid, xs @ ys) # R')" using assms(2) by (auto simp: fresh_ids_def)
  ultimately show ?thesis
    by (cases "xs = []") (auto simp: reader_todo_def wal_log_Cons)
qed

lemma NewReaderAfter_todo:
  assumes "wal_inv w (P @ (sid, xs @ d # ys) # R')" "fresh_ids w (P @ (sid, xs @ d # ys) # R')" "sid \<noteq> 0"
  shows "\<exists>w' r. NewReaderAfter io \<lparr>SegmentID = sid, Offset = int (64 + run_size xs)\<rparr> w = (w', Inr r)
    \<and> wal_inv w' (P @ (sid, xs @ d # ys) # R') \<and> same_seals w w'
    \<and> reader_todo w' ((sid, xs @ d # ys) # R') r (entries_from sid (xs @ [d]) ys @ wal_log R')"
proof -
  let ?R = "(sid, xs @ d # ys) # R'"
  obtain r where r: "NewReaderWithStart \<lparr>SegmentID = sid, Offset = int (64 + run_size xs)\<rparr> w = Inr r"
      "reader_todo w ?R r (entries_from sid xs (d # ys) @ wal_log R')"
    using NewReaderWithStart_todo [OF assms] by blast
  have "entries_from sid xs (d # ys) = (\<lparr>SegmentID = sid, Offset = int (64 + run_size xs)\<rparr>, d) # entries_from sid (xs @ [d]) ys"
    by (simp add: entries_from_def add.assoc)
  with wr_Next_ok [OF assms(1) _ r(2), of io] obtain w' r' where
      "wal_inv w' (P @ ?R)" "same_seals w w'" "reader_todo w' ?R r' (entries_from sid (xs @ [d]) ys @ wal_log R')"
      "wr_Next io w r = (w', r', Inr (d, \<lparr>SegmentID = sid, Offset = int (64 + run_size xs)\<rparr>))"
    by (auto simp: next_ok_def)
  then show ?thesis using r(1) by (auto simp: NewReaderAfter_def SeekNext_def)
qed

section \<open>The order of positions\<close>

abbreviation pos_less :: "RecordPosition \<times> bytes \<Rightarrow> RecordPosition \<times> bytes \<Rightarrow> bool" where
  "pos_less \<equiv> \<lambda>(p, _) (q, _). SegmentID p < SegmentID q \<or> SegmentID p = SegmentID q \<and> Offset p < Offset q"

lemma seg_entries_sorted: "sorted_wrt pos_less (seg_entries (sid, rs))"
proof (induction rs rule: rev_induct)
  case (snoc x rs)
  have "Offset p < int (64 + run_size rs) \<and> SegmentID p = sid" if "(p, d) \<in> set (seg_entries (sid, rs))" for p d
    using in_seg_entriesD [OF that] by (auto simp: add_pos_nonneg)
  with snoc show ?case by (auto simp: seg_entries_append sorted_wrt_append)
qed simp

lemma wal_log_sorted: "sorted_wrt (<) (map fst L) \<Longrightarrow> sorted_wrt pos_less (wal_log L)"
proof (induction L)
  case (Cons x L)
  obtain sid rs where x: "x = (sid, rs)" by (cases x)
  have "SegmentID p = sid" if "(p, d) \<in> set (seg_entries (sid, rs))" for p d
    using in_seg_entriesD [OF that] by auto
  moreover have "sid < SegmentID q" if q: "(q, e) \<in> set (wal_log L)" for q e
  proof -
    from q obtain y where y: "y \<in> set L" "(q, e) \<in> set (seg_entries y)" by (auto simp: wal_log_def)
    obtain t zs where yt: "y = (t, zs)" by (cases y)
    have "SegmentID q = t" using in_seg_entriesD [of q e t zs] y(2) yt by auto
    then show ?thesis using Cons.prems y(1) yt x by force
  qed
  moreover have "wal_log (x # L) = seg_entries (sid, rs) @ wal_log L" by (simp add: wal_log_def x)
  ultimately show ?case using Cons seg_entries_sorted [of sid rs] by (fastforce simp: sorted_wrt_append x)
qed (simp add: wal_log_def)

lemma wal_log_bounds:
  assumes "wal_inv w L" "(p, d) \<in> set (wal_log L)"
  shows "64 \<le> Offset p \<and> Offset p + int (entrySizeOf d) \<le> int (wl_maxSegmentSize w)"
proof -
  obtain us vs where "wal_log L = us @ (p, d) # vs" using assms(2) by (auto simp: in_set_conv_decomp)
  from wal_log_split [OF this] obtain P sid xs ys R where
    L: "L = P @ (sid, xs @ d # ys) # R" and p: "p = \<lparr>SegmentID = sid, Offset = int (64 + run_size xs)\<rparr>" by blast
  obtain s where "wl_heap w sid = Some s" "seg_ok (wl_maxSegmentSize w) sid s (xs @ d # ys)"
    using wal_inv_segment(1) [OF assms(1), of sid "xs @ d # ys"] by (auto simp: L)
  then have i: "seg_inv s (xs @ d # ys)" "seg_mmapSize s = wl_maxSegmentSize w" by (simp_all add: seg_ok_def seg_holds_def)
  have "seg_writeOffset s \<le> seg_mmapSize s" using i(1) by (simp add: seg_inv_def)
  then show ?thesis using seg_inv_offset [OF i(1)] i(2) p by simp
qed

end
