(* ===== verification/WALogRecovery.thy ===== *)
theory WALogRecovery
  imports WALogCorrect
begin

text \<open>
  Restarting the log: \<open>NewWALog\<close> over the files of a log recovers the same segments with the same records,
  in whatever order the directory lists them and whatever other files it holds.
\<close>

text \<open>The bytes \<open>m\<close> are the file of a segment with the records \<open>rs\<close>.\<close>

definition file_of :: "nat \<Rightarrow> bytes \<Rightarrow> bytes list \<Rightarrow> bool" where
  "file_of sz m rs \<longleftrightarrow> (\<exists>s. seg_holds s rs \<and> seg_mmapData s = m \<and> seg_mmapSize s = sz) \<and> (\<forall>d \<in> set rs. sum_of d \<noteq> 0)"

lemma openSegment_existing:
  assumes "all_ok io" "wl_files w (SegmentFileName (wl_ext w) sid) = Some m" "file_of (wl_maxSegmentSize w) m rs"
    and "64 \<le> wl_maxSegmentSize w" "wl_maxSegmentSize w \<le> maxSegmentSize"
  shows "\<exists>s. openSegment io sid w = (w, Inr s) \<and> seg_ok (wl_maxSegmentSize w) sid s rs"
proof -
  let ?name = "SegmentFileName (wl_ext w) sid"
  have op: "opens io (wl_maxSegmentSize w)" using assms by (simp add: opens_def all_ok_def)
  obtain t where t: "seg_holds t rs" "seg_mmapData t = m" "seg_mmapSize t = wl_maxSegmentSize w" "\<forall>d \<in> set rs. sum_of d \<noteq> 0"
    using assms(3) by (auto simp: file_of_def)
  then obtain s where s: "OpenSegmentFile io ?name sid (wl_maxSegmentSize w) (wl_forceSyncEveryWrite w) (Some m) = Inr s"
      "seg_holds s rs" "readable s"
    using seg_holds_reopen [OF t(1) _ t(4), of io ?name sid "wl_forceSyncEveryWrite w"] op by auto
  have "seg_ok (wl_maxSegmentSize w) sid s rs"
    using opened_fields [OF s(1)] life_inv_opened [OF s(1)] s(2,3) by (simp add: seg_ok_def)
  with s assms(1,2) show ?thesis by (simp add: openSegment_def isNewSegment_def all_ok_def)
qed

definition recovered :: "WALog \<Rightarrow> WALog \<Rightarrow> layout \<Rightarrow> bool" where
  "recovered w w' L \<longleftrightarrow> wl_segments w' = wl_segments w @ map fst L \<and> same_config w w' \<and> wl_files w' = wl_files w
     \<and> (\<forall>sid. sid \<notin> fst ` set L \<longrightarrow> wl_heap w' sid = wl_heap w sid)
     \<and> (\<forall>x \<in> set L. \<exists>s. wl_heap w' (fst x) = Some s \<and> seg_ok (wl_maxSegmentSize w) (fst x) s (snd x))
     \<and> (\<forall>x \<in> set (butlast L). \<forall>s. wl_heap w' (fst x) = Some s \<longrightarrow> seg_isSealed s)
     \<and> (L \<noteq> [] \<longrightarrow> wl_currentSegment w' = Some (fst (last L)))"

lemma recoverLoop_ok:
  assumes "\<forall>i. all_ok (io i)" "64 \<le> wl_maxSegmentSize w" "wl_maxSegmentSize w \<le> maxSegmentSize"
    and "\<forall>x \<in> set L. \<exists>m. wl_files w (SegmentFileName (wl_ext w) (fst x)) = Some m \<and> file_of (wl_maxSegmentSize w) m (snd x)"
    and "distinct (map fst L)" "set (wl_segments w) \<inter> fst ` set L = {}"
  shows "\<exists>w'. recoverLoop io (map fst L) w = Inr w' \<and> recovered w w' L"
  using assms
proof (induction L arbitrary: w io)
  case Nil
  then show ?case by (simp add: recovered_def)
next
  case (Cons x L)
  obtain sid rs where x: "x = (sid, rs)" by (cases x)
  obtain m where m: "wl_files w (SegmentFileName (wl_ext w) sid) = Some m" "file_of (wl_maxSegmentSize w) m rs"
    using Cons.prems(4) x by auto
  have io0: "all_ok (io 0)" using Cons.prems(1) by simp
  obtain s where s: "openSegment (io 0) sid w = (w, Inr s)" "seg_ok (wl_maxSegmentSize w) sid s rs"
    using openSegment_existing [OF io0 m Cons.prems(2,3)] by blast
  define s' where "s' = (if L \<noteq> [] \<and> \<not> seg_isSealed s then sealed (io 0) s else s)"
  have ok': "seg_ok (wl_maxSegmentSize w) sid s' rs" "L \<noteq> [] \<Longrightarrow> seg_isSealed s'"
    using s(2) seg_ok_sealed(3,4) [OF s(2), of "io 0"] by (auto simp: s'_def)
  let ?w1 = "addCurrent sid s' w"
  have st: "\<not> seg_closed s" "\<not> seg_unmapped s" using s(2) by (auto simp: seg_ok_def readable_def)
  have step: "recoverLoop io (map fst (x # L)) w = recoverLoop (\<lambda>i. io (Suc i)) (map fst L) ?w1"
    using s(1) seg_ok_GetFlags [OF s(2)] SealSegment_ok [OF st, of "io 0"] by (auto simp: x s'_def)
  have w1: "wl_segments ?w1 = wl_segments w @ [sid]" "wl_files ?w1 = wl_files w" "same_config w ?w1"
      "wl_heap ?w1 = (wl_heap w)(sid \<mapsto> s')" "wl_currentSegment ?w1 = Some sid"
      "wl_maxSegmentSize ?w1 = wl_maxSegmentSize w" "wl_ext ?w1 = wl_ext w"
    using Cons.prems(6) by (auto simp: addCurrent_def put_segment_def same_config_def x)
  have "\<exists>w'. recoverLoop (\<lambda>i. io (Suc i)) (map fst L) ?w1 = Inr w' \<and> recovered ?w1 w' L"
    by (rule Cons.IH) (use Cons.prems w1 x in auto)
  then obtain w' where w': "recoverLoop (\<lambda>i. io (Suc i)) (map fst L) ?w1 = Inr w'" "recovered ?w1 w' L" by blast
  have sid: "sid \<notin> fst ` set L" using Cons.prems(5) x by auto
  have h: "wl_heap w' sid = Some s'" using w'(2) sid w1(4) by (simp add: recovered_def)
  have "recovered w w' (x # L)"
    unfolding recovered_def
  proof (intro conjI)
    show "wl_segments w' = wl_segments w @ map fst (x # L)" using w'(2) w1(1) by (simp add: recovered_def x)
    show "same_config w w'" using w'(2) w1(3) by (auto simp: recovered_def intro: same_config_trans)
    show "wl_files w' = wl_files w" using w'(2) w1(2) by (simp add: recovered_def)
    show "\<forall>sid. sid \<notin> fst ` set (x # L) \<longrightarrow> wl_heap w' sid = wl_heap w sid"
      using w'(2) w1(4) by (simp add: recovered_def x)
    show "\<forall>x \<in> set (x # L). \<exists>s. wl_heap w' (fst x) = Some s \<and> seg_ok (wl_maxSegmentSize w) (fst x) s (snd x)"
      using w'(2) w1(6) h ok'(1) by (simp add: recovered_def x)
    show "\<forall>x \<in> set (butlast (x # L)). \<forall>s. wl_heap w' (fst x) = Some s \<longrightarrow> seg_isSealed s"
      using w'(2) h ok'(2) by (simp add: recovered_def x)
    show "x # L \<noteq> [] \<longrightarrow> wl_currentSegment w' = Some (fst (last (x # L)))"
    proof (cases "L = []")
      case True
      then show ?thesis using w'(1) w1(5) by (auto simp: x)
    next
      case False
      then show ?thesis using w'(2) by (simp add: recovered_def)
    qed
  qed
  with step w'(1) show ?case by auto
qed

lemma sort_ids:
  assumes "sorted_wrt (<) (map fst L)" "distinct ids" "set ids = fst ` set L"
  shows "sort ids = map fst (L :: (u32 \<times> 'a) list)"
proof (rule sorted_distinct_set_unique)
  show "sorted (map fst L)" "distinct (map fst L)"
    using assms(1) by (simp_all add: strict_sorted_iff)
qed (use assms in auto)

lemma NewWALog_recovers:
  assumes "\<forall>i. all_ok (io i)" "64 \<le> cfg_maxSegmentSize cfg" "cfg_maxSegmentSize cfg \<le> maxSegmentSize"
    and "sorted_wrt (<) (map fst L)" "L \<noteq> []"
    and "\<forall>x \<in> set L. \<exists>m. files (SegmentFileName (cfg_ext cfg) (fst x)) = Some m \<and> file_of (cfg_maxSegmentSize cfg) m (snd x)"
    and "distinct (List.map_filter (segmentIDOf (cfg_ext cfg)) listing)"
    and "set (List.map_filter (segmentIDOf (cfg_ext cfg)) listing) = fst ` set L" "dom files \<subseteq> set listing"
  shows "\<exists>w. NewWALog io cfg listing files = Inr w \<and> wal_inv w L"
proof -
  let ?m = "\<lparr>wl_ext = cfg_ext cfg, wl_maxSegmentSize = cfg_maxSegmentSize cfg,
       wl_bytesPerSync = cfg_bytesPerSync cfg, wl_unSynced = 0,
       wl_forceSyncEveryWrite = cfg_forceSyncEveryWrite cfg, wl_bytesPerSyncCalled = 0,
       wl_segmentRotated = 0, wl_currentSegment = None, wl_segments = [], wl_segmentSnapshot = [],
       wl_segmentMaxAge = cfg_segmentMaxAge cfg, wl_minSegmentsToRetain = cfg_minSegmentsToRetain cfg,
       wl_maxSegmentsToRetain = cfg_maxSegmentsToRetain cfg, wl_enableAutoCleanup = cfg_enableAutoCleanup cfg,
       wl_pendingDeletion = [], wl_heap = Map.empty, wl_files = files\<rparr>"
  let ?ids = "List.map_filter (segmentIDOf (cfg_ext cfg)) listing"
  have srt: "sort ?ids = map fst L" using assms(4,7,8) by (rule sort_ids)
  have dist: "distinct (map fst L)" using assms(4) by (simp add: strict_sorted_iff)
  obtain w where w: "recoverLoop io (map fst L) ?m = Inr w" "recovered ?m w L"
    using recoverLoop_ok [of io ?m L] assms(1-3,6) dist by auto
  have "NewWALog io cfg listing files = Inr (snapshotSegments w)"
    using w(1) srt assms(5) by (simp add: NewWALog_def recoverSegments_def Let_def)
  moreover have above: "files (SegmentFileName (cfg_ext cfg) sid) = None" if "fst (last L) < sid" for sid
  proof (rule ccontr)
    assume "files (SegmentFileName (cfg_ext cfg) sid) \<noteq> None"
    then have "SegmentFileName (cfg_ext cfg) sid \<in> set listing" using assms(9) by (auto simp: dom_def)
    then have "sid \<in> set ?ids" by (force simp: List.map_filter_def image_iff)
    then have "sid \<in> fst ` set L" using assms(8) by simp
    moreover have "\<forall>y \<in> fst ` set L. y \<le> fst (last L)"
      using assms(4,5) by (cases L rule: rev_cases) (auto simp: sorted_wrt_append less_imp_le)
    ultimately show False using that by auto
  qed
  have "wal_inv (snapshotSegments w) L"
  proof -
    have r: "wl_segments w = map fst L" "wl_maxSegmentSize w = cfg_maxSegmentSize cfg" "wl_ext w = cfg_ext cfg" "wl_files w = files"
      "wl_currentSegment w = Some (fst (last L))"
      "\<forall>x \<in> set L. \<exists>s. wl_heap w (fst x) = Some s \<and> seg_ok (cfg_maxSegmentSize cfg) (fst x) s (snd x)"
      "\<forall>x \<in> set (butlast L). \<forall>s. wl_heap w (fst x) = Some s \<longrightarrow> seg_isSealed s"
      using w(2) assms(5) by (simp_all add: recovered_def same_config_def)
    have "sort (map fst L) = map fst L" using assms(4) by (simp add: strict_sorted_iff sorted_sort_id)
    with r show ?thesis using assms(2-5) dist above by (simp add: wal_inv_def snapshotSegments_def)
  qed
  ultimately show ?thesis by blast
qed

text \<open>The directory as the open log leaves it.\<close>

definition wl_disk :: "WALog \<Rightarrow> string \<rightharpoonup> bytes" where
  "wl_disk w = (\<lambda>name. case segmentIDOf (wl_ext w) name of
     Some sid \<Rightarrow> if name = SegmentFileName (wl_ext w) sid \<and> sid \<in> set (wl_segments w)
       then map_option seg_mmapData (wl_heap w sid) else wl_files w name
   | None \<Rightarrow> wl_files w name)"

lemma wl_disk_file:
  assumes "wal_inv w L" "(sid, rs) \<in> set L" "\<forall>d \<in> set rs. sum_of d \<noteq> 0"
  shows "\<exists>m. wl_disk w (SegmentFileName (wl_ext w) sid) = Some m \<and> file_of (wl_maxSegmentSize w) m rs"
proof -
  obtain s where "wl_heap w sid = Some s" "seg_ok (wl_maxSegmentSize w) sid s rs"
    using wal_inv_segment(1) [OF assms(1,2)] by blast
  with assms(3) wal_inv_segment(2) [OF assms(1,2)] show ?thesis
    by (auto simp: wl_disk_def file_of_def seg_ok_def)
qed

end
