(* ===== verification/Retention.thy ===== *)
theory Retention
  imports WALogCorrect
begin

text \<open>
  Deletion and backup of segments in \<open>pkg/walfs/walog.go\<close>: \<open>MarkSegmentsForDeletion\<close> queues segments by age and
  number, the cleaner started by \<open>StartPendingSegmentCleaner\<close> deletes the queued ones the predicate allows,
  \<open>CleanupStalePendingSegments\<close> forgets the deleted ones, and the backup functions copy sealed segments.
\<close>

section \<open>Queueing\<close>

text \<open>The segments that may be queued: open, unmarked and sealed, in ascending order of their ids.
  \<open>GetFlags\<close> panics on a header that does not decode.\<close>

definition is_candidate :: "Segment \<Rightarrow> error + bool" where
  "is_candidate seg =
    (if seg_closed seg then Inr False
     else if seg_markedForDeletion seg then Inr False
     else if (if seg_unmapped seg then 0 else length (seg_mmapData seg)) < segmentHeaderSize then Inr False
     else map_sum id IsSealed (GetFlags seg))"

fun candidatesOf :: "WALog \<Rightarrow> u32 list \<Rightarrow> error + u32 list" where
  "candidatesOf w [] = Inr []"
| "candidatesOf w (sid # rest) =
    (case wl_heap w sid of None \<Rightarrow> candidatesOf w rest
     | Some seg \<Rightarrow>
       case is_candidate seg of Inl e \<Rightarrow> Inl e
       | Inr ok \<Rightarrow> map_sum id (\<lambda>cs. if ok then sid # cs else cs) (candidatesOf w rest))"

text \<open>How many of the candidates have not been modified for the maximal age.\<close>

definition is_old :: "u64 \<Rightarrow> WALog \<Rightarrow> u32 \<Rightarrow> bool" where
  "is_old now w sid = (case wl_heap w sid of None \<Rightarrow> False
     | Some seg \<Rightarrow>
       case GetLastModifiedAt seg of Inl _ \<Rightarrow> False
       | Inr t \<Rightarrow> sint (now - word_of_int t) \<ge> wl_segmentMaxAge w)"

text \<open>The final loop: the first \<open>n\<close> candidates that are not queued yet enter the queue.\<close>

fun enqueue :: "u32 list \<Rightarrow> int \<Rightarrow> u32 list \<Rightarrow> u32 list" where
  "enqueue [] n pending = pending"
| "enqueue (sid # rest) n pending =
    (if n \<le> 0 then pending
     else if sid \<notin> set pending then enqueue rest (n - 1) (pending @ [sid])
     else enqueue rest n pending)"

text \<open>How many segments to queue: the excess over the maximal number, or else the old ones.\<close>

definition segmentsToDelete :: "ioenv \<Rightarrow> WALog \<Rightarrow> u32 list \<Rightarrow> int" where
  "segmentsToDelete io w candidates =
    (let currentSegments = int (length (wl_segments w)) in
     if wl_maxSegmentsToRetain w > 0 \<and> currentSegments > wl_maxSegmentsToRetain w
     then currentSegments - wl_maxSegmentsToRetain w
     else if wl_segmentMaxAge w > 0
     then int (length (filter (is_old (io_now io) w) candidates)) else 0)"

definition MarkSegmentsForDeletion :: "ioenv \<Rightarrow> WALog \<Rightarrow> error + WALog" where
  "MarkSegmentsForDeletion io w =
    (if \<not> wl_enableAutoCleanup w then Inr w
     else let currentSegments = int (length (wl_segments w)) in
       if wl_minSegmentsToRetain w > 0 \<and> currentSegments \<le> wl_minSegmentsToRetain w then Inr w
       else case candidatesOf w (wl_segments w) of Inl e \<Rightarrow> Inl e
       | Inr cs \<Rightarrow>
         let candidates = sort cs in
         if currentSegments - wl_minSegmentsToRetain w \<le> 0 then Inr w
         else
           let n = segmentsToDelete io w candidates in
           if n = 0 then Inr w
           else Inr (w\<lparr>wl_pendingDeletion := enqueue candidates n (wl_pendingDeletion w)\<rparr>))"

definition QueuedSegmentsForDeletion :: "WALog \<Rightarrow> u32 list" where
  "QueuedSegmentsForDeletion w = wl_pendingDeletion w"

section \<open>Deleting\<close>

text \<open>A tick of the cleaner: queued segments the predicate allows are marked for deletion (\<open>None\<close> when
  \<open>MarkForDeletion\<close> waits, which it never does), then those whose file is gone leave the maps. A missing
  predicate (\<open>nil\<close>) deletes nothing.\<close>

fun markQueued :: "ioenv \<Rightarrow> (u32 \<Rightarrow> bool) option \<Rightarrow> u32 list \<Rightarrow> WALog \<Rightarrow> WALog" where
  "markQueued io canDelete [] w = w"
| "markQueued io canDelete (sid # rest) w =
    markQueued io canDelete rest
      (case wl_heap w sid of None \<Rightarrow> w
       | Some seg \<Rightarrow>
         if (case canDelete of None \<Rightarrow> False | Some f \<Rightarrow> f sid)
         then (case MarkForDeletion io seg of None \<Rightarrow> w | Some seg' \<Rightarrow> put_segment sid seg' w)
         else w)"

definition is_removed :: "WALog \<Rightarrow> u32 \<Rightarrow> bool" where
  "is_removed w sid = (case wl_heap w sid of None \<Rightarrow> False | Some seg \<Rightarrow> seg_removed seg)"

definition CleanupStalePendingSegments :: "WALog \<Rightarrow> WALog" where
  "CleanupStalePendingSegments w =
    (let toRemove = filter (is_removed w) (wl_pendingDeletion w) in
     if toRemove = [] then w
     else snapshotSegments (w\<lparr>wl_segments := filter (\<lambda>sid. sid \<notin> set toRemove) (wl_segments w),
       wl_pendingDeletion := filter (\<lambda>sid. sid \<notin> set toRemove) (wl_pendingDeletion w)\<rparr>))"

definition cleanerTick :: "ioenv \<Rightarrow> (u32 \<Rightarrow> bool) option \<Rightarrow> WALog \<Rightarrow> WALog" where
  "cleanerTick io canDelete w = CleanupStalePendingSegments (markQueued io canDelete (wl_pendingDeletion w) w)"

section \<open>Backup\<close>

text \<open>Copying a segment file goes through a temporary file that replaces an older backup by a rename; the
  outcome of each step is an input. The backup directory maps names to contents, and \<open>sameDir\<close> says that it
  is the log's own directory. The reference a backup takes on a segment while it copies is released before it
  returns and leaves no trace.\<close>

record cpenv =
  cp_mkdir :: bool
  cp_open :: bool
  cp_create :: bool
  cp_copy :: bool
  cp_sync :: bool
  cp_close :: bool
  cp_rename :: bool
  cp_dirsync :: bool

definition is_sealed_now :: "Segment \<Rightarrow> error + bool" where
  "is_sealed_now seg = (if seg_inMemorySealed seg then Inr True else map_sum id IsSealed (GetFlags seg))"

definition copySegmentFile ::
  "cpenv \<Rightarrow> string \<Rightarrow> bytes \<Rightarrow> (string \<rightharpoonup> bytes) \<Rightarrow> (string \<rightharpoonup> bytes) \<times> error option" where
  "copySegmentFile cp name content backup =
    (if \<not> cp_open cp then (backup, Some (ErrMsg ''open source segment''))
     else if \<not> cp_create cp then (backup, Some (ErrMsg ''create temp backup''))
     else if \<not> cp_copy cp then (backup, Some (ErrMsg ''copy contents''))
     else if \<not> cp_sync cp then (backup, Some (ErrMsg ''sync backup''))
     else if \<not> cp_close cp then (backup, Some (ErrMsg ''close backup''))
     else if \<not> cp_rename cp then (backup(name := None), Some (ErrMsg ''finalize backup''))
     else if \<not> cp_dirsync cp then (backup(name \<mapsto> content), Some (ErrMsg ''sync backup directory''))
     else (backup(name \<mapsto> content), None))"

definition BackupLastRotatedSegment ::
  "string \<Rightarrow> bool \<Rightarrow> cpenv \<Rightarrow> WALog \<Rightarrow> (string \<rightharpoonup> bytes) \<Rightarrow> (string \<rightharpoonup> bytes) \<times> (error + string)" where
  "BackupLastRotatedSegment backupDir sameDir cp w backup =
    (if backupDir = [] then (backup, Inl (ErrMsg ''backup directory cannot be empty''))
     else if \<not> cp_mkdir cp then (backup, Inl (ErrMsg ''failed to create backup directory''))
     else case wl_currentSegment w of None \<Rightarrow> (backup, Inl (ErrMsg ''no active segment''))
     | Some cid \<Rightarrow>
       if cid \<le> 1 then (backup, Inl (Wrapped ''no rotated segment available'' ErrSegmentNotFound))
       else
         let lastID = cid - 1 in
         if lastID \<notin> set (wl_segments w) then (backup, Inl (Wrapped ''segment'' ErrSegmentNotFound))
         else case wl_heap w lastID of None \<Rightarrow> (backup, Inl (Wrapped ''segment'' ErrSegmentNotFound))
         | Some seg \<Rightarrow>
           case is_sealed_now seg of Inl e \<Rightarrow> (backup, Inl e)
           | Inr False \<Rightarrow> (backup, Inl (ErrMsg ''has not been sealed yet''))
           | Inr True \<Rightarrow>
             if sameDir then (backup, Inl (ErrMsg ''backup destination must differ from WAL directory''))
             else case copySegmentFile cp (seg_path seg) (seg_mmapData seg) backup of
               (b, Some e) \<Rightarrow> (b, Inl (Wrapped ''backup segment'' e))
             | (b, None) \<Rightarrow> (b, Inr (seg_path seg)))"

text \<open>The segments that \<open>BackupSegmentsAfter\<close> copies.\<close>

fun backupTargets :: "WALog \<Rightarrow> u32 \<Rightarrow> u32 list \<Rightarrow> error + u32 list" where
  "backupTargets w afterID [] = Inr []"
| "backupTargets w afterID (sid # rest) =
    (case wl_heap w sid of None \<Rightarrow> backupTargets w afterID rest
     | Some seg \<Rightarrow>
       if sid \<le> afterID then backupTargets w afterID rest
       else case (if wl_currentSegment w = Some sid then is_sealed_now seg else Inr True) of
         Inl e \<Rightarrow> Inl e
       | Inr keep \<Rightarrow> map_sum id (\<lambda>ts. if keep then sid # ts else ts) (backupTargets w afterID rest))"

fun backupLoop ::
  "bool \<Rightarrow> cpenv \<Rightarrow> WALog \<Rightarrow> u32 list \<Rightarrow> (string \<rightharpoonup> bytes) \<Rightarrow> (string \<rightharpoonup> bytes) \<times> (error + (u32 \<times> string) list)" where
  "backupLoop sameDir cp w [] backup = (backup, Inr [])"
| "backupLoop sameDir cp w (sid # rest) backup =
    (case wl_heap w sid of None \<Rightarrow> (backup, Inl Panic)
     | Some seg \<Rightarrow>
       case is_sealed_now seg of Inl e \<Rightarrow> (backup, Inl e)
       | Inr False \<Rightarrow> (backup, Inl (ErrMsg ''has not been sealed yet''))
       | Inr True \<Rightarrow>
         if sameDir then (backup, Inl (ErrMsg ''backup destination must differ from WAL directory''))
         else case copySegmentFile cp (seg_path seg) (seg_mmapData seg) backup of
           (b, Some e) \<Rightarrow> (b, Inl (Wrapped ''backup segment'' e))
         | (b, None) \<Rightarrow>
           case backupLoop sameDir cp w rest b of (b', Inl e) \<Rightarrow> (b', Inl e)
           | (b', Inr ps) \<Rightarrow> (b', Inr ((sid, seg_path seg) # ps)))"

definition BackupSegmentsAfter ::
  "string \<Rightarrow> bool \<Rightarrow> cpenv \<Rightarrow> u32 \<Rightarrow> WALog \<Rightarrow> (string \<rightharpoonup> bytes)
    \<Rightarrow> (string \<rightharpoonup> bytes) \<times> (error + (u32 \<times> string) list)" where
  "BackupSegmentsAfter backupDir sameDir cp afterID w backup =
    (if backupDir = [] then (backup, Inl (ErrMsg ''backup directory cannot be empty''))
     else if \<not> cp_mkdir cp then (backup, Inl (ErrMsg ''failed to create backup directory''))
     else case backupTargets w afterID (wl_segments w) of Inl e \<Rightarrow> (backup, Inl e)
     | Inr targets \<Rightarrow>
       if targets = [] then (backup, Inl (Wrapped ''no segments after'' ErrSegmentNotFound))
       else backupLoop sameDir cp w (sort targets) backup)"

section \<open>What is queued\<close>

lemma is_candidate_ok:
  assumes "seg_ok sz sid s rs" shows "is_candidate s = Inr (seg_isSealed s)"
proof -
  have "64 \<le> length (seg_mmapData s)" "\<not> seg_unmapped s" "\<not> seg_closed s" "\<not> seg_markedForDeletion s"
    using assms by (auto simp: seg_ok_def seg_holds_def seg_inv_def header_valid_def readable_def)
  with seg_ok_GetFlags [OF assms] show ?thesis by (simp add: is_candidate_def)
qed

definition sealed_id :: "WALog \<Rightarrow> u32 \<Rightarrow> bool" where
  "sealed_id w sid = (case wl_heap w sid of None \<Rightarrow> False | Some s \<Rightarrow> seg_isSealed s)"

lemma candidatesOf_ok:
  "\<forall>sid \<in> set ids. \<exists>s rs sz. wl_heap w sid = Some s \<and> seg_ok sz sid s rs \<Longrightarrow> candidatesOf w ids = Inr (filter (sealed_id w) ids)"
  by (induction ids) (auto simp: is_candidate_ok sealed_id_def)

lemma wal_inv_candidates:
  assumes "wal_inv w L"
  shows "candidatesOf w (wl_segments w) = Inr (filter (sealed_id w) (wl_segments w))"
    and "sort (filter (sealed_id w) (wl_segments w)) = filter (sealed_id w) (map fst L)"
proof -
  have segs: "set (wl_segments w) = fst ` set L" and dist: "distinct (wl_segments w)"
    and srt: "sorted_wrt (<) (map fst L)"
    using assms by (simp_all add: wal_inv_def)
  show "candidatesOf w (wl_segments w) = Inr (filter (sealed_id w) (wl_segments w))"
    using wal_inv_segment(1) [OF assms] segs by (intro candidatesOf_ok) fastforce
  have "sorted (map fst L)" "distinct (map fst L)" using srt by (simp_all add: strict_sorted_iff)
  then show "sort (filter (sealed_id w) (wl_segments w)) = filter (sealed_id w) (map fst L)"
    using segs dist by (intro sorted_distinct_set_unique) (auto intro: sorted_filter [where f = "\<lambda>x. x", simplified])
qed

lemma enqueue_props:
  "set (enqueue cs n pending) \<subseteq> set pending \<union> set cs" "set pending \<subseteq> set (enqueue cs n pending)"
  "int (length (enqueue cs n pending)) \<le> int (length pending) + max 0 n"
  "distinct pending \<Longrightarrow> distinct (enqueue cs n pending)"
  by (induction cs n pending rule: enqueue.induct) auto

lemma enqueue_all: "distinct cs \<Longrightarrow> set cs \<inter> set pending = {} \<Longrightarrow> n = int (length cs) \<Longrightarrow> enqueue cs n pending = pending @ cs"
  by (induction cs arbitrary: n pending) auto

lemma nested_ifs:
  "Q x \<Longrightarrow> Q y \<Longrightarrow> Q (if a then x else if b then x else if c then x else if d then x else y)"
  by simp

lemma MarkSegmentsForDeletion_ok:
  assumes "wal_inv w L"
  shows "\<exists>q. MarkSegmentsForDeletion io w = Inr (w\<lparr>wl_pendingDeletion := q\<rparr>)
    \<and> set q \<subseteq> set (wl_pendingDeletion w) \<union> {sid \<in> fst ` set L. sealed_id w sid} \<and> set (wl_pendingDeletion w) \<subseteq> set q"
proof -
  let ?cs = "filter (sealed_id w) (map fst L)"
  have "\<exists>q. MarkSegmentsForDeletion io w = Inr (w\<lparr>wl_pendingDeletion := q\<rparr>)
      \<and> (q = wl_pendingDeletion w \<or> (\<exists>n. q = enqueue ?cs n (wl_pendingDeletion w)))"
  proof -
    have same: "w\<lparr>wl_pendingDeletion := wl_pendingDeletion w\<rparr> = w" by simp
    define Q where "Q r \<longleftrightarrow> (\<exists>q. r = Inr (w\<lparr>wl_pendingDeletion := q\<rparr>)
      \<and> (q = wl_pendingDeletion w \<or> (\<exists>n. q = enqueue ?cs n (wl_pendingDeletion w))))" for r :: "error + WALog"
    have "Q (Inr w)" unfolding Q_def using same by (intro exI [of _ "wl_pendingDeletion w"]) simp
    moreover have "Q (Inr (w\<lparr>wl_pendingDeletion := enqueue ?cs n (wl_pendingDeletion w)\<rparr>))" for n
      unfolding Q_def by blast
    ultimately have "Q (MarkSegmentsForDeletion io w)"
      unfolding MarkSegmentsForDeletion_def Let_def wal_inv_candidates [OF assms] sum.case by (rule nested_ifs)
    then show ?thesis unfolding Q_def .
  qed
  then obtain q where q: "MarkSegmentsForDeletion io w = Inr (w\<lparr>wl_pendingDeletion := q\<rparr>)"
      "q = wl_pendingDeletion w \<or> (\<exists>n. q = enqueue ?cs n (wl_pendingDeletion w))" by blast
  from q(2) have "set q \<subseteq> set (wl_pendingDeletion w) \<union> set ?cs" "set (wl_pendingDeletion w) \<subseteq> set q"
    using enqueue_props(1,2) by (blast, blast)
  with q(1) show ?thesis by (intro exI [of _ q]) auto
qed

text \<open>The lower bound on the number of segments is only a condition for starting: once there are more
  segments than it says, every sealed segment that is old enough is queued.\<close>

lemma Mark_ignores_minimum:
  assumes "wal_inv w L" "wl_enableAutoCleanup w" "wl_maxSegmentsToRetain w \<le> 0" "wl_segmentMaxAge w > 0"
    and "wl_minSegmentsToRetain w < int (length L)" "wl_pendingDeletion w = []"
    and "\<forall>sid. sealed_id w sid \<longrightarrow> is_old (io_now io) w sid"
  shows "MarkSegmentsForDeletion io w = Inr (w\<lparr>wl_pendingDeletion := filter (sealed_id w) (map fst L)\<rparr>)"
proof -
  define cs where "cs = filter (sealed_id w) (map fst L)"
  have dm: "distinct (map fst L)" using assms(1) by (simp add: wal_inv_def strict_sorted_iff)
  then have dist: "distinct cs" by (simp add: cs_def)
  have len: "length (wl_segments w) = length L"
  proof -
    have "set (wl_segments w) = set (map fst L)" "distinct (wl_segments w)" using assms(1) by (simp_all add: wal_inv_def)
    with dm show ?thesis by (metis distinct_card length_map)
  qed
  have cand: "candidatesOf w (wl_segments w) = Inr (filter (sealed_id w) (wl_segments w))"
      "sort (filter (sealed_id w) (wl_segments w)) = cs"
    using wal_inv_candidates [OF assms(1)] by (simp_all add: cs_def)
  have old: "filter (is_old (io_now io) w) cs = cs" by (rule filter_True) (use assms(7) in \<open>auto simp: cs_def\<close>)
  have "enqueue cs (int (length cs)) [] = cs" using enqueue_all [OF dist, of "[]"] by simp
  moreover have "cs = [] \<Longrightarrow> w\<lparr>wl_pendingDeletion := cs\<rparr> = w" using assms(6) by simp
  ultimately show ?thesis
    using assms(2-6) by (cases "cs = []") (simp_all add: MarkSegmentsForDeletion_def segmentsToDelete_def Let_def cand old len flip: cs_def)
qed

section \<open>What is deleted\<close>

definition allowed :: "(u32 \<Rightarrow> bool) option \<Rightarrow> u32 \<Rightarrow> bool" where
  "allowed canDelete sid = (case canDelete of None \<Rightarrow> False | Some f \<Rightarrow> f sid)"

lemma MarkForDeletion_contents:
  "MarkForDeletion io s = Some s' \<Longrightarrow> seg_mmapData s' = seg_mmapData s \<and> seg_writeOffset s' = seg_writeOffset s
    \<and> seg_mmapSize s' = seg_mmapSize s \<and> seg_isSealed s' = seg_isSealed s \<and> seg_id s' = seg_id s
    \<and> seg_activeReaders s' = seg_activeReaders s"
  by (auto simp: MarkForDeletion_def cleanup_def seg_Close_def closeFinish_def Let_def split: if_splits option.splits)

lemma markQueued_segments [simp]:
  "wl_segments (markQueued io can ids w) = wl_segments w"
  "wl_pendingDeletion (markQueued io can ids w) = wl_pendingDeletion w"
  by (induction ids arbitrary: w) (auto simp: put_segment_def split: option.splits)

lemma markQueued_other:
  "sid \<notin> set ids \<or> \<not> allowed can sid \<Longrightarrow> wl_heap (markQueued io can ids w) sid = wl_heap w sid"
  by (induction ids arbitrary: w) (auto simp: allowed_def split: option.splits)

lemma markQueued_pinned:
  assumes "wl_heap w sid = Some s" "life_inv s" "reg_ids s \<noteq> {}"
  shows "\<exists>s'. wl_heap (markQueued io can ids w) sid = Some s' \<and> life_inv s' \<and> reg_ids s' = reg_ids s
    \<and> seg_mmapData s' = seg_mmapData s \<and> seg_writeOffset s' = seg_writeOffset s"
  using assms
proof (induction ids arbitrary: w s)
  case (Cons x ids)
  let ?w = "case wl_heap w x of None \<Rightarrow> w
       | Some seg \<Rightarrow>
         if (case can of None \<Rightarrow> False | Some f \<Rightarrow> f x)
         then (case MarkForDeletion io seg of None \<Rightarrow> w | Some seg' \<Rightarrow> put_segment x seg' w)
         else w"
  obtain t where t: "MarkForDeletion io s = Some t" "life_inv t" "reg_ids t = reg_ids s"
    using life_inv_Mark [OF Cons.prems(2)] by blast
  have "wl_heap ?w sid = Some s \<or> wl_heap ?w sid = Some t"
    using Cons.prems(1) t(1) by (cases "x = sid") (auto split: option.splits)
  then show ?case
  proof
    assume "wl_heap ?w sid = Some s"
    from Cons.IH [OF this Cons.prems(2,3)] show ?thesis by simp
  next
    assume "wl_heap ?w sid = Some t"
    from Cons.IH [OF this t(2)] t(3) Cons.prems(3) MarkForDeletion_contents [OF t(1)] show ?thesis by simp
  qed
qed auto

lemma Cleanup_segments:
  "set (wl_segments (CleanupStalePendingSegments w)) =
    {sid \<in> set (wl_segments w). \<not> (sid \<in> set (wl_pendingDeletion w) \<and> is_removed w sid)}"
  by (auto simp: CleanupStalePendingSegments_def Let_def snapshotSegments_def filter_empty_conv)

lemma Cleanup_heap [simp]: "wl_heap (CleanupStalePendingSegments w) = wl_heap w"
  by (simp add: CleanupStalePendingSegments_def Let_def snapshotSegments_def)

lemma cleanerTick_only_allowed:
  assumes "sid \<in> set (wl_segments w)" "sid \<notin> set (wl_segments (cleanerTick io can w))"
  shows "sid \<in> set (wl_pendingDeletion w) \<and> (allowed can sid \<or> is_removed w sid)"
proof -
  let ?w = "markQueued io can (wl_pendingDeletion w) w"
  have r: "sid \<in> set (wl_pendingDeletion w)" "is_removed ?w sid"
    using assms by (simp_all add: cleanerTick_def Cleanup_segments)
  then show ?thesis
    using markQueued_other [of sid "wl_pendingDeletion w" can io w] by (cases "allowed can sid") (simp_all add: is_removed_def)
qed

lemma cleanerTick_pinned:
  assumes "sid \<in> set (wl_segments w)" "wl_heap w sid = Some s" "life_inv s" "reg_ids s \<noteq> {}"
  shows "sid \<in> set (wl_segments (cleanerTick io can w))
    \<and> (\<exists>s'. wl_heap (cleanerTick io can w) sid = Some s' \<and> readable s' \<and> \<not> seg_removed s'
        \<and> seg_mmapData s' = seg_mmapData s \<and> seg_writeOffset s' = seg_writeOffset s)"
proof -
  obtain s' where s': "wl_heap (markQueued io can (wl_pendingDeletion w) w) sid = Some s'" "life_inv s'" "reg_ids s' = reg_ids s"
      "seg_mmapData s' = seg_mmapData s" "seg_writeOffset s' = seg_writeOffset s"
    using markQueued_pinned [OF assms(2-4)] by blast
  have "readable s' \<and> \<not> seg_removed s'" using life_inv_pinned [OF s'(2)] s'(3) assms(4) by auto
  with s' assms(1) show ?thesis by (simp add: cleanerTick_def Cleanup_segments is_removed_def)
qed

section \<open>What a backup holds\<close>

lemma BackupLast_ok:
  assumes "wal_inv w L" "BackupLastRotatedSegment dir sameDir cp w backup = (backup', Inr name)"
  shows "\<exists>rs s. (fst (last L) - 1, rs) \<in> set L \<and> seg_holds s rs \<and> backup' = backup(name \<mapsto> seg_mmapData s)"
proof -
  let ?id = "fst (last L) - 1"
  have cur: "wl_currentSegment w = Some (fst (last L))" and segs: "set (wl_segments w) = fst ` set L"
    using assms(1) by (simp_all add: wal_inv_def)
  from assms(2) cur have id: "?id \<in> set (wl_segments w)"
    by (auto simp: BackupLastRotatedSegment_def Let_def split: if_splits)
  then obtain rs where rs: "(?id, rs) \<in> set L" using segs by auto
  obtain s where s: "wl_heap w ?id = Some s" "seg_ok (wl_maxSegmentSize w) ?id s rs"
    using wal_inv_segment(1) [OF assms(1) rs] by blast
  have "backup' = backup(name \<mapsto> seg_mmapData s)"
    using assms(2) cur s(1)
    by (auto simp: BackupLastRotatedSegment_def copySegmentFile_def Let_def
        split: if_splits sum.splits prod.splits option.splits bool.splits)
  with rs s(2) show ?thesis by (auto simp: seg_ok_def)
qed

end
