(* ===== verification/WALogProps.thy ===== *)
theory WALogProps
  imports SegmentProps WALogReaderCorrect WALogRecovery Retention
begin

text \<open>
  The properties of the write-ahead log (\<open>pkg/walfs/walog.go\<close>), each with an instance on a log of 4096-byte
  segments in an empty directory.
\<close>

section \<open>A concrete log\<close>

definition cfg0 :: WALogConfig where
  "cfg0 = WithMaxSegmentSize 4096 (defaultConfig ''.seg'')"

definition wal0 :: WALog where
  "wal0 = projr (NewWALog (\<lambda>_. io_good) cfg0 [] Map.empty)"

lemmas cfg0_defs = cfg0_def WithMaxSegmentSize_def defaultConfig_def

lemma all_ok_good [simp]: "all_ok io_good"
  by (simp add: all_ok_def io_good_def)

lemma NewWALog_empty:
  assumes "all_ok (io 0)" "64 \<le> cfg_maxSegmentSize cfg" "cfg_maxSegmentSize cfg \<le> maxSegmentSize"
  shows "\<exists>w. NewWALog io cfg [] Map.empty = Inr w \<and> wal_inv w [(1, [])] \<and> wal_active w
    \<and> wl_maxSegmentSize w = cfg_maxSegmentSize cfg \<and> wl_ext w = cfg_ext cfg \<and> wl_segments w = [1] \<and> wl_files w = Map.empty
    \<and> fresh_ids w [(1, [])] \<and> (\<exists>s. current w = Some (1, s) \<and> seg_ok (cfg_maxSegmentSize cfg) 1 s [])"
proof -
  let ?m = "\<lparr>wl_ext = cfg_ext cfg, wl_maxSegmentSize = cfg_maxSegmentSize cfg,
       wl_bytesPerSync = cfg_bytesPerSync cfg, wl_unSynced = 0,
       wl_forceSyncEveryWrite = cfg_forceSyncEveryWrite cfg, wl_bytesPerSyncCalled = 0,
       wl_segmentRotated = 0, wl_currentSegment = None, wl_segments = [], wl_segmentSnapshot = [],
       wl_segmentMaxAge = cfg_segmentMaxAge cfg, wl_minSegmentsToRetain = cfg_minSegmentsToRetain cfg,
       wl_maxSegmentsToRetain = cfg_maxSegmentsToRetain cfg, wl_enableAutoCleanup = cfg_enableAutoCleanup cfg,
       wl_pendingDeletion = [], wl_heap = Map.empty, wl_files = Map.empty\<rparr>"
  obtain s where s: "openSegment (io 0) 1 ?m = (?m, Inr s)" "seg_ok (cfg_maxSegmentSize cfg) 1 s []" "\<not> seg_isSealed s"
    using openSegment_fresh [OF assms(1), of ?m 1] assms(2,3) by auto
  have ctr: "seg_readerIDCounter s = 0"
    using s(1) opened_fields by (auto simp: openSegment_def Let_def split: sum.splits if_splits)
  let ?w = "snapshotSegments (addCurrent 1 s ?m)"
  have "NewWALog io cfg [] Map.empty = Inr ?w"
    using s(1) by (simp add: NewWALog_def recoverSegments_def List.map_filter_def Let_def)
  moreover have "wal_inv ?w [(1, [])]"
    using s(2) assms(2,3) by (simp add: wal_inv_def snapshotSegments_def addCurrent_def put_segment_def)
  moreover have "wal_active ?w"
    using s(3) by (simp add: wal_active_def current_def snapshotSegments_def addCurrent_def put_segment_def)
  ultimately show ?thesis
    using s(2) ctr by (auto simp: snapshotSegments_def addCurrent_def put_segment_def fresh_ids_def current_def)
qed

lemma wal0_facts: "wal_inv wal0 [(1, [])]" "wal_active wal0" "wl_maxSegmentSize wal0 = 4096" "wl_ext wal0 = ''.seg''"
  "wl_segments wal0 = [1]" "wl_files wal0 = Map.empty" "fresh_ids wal0 [(1, [])]"
  "\<exists>s. current wal0 = Some (1, s) \<and> seg_ok 4096 1 s []"
  using NewWALog_empty [of "\<lambda>_. io_good" cfg0] by (auto simp: wal0_def cfg0_defs)

section \<open>Writing and reading\<close>

text \<open>C18. \<open>WALog.Write\<close> of a record that fits an empty segment, rotating first when the current one is too full,
  returns a new position; the log afterwards is the log before followed by that one record, and \<open>Read\<close> at every
  position of the log, old and new, returns the record written there.\<close>

theorem wal_write_read:
  assumes "wal_inv w L" "wal_active w" "all_ok io" "unat (fst (last L)) + 1 < 2 ^ 32"
    and "int (recordOverhead (length d)) \<le> int (wl_maxSegmentSize w) - 64"
  shows "\<exists>w' L' p. wl_Write io d w = (w', Inr p) \<and> wal_inv w' L' \<and> wal_active w'
    \<and> wal_log L' = wal_log L @ [(p, d)] \<and> (\<forall>(q, x) \<in> set (wal_log L'). wl_Read q w' = Inr x)"
proof -
  obtain w' L' p where "wl_Write io d w = (w', Inr p)" "wal_inv w' L'" "wal_active w'" "extends L [(p, d)] L'"
    using wl_Write_ok [OF assms] by blast
  then show ?thesis using wl_Read_entry by (auto simp: extends_def)
qed

theorem wal_write_read_witness:
  "\<exists>w' L' p. wl_Write io_good [1, 2, 3] wal0 = (w', Inr p) \<and> wal_log L' = [(p, [1, 2, 3])] \<and> wl_Read p w' = Inr [1, 2, 3]"
  using wal_write_read [OF wal0_facts(1,2) all_ok_good, of "[1, 2, 3]"] wal0_facts(3)
  by (fastforce simp: recordOverhead_def alignUp_eq wal_log_def)

text \<open>C20. \<open>WALog.WriteBatch\<close> of any number of records that each fit an empty segment terminates, rotating as often as
  necessary, and returns one position for each record; the log is extended by exactly these records, in the order
  of the batch.\<close>

theorem wal_batch:
  assumes "wal_inv w L" "wal_active w" "\<forall>i. all_ok (io i)" "unat (fst (last L)) + length ds < 2 ^ 32"
    and "\<forall>d \<in> set ds. int (recordOverhead (length d)) \<le> int (wl_maxSegmentSize w) - 64"
  shows "\<exists>w' L' ps. wl_WriteBatch io ds w = (w', ps, None) \<and> wal_inv w' L' \<and> wal_active w'
    \<and> length ps = length ds \<and> wal_log L' = wal_log L @ zip ps ds"
  using wl_WriteBatch_ok [OF assms] by (auto simp: extends_def)

theorem wal_batch_witness:
  "\<exists>w' L' ps. wl_WriteBatch (\<lambda>_. io_good) [[1], [2, 3]] wal0 = (w', ps, None) \<and> wal_inv w' L'
    \<and> length ps = 2 \<and> wal_log L' = zip ps [[1], [2, 3]]"
  using wal_batch [OF wal0_facts(1,2), of "\<lambda>_. io_good" "[[1], [2, 3]]"] wal0_facts(3)
  by (auto simp: recordOverhead_def alignUp_eq wal_log_def)

section \<open>Restart\<close>

text \<open>C19. Restarting: \<open>NewWALog\<close> over the directory of a log, listed in any order and with any other files in it, recovers
  the same segments with the same records and positions, provided no record has checksum 0.\<close>

theorem wal_restart:
  assumes "wal_inv w L" "\<forall>(sid, rs) \<in> set L. \<forall>d \<in> set rs. sum_of d \<noteq> 0" "\<forall>i. all_ok (io i)"
    and "cfg_ext cfg = wl_ext w" "cfg_maxSegmentSize cfg = wl_maxSegmentSize w"
    and "distinct (List.map_filter (segmentIDOf (wl_ext w)) listing)"
    and "set (List.map_filter (segmentIDOf (wl_ext w)) listing) = set (wl_segments w)" "dom (wl_disk w) \<subseteq> set listing"
  shows "\<exists>w'. NewWALog io cfg listing (wl_disk w) = Inr w' \<and> wal_inv w' L
    \<and> (\<forall>(p, d) \<in> set (wal_log L). wl_Read p w' = Inr d)"
proof -
  have L: "sorted_wrt (<) (map fst L)" "L \<noteq> []" "64 \<le> wl_maxSegmentSize w" "wl_maxSegmentSize w \<le> maxSegmentSize"
      "set (wl_segments w) = fst ` set L"
    using assms(1) by (simp_all add: wal_inv_def)
  have "\<exists>m. wl_disk w (SegmentFileName (wl_ext w) (fst x)) = Some m \<and> file_of (wl_maxSegmentSize w) m (snd x)"
    if "x \<in> set L" for x
    using wl_disk_file [OF assms(1), of "fst x" "snd x"] assms(2) that by auto
  then obtain w' where w': "NewWALog io cfg listing (wl_disk w) = Inr w'" "wal_inv w' L"
    using NewWALog_recovers [of io cfg L "wl_disk w" listing] assms(3-8) L by auto
  then show ?thesis using wl_Read_entry [OF w'(2)] by auto
qed

lemma wal0_disk: "dom (wl_disk wal0) \<subseteq> {SegmentFileName ''.seg'' 1}"
  using wal0_facts by (auto simp: wl_disk_def split: option.splits if_splits)

theorem wal_restart_witness:
  "\<exists>w'. NewWALog (\<lambda>_. io_good) cfg0 [SegmentFileName ''.seg'' 1] (wl_disk wal0) = Inr w' \<and> wal_inv w' [(1, [])]"
  using wal_restart [OF wal0_facts(1), of "\<lambda>_. io_good" cfg0 "[SegmentFileName ''.seg'' 1]"] wal0_facts wal0_disk
  by (auto simp: cfg0_defs List.map_filter_def)

section \<open>Readers\<close>

text \<open>C21. A reader over the whole log, driven by \<open>Next\<close>, returns every record of every segment with its position, once and in
  order, stepping from sealed segments to the next; it stops with \<open>ErrNoNewData\<close> at the end of the active segment.
  Reading does not change the log.\<close>

theorem wal_reader_complete:
  assumes "wal_inv w L" "wal_active w" "fresh_ids w L" "length (wal_log L) < n"
  shows "wr_drain n io w (wl_NewReader w) = (wal_log L, Some ErrNoNewData)"
proof -
  have "L \<noteq> []" using assms(1) by (simp add: wal_inv_def)
  moreover have "reader_todo w L (wl_NewReader w) (wal_log L)" using assms(1,3) by (rule NewReader_todo)
  ultimately have "wr_drain n io w (wl_NewReader w) = (wal_log L, Some (next_result w L))"
    using wr_drain_ok [of w "[]" L] assms(1,4) by simp
  moreover have "next_result w L = ErrNoNewData"
    using assms(1,2) by (auto simp: next_result_def wal_active_def sealed_in_def current_def wal_inv_def split: option.splits)
  ultimately show ?thesis by simp
qed

theorem wal_reader_complete_witness:
  "\<exists>w' p. wl_Write io_good [1, 2, 3] wal0 = (w', Inr p) \<and> wr_drain 1 io_good wal0 (wl_NewReader wal0) = ([], Some ErrNoNewData)"
proof -
  have "wr_drain 1 io_good wal0 (wl_NewReader wal0) = ([], Some ErrNoNewData)"
    using wal_reader_complete [OF wal0_facts(1,2,7), of 1 io_good] by (simp add: wal_log_def)
  moreover obtain w' p where "wl_Write io_good [1, 2, 3] wal0 = (w', Inr p)"
    using wl_Write_ok [OF wal0_facts(1,2) all_ok_good, of "[1, 2, 3]"] wal0_facts(3)
    by (auto simp: recordOverhead_def alignUp_eq)
  ultimately show ?thesis by blast
qed

text \<open>C22. Resuming: for a position \<open>p\<close> in the log, the reader made by \<open>NewReaderWithStart\<close> returns exactly the records from \<open>p\<close> on
  and the one made by \<open>NewReaderAfter\<close> exactly those behind \<open>p\<close>, across segment boundaries, none skipped and none
  repeated.\<close>

theorem wal_reader_resumes:
  assumes "wal_inv w L" "fresh_ids w L" "wal_log L = before @ (p, d) # rest" "SegmentID p \<noteq> 0" "length (wal_log L) < n"
  shows "(\<exists>r e. NewReaderWithStart p w = Inr r \<and> wr_drain n io w r = ((p, d) # rest, Some e))
    \<and> (\<exists>w' r e. NewReaderAfter io p w = (w', Inr r) \<and> wr_drain n io w' r = (rest, Some e))"
proof -
  obtain P sid xs ys R' where L: "L = P @ (sid, xs @ d # ys) # R'" and p: "p = \<lparr>SegmentID = sid, Offset = int (64 + run_size xs)\<rparr>"
    and b: "before = wal_log P @ seg_entries (sid, xs)"
    using wal_log_split [OF assms(3)] by blast
  have tail: "entries_from sid xs (d # ys) @ wal_log R' = (p, d) # rest"
    using assms(3) by (simp add: L b p wal_log_def seg_entries_append entries_from_def)
  moreover have hd: "entries_from sid xs (d # ys) = (p, d) # entries_from sid (xs @ [d]) ys"
    by (simp add: entries_from_def p add.assoc)
  ultimately have rest: "rest = entries_from sid (xs @ [d]) ys @ wal_log R'" by simp
  have sid: "sid \<noteq> 0" using assms(4) p by simp
  have n: "length ((p, d) # rest) < n" using assms(3,5) by simp
  obtain r where r: "NewReaderWithStart p w = Inr r" "reader_todo w ((sid, xs @ d # ys) # R') r ((p, d) # rest)"
    using NewReaderWithStart_todo [OF assms(1,2)[unfolded L] sid] tail p by auto
  moreover have "\<exists>e. wr_drain n io w r = ((p, d) # rest, Some e)"
    using wr_drain_ok [OF assms(1)[unfolded L] _ r(2) n] by auto
  moreover obtain w' r' where r': "NewReaderAfter io p w = (w', Inr r')" "wal_inv w' L" "reader_todo w' ((sid, xs @ d # ys) # R') r' rest"
    using NewReaderAfter_todo [OF assms(1,2)[unfolded L] sid, of io] rest p by (auto simp: L)
  moreover have "\<exists>e. wr_drain n io w' r' = (rest, Some e)"
    using wr_drain_ok [OF r'(2)[unfolded L] _ r'(3), of n io] n by auto
  ultimately show ?thesis by blast
qed

text \<open>The concrete log after one write.\<close>

definition wal1 :: WALog where
  "wal1 = fst (wl_Write io_good [1, 2, 3] wal0)"

lemma wal1_facts: "wal_inv wal1 [(1, [[1, 2, 3]])]" "fresh_ids wal1 [(1, [[1, 2, 3]])]"
proof -
  obtain s where s: "current wal0 = Some (1, s)" "seg_ok 4096 1 s []" using wal0_facts(8) by blast
  have off: "seg_writeOffset s = 64" "seg_mmapSize s = 4096"
    using s(2) seg_inv_offset [of s "[]"] by (auto simp: seg_ok_def seg_holds_def)
  have "\<not> seg_isSealed s" using wal0_facts(2) s(1) by (simp add: wal_active_def)
  with wl_Write_fits [of wal0 "[]" 1 "[]" s io_good "[1, 2, 3]"] wal0_facts(1) s(1) off
  obtain w where w: "wl_Write io_good [1, 2, 3] wal0 = (w, Inr \<lparr>SegmentID = 1, Offset = 64\<rparr>)" "wal_inv w [(1, [[1, 2, 3]])]"
      "current w = Some (1, appended io_good [1, 2, 3] s)"
    by (auto simp: entrySizeOf_def alignUp_eq)
  have "unat (seg_readerIDCounter s) + 1 < 2 ^ 64" using wal0_facts(7) s(1) by (auto simp: fresh_ids_def current_def split: option.splits)
  then show "wal_inv wal1 [(1, [[1, 2, 3]])]" "fresh_ids wal1 [(1, [[1, 2, 3]])]"
    using w by (auto simp: wal1_def fresh_ids_def current_def appended_def Let_def split: option.splits)
qed

theorem wal_reader_resumes_witness:
  "(\<exists>r e. NewReaderWithStart \<lparr>SegmentID = 1, Offset = 64\<rparr> wal1 = Inr r
      \<and> wr_drain 2 io_good wal1 r = ([(\<lparr>SegmentID = 1, Offset = 64\<rparr>, [1, 2, 3])], Some e))
    \<and> (\<exists>w' r e. NewReaderAfter io_good \<lparr>SegmentID = 1, Offset = 64\<rparr> wal1 = (w', Inr r) \<and> wr_drain 2 io_good w' r = ([], Some e))"
  using wal_reader_resumes [OF wal1_facts, of "[]" "\<lparr>SegmentID = 1, Offset = 64\<rparr>" "[1, 2, 3]" "[]" 2 io_good]
  by (simp add: wal_log_def seg_entries_def)



section \<open>Deletion\<close>

text \<open>C24. A tick of the segment cleaner removes from the log only segments that were queued and that the predicate allows
  (or whose file was already deleted); a segment a reader still holds stays in the log, mapped, with its contents
  unchanged, whatever the predicate says.\<close>

theorem cleaner_safe:
  assumes "sid \<in> set (wl_segments w)" "wl_heap w sid = Some s" "life_inv s"
  shows "(sid \<notin> set (wl_segments (cleanerTick io can w)) \<longrightarrow> sid \<in> set (wl_pendingDeletion w) \<and> (allowed can sid \<or> seg_removed s))
    \<and> (reg_ids s \<noteq> {} \<longrightarrow> sid \<in> set (wl_segments (cleanerTick io can w))
        \<and> (\<exists>s'. wl_heap (cleanerTick io can w) sid = Some s' \<and> readable s' \<and> \<not> seg_removed s'
            \<and> seg_mmapData s' = seg_mmapData s \<and> seg_writeOffset s' = seg_writeOffset s))"
  using cleanerTick_only_allowed [OF assms(1), of io can] cleanerTick_pinned [OF assms, of io can] assms(2)
  by (auto simp: is_removed_def)

theorem cleaner_safe_witness:
  "\<exists>s s' r. wl_heap wal0 1 = Some s \<and> NewReader s = Some (s', r)
    \<and> 1 \<in> set (wl_segments (cleanerTick io_good (Some (\<lambda>_. True)) (put_segment 1 s' (wal0\<lparr>wl_pendingDeletion := [1]\<rparr>))))"
proof -
  obtain s where s: "current wal0 = Some (1, s)" "seg_ok 4096 1 s []" using wal0_facts(8) by blast
  have h: "wl_heap wal0 1 = Some s" using s(1) by (auto simp: current_def split: option.splits)
  have "readerAllowed s" using s(2) by (simp add: seg_ok_def readerAllowed_def)
  then obtain s' r where r: "NewReader s = Some (s', r)" by (cases "registerReader s") (simp add: NewReader_def)
  have "unat (seg_readerIDCounter s) + 1 < 2 ^ 64" using wal0_facts(7) h by (auto simp: fresh_ids_def)
  then have l: "life_inv s'" "reg_ids s' \<noteq> {}"
    using life_inv_NewReader [OF _ r] s(2) by (auto simp: seg_ok_def)
  show ?thesis
    using cleaner_safe [of 1 "put_segment 1 s' (wal0\<lparr>wl_pendingDeletion := [1]\<rparr>)" s' io_good "Some (\<lambda>_. True)"] l r h wal0_facts(5)
    by (auto simp: put_segment_def)
qed

end
