(* ===== verification/KeyCodec.thy ===== *)
theory KeyCodec
  imports Prelude "HOL-Library.Sublist"
begin

text \<open>
  Storage keys. \<open>internal/keycodec/keycodec.go\<close> is used by the engine (prefix \<open>kc\<close>), \<open>pkg/kvdrivers/util.go\<close>
  by the storage drivers; the two differ in \<open>KeyColumn\<close> and \<open>KeyBlobChunk\<close>. A key is a type byte, for rows and
  blobs the big-endian length of the name, the name, and the column name or chunk number.

  The lemmas show that the key spaces of the kinds are disjoint, that the encodings are injective and rows
  prefix-free on names that do not start with the type byte of their kind, and that the drivers leave the keys of
  the engine alone.
\<close>

section \<open>Kinds\<close>

definition KeyTypeKV :: byte where "KeyTypeKV = 254"

definition KeyTypeWideColumn :: byte where "KeyTypeWideColumn = 253"

definition KeyTypeBlobChunk :: byte where "KeyTypeBlobChunk = 255"

definition KeyTypeSystem :: byte where "KeyTypeSystem = 252"

lemmas key_types [simp] = KeyTypeKV_def KeyTypeWideColumn_def KeyTypeBlobChunk_def KeyTypeSystem_def

datatype KeyKind = KeyKindUnknown | KeyKindKV | KeyKindWideColumn | KeyKindBlobChunk | KeyKindSystem

fun ParseKeyKind :: "bytes \<Rightarrow> KeyKind" where
  "ParseKeyKind [] = KeyKindUnknown"
| "ParseKeyKind (b # _) =
    (if b = KeyTypeKV then KeyKindKV
     else if b = KeyTypeWideColumn then KeyKindWideColumn
     else if b = KeyTypeBlobChunk then KeyKindBlobChunk
     else if b = KeyTypeSystem then KeyKindSystem
     else KeyKindUnknown)"

section \<open>Keys of the engine\<close>

text \<open>Does the name start with a type byte?\<close>

definition typed :: "byte \<Rightarrow> bytes \<Rightarrow> bool" where
  "typed t k = (k \<noteq> [] \<and> hd k = t)"

definition kc_KeyKV :: "bytes \<Rightarrow> bytes" where
  "kc_KeyKV k = (if typed KeyTypeKV k then k else KeyTypeKV # k)"

definition kc_RowKey :: "bytes \<Rightarrow> bytes" where
  "kc_RowKey row =
    (if typed KeyTypeWideColumn row then row
     else KeyTypeWideColumn # BE_PutUint32 (word_of_nat (length row)) @ row)"

definition kc_KeyColumn :: "bytes \<Rightarrow> bytes \<Rightarrow> bytes" where
  "kc_KeyColumn row col = KeyTypeWideColumn # BE_PutUint32 (word_of_nat (length row)) @ row @ col"

definition kc_KeyBlobChunk :: "bytes \<Rightarrow> nat \<Rightarrow> bytes" where
  "kc_KeyBlobChunk blobID chunk =
    (if typed KeyTypeBlobChunk blobID then blobID
     else KeyTypeBlobChunk # BE_PutUint32 (word_of_nat (length blobID)) @ blobID @ BE_PutUint32 (word_of_nat chunk))"

definition kc_KeySystem :: "bytes \<Rightarrow> bytes" where
  "kc_KeySystem name = KeyTypeSystem # name"

section \<open>Keys of the drivers\<close>

definition KeyKV :: "bytes \<Rightarrow> bytes" where
  "KeyKV k = (if typed KeyTypeKV k then k else KeyTypeKV # k)"

definition RowKey :: "bytes \<Rightarrow> bytes" where
  "RowKey row =
    (if typed KeyTypeWideColumn row then row
     else KeyTypeWideColumn # BE_PutUint32 (word_of_nat (length row)) @ row)"

definition KeyColumn :: "bytes \<Rightarrow> bytes \<Rightarrow> bytes" where
  "KeyColumn row col =
    (if typed KeyTypeWideColumn row then (if col = [] then row else row @ col)
     else KeyTypeWideColumn # BE_PutUint32 (word_of_nat (length row)) @ row @ col)"

definition KeyBlobChunk :: "bytes \<Rightarrow> nat \<Rightarrow> bytes" where
  "KeyBlobChunk blobID chunk =
    (if typed KeyTypeBlobChunk blobID \<and> chunk = 0 then blobID
     else KeyTypeBlobChunk # BE_PutUint32 (word_of_nat (length blobID)) @ blobID @ BE_PutUint32 (word_of_nat chunk))"

definition KeySystem :: "bytes \<Rightarrow> bytes" where
  "KeySystem name = KeyTypeSystem # name"

section \<open>The key spaces\<close>

lemma typed_simps [simp]: "\<not> typed t []" "typed t (b # k) \<longleftrightarrow> b = t"
  by (auto simp: typed_def)

lemma typed_append [simp]: "typed t (k @ l) \<longleftrightarrow> (if k = [] then typed t l else typed t k)"
  by (cases k) simp_all

lemma typed_keys [simp]:
  "typed t (KeyKV k) \<longleftrightarrow> t = KeyTypeKV" "typed t (RowKey r) \<longleftrightarrow> t = KeyTypeWideColumn"
  "typed t (KeyColumn r c) \<longleftrightarrow> t = KeyTypeWideColumn" "typed t (KeyBlobChunk b i) \<longleftrightarrow> t = KeyTypeBlobChunk"
  by (auto simp: KeyKV_def RowKey_def KeyColumn_def KeyBlobChunk_def typed_def)

lemma kinds_disjoint [simp]:
  "KeyKV k \<noteq> KeyColumn r c" "KeyKV k \<noteq> KeyBlobChunk b i" "KeyColumn r c \<noteq> KeyBlobChunk b i"
  "KeyColumn r c \<noteq> KeyKV k" "KeyBlobChunk b i \<noteq> KeyKV k" "KeyBlobChunk b i \<noteq> KeyColumn r c"
  by (auto dest: arg_cong [where f = "typed 254"] arg_cong [where f = "typed 253"])

lemma ParseKeyKind_keys:
  "ParseKeyKind (KeyKV k) = KeyKindKV" "ParseKeyKind (KeyColumn r c) = KeyKindWideColumn"
  "ParseKeyKind (RowKey r) = KeyKindWideColumn" "ParseKeyKind (KeyBlobChunk b i) = KeyKindBlobChunk"
  "ParseKeyKind (KeySystem n) = KeyKindSystem"
proof -
  have "ParseKeyKind x = (if typed 254 x then KeyKindKV else if typed 253 x then KeyKindWideColumn
      else if typed 255 x then KeyKindBlobChunk else if typed 252 x then KeyKindSystem else KeyKindUnknown)" for x
    by (cases x) simp_all
  then show "ParseKeyKind (KeyKV k) = KeyKindKV" "ParseKeyKind (KeyColumn r c) = KeyKindWideColumn"
      "ParseKeyKind (RowKey r) = KeyKindWideColumn" "ParseKeyKind (KeyBlobChunk b i) = KeyKindBlobChunk"
      "ParseKeyKind (KeySystem n) = KeyKindSystem"
    by (simp_all add: KeySystem_def)
qed

text \<open>A user key may be any byte string; the name of a kind is \<open>plain\<close> when the encoder does not take it for an
  encoded key and its length fits the length field.\<close>

definition plain :: "byte \<Rightarrow> bytes \<Rightarrow> bool" where
  "plain t k \<longleftrightarrow> \<not> typed t k \<and> length k < 2 ^ 32"

lemma word_of_nat_inj32:
  "m < 2 ^ 32 \<Longrightarrow> n < 2 ^ 32 \<Longrightarrow> (word_of_nat m :: u32) = word_of_nat n \<longleftrightarrow> m = n"
  by (simp add: word_of_nat_eq_iff take_bit_nat_eq_self)

lemma length_prefixed_inj:
  assumes "length a < 2 ^ 32" "length b < 2 ^ 32"
    and "BE_PutUint32 (word_of_nat (length a)) @ a @ x = BE_PutUint32 (word_of_nat (length b)) @ b @ y"
  shows "a = b \<and> x = y"
  using be32.enc_prefix_unique [OF TrueI TrueI assms(3)] assms(1,2) by (auto simp: word_of_nat_inj32)

lemma KeyKV_inj: "\<not> typed KeyTypeKV a \<Longrightarrow> \<not> typed KeyTypeKV b \<Longrightarrow> KeyKV a = KeyKV b \<longleftrightarrow> a = b"
  by (auto simp: KeyKV_def)

lemma KeyColumn_inj:
  assumes "plain KeyTypeWideColumn r" "plain KeyTypeWideColumn r'"
  shows "KeyColumn r c = KeyColumn r' c' \<longleftrightarrow> r = r' \<and> c = c'"
  using assms length_prefixed_inj [of r r' c c'] by (auto simp: KeyColumn_def plain_def)

lemma KeyBlobChunk_inj:
  assumes "plain KeyTypeBlobChunk b" "plain KeyTypeBlobChunk b'" "i < 2 ^ 32" "j < 2 ^ 32"
  shows "KeyBlobChunk b i = KeyBlobChunk b' j \<longleftrightarrow> b = b' \<and> i = j"
  using assms length_prefixed_inj [of b b' "BE_PutUint32 (word_of_nat i)" "BE_PutUint32 (word_of_nat j)"]
  by (auto simp: KeyBlobChunk_def plain_def word_of_nat_inj32 dest: be32.enc_inj [OF TrueI TrueI])

lemma KeyColumn_RowKey: "KeyColumn r c = RowKey r @ c"
  by (simp add: KeyColumn_def RowKey_def)

lemma RowKey_prefix:
  assumes "plain KeyTypeWideColumn r" "plain KeyTypeWideColumn r'"
  shows "prefix (RowKey r) (KeyColumn r' c) \<longleftrightarrow> r = r'"
proof
  assume "prefix (RowKey r) (KeyColumn r' c)"
  then obtain z where "KeyColumn r' c = KeyColumn r z" by (auto simp: prefix_def KeyColumn_RowKey)
  then show "r = r'" using KeyColumn_inj [OF assms(2,1)] by simp
qed (simp add: KeyColumn_RowKey)

section \<open>Engine keys in the drivers\<close>

lemma driver_keeps_engine_keys:
  "KeyKV (kc_KeyKV k) = kc_KeyKV k" "RowKey (kc_RowKey r) = kc_RowKey r"
  "KeyColumn (kc_RowKey r) c = kc_RowKey r @ c" "KeyBlobChunk (kc_KeyBlobChunk b 0) 0 = kc_KeyBlobChunk b 0"
  by (auto simp: KeyKV_def kc_KeyKV_def RowKey_def kc_RowKey_def KeyColumn_def KeyBlobChunk_def kc_KeyBlobChunk_def)

lemma kc_same:
  "kc_KeyKV k = KeyKV k" "kc_RowKey r = RowKey r" "kc_KeyBlobChunk b 0 = KeyBlobChunk b 0"
  by (simp_all add: KeyKV_def kc_KeyKV_def RowKey_def kc_RowKey_def KeyBlobChunk_def kc_KeyBlobChunk_def)

end
