(* ===== verification/StoreSpec.thy ===== *)
theory StoreSpec
  imports KeyCodec
begin

text \<open>
  What the storage drivers promise (\<open>unifiedStorage\<close> and \<open>txnWriter\<close> in \<open>pkg/kvdrivers/api.go\<close>): a store holds plain
  values, wide-column cells and large objects, each under its own name, and one operation changes what its name
  says and nothing else. \<open>rep\<close> relates such a store to the byte keys of one bucket; the lemmas of the locale
  \<open>key_names\<close> show that the updates the drivers make on the bucket keep this relation.
\<close>

section \<open>The abstract store\<close>

type_synonym bucket = "bytes \<rightharpoonup> bytes"

record ustore =
  u_kv :: "bytes \<rightharpoonup> bytes"
  u_cell :: "bytes \<Rightarrow> bytes \<rightharpoonup> bytes"
  u_lob :: "bytes \<rightharpoonup> bytes list \<times> u32"

datatype sop =
    PutKV bytes bytes
  | DelKV bytes
  | SetLob bytes "bytes list" u32
  | DelLob bytes
  | SetCells bytes "(bytes \<times> bytes) list"
  | DelCells bytes "bytes list"
  | DelRow bytes

fun apply_sop :: "sop \<Rightarrow> ustore \<Rightarrow> ustore" where
  "apply_sop (PutKV k v) u = u\<lparr>u_kv := (u_kv u)(k \<mapsto> v)\<rparr>"
| "apply_sop (DelKV k) u = u\<lparr>u_kv := (u_kv u)(k := None)\<rparr>"
| "apply_sop (SetLob k cs s) u = u\<lparr>u_lob := (u_lob u)(k \<mapsto> (cs, s))\<rparr>"
| "apply_sop (DelLob k) u = u\<lparr>u_lob := (u_lob u)(k := None)\<rparr>"
| "apply_sop (SetCells r es) u = u\<lparr>u_cell := (u_cell u)(r := fold (\<lambda>(c, v) m. m(c \<mapsto> v)) es (u_cell u r))\<rparr>"
| "apply_sop (DelCells r cs) u = u\<lparr>u_cell := (u_cell u)(r := fold (\<lambda>c m. m(c := None)) cs (u_cell u r))\<rparr>"
| "apply_sop (DelRow r) u = u\<lparr>u_cell := (u_cell u)(r := Map.empty)\<rparr>"

text \<open>The writing methods of a driver, and what each asks of the abstract store.\<close>

datatype storeCall =
    CSetKV bytes bytes
  | CBatchSetKV "bytes list" "bytes list"
  | CSetLobChunks bytes "bytes list" u32
  | CBatchSetCells "bytes list" "(bytes \<times> bytes) list list"
  | CBatchDeleteCells "bytes list" "(bytes \<times> bytes) list list"
  | CBatchDeleteRows "bytes list"
  | CDeleteKV bytes
  | CBatchDeleteKV "bytes list"
  | CBatchDeleteLobChunks "bytes list"

fun call_sops :: "storeCall \<Rightarrow> sop list" where
  "call_sops (CSetKV k v) = [PutKV k v]"
| "call_sops (CBatchSetKV ks vs) = map (\<lambda>(k, v). PutKV k v) (zip ks vs)"
| "call_sops (CSetLobChunks k cs s) = [SetLob k cs s]"
| "call_sops (CBatchSetCells rs ess) = map (\<lambda>(r, es). SetCells r es) (zip rs ess)"
| "call_sops (CBatchDeleteCells rs ess) = map (\<lambda>(r, es). DelCells r (map fst es)) (zip rs ess)"
| "call_sops (CBatchDeleteRows rs) = map DelRow rs"
| "call_sops (CDeleteKV k) = [DelKV k]"
| "call_sops (CBatchDeleteKV ks) = map DelKV ks"
| "call_sops (CBatchDeleteLobChunks ks) = map DelLob ks"

text \<open>The names a call uses are names of their kind, and a large object has fewer than \<open>2\<^sup>3\<^sup>2\<close> chunks.\<close>

fun sop_ok :: "(bytes \<Rightarrow> bool) \<Rightarrow> (bytes \<Rightarrow> bool) \<Rightarrow> (bytes \<Rightarrow> bool) \<Rightarrow> sop \<Rightarrow> bool" where
  "sop_ok NK NR NB (PutKV k v) = NK k"
| "sop_ok NK NR NB (DelKV k) = NK k"
| "sop_ok NK NR NB (SetLob k cs s) = (NB k \<and> length cs < 2 ^ 32)"
| "sop_ok NK NR NB (DelLob k) = NB k"
| "sop_ok NK NR NB (SetCells r es) = NR r"
| "sop_ok NK NR NB (DelCells r cs) = NR r"
| "sop_ok NK NR NB (DelRow r) = NR r"

definition call_ok :: "(bytes \<Rightarrow> bool) \<Rightarrow> (bytes \<Rightarrow> bool) \<Rightarrow> (bytes \<Rightarrow> bool) \<Rightarrow> storeCall \<Rightarrow> bool" where
  "call_ok NK NR NB c = list_all (sop_ok NK NR NB) (call_sops c)"

text \<open>As many values as keys.\<close>

definition paired :: "storeCall \<Rightarrow> bool" where
  "paired c = (case c of CBatchSetKV ks vs \<Rightarrow> length ks = length vs | _ \<Rightarrow> True)"

section \<open>Its representation in a bucket\<close>

definition chunkedValue :: byte where "chunkedValue = 255"

text \<open>The metadata value of a large object: flag, number of chunks, checksum.\<close>

definition lob_meta :: "nat \<Rightarrow> u32 \<Rightarrow> bytes" where
  "lob_meta n checksum = chunkedValue # LE_PutUint32 (word_of_nat n) @ LE_PutUint32 checksum"

definition lob_slot :: "(bytes list \<times> u32) option \<Rightarrow> nat \<Rightarrow> bytes option" where
  "lob_slot l i = (case l of None \<Rightarrow> None
     | Some (cs, s) \<Rightarrow> if i = 0 then Some (lob_meta (length cs) s) else if i \<le> length cs then Some (cs ! (i - 1)) else None)"

definition rep ::
  "(bytes \<Rightarrow> bool) \<Rightarrow> (bytes \<Rightarrow> bool) \<Rightarrow> (bytes \<Rightarrow> bool) \<Rightarrow> bucket \<Rightarrow> ustore \<Rightarrow> bool" where
  "rep NK NR NB m u \<longleftrightarrow>
    (\<forall>k. NK k \<longrightarrow> m (KeyKV k) = u_kv u k)
    \<and> (\<forall>r c. NR r \<longrightarrow> m (KeyColumn r c) = u_cell u r c)
    \<and> (\<forall>b i. NB b \<longrightarrow> i < 2 ^ 32 \<longrightarrow> m (KeyBlobChunk b i) = lob_slot (u_lob u b) i)
    \<and> (\<forall>b cs s. NB b \<longrightarrow> u_lob u b = Some (cs, s) \<longrightarrow> length cs < 2 ^ 32)"

lemma repD:
  assumes "rep NK NR NB m u"
  shows "NK k \<Longrightarrow> m (KeyKV k) = u_kv u k" "NR r \<Longrightarrow> m (KeyColumn r c) = u_cell u r c"
    "NB b \<Longrightarrow> i < 2 ^ 32 \<Longrightarrow> m (KeyBlobChunk b i) = lob_slot (u_lob u b) i"
    "NB b \<Longrightarrow> u_lob u b = Some (cs, s) \<Longrightarrow> length cs < 2 ^ 32"
  using assms by (auto simp: rep_def)

text \<open>Reading the number of chunks back.\<close>

definition chunkCountOf :: "bytes \<Rightarrow> nat" where
  "chunkCountOf v = unat (LE_Uint32 (bslice 1 5 v))"

lemma length_lob_meta [simp]: "length (lob_meta n s) = 9"
  by (simp add: lob_meta_def)

lemma hd_lob_meta [simp]: "lob_meta n s \<noteq> []" "lob_meta n s ! 0 = chunkedValue" "hd (lob_meta n s) = chunkedValue"
  by (simp_all add: lob_meta_def)

lemma chunkCountOf_lob_meta [simp]: "n < 2 ^ 32 \<Longrightarrow> chunkCountOf (lob_meta n s) = n"
  by (simp add: chunkCountOf_def lob_meta_def bslice_def unat_of_nat)

section \<open>Loops over keys\<close>

definition del_all :: "bytes list \<Rightarrow> bucket \<Rightarrow> bucket" where
  "del_all ks = fold (\<lambda>k m. m(k := None)) ks"

definition put_all :: "(bytes \<times> bytes) list \<Rightarrow> bucket \<Rightarrow> bucket" where
  "put_all es = fold (\<lambda>(k, v) m. m(k \<mapsto> v)) es"

lemma del_all_apply: "del_all ks m x = (if x \<in> set ks then None else m x)"
  by (induction ks arbitrary: m) (auto simp: del_all_def)

lemma put_all_other: "x \<notin> fst ` set es \<Longrightarrow> put_all es m x = m x"
  by (induction es arbitrary: m) (auto simp: put_all_def)

lemma put_all_upd: "k \<notin> fst ` set es \<Longrightarrow> put_all es (m(k \<mapsto> v)) = (put_all es m)(k \<mapsto> v)"
  by (induction es arbitrary: m) (auto simp: put_all_def fun_upd_twist)

lemma put_all_nth: "distinct (map fst es) \<Longrightarrow> i < length es \<Longrightarrow> put_all es m (fst (es ! i)) = Some (snd (es ! i))"
proof (induction es arbitrary: m i)
  case (Cons e es)
  show ?case
  proof (cases i)
    case 0
    then have "fst e \<notin> fst ` set es" using Cons.prems(1) by simp
    then show ?thesis using 0 put_all_other [of "fst e" es] by (cases e) (simp add: put_all_def)
  next
    case (Suc j)
    then show ?thesis using Cons by (cases e) (simp add: put_all_def)
  qed
qed simp

definition chunk_keys :: "bytes \<Rightarrow> nat \<Rightarrow> bytes list" where
  "chunk_keys key n = map (KeyBlobChunk key) [1..<Suc n]"

definition chunk_entries :: "bytes \<Rightarrow> bytes list \<Rightarrow> (bytes \<times> bytes) list" where
  "chunk_entries key chunks = map (\<lambda>(i, c). (KeyBlobChunk key i, c)) (enumerate 1 chunks)"

lemma set_chunk_keys: "set (chunk_keys key n) = KeyBlobChunk key ` {1..n}"
  by (auto simp: chunk_keys_def)

lemma chunk_entries_nth [simp]:
  "i < length chunks \<Longrightarrow> chunk_entries key chunks ! i = (KeyBlobChunk key (Suc i), chunks ! i)"
  "length (chunk_entries key chunks) = length chunks"
  by (simp_all add: chunk_entries_def nth_enumerate_eq)

lemma fst_chunk_entries: "map fst (chunk_entries key chunks) = map (KeyBlobChunk key) [1..<Suc (length chunks)]"
  by (rule nth_equalityI) (simp_all del: upt_Suc)

lemma fst_chunk_entries_set: "fst ` set (chunk_entries key chunks) = KeyBlobChunk key ` {1..length chunks}"
  using arg_cong [OF fst_chunk_entries, of set key chunks] by (simp add: atLeastLessThanSuc_atLeastAtMost del: upt_Suc)

text \<open>The updates of \<open>SetLobChunks\<close> and \<open>BatchDeleteLobChunks\<close> on the bucket, with \<open>n\<close> old chunks.\<close>

definition set_lob :: "bytes \<Rightarrow> nat \<Rightarrow> bytes list \<Rightarrow> u32 \<Rightarrow> bucket \<Rightarrow> bucket" where
  "set_lob key n chunks checksum m =
    (put_all (chunk_entries key chunks) (del_all (chunk_keys key n) m))(KeyBlobChunk key 0 \<mapsto> lob_meta (length chunks) checksum)"

definition del_lob :: "bytes \<Rightarrow> nat \<Rightarrow> bucket \<Rightarrow> bucket" where
  "del_lob key n m = (del_all (chunk_keys key n) m)(KeyBlobChunk key 0 := None)"

definition old_count :: "bytes \<Rightarrow> bucket \<Rightarrow> nat" where
  "old_count key m = (case m (KeyBlobChunk key 0) of None \<Rightarrow> 0 | Some v \<Rightarrow> chunkCountOf v)"

lemma old_count_less: "old_count key m < 2 ^ 32"
  by (auto simp: old_count_def chunkCountOf_def unat_bounds split: option.splits)

lemma key_not_chunk [simp]: "KeyKV k \<notin> range (KeyBlobChunk key)" "KeyColumn r c \<notin> range (KeyBlobChunk key)"
  by auto

lemma set_lob_other: "x \<notin> range (KeyBlobChunk key) \<Longrightarrow> set_lob key n chunks s m x = m x"
  using put_all_other [of x "chunk_entries key chunks"]
  by (fastforce simp: set_lob_def del_all_apply set_chunk_keys fst_chunk_entries_set)

lemma del_lob_other: "x \<notin> range (KeyBlobChunk key) \<Longrightarrow> del_lob key n m x = m x"
  by (auto simp: del_lob_def del_all_apply set_chunk_keys)

section \<open>Names\<close>

text \<open>The names of keys, rows and large objects a client uses must be told apart by the encoders: users of the
  drivers pass plain names, the engine passes encoded keys.\<close>

locale key_names =
  fixes NK NR NB :: "bytes \<Rightarrow> bool"
  assumes kv_inj: "NK a \<Longrightarrow> NK b \<Longrightarrow> KeyKV a = KeyKV b \<Longrightarrow> a = b"
    and row_free: "NR r \<Longrightarrow> NR r' \<Longrightarrow> prefix (RowKey r) (KeyColumn r' c) \<Longrightarrow> r = r'"
    and blob_inj: "NB a \<Longrightarrow> NB b \<Longrightarrow> i < 2 ^ 32 \<Longrightarrow> j < 2 ^ 32 \<Longrightarrow> KeyBlobChunk a i = KeyBlobChunk b j \<Longrightarrow> a = b \<and> i = j"
begin

lemma rep_put_kv: "rep NK NR NB m u \<Longrightarrow> NK k \<Longrightarrow> rep NK NR NB (m(KeyKV k \<mapsto> v)) (apply_sop (PutKV k v) u)"
  by (auto simp: rep_def dest: kv_inj)

lemma rep_del_kv: "rep NK NR NB m u \<Longrightarrow> NK k \<Longrightarrow> rep NK NR NB (m(KeyKV k := None)) (apply_sop (DelKV k) u)"
  by (auto simp: rep_def dest: kv_inj)

lemma column_inj: "NR r \<Longrightarrow> NR r' \<Longrightarrow> KeyColumn r c = KeyColumn r' c' \<Longrightarrow> r = r' \<and> c = c'"
  using row_free [of r r' c'] by (metis KeyColumn_RowKey prefixI same_append_eq)

lemma rep_cell:
  assumes "rep NK NR NB m u" "NR r"
  shows "rep NK NR NB (m(KeyColumn r c := v)) (u\<lparr>u_cell := (u_cell u)(r := (u_cell u r)(c := v))\<rparr>)"
  using assms by (auto simp: rep_def dest: column_inj)

lemma rep_set_cells:
  "rep NK NR NB m u \<Longrightarrow> NR r \<Longrightarrow> rep NK NR NB (put_all (map (\<lambda>(c, v). (KeyColumn r c, v)) es) m) (apply_sop (SetCells r es) u)"
proof (induction es arbitrary: m u)
  case (Cons e es)
  obtain c v where e: "e = (c, v)" by (cases e)
  have "rep NK NR NB (m(KeyColumn r c \<mapsto> v)) (u\<lparr>u_cell := (u_cell u)(r := (u_cell u r)(c \<mapsto> v))\<rparr>)"
    using Cons.prems by (rule rep_cell)
  with Cons.IH [of "m(KeyColumn r c \<mapsto> v)"] Cons.prems(2) show ?case by (fastforce simp: put_all_def e)
qed (simp add: put_all_def)

lemma rep_del_cells:
  "rep NK NR NB m u \<Longrightarrow> NR r \<Longrightarrow> rep NK NR NB (del_all (map (KeyColumn r) cs) m) (apply_sop (DelCells r cs) u)"
proof (induction cs arbitrary: m u)
  case (Cons c cs)
  have "rep NK NR NB (m(KeyColumn r c := None)) (u\<lparr>u_cell := (u_cell u)(r := (u_cell u r)(c := None))\<rparr>)"
    using Cons.prems by (rule rep_cell)
  with Cons.IH [of "m(KeyColumn r c := None)"] Cons.prems(2) show ?case by (fastforce simp: del_all_def)
qed (simp add: del_all_def)

lemma rep_del_row:
  assumes "rep NK NR NB m u" "NR r" "\<And>x. m' x = (if prefix (RowKey r) x then None else m x)"
  shows "rep NK NR NB m' (apply_sop (DelRow r) u)"
proof -
  have "prefix (RowKey r) x \<Longrightarrow> typed 253 x" for x
    using typed_keys(2) [of 253 r] by (cases "RowKey r") (auto simp: prefix_def)
  then have t: "\<not> prefix (RowKey r) (KeyKV k)" "\<not> prefix (RowKey r) (KeyBlobChunk b i)" for k b i
    by fastforce+
  show ?thesis
    using assms(1,2) row_free [of r] unfolding rep_def by (auto simp: assms(3) t KeyColumn_RowKey)
qed

lemma set_lob_slot:
  assumes "NB key" "length chunks < 2 ^ 32" "i < 2 ^ 32" "\<And>j. n < j \<Longrightarrow> j < 2 ^ 32 \<Longrightarrow> m (KeyBlobChunk key j) = None"
  shows "set_lob key n chunks s m (KeyBlobChunk key i) = lob_slot (Some (chunks, s)) i"
proof -
  have inj: "KeyBlobChunk key a = KeyBlobChunk key b \<longleftrightarrow> a = b" if "a < 2 ^ 32" "b < 2 ^ 32" for a b
    using blob_inj [OF assms(1,1) that] by blast
  have dist: "distinct (map fst (chunk_entries key chunks))"
    unfolding fst_chunk_entries using assms(2) by (auto simp: distinct_map intro!: inj_onI dest!: inj [THEN iffD1, rotated 2])
  consider "i = 0" | "0 < i" "i \<le> length chunks" | "length chunks < i" by linarith
  then show ?thesis
  proof cases
    case 2
    then have "put_all (chunk_entries key chunks) m' (KeyBlobChunk key i) = Some (chunks ! (i - 1))" for m'
      using put_all_nth [OF dist, of "i - 1" m'] by simp
    then show ?thesis using 2 inj [of i 0] assms(3) by (simp add: set_lob_def lob_slot_def)
  next
    case 3
    then have "KeyBlobChunk key i \<notin> KeyBlobChunk key ` {1..length chunks}" using inj assms(2,3) by auto
    moreover have "del_all (chunk_keys key n) m (KeyBlobChunk key i) = None"
      using 3 assms(3,4) by (cases "i \<le> n") (auto simp: del_all_apply set_chunk_keys)
    ultimately show ?thesis
      using 3 inj [of i 0] assms(3) by (simp add: set_lob_def lob_slot_def put_all_other fst_chunk_entries_set)
  qed (simp add: set_lob_def lob_slot_def)
qed

lemma rep_old_count:
  assumes "rep NK NR NB m u" "NB key" "old_count key m < j" "j < 2 ^ 32"
  shows "m (KeyBlobChunk key j) = None"
  using repD(3) [OF assms(1,2), of 0] repD(3) [OF assms(1,2,4)] repD(4) [OF assms(1,2)] assms(3)
  by (cases "u_lob u key") (auto simp: lob_slot_def old_count_def)

lemma chunk_key_other:
  assumes "NB b" "NB key" "i < 2 ^ 32" "n < 2 ^ 32" "b \<noteq> key"
  shows "KeyBlobChunk b i \<noteq> KeyBlobChunk key 0 \<and> KeyBlobChunk b i \<notin> KeyBlobChunk key ` {1..n}"
proof -
  have "KeyBlobChunk b i \<noteq> KeyBlobChunk key j" if "j \<le> n" for j using blob_inj [OF assms(1,2,3), of j] assms(4,5) that by fastforce
  then show ?thesis by (auto simp: image_iff)
qed

lemma rep_set_lob:
  assumes "rep NK NR NB m u" "NB key" "length chunks < 2 ^ 32"
  shows "rep NK NR NB (set_lob key (old_count key m) chunks s m) (apply_sop (SetLob key chunks s) u)"
proof -
  have "set_lob key (old_count key m) chunks s m (KeyBlobChunk b i) = lob_slot (((u_lob u)(key \<mapsto> (chunks, s))) b) i"
    if b: "NB b" "i < 2 ^ 32" for b i
  proof (cases "b = key")
    case True
    then show ?thesis using set_lob_slot [OF assms(2,3) b(2), of "old_count key m" m s] rep_old_count [OF assms(1,2)] by simp
  next
    case False
    then have "KeyBlobChunk b i \<noteq> KeyBlobChunk key 0" "KeyBlobChunk b i \<notin> KeyBlobChunk key ` {1..length chunks}"
        "KeyBlobChunk b i \<notin> KeyBlobChunk key ` {1..old_count key m}"
      using chunk_key_other [OF b(1) assms(2) b(2), of "length chunks"] chunk_key_other [OF b(1) assms(2) b(2) old_count_less, of key m]
        assms(3) by auto
    then have "set_lob key (old_count key m) chunks s m (KeyBlobChunk b i) = m (KeyBlobChunk b i)"
      by (simp add: set_lob_def put_all_other fst_chunk_entries_set del_all_apply set_chunk_keys)
    then show ?thesis using False repD(3) [OF assms(1) b] by simp
  qed
  then show ?thesis
    using assms unfolding rep_def by (auto simp: set_lob_other)
qed

lemma rep_del_lob:
  assumes "rep NK NR NB m u" "NB key"
  shows "rep NK NR NB (del_lob key (old_count key m) m) (apply_sop (DelLob key) u)"
proof -
  have "del_lob key (old_count key m) m (KeyBlobChunk b i) = lob_slot (((u_lob u)(key := None)) b) i"
    if b: "NB b" "i < 2 ^ 32" for b i
  proof (cases "b = key")
    case True
    have "old_count key m < i \<Longrightarrow> m (KeyBlobChunk key i) = None" using rep_old_count [OF assms _ b(2)] .
    then show ?thesis using True
      by (cases "i = 0") (auto simp: del_lob_def del_all_apply set_chunk_keys lob_slot_def image_iff not_less)
  next
    case False
    then have "del_lob key (old_count key m) m (KeyBlobChunk b i) = m (KeyBlobChunk b i)"
      using chunk_key_other [OF b(1) assms(2) b(2) old_count_less, of key m] by (simp add: del_lob_def del_all_apply set_chunk_keys)
    then show ?thesis using False repD(3) [OF assms(1) b] by simp
  qed
  then show ?thesis using assms unfolding rep_def by (auto simp: del_lob_other)
qed

end

text \<open>Plain names, as users of the drivers pass them.\<close>

lemma user_names: "key_names (plain KeyTypeKV) (plain KeyTypeWideColumn) (plain KeyTypeBlobChunk)"
  by unfold_locales (simp_all add: plain_def KeyKV_inj RowKey_prefix [unfolded plain_def] KeyBlobChunk_inj [unfolded plain_def])

interpretation user: key_names "plain KeyTypeKV" "plain KeyTypeWideColumn" "plain KeyTypeBlobChunk"
  by (rule user_names)

text \<open>Encoded names, as the engine passes them.\<close>

definition encKV :: "bytes \<Rightarrow> bool" where
  "encKV k \<longleftrightarrow> typed KeyTypeKV k"

definition encRow :: "bytes \<Rightarrow> bool" where
  "encRow r \<longleftrightarrow> (\<exists>r'. plain KeyTypeWideColumn r' \<and> r = kc_RowKey r')"

definition encBlob :: "bytes \<Rightarrow> bool" where
  "encBlob b \<longleftrightarrow> (\<exists>b'. plain KeyTypeBlobChunk b' \<and> length b' + 9 < 2 ^ 32 \<and> b = kc_KeyBlobChunk b' 0)"

lemma encBlob_chunk:
  assumes "encBlob b" "0 < i"
  shows "KeyBlobChunk b i = KeyTypeBlobChunk # BE_PutUint32 (word_of_nat (length b)) @ b @ BE_PutUint32 (word_of_nat i)"
    and "typed KeyTypeBlobChunk b" "length b < 2 ^ 32" "KeyBlobChunk b 0 = b"
    and "\<exists>b'. plain KeyTypeBlobChunk b' \<and> b = KeyTypeBlobChunk # BE_PutUint32 (word_of_nat (length b')) @ b' @ BE_PutUint32 0"
  using assms by (auto simp: encBlob_def kc_KeyBlobChunk_def KeyBlobChunk_def plain_def)

lemma encBlob_meta_not_chunk:
  assumes "encBlob a" "encBlob b" "0 < j" shows "KeyBlobChunk a 0 \<noteq> KeyBlobChunk b j"
proof
  assume eq: "KeyBlobChunk a 0 = KeyBlobChunk b j"
  obtain a' where a': "plain KeyTypeBlobChunk a'" "a = KeyTypeBlobChunk # BE_PutUint32 (word_of_nat (length a')) @ a' @ BE_PutUint32 0"
    using encBlob_chunk(5) [OF assms(1) assms(3)] by blast
  have "BE_PutUint32 (word_of_nat (length a')) @ a' @ BE_PutUint32 0 = BE_PutUint32 (word_of_nat (length b)) @ b @ BE_PutUint32 (word_of_nat j)"
    using eq a'(2) unfolding encBlob_chunk(1) [OF assms(2,3)] encBlob_chunk(4) [OF assms(1,3)] by simp
  then have "a' = b" using length_prefixed_inj [of a' b] a'(1) encBlob_chunk(3) [OF assms(2,3)] unfolding plain_def by blast
  then show False using a'(1) encBlob_chunk(2) [OF assms(2,3)] by (simp add: plain_def)
qed

lemma engine_names: "key_names encKV encRow encBlob"
proof
  fix a b assume "encKV a" "encKV b" "KeyKV a = KeyKV b"
  then show "a = b" by (simp add: encKV_def KeyKV_def)
next
  fix r r' c assume "encRow r" "encRow r'" "prefix (RowKey r) (KeyColumn r' c)"
  then show "r = r'"
    using RowKey_prefix by (auto simp: encRow_def kc_same KeyColumn_RowKey driver_keeps_engine_keys [unfolded kc_same])
next
  fix a b and i j :: nat
  assume a: "encBlob a" and b: "encBlob b" and ij: "i < 2 ^ 32" "j < 2 ^ 32" and eq: "KeyBlobChunk a i = KeyBlobChunk b j"
  consider "i = 0" "j = 0" | "0 < i" "0 < j"
    using encBlob_meta_not_chunk [OF a b, of j] encBlob_meta_not_chunk [OF b a, of i] eq by fastforce
  then show "a = b \<and> i = j"
  proof cases
    case 1
    then show ?thesis using eq encBlob_chunk(4) [OF a, of 1] encBlob_chunk(4) [OF b, of 1] by simp
  next
    case 2
    have "BE_PutUint32 (word_of_nat (length a)) @ a @ BE_PutUint32 (word_of_nat i)
        = BE_PutUint32 (word_of_nat (length b)) @ b @ BE_PutUint32 (word_of_nat j)"
      using eq unfolding encBlob_chunk(1) [OF a 2(1)] encBlob_chunk(1) [OF b 2(2)] by simp
    then have "a = b \<and> BE_PutUint32 (word_of_nat i) = BE_PutUint32 (word_of_nat j)"
      using length_prefixed_inj encBlob_chunk(3) [OF a 2(1)] encBlob_chunk(3) [OF b 2(2)] by blast
    then show ?thesis using ij by (auto simp: word_of_nat_inj32 dest: be32.enc_inj [OF TrueI TrueI])
  qed
qed

interpretation engine: key_names encKV encRow encBlob
  by (rule engine_names)

end
