(* ===== verification/TxnApi.thy ===== *)
theory TxnApi
  imports StoreSpec "HOL-Library.List_Lexorder" "HOL-Library.AList"
begin

text \<open>
  The embedded databases under the drivers, \<open>go.etcd.io/bbolt\<close> and \<open>lmdb-go\<close>, as parameters: a record of the calls the
  drivers make. A database or transaction is seen through a function that gives the contents of its buckets, and
  the laws state what the documentation of the two libraries promises about these contents. \<open>mem_bolt\<close> and
  \<open>mem_lmdb\<close> at the end are databases in memory that satisfy the laws.
\<close>

section \<open>The calls\<close>

type_synonym dbview = "string \<rightharpoonup> bucket"

text \<open>\<open>api_Seek\<close> lists what a cursor returns from \<open>Seek\<close> (\<open>SetRange\<close> in LMDB) and then \<open>Next\<close> up to the end of the bucket.\<close>

record ('d, 't) txn_api =
  api_Begin :: "'d \<Rightarrow> error + 't"
  api_Commit :: "'t \<Rightarrow> 'd \<Rightarrow> error + 'd"
  api_Put :: "string \<Rightarrow> bytes \<Rightarrow> bytes \<Rightarrow> 't \<Rightarrow> error + 't"
  api_Delete :: "string \<Rightarrow> bytes \<Rightarrow> 't \<Rightarrow> error + 't"
  api_Seek :: "string \<Rightarrow> bytes \<Rightarrow> 't \<Rightarrow> (bytes \<times> bytes) list"

record ('d, 't) bolt_api = "('d, 't) txn_api" +
  api_Bucket :: "string \<Rightarrow> 't \<Rightarrow> bool"
  api_Get :: "string \<Rightarrow> bytes \<Rightarrow> 't \<Rightarrow> bytes option"
  api_CreateBucketIfNotExists :: "string \<Rightarrow> 't \<Rightarrow> error + 't"

record ('d, 't) lmdb_api = "('d, 't) txn_api" +
  lm_Get :: "string \<Rightarrow> bytes \<Rightarrow> 't \<Rightarrow> error + bytes"
  lm_OpenCursor :: "string \<Rightarrow> 't \<Rightarrow> error option"

section \<open>The laws\<close>

text \<open>A transaction starts with the contents of the database and replaces them when it commits. A cursor visits
  the keys from the given one on in byte order.\<close>

definition seek_law :: "bucket \<Rightarrow> bytes \<Rightarrow> (bytes \<times> bytes) list \<Rightarrow> bool" where
  "seek_law m p xs \<longleftrightarrow> sorted_wrt (<) (map fst xs) \<and> (\<forall>k v. (k, v) \<in> set xs \<longleftrightarrow> m k = Some v \<and> p \<le> k)"

definition txn_laws :: "('d, 't, 'z) txn_api_scheme \<Rightarrow> ('d \<Rightarrow> dbview) \<Rightarrow> ('t \<Rightarrow> dbview) \<Rightarrow> bool" where
  "txn_laws api dview view \<longleftrightarrow>
    (\<forall>d t. api_Begin api d = Inr t \<longrightarrow> view t = dview d)
    \<and> (\<forall>t d d'. api_Commit api t d = Inr d' \<longrightarrow> dview d' = view t)
    \<and> (\<forall>ns k v t t' m. view t ns = Some m \<longrightarrow> api_Put api ns k v t = Inr t' \<longrightarrow> view t' = (view t)(ns \<mapsto> m(k \<mapsto> v)))
    \<and> (\<forall>ns k t t' m. view t ns = Some m \<longrightarrow> api_Delete api ns k t = Inr t' \<longrightarrow> view t' = (view t)(ns \<mapsto> m(k := None)))
    \<and> (\<forall>ns p t m. view t ns = Some m \<longrightarrow> seek_law m p (api_Seek api ns p t))"

text \<open>bbolt: a missing bucket or key is \<open>nil\<close>, and deleting a missing key is no error.\<close>

definition bolt_laws :: "('d, 't) bolt_api \<Rightarrow> ('d \<Rightarrow> dbview) \<Rightarrow> ('t \<Rightarrow> dbview) \<Rightarrow> bool" where
  "bolt_laws api dview view \<longleftrightarrow> txn_laws api dview view
    \<and> (\<forall>ns t. api_Bucket api ns t \<longleftrightarrow> view t ns \<noteq> None)
    \<and> (\<forall>ns k t m. view t ns = Some m \<longrightarrow> api_Get api ns k t = m k)
    \<and> (\<forall>ns t t'. api_CreateBucketIfNotExists api ns t = Inr t' \<longrightarrow>
        view t' = (case view t ns of None \<Rightarrow> (view t)(ns \<mapsto> Map.empty) | Some _ \<Rightarrow> view t))"

text \<open>LMDB: a missing key is the error \<open>MDB_NOTFOUND\<close>, for \<open>Get\<close> and for \<open>Del\<close>; every other error of \<open>Get\<close> concerns the
  key, such as its length, and keeps \<open>Put\<close> from accepting it.\<close>

definition lmdb_laws :: "('d, 't) lmdb_api \<Rightarrow> ('d \<Rightarrow> dbview) \<Rightarrow> ('t \<Rightarrow> dbview) \<Rightarrow> bool" where
  "lmdb_laws api dview view \<longleftrightarrow> txn_laws api dview view
    \<and> (\<forall>ns k t m v. view t ns = Some m \<longrightarrow> lm_Get api ns k t = Inr v \<longrightarrow> m k = Some v)
    \<and> (\<forall>ns k t m. view t ns = Some m \<longrightarrow> lm_Get api ns k t = Inl ErrNotFound \<longrightarrow> m k = None)
    \<and> (\<forall>ns k t m. view t ns = Some m \<longrightarrow> api_Delete api ns k t = Inl ErrNotFound \<longrightarrow> m k = None)
    \<and> (\<forall>ns k t e t' v. lm_Get api ns k t = Inl e \<longrightarrow> e \<noteq> ErrNotFound \<longrightarrow> (\<exists>e'. api_Put api ns k v t' = Inl e'))"

section \<open>Prefix scans\<close>

lemma prefix_between:
  fixes p k k' :: bytes
  shows "p \<le> k \<Longrightarrow> k \<le> k' \<Longrightarrow> prefix p k' \<Longrightarrow> prefix p k"
proof (induction p arbitrary: k k')
  case (Cons a p)
  obtain l' where k': "k' = a # l'" "prefix p l'" using Cons.prems(3) by (cases k') auto
  obtain b l where k: "k = b # l" using Cons.prems(1) by (cases k) auto
  have "a \<le> b" "b \<le> a" using Cons.prems(1,2) k k'(1) by auto
  then have "a = b" by simp
  with Cons.IH [of l l'] Cons.prems(1,2) k k' show ?case by auto
qed simp

lemma takeWhile_prefix:
  fixes p :: bytes
  assumes "sorted_wrt (<) (map fst xs)" "\<forall>x \<in> set xs. p \<le> fst x"
  shows "takeWhile (\<lambda>x. prefix p (fst x)) xs = filter (\<lambda>x. prefix p (fst x)) xs"
  using assms
proof (induction xs)
  case (Cons x xs)
  show ?case
  proof (cases "prefix p (fst x)")
    case False
    have "\<not> prefix p (fst y)" if "y \<in> set xs" for y
    proof
      assume y: "prefix p (fst y)"
      have "fst x \<le> fst y" using Cons.prems(1) that by (auto intro: less_imp_le)
      with prefix_between [OF _ this y] False Cons.prems(2) show False by auto
    qed
    with False show ?thesis by (simp add: filter_empty_conv)
  qed (use Cons in auto)
qed simp

lemma prefix_le: "prefix p k \<Longrightarrow> p \<le> (k :: bytes)"
proof (induction p arbitrary: k)
  case (Cons a p)
  then show ?case by (cases k) auto
qed simp

lemma seek_prefix:
  assumes "seek_law m p xs"
  shows "set (takeWhile (\<lambda>x. prefix p (fst x)) xs) = {(k, v). m k = Some v \<and> prefix p k}"
    and "distinct (map fst (takeWhile (\<lambda>x. prefix p (fst x)) xs))"
proof -
  have eq: "takeWhile (\<lambda>x. prefix p (fst x)) xs = filter (\<lambda>x. prefix p (fst x)) xs"
    using assms by (intro takeWhile_prefix) (auto simp: seek_law_def)
  show "set (takeWhile (\<lambda>x. prefix p (fst x)) xs) = {(k, v). m k = Some v \<and> prefix p k}"
    unfolding eq using assms prefix_le by (auto simp: seek_law_def)
  have "distinct (map fst xs)" using assms by (simp add: seek_law_def strict_sorted_iff)
  then show "distinct (map fst (takeWhile (\<lambda>x. prefix p (fst x)) xs))" unfolding eq by (rule distinct_map_filter)
qed

section \<open>Loops and transactions\<close>

text \<open>A loop whose body may return early with an error.\<close>

fun forEach :: "('x \<Rightarrow> 't \<Rightarrow> error + 't) \<Rightarrow> 'x list \<Rightarrow> 't \<Rightarrow> error + 't" where
  "forEach f [] t = Inr t"
| "forEach f (x # xs) t = (case f x t of Inl e \<Rightarrow> Inl e | Inr t' \<Rightarrow> forEach f xs t')"

definition andThen :: "error + 'a \<Rightarrow> ('a \<Rightarrow> error + 'b) \<Rightarrow> error + 'b" where
  "andThen r h = (case r of Inl e \<Rightarrow> Inl e | Inr x \<Rightarrow> h x)"

text \<open>\<open>Update\<close> runs a function in a write transaction, commits when it returns no error and rolls back otherwise;
  \<open>View\<close> runs one in a read transaction. A value the function assigns to a variable outside is returned too.\<close>

definition UpdateWith ::
  "('d, 't, 'z) txn_api_scheme \<Rightarrow> 'x \<Rightarrow> ('t \<Rightarrow> 'x \<times> (error + 't)) \<Rightarrow> 'd \<Rightarrow> 'd \<times> 'x \<times> error option" where
  "UpdateWith api x0 f d =
    (case api_Begin api d of Inl e \<Rightarrow> (d, x0, Some e)
     | Inr t \<Rightarrow>
       case f t of (x, Inl e) \<Rightarrow> (d, x, Some e)
       | (x, Inr t') \<Rightarrow>
         case api_Commit api t' d of Inl e \<Rightarrow> (d, x, Some e) | Inr d' \<Rightarrow> (d', x, None))"

definition Update :: "('d, 't, 'z) txn_api_scheme \<Rightarrow> ('t \<Rightarrow> error + 't) \<Rightarrow> 'd \<Rightarrow> 'd \<times> error option" where
  "Update api f d = (case UpdateWith api () (\<lambda>t. ((), f t)) d of (d', _, e) \<Rightarrow> (d', e))"

lemma UpdateWith_Update: "UpdateWith api x0 f d = (d', x, r) \<Longrightarrow> Update api (\<lambda>t. snd (f t)) d = (d', r)"
  by (auto simp: Update_def UpdateWith_def split: sum.splits prod.splits)

definition View :: "('d, 't, 'z) txn_api_scheme \<Rightarrow> ('t \<Rightarrow> error + 'a) \<Rightarrow> 'd \<Rightarrow> error + 'a" where
  "View api f d = andThen (api_Begin api d) f"

section \<open>Reasoning about transactions\<close>

text \<open>\<open>moves view ns t r m\<close>: a step from transaction \<open>t\<close> that succeeds leaves \<open>m\<close> in bucket \<open>ns\<close> and the other buckets
  as they were.\<close>

definition moves :: "('t \<Rightarrow> dbview) \<Rightarrow> string \<Rightarrow> 't \<Rightarrow> error + 't \<Rightarrow> bucket \<Rightarrow> bool" where
  "moves view ns t r m \<longleftrightarrow> (\<forall>t'. r = Inr t' \<longrightarrow> view t' = (view t)(ns \<mapsto> m))"

lemma moves_Inl [simp]: "moves view ns t (Inl e) m"
  by (simp add: moves_def)

lemma moves_same: "view t ns = Some m \<Longrightarrow> moves view ns t (Inr t) m"
  by (auto simp: moves_def)

lemma moves_andThen:
  assumes "moves view ns t r m" "\<And>t'. view t' = (view t)(ns \<mapsto> m) \<Longrightarrow> view t' ns = Some m \<Longrightarrow> moves view ns t' (h t') m'"
  shows "moves view ns t (andThen r h) m'"
proof (cases r)
  case (Inr t')
  then have v: "view t' = (view t)(ns \<mapsto> m)" using assms(1) by (simp add: moves_def)
  then have "moves view ns t' (h t') m'" by (intro assms(2)) simp_all
  then show ?thesis using Inr v by (simp add: moves_def andThen_def)
qed (simp add: andThen_def)

lemma moves_forEach:
  assumes "\<And>x t m. x \<in> set xs \<Longrightarrow> view t ns = Some m \<Longrightarrow> moves view ns t (f x t) (g x m)" "view t ns = Some m"
  shows "moves view ns t (forEach f xs t) (fold g xs m)"
  using assms
proof (induction xs arbitrary: t m)
  case Nil
  then show ?case by (auto simp: moves_def)
next
  case (Cons x xs)
  show ?case
  proof (cases "f x t")
    case (Inr t')
    have v: "view t' = (view t)(ns \<mapsto> g x m)" using Cons.prems(1) [of x t m] Cons.prems(2) Inr by (simp add: moves_def)
    then have "moves view ns t' (forEach f xs t') (fold g xs (g x m))" using Cons.prems(1) by (intro Cons.IH) auto
    then show ?thesis using Inr v by (simp add: moves_def)
  qed simp
qed

locale txn_db =
  fixes api :: "('d, 't, 'z) txn_api_scheme" and dview :: "'d \<Rightarrow> dbview" and view :: "'t \<Rightarrow> dbview"
  assumes laws: "txn_laws api dview view"
begin

lemma moves_Put: "view t ns = Some m \<Longrightarrow> moves view ns t (api_Put api ns k v t) (m(k \<mapsto> v))"
  using laws unfolding txn_laws_def moves_def by blast

lemma moves_Delete: "view t ns = Some m \<Longrightarrow> moves view ns t (api_Delete api ns k t) (m(k := None))"
  using laws unfolding txn_laws_def moves_def by blast

lemma begin_view: "api_Begin api d = Inr t \<Longrightarrow> view t = dview d"
  using laws unfolding txn_laws_def by blast

lemma seek: "view t ns = Some m \<Longrightarrow> seek_law m p (api_Seek api ns p t)"
  using laws unfolding txn_laws_def by blast

lemma commit_view: "api_Commit api t d = Inr d' \<Longrightarrow> dview d' = view t"
  using laws unfolding txn_laws_def by blast

lemma moves_Puts: "view t ns = Some m \<Longrightarrow> moves view ns t (forEach (\<lambda>(k, v). api_Put api ns k v) es t) (put_all es m)"
  unfolding put_all_def by (rule moves_forEach) (auto intro: moves_Put)

lemma moves_Deletes: "view t ns = Some m \<Longrightarrow> moves view ns t (forEach (api_Delete api ns) ks t) (del_all ks m)"
  unfolding del_all_def by (rule moves_forEach) (auto intro: moves_Delete)

lemma UpdateWith_effect:
  assumes "UpdateWith api x0 f d = (d', x, r)" "dview d ns = Some m"
    and "\<And>t. view t = dview d \<Longrightarrow> moves view ns t (snd (f t)) m'"
  shows "if r = None then dview d' = (dview d)(ns \<mapsto> m') else d' = d"
proof (cases "r = None")
  case True
  then obtain t t' where "api_Begin api d = Inr t" "snd (f t) = Inr t'" "api_Commit api t' d = Inr d'"
    using assms(1) by (auto simp: UpdateWith_def split: sum.splits prod.splits)
  then show ?thesis using True assms(3) [of t] begin_view commit_view by (simp add: moves_def)
next
  case False
  then show ?thesis using assms(1) by (auto simp: UpdateWith_def split: sum.splits prod.splits)
qed

lemma Update_effect:
  assumes "Update api f d = (d', r)" "dview d ns = Some m" "\<And>t. view t = dview d \<Longrightarrow> moves view ns t (f t) m'"
  shows "if r = None then dview d' = (dview d)(ns \<mapsto> m') else d' = d"
  using UpdateWith_effect [of "()" "\<lambda>t. ((), f t)" d d' "()" r ns m m'] assms
  by (auto simp: Update_def split: prod.splits)

end

section \<open>Steps that refine abstract operations\<close>

definition refines ::
  "(bytes \<Rightarrow> bool) \<Rightarrow> (bytes \<Rightarrow> bool) \<Rightarrow> (bytes \<Rightarrow> bool) \<Rightarrow> ('t \<Rightarrow> dbview) \<Rightarrow> string \<Rightarrow> ('t \<Rightarrow> error + 't) \<Rightarrow> sop list \<Rightarrow> bool" where
  "refines NK NR NB view ns f sops \<longleftrightarrow>
    (\<forall>t m u t'. view t ns = Some m \<longrightarrow> rep NK NR NB m u \<longrightarrow> f t = Inr t' \<longrightarrow>
      (\<exists>m'. view t' = (view t)(ns \<mapsto> m') \<and> rep NK NR NB m' (fold apply_sop sops u)))"

lemma refinesD:
  assumes "refines NK NR NB view ns f sops" "view t ns = Some m" "rep NK NR NB m u" "f t = Inr t'"
  obtains m' where "view t' = (view t)(ns \<mapsto> m')" "rep NK NR NB m' (fold apply_sop sops u)"
  using assms unfolding refines_def by blast

lemma refines_moves:
  assumes "\<And>t m u. view t ns = Some m \<Longrightarrow> rep NK NR NB m u \<Longrightarrow>
      \<exists>m'. moves view ns t (f t) m' \<and> rep NK NR NB m' (fold apply_sop sops u)"
  shows "refines NK NR NB view ns f sops"
  using assms unfolding refines_def moves_def by blast

lemma refines_Nil: "refines NK NR NB view ns Inr []"
  by (rule refines_moves) (auto intro: moves_same)

lemma forEach_Nil [simp]: "forEach f [] = Inr"
  by (rule ext) simp

lemma forEach_map: "forEach f (map g xs) t = forEach (\<lambda>x. f (g x)) xs t"
  by (induction xs arbitrary: t) (auto split: sum.splits)

lemma refines_forEach:
  assumes "\<And>x. x \<in> set xs \<Longrightarrow> refines NK NR NB view ns (f x) (g x)"
  shows "refines NK NR NB view ns (forEach f xs) (concat (map g xs))"
  using assms
proof (induction xs)
  case Nil
  then show ?case using refines_Nil by simp
next
  case (Cons x xs)
  have IH: "refines NK NR NB view ns (forEach f xs) (concat (map g xs))" using Cons by simp
  show ?case unfolding refines_def
  proof (intro allI impI)
    fix t m u t' assume v: "view t ns = Some m" "rep NK NR NB m u" "forEach f (x # xs) t = Inr t'"
    then obtain t1 where t1: "f x t = Inr t1" "forEach f xs t1 = Inr t'" by (auto split: sum.splits)
    obtain m1 where m1: "view t1 = (view t)(ns \<mapsto> m1)" "rep NK NR NB m1 (fold apply_sop (g x) u)"
      using refinesD [OF Cons.prems v(1,2) t1(1)] by auto
    obtain m2 where "view t' = (view t1)(ns \<mapsto> m2)" "rep NK NR NB m2 (fold apply_sop (concat (map g xs)) (fold apply_sop (g x) u))"
      using refinesD [OF IH _ m1(2) t1(2)] m1(1) by auto
    then show "\<exists>m'. view t' = (view t)(ns \<mapsto> m') \<and> rep NK NR NB m' (fold apply_sop (concat (map g (x # xs))) u)"
      using m1(1) by auto
  qed
qed

text \<open>A database whose bucket \<open>ns\<close> represents the abstract store \<open>u\<close>.\<close>

definition stores :: "(bytes \<Rightarrow> bool) \<Rightarrow> (bytes \<Rightarrow> bool) \<Rightarrow> (bytes \<Rightarrow> bool) \<Rightarrow> dbview \<Rightarrow> string \<Rightarrow> ustore \<Rightarrow> bool" where
  "stores NK NR NB v ns u \<longleftrightarrow> (\<exists>m. v ns = Some m \<and> rep NK NR NB m u)"

locale named_db = key_names NK NR NB + txn_db api dview view
  for NK NR NB :: "bytes \<Rightarrow> bool" and api :: "('d, 't, 'z) txn_api_scheme" and dview :: "'d \<Rightarrow> dbview" and view :: "'t \<Rightarrow> dbview"
begin

lemma refines_Update:
  assumes "stores NK NR NB (dview d) ns u" "Update api f d = (d', r)" "refines NK NR NB view ns f sops"
  shows "if r = None then stores NK NR NB (dview d') ns (fold apply_sop sops u) \<and> (\<forall>n. n \<noteq> ns \<longrightarrow> dview d' n = dview d n) else d' = d"
proof (cases "r = None")
  case True
  then obtain t t' where t: "api_Begin api d = Inr t" "f t = Inr t'" "api_Commit api t' d = Inr d'"
    using assms(2) by (auto simp: Update_def UpdateWith_def split: sum.splits prod.splits)
  obtain m where m: "dview d ns = Some m" "rep NK NR NB m u" using assms(1) by (auto simp: stores_def)
  obtain m' where "view t' = (view t)(ns \<mapsto> m')" "rep NK NR NB m' (fold apply_sop sops u)"
    using refinesD [OF assms(3) _ m(2) t(2)] begin_view [OF t(1)] m(1) by auto
  then show ?thesis using True begin_view [OF t(1)] commit_view [OF t(3)] by (simp add: stores_def)
next
  case False
  then show ?thesis using assms(2) by (auto simp: Update_def UpdateWith_def split: sum.splits prod.splits)
qed

lemma refines_Put: "NK k \<Longrightarrow> refines NK NR NB view ns (api_Put api ns (KeyKV k) v) [PutKV k v]"
  by (rule refines_moves) (auto intro!: exI moves_Put rep_put_kv [simplified])

lemma refines_SetCells:
  assumes "NR r"
  shows "refines NK NR NB view ns (forEach (\<lambda>(c, v). api_Put api ns (KeyColumn r c) v) es) [SetCells r es]"
proof (rule refines_moves)
  fix t m u assume v: "view t ns = Some m" "rep NK NR NB m u"
  have "forEach (\<lambda>(c, v). api_Put api ns (KeyColumn r c) v) es t = forEach (\<lambda>(k, v). api_Put api ns k v) (map (\<lambda>(c, v). (KeyColumn r c, v)) es) t"
    by (simp add: forEach_map case_prod_unfold)
  then show "\<exists>m'. moves view ns t (forEach (\<lambda>(c, v). api_Put api ns (KeyColumn r c) v) es t) m'
      \<and> rep NK NR NB m' (fold apply_sop [SetCells r es] u)"
    using moves_Puts [OF v(1)] rep_set_cells [OF v(2) assms] by auto
qed

lemma moves_putChunks: "view t ns = Some m \<Longrightarrow>
  moves view ns t (forEach (\<lambda>(i, chunk). api_Put api ns (KeyBlobChunk key i) chunk) (enumerate 1 chunks) t) (put_all (chunk_entries key chunks) m)"
  using moves_Puts [of t ns m "chunk_entries key chunks"] by (simp add: chunk_entries_def forEach_map case_prod_unfold)

lemma rep_meta:
  assumes "rep NK NR NB m u" "NB key" "m (KeyBlobChunk key 0) = Some v"
  shows "v \<noteq> []" "v ! 0 = chunkedValue" "length v = 9" "old_count key m = chunkCountOf v"
  using repD(3) [OF assms(1,2), of 0] assms(3) by (auto simp: lob_slot_def old_count_def split: option.splits prod.splits)

lemma refines_list:
  "(\<And>x. x \<in> set xs \<Longrightarrow> refines NK NR NB view ns (f x) [g x]) \<Longrightarrow> refines NK NR NB view ns (forEach f xs) (map g xs)"
  using refines_forEach [of xs NK NR NB view ns f "\<lambda>x. [g x]"] by (simp add: concat_map_singleton)

lemma refines_rows:
  assumes "\<And>r es. (r, es) \<in> set xs \<Longrightarrow> refines NK NR NB view ns (f r es) [g r es]" "\<And>r t. f r [] t = Inr t"
  shows "refines NK NR NB view ns (forEach (\<lambda>(r, es) tx. if es = [] then Inr tx else f r es tx) xs) (map (\<lambda>(r, es). g r es) xs)"
proof -
  have "(\<lambda>tx. if es = [] then Inr tx else f r es tx) = f r es" for r es by (rule ext) (use assms(2) in auto)
  then show ?thesis by (intro refines_list) (use assms(1) in auto)
qed

lemma refines_puts:
  "list_all (sop_ok NK NR NB) (map (\<lambda>(k, v). PutKV k v) kvs)
    \<Longrightarrow> refines NK NR NB view ns (forEach (\<lambda>(k, v). api_Put api ns (KeyKV k) v) kvs) (map (\<lambda>(k, v). PutKV k v) kvs)"
  by (rule refines_list) (fastforce simp: list_all_iff intro: refines_Put)

lemma refines_setRows:
  assumes "list_all (sop_ok NK NR NB) (map (\<lambda>(r, es). SetCells r es) xs)"
  shows "refines NK NR NB view ns (forEach (\<lambda>(r, es) tx. if es = [] then Inr tx
    else forEach (\<lambda>(c, v). api_Put api ns (KeyColumn r c) v) es tx) xs) (map (\<lambda>(r, es). SetCells r es) xs)"
  by (rule refines_rows) (use assms in \<open>fastforce simp: list_all_iff intro: refines_SetCells\<close>, simp)

end

section \<open>Databases in memory\<close>

text \<open>A bucket is an association list; transactions work on a copy.\<close>

type_synonym memdb = "string \<Rightarrow> (bytes \<times> bytes) list option"

definition mem_view :: "memdb \<Rightarrow> dbview" where
  "mem_view d ns = map_option map_of (d ns)"

definition mem_Put :: "string \<Rightarrow> bytes \<Rightarrow> bytes \<Rightarrow> memdb \<Rightarrow> error + memdb" where
  "mem_Put ns k v d = (case d ns of None \<Rightarrow> Inl ErrBucketNotFound | Some xs \<Rightarrow> Inr (d(ns \<mapsto> AList.update k v xs)))"

definition mem_Delete :: "string \<Rightarrow> bytes \<Rightarrow> memdb \<Rightarrow> error + memdb" where
  "mem_Delete ns k d = (case d ns of None \<Rightarrow> Inl ErrBucketNotFound | Some xs \<Rightarrow> Inr (d(ns \<mapsto> AList.delete k xs)))"

definition mem_Seek :: "string \<Rightarrow> bytes \<Rightarrow> memdb \<Rightarrow> (bytes \<times> bytes) list" where
  "mem_Seek ns p d = (case d ns of None \<Rightarrow> [] | Some xs \<Rightarrow> filter (\<lambda>x. p \<le> fst x) (sort_key fst (AList.clearjunk xs)))"

definition mem_bolt :: "(memdb, memdb) bolt_api" where
  "mem_bolt = \<lparr>api_Begin = Inr, api_Commit = (\<lambda>t d. Inr t), api_Put = mem_Put, api_Delete = mem_Delete, api_Seek = mem_Seek,
     api_Bucket = (\<lambda>ns t. t ns \<noteq> None), api_Get = (\<lambda>ns k t. Option.bind (t ns) (\<lambda>xs. map_of xs k)),
     api_CreateBucketIfNotExists = (\<lambda>ns t. Inr (case t ns of None \<Rightarrow> t(ns \<mapsto> []) | Some _ \<Rightarrow> t))\<rparr>"

definition mem_lmdb :: "(memdb, memdb) lmdb_api" where
  "mem_lmdb = \<lparr>api_Begin = Inr, api_Commit = (\<lambda>t d. Inr t), api_Put = mem_Put,
     api_Delete = (\<lambda>ns k t. if Option.bind (t ns) (\<lambda>xs. map_of xs k) = None then Inl ErrNotFound else mem_Delete ns k t),
     api_Seek = mem_Seek,
     lm_Get = (\<lambda>ns k t. case Option.bind (t ns) (\<lambda>xs. map_of xs k) of None \<Rightarrow> Inl ErrNotFound | Some v \<Rightarrow> Inr v),
     lm_OpenCursor = (\<lambda>_ _. None)\<rparr>"

lemma mem_Seek_law: "d ns = Some xs \<Longrightarrow> seek_law (map_of xs) p (mem_Seek ns p d)"
proof -
  assume d: "d ns = Some xs"
  let ?ys = "sort_key fst (AList.clearjunk xs)"
  have dist: "distinct (map fst ?ys)" using distinct_clearjunk [of xs] by (simp add: distinct_map)
  have "sorted (map fst (filter (\<lambda>x. p \<le> fst x) ?ys))" by (rule sorted_filter) simp
  moreover have "distinct (map fst (filter (\<lambda>x. p \<le> fst x) ?ys))" using dist by (rule distinct_map_filter)
  moreover have "(k, v) \<in> set (AList.clearjunk xs) \<longleftrightarrow> map_of xs k = Some v" for k v
    using map_of_eq_Some_iff [OF distinct_clearjunk, of xs k v] by (simp add: map_of_clearjunk)
  ultimately show ?thesis using d by (auto simp: seek_law_def mem_Seek_def strict_sorted_iff)
qed

lemma mem_txn_laws:
  assumes "api_Begin api = Inr" "api_Commit api = (\<lambda>t d. Inr t)" "api_Put api = mem_Put" "api_Seek api = mem_Seek"
    and "\<And>ns k t t'. api_Delete api ns k t = Inr t' \<Longrightarrow> mem_Delete ns k t = Inr t'"
  shows "txn_laws api mem_view mem_view"
proof -
  have sk: "seek_law m p (mem_Seek ns p t)" if "mem_view t ns = Some m" for ns p t m
    using that mem_Seek_law by (auto simp: mem_view_def)
  have pt: "mem_view t' = (mem_view t)(ns \<mapsto> m(k \<mapsto> v))" if p: "mem_view t ns = Some m" "mem_Put ns k v t = Inr t'" for ns k v t t' m
  proof -
    obtain xs where "t ns = Some xs" "m = map_of xs" "t' = t(ns \<mapsto> AList.update k v xs)"
      using p by (auto simp: mem_view_def mem_Put_def split: option.splits)
    then show ?thesis by (intro ext) (simp add: mem_view_def update_conv')
  qed
  have dl: "mem_view t' = (mem_view t)(ns \<mapsto> m(k := None))" if p: "mem_view t ns = Some m" "api_Delete api ns k t = Inr t'" for ns k t t' m
  proof -
    obtain xs where "t ns = Some xs" "m = map_of xs" "t' = t(ns \<mapsto> AList.delete k xs)"
      using p(1) assms(5) [OF p(2)] by (auto simp: mem_view_def mem_Delete_def split: option.splits)
    then show ?thesis by (intro ext) (simp add: mem_view_def delete_conv')
  qed
  show ?thesis
    unfolding txn_laws_def assms(1-4)
    by (intro conjI allI impI) (simp, simp, erule (1) pt, erule (1) dl, erule sk)
qed

lemma mem_bolt_laws: "bolt_laws mem_bolt mem_view mem_view"
proof -
  have "txn_laws mem_bolt mem_view mem_view" by (rule mem_txn_laws) (auto simp: mem_bolt_def)
  then show ?thesis by (auto simp: bolt_laws_def mem_bolt_def mem_view_def intro!: ext split: option.splits)
qed

lemma mem_lmdb_laws: "lmdb_laws mem_lmdb mem_view mem_view"
proof -
  have "txn_laws mem_lmdb mem_view mem_view" by (rule mem_txn_laws) (auto simp: mem_lmdb_def split: if_splits)
  then show ?thesis by (auto simp: lmdb_laws_def mem_lmdb_def mem_view_def mem_Delete_def split: option.splits if_splits)
qed

interpretation memb: txn_db mem_bolt mem_view mem_view
  using mem_bolt_laws by unfold_locales (simp add: bolt_laws_def)

interpretation meml: txn_db mem_lmdb mem_view mem_view
  using mem_lmdb_laws by unfold_locales (simp add: lmdb_laws_def)

end
