(* ===== verification/BoltStore.thy ===== *)
theory BoltStore
  imports TxnApi
begin

text \<open>
  The bbolt driver, \<open>pkg/kvdrivers/bolt.go\<close>. Every method runs one transaction on the namespace bucket. A Go map of
  columns is the list of its entries in the order the loop visits them. \<open>bolt_call_refines\<close> shows that every
  writing method does to the abstract store what its name says or, on an error, nothing; the lemmas on the reading
  methods show that they return the contents of the abstract store.
\<close>

section \<open>The driver\<close>

definition sysBucketMetaData :: string where
  "sysBucketMetaData = ''sys.kv.unison.db.wal.metadata.bucket''"

record 'd BoltDBEmbed =
  bb_db :: 'd
  bb_namespace :: string

text \<open>\<open>opened\<close> is the result of \<open>bbolt.Open\<close>. The driver is returned even when a bucket could not be created.\<close>

definition NewBoltdb :: "('d, 't) bolt_api \<Rightarrow> string \<Rightarrow> error + 'd \<Rightarrow> error + ('d BoltDBEmbed \<times> error option)" where
  "NewBoltdb api ns opened =
    (case opened of Inl e \<Rightarrow> Inl e
     | Inr db \<Rightarrow>
       case Update api (\<lambda>tx. andThen (api_CreateBucketIfNotExists api ns tx) (api_CreateBucketIfNotExists api sysBucketMetaData)) db of
         (db', err) \<Rightarrow> Inr (\<lparr>bb_db = db', bb_namespace = ns\<rparr>, err))"

definition bolt_Update :: "('d, 't) bolt_api \<Rightarrow> ('t \<Rightarrow> error + 't) \<Rightarrow> 'd BoltDBEmbed \<Rightarrow> 'd BoltDBEmbed \<times> error option" where
  "bolt_Update api f b =
    (case Update api (\<lambda>t. if api_Bucket api (bb_namespace b) t then f t else Inl ErrBucketNotFound) (bb_db b) of
       (d, e) \<Rightarrow> (b\<lparr>bb_db := d\<rparr>, e))"

definition bolt_View :: "('d, 't) bolt_api \<Rightarrow> ('t \<Rightarrow> error + 'a) \<Rightarrow> 'd BoltDBEmbed \<Rightarrow> error + 'a" where
  "bolt_View api f b =
    View api (\<lambda>t. if api_Bucket api (bb_namespace b) t then f t else Inl ErrBucketNotFound) (bb_db b)"

section \<open>Writing\<close>

definition bolt_SetKV :: "('d, 't) bolt_api \<Rightarrow> bytes \<Rightarrow> bytes \<Rightarrow> 'd BoltDBEmbed \<Rightarrow> 'd BoltDBEmbed \<times> error option" where
  "bolt_SetKV api key value b = bolt_Update api (api_Put api (bb_namespace b) (KeyKV key) value) b"

definition bolt_BatchSetKV ::
  "('d, 't) bolt_api \<Rightarrow> bytes list \<Rightarrow> bytes list \<Rightarrow> 'd BoltDBEmbed \<Rightarrow> 'd BoltDBEmbed \<times> error option" where
  "bolt_BatchSetKV api keys values b =
    (if keys = [] \<or> values = [] \<or> length keys \<noteq> length values then (b, Some ErrInvalidArguments)
     else bolt_Update api (forEach (\<lambda>(key, value). api_Put api (bb_namespace b) (KeyKV key) value) (zip keys values)) b)"

text \<open>Deleting the chunks of the value that is replaced.\<close>

definition bolt_clearChunks :: "('d, 't) bolt_api \<Rightarrow> string \<Rightarrow> bytes \<Rightarrow> 't \<Rightarrow> error + 't" where
  "bolt_clearChunks api ns key t =
    (case api_Get api ns (KeyBlobChunk key 0) t of None \<Rightarrow> Inr t
     | Some storedValue \<Rightarrow>
       if storedValue = [] then Inl Panic
       else if storedValue ! 0 \<noteq> chunkedValue then Inr t
       else if length storedValue < 9 then Inl ErrInvalidChunkMetadata
       else forEach (\<lambda>i. api_Delete api ns (KeyBlobChunk key i)) [1..<Suc (chunkCountOf storedValue)] t)"

definition bolt_setLob :: "('d, 't) bolt_api \<Rightarrow> string \<Rightarrow> bytes \<Rightarrow> bytes list \<Rightarrow> u32 \<Rightarrow> 't \<Rightarrow> error + 't" where
  "bolt_setLob api ns key chunks checksum tx =
    andThen (bolt_clearChunks api ns key tx) (\<lambda>tx.
    andThen (forEach (\<lambda>(i, chunk). api_Put api ns (KeyBlobChunk key i) chunk) (enumerate 1 chunks) tx) (\<lambda>tx.
    api_Put api ns (KeyBlobChunk key 0) (lob_meta (length chunks) checksum) tx))"

definition bolt_SetLobChunks ::
  "('d, 't) bolt_api \<Rightarrow> bytes \<Rightarrow> bytes list \<Rightarrow> u32 \<Rightarrow> 'd BoltDBEmbed \<Rightarrow> 'd BoltDBEmbed \<times> error option" where
  "bolt_SetLobChunks api key chunks checksum b =
    bolt_Update api (bolt_setLob api (bb_namespace b) key chunks checksum) b"

definition bolt_BatchSetCells ::
  "('d, 't) bolt_api \<Rightarrow> bytes list \<Rightarrow> (bytes \<times> bytes) list list \<Rightarrow> 'd BoltDBEmbed \<Rightarrow> 'd BoltDBEmbed \<times> error option" where
  "bolt_BatchSetCells api rowKeys columnEntriesPerRow b =
    (if length rowKeys \<noteq> length columnEntriesPerRow then (b, Some ErrInvalidArguments)
     else bolt_Update api (forEach (\<lambda>(rowKey, columnEntries) tx.
       if columnEntries = [] then Inr tx
       else forEach (\<lambda>(entryKey, entryValue). api_Put api (bb_namespace b) (KeyColumn rowKey entryKey) entryValue) columnEntries tx)
       (zip rowKeys columnEntriesPerRow)) b)"

definition bolt_BatchDeleteCells ::
  "('d, 't) bolt_api \<Rightarrow> bytes list \<Rightarrow> (bytes \<times> bytes) list list \<Rightarrow> 'd BoltDBEmbed \<Rightarrow> 'd BoltDBEmbed \<times> error option" where
  "bolt_BatchDeleteCells api rowKeys columnEntriesPerRow b =
    (if length rowKeys \<noteq> length columnEntriesPerRow then (b, Some ErrInvalidArguments)
     else bolt_Update api (forEach (\<lambda>(rowKey, columnEntries) tx.
       if columnEntries = [] then Inr tx
       else forEach (\<lambda>(entryKey, _). api_Delete api (bb_namespace b) (KeyColumn rowKey entryKey)) columnEntries tx)
       (zip rowKeys columnEntriesPerRow)) b)"

text \<open>Deleting the keys of a row; \<open>n\<close> counts them.\<close>

fun bolt_deleteKeys :: "('d, 't) bolt_api \<Rightarrow> string \<Rightarrow> bytes list \<Rightarrow> nat \<Rightarrow> 't \<Rightarrow> nat \<times> (error + 't)" where
  "bolt_deleteKeys api ns [] n t = (n, Inr t)"
| "bolt_deleteKeys api ns (k # ks) n t =
    (case api_Delete api ns k t of Inl e \<Rightarrow> (Suc n, Inl e) | Inr t' \<Rightarrow> bolt_deleteKeys api ns ks (Suc n) t')"

definition bolt_rowKeysOf :: "('d, 't) bolt_api \<Rightarrow> string \<Rightarrow> bytes \<Rightarrow> 't \<Rightarrow> bytes list" where
  "bolt_rowKeysOf api ns pKey t = map fst (takeWhile (\<lambda>(k, _). prefix pKey k) (api_Seek api ns pKey t))"

fun bolt_deleteRows :: "('d, 't) bolt_api \<Rightarrow> string \<Rightarrow> bytes list \<Rightarrow> nat \<Rightarrow> 't \<Rightarrow> nat \<times> (error + 't)" where
  "bolt_deleteRows api ns [] n t = (n, Inr t)"
| "bolt_deleteRows api ns (rowKey # rest) n t =
    (case bolt_deleteKeys api ns (bolt_rowKeysOf api ns (RowKey rowKey) t) n t of
       (n', Inl e) \<Rightarrow> (n', Inl e)
     | (n', Inr t') \<Rightarrow> bolt_deleteRows api ns rest n' t')"

definition bolt_BatchDeleteRows ::
  "('d, 't) bolt_api \<Rightarrow> bytes list \<Rightarrow> 'd BoltDBEmbed \<Rightarrow> 'd BoltDBEmbed \<times> nat \<times> error option" where
  "bolt_BatchDeleteRows api rowKeys b =
    (case UpdateWith api 0 (\<lambda>t. if api_Bucket api (bb_namespace b) t then bolt_deleteRows api (bb_namespace b) rowKeys 0 t
         else (0, Inl ErrBucketNotFound)) (bb_db b) of
       (d, n, e) \<Rightarrow> (b\<lparr>bb_db := d\<rparr>, n, e))"

definition bolt_deleteIfStored :: "('d, 't) bolt_api \<Rightarrow> string \<Rightarrow> bytes \<Rightarrow> 't \<Rightarrow> error + 't" where
  "bolt_deleteIfStored api ns key t =
    (case api_Get api ns (KeyKV key) t of None \<Rightarrow> Inr t | Some _ \<Rightarrow> api_Delete api ns (KeyKV key) t)"

definition bolt_DeleteKV :: "('d, 't) bolt_api \<Rightarrow> bytes \<Rightarrow> 'd BoltDBEmbed \<Rightarrow> 'd BoltDBEmbed \<times> error option" where
  "bolt_DeleteKV api key b = bolt_Update api (bolt_deleteIfStored api (bb_namespace b) key) b"

definition bolt_BatchDeleteKV :: "('d, 't) bolt_api \<Rightarrow> bytes list \<Rightarrow> 'd BoltDBEmbed \<Rightarrow> 'd BoltDBEmbed \<times> error option" where
  "bolt_BatchDeleteKV api keys b = bolt_Update api (forEach (bolt_deleteIfStored api (bb_namespace b)) keys) b"

definition bolt_deleteLob :: "('d, 't) bolt_api \<Rightarrow> string \<Rightarrow> bytes \<Rightarrow> 't \<Rightarrow> error + 't" where
  "bolt_deleteLob api ns key t =
    (case api_Get api ns (KeyBlobChunk key 0) t of None \<Rightarrow> Inr t
     | Some storedValue \<Rightarrow>
       if length storedValue < 9 then Inl ErrInvalidChunkMetadata
       else andThen (forEach (\<lambda>i. api_Delete api ns (KeyBlobChunk key i)) [1..<Suc (chunkCountOf storedValue)] t)
         (api_Delete api ns (KeyBlobChunk key 0)))"

definition bolt_BatchDeleteLobChunks :: "('d, 't) bolt_api \<Rightarrow> bytes list \<Rightarrow> 'd BoltDBEmbed \<Rightarrow> 'd BoltDBEmbed \<times> error option" where
  "bolt_BatchDeleteLobChunks api keys b = bolt_Update api (forEach (bolt_deleteLob api (bb_namespace b)) keys) b"

section \<open>Reading\<close>

definition bolt_GetKV :: "('d, 't) bolt_api \<Rightarrow> bytes \<Rightarrow> 'd BoltDBEmbed \<Rightarrow> error + bytes" where
  "bolt_GetKV api key b = bolt_View api (\<lambda>t.
     case api_Get api (bb_namespace b) (KeyKV key) t of None \<Rightarrow> Inl ErrKeyNotFound | Some v \<Rightarrow> Inr v) b"

fun bolt_getChunks :: "('d, 't) bolt_api \<Rightarrow> string \<Rightarrow> bytes \<Rightarrow> nat list \<Rightarrow> 't \<Rightarrow> error + bytes list" where
  "bolt_getChunks api ns key [] t = Inr []"
| "bolt_getChunks api ns key (i # is) t =
    (case api_Get api ns (KeyBlobChunk key (i + 1)) t of None \<Rightarrow> Inl (ErrMsg ''chunk missing'')
     | Some chunkData \<Rightarrow> map_sum id ((#) chunkData) (bolt_getChunks api ns key is t))"

definition bolt_GetLOBChunks :: "('d, 't) bolt_api \<Rightarrow> bytes \<Rightarrow> 'd BoltDBEmbed \<Rightarrow> error + bytes list" where
  "bolt_GetLOBChunks api key b = bolt_View api (\<lambda>t.
     case api_Get api (bb_namespace b) (KeyBlobChunk key 0) t of None \<Rightarrow> Inl ErrKeyNotFound
     | Some storedValue \<Rightarrow>
       if length storedValue < 9 then Inl ErrInvalidChunkMetadata
       else bolt_getChunks api (bb_namespace b) key [0..<chunkCountOf storedValue] t) b"

fun bolt_getColumns :: "bytes \<Rightarrow> (bytes \<Rightarrow> bool) \<Rightarrow> (bytes \<times> bytes) list \<Rightarrow> (bytes \<times> bytes) list \<Rightarrow> error + (bytes \<times> bytes) list" where
  "bolt_getColumns pre filt [] entries = (if entries = [] then Inl ErrKeyNotFound else Inr entries)"
| "bolt_getColumns pre filt ((k, v) # rest) entries =
    (if \<not> prefix pre k then (if entries = [] then Inl ErrKeyNotFound else Inr entries)
     else if length k = length pre then bolt_getColumns pre filt rest entries
     else let columnKey = drop (length pre) k in
       bolt_getColumns pre filt rest (if filt columnKey then AList.update columnKey v entries else entries))"

definition bolt_ScanRowCells ::
  "('d, 't) bolt_api \<Rightarrow> bytes \<Rightarrow> (bytes \<Rightarrow> bool) option \<Rightarrow> 'd BoltDBEmbed \<Rightarrow> error + (bytes \<times> bytes) list" where
  "bolt_ScanRowCells api rowKey filt b = bolt_View api (\<lambda>t.
     bolt_getColumns (RowKey rowKey) (case filt of None \<Rightarrow> \<lambda>_. True | Some f \<Rightarrow> f)
       (api_Seek api (bb_namespace b) (RowKey rowKey) t) []) b"

definition bolt_GetCell :: "('d, 't) bolt_api \<Rightarrow> bytes \<Rightarrow> bytes \<Rightarrow> 'd BoltDBEmbed \<Rightarrow> error + bytes" where
  "bolt_GetCell api rowKey columnName b = bolt_View api (\<lambda>t.
     case api_Get api (bb_namespace b) (KeyColumn rowKey columnName) t of None \<Rightarrow> Inl ErrKeyNotFound | Some v \<Rightarrow> Inr v) b"

fun bolt_getCellsLoop ::
  "('d, 't) bolt_api \<Rightarrow> string \<Rightarrow> bytes \<Rightarrow> bytes list \<Rightarrow> 't \<Rightarrow> (bytes \<times> bytes) list \<Rightarrow> (bytes \<times> bytes) list" where
  "bolt_getCellsLoop api ns rowKey [] t res = res"
| "bolt_getCellsLoop api ns rowKey (column # rest) t res =
    bolt_getCellsLoop api ns rowKey rest t
      (case api_Get api ns (KeyColumn rowKey column) t of None \<Rightarrow> res | Some v \<Rightarrow> AList.update column v res)"

definition bolt_GetCells ::
  "('d, 't) bolt_api \<Rightarrow> bytes \<Rightarrow> bytes list \<Rightarrow> 'd BoltDBEmbed \<Rightarrow> error + (bytes \<times> bytes) list" where
  "bolt_GetCells api rowKey columns b = bolt_View api (\<lambda>t. Inr (bolt_getCellsLoop api (bb_namespace b) rowKey columns t [])) b"

section \<open>Metadata\<close>

definition bolt_StoreMetadata :: "('d, 't) bolt_api \<Rightarrow> bytes \<Rightarrow> bytes \<Rightarrow> 'd BoltDBEmbed \<Rightarrow> 'd BoltDBEmbed \<times> error option" where
  "bolt_StoreMetadata api key value b =
    (case Update api (\<lambda>t. if api_Bucket api sysBucketMetaData t then api_Put api sysBucketMetaData key value t
         else Inl ErrBucketNotFound) (bb_db b) of (d, e) \<Rightarrow> (b\<lparr>bb_db := d\<rparr>, e))"

definition bolt_RetrieveMetadata :: "('d, 't) bolt_api \<Rightarrow> bytes \<Rightarrow> 'd BoltDBEmbed \<Rightarrow> error + bytes" where
  "bolt_RetrieveMetadata api key b = View api (\<lambda>t.
     if api_Bucket api sysBucketMetaData t
     then (case api_Get api sysBucketMetaData key t of None \<Rightarrow> Inl ErrKeyNotFound | Some v \<Rightarrow> Inr v)
     else Inl ErrBucketNotFound) (bb_db b)"

section \<open>Correctness of the writing methods\<close>

definition bolt_call :: "('d, 't) bolt_api \<Rightarrow> storeCall \<Rightarrow> 'd BoltDBEmbed \<Rightarrow> 'd BoltDBEmbed \<times> error option" where
  "bolt_call api c b = (case c of
     CSetKV k v \<Rightarrow> bolt_SetKV api k v b
   | CBatchSetKV ks vs \<Rightarrow> bolt_BatchSetKV api ks vs b
   | CSetLobChunks k cs s \<Rightarrow> bolt_SetLobChunks api k cs s b
   | CBatchSetCells rs ess \<Rightarrow> bolt_BatchSetCells api rs ess b
   | CBatchDeleteCells rs ess \<Rightarrow> bolt_BatchDeleteCells api rs ess b
   | CBatchDeleteRows rs \<Rightarrow> (case bolt_BatchDeleteRows api rs b of (b', _, e) \<Rightarrow> (b', e))
   | CDeleteKV k \<Rightarrow> bolt_DeleteKV api k b
   | CBatchDeleteKV ks \<Rightarrow> bolt_BatchDeleteKV api ks b
   | CBatchDeleteLobChunks ks \<Rightarrow> bolt_BatchDeleteLobChunks api ks b)"

lemma bolt_deleteKeys_forEach: "snd (bolt_deleteKeys api ns ks n t) = forEach (api_Delete api ns) ks t"
  by (induction ks arbitrary: n t) (auto split: sum.splits)

lemma bolt_deleteRows_forEach:
  "snd (bolt_deleteRows api ns rs n t)
    = forEach (\<lambda>r t. forEach (api_Delete api ns) (bolt_rowKeysOf api ns (RowKey r) t) t) rs t"
proof (induction rs arbitrary: n t)
  case (Cons r rs)
  have "snd (bolt_deleteKeys api ns (bolt_rowKeysOf api ns (RowKey r) t) n t) = forEach (api_Delete api ns) (bolt_rowKeysOf api ns (RowKey r) t) t"
    by (rule bolt_deleteKeys_forEach)
  with Cons show ?case by (auto split: sum.splits prod.splits)
qed simp

locale bolt_store = named_db NK NR NB api dview view
  for NK NR NB :: "bytes \<Rightarrow> bool" and api :: "('d, 't) bolt_api" and dview :: "'d \<Rightarrow> dbview" and view :: "'t \<Rightarrow> dbview" +
  assumes blaws: "bolt_laws api dview view"
begin

lemma get: "view t ns = Some m \<Longrightarrow> api_Get api ns k t = m k"
  using blaws unfolding bolt_laws_def by blast

lemma bucket: "view t ns = Some m \<Longrightarrow> api_Bucket api ns t"
  using blaws unfolding bolt_laws_def by auto

lemma bolt_Update_refines:
  assumes "stores NK NR NB (dview (bb_db b)) (bb_namespace b) u" "bolt_Update api f b = (b', r)"
    and "refines NK NR NB view (bb_namespace b) f sops"
  shows "bb_namespace b' = bb_namespace b
    \<and> (if r = None then stores NK NR NB (dview (bb_db b')) (bb_namespace b) (fold apply_sop sops u)
        \<and> (\<forall>n. n \<noteq> bb_namespace b \<longrightarrow> dview (bb_db b') n = dview (bb_db b) n) else b' = b)"
proof -
  let ?f = "\<lambda>t. if api_Bucket api (bb_namespace b) t then f t else Inl ErrBucketNotFound"
  have "refines NK NR NB view (bb_namespace b) ?f sops"
    using assms(3) unfolding refines_def by auto
  moreover obtain d' where "Update api ?f (bb_db b) = (d', r)" "b' = b\<lparr>bb_db := d'\<rparr>"
    using assms(2) by (auto simp: bolt_Update_def split: prod.splits)
  ultimately show ?thesis using refines_Update [OF assms(1)] by fastforce
qed

lemma moves_chunks: "view t ns = Some m \<Longrightarrow>
  moves view ns t (forEach (\<lambda>i. api_Delete api ns (KeyBlobChunk key i)) [1..<Suc n] t) (del_all (chunk_keys key n) m)"
  using moves_Deletes [of t ns m "chunk_keys key n"] by (simp add: chunk_keys_def forEach_map del: upt_Suc)

lemma moves_clearChunks:
  assumes "view t ns = Some m" "rep NK NR NB m u" "NB key"
  shows "moves view ns t (bolt_clearChunks api ns key t) (del_all (chunk_keys key (old_count key m)) m)"
proof (cases "m (KeyBlobChunk key 0)")
  case None
  then show ?thesis using moves_same [of view t ns m, OF assms(1)]
    by (simp add: bolt_clearChunks_def get [OF assms(1)] old_count_def chunk_keys_def del_all_def)
next
  case (Some v)
  show ?thesis
    using moves_chunks [OF assms(1), of key "chunkCountOf v"] rep_meta [OF assms(2,3) Some] Some assms(1)
    by (simp add: bolt_clearChunks_def get del: upt_Suc)
qed

lemma refines_SetLob:
  assumes "NB key" "length chunks < 2 ^ 32"
  shows "refines NK NR NB view ns (bolt_setLob api ns key chunks checksum) [SetLob key chunks checksum]"
proof (rule refines_moves)
  fix t m u assume v: "view t ns = Some m" "rep NK NR NB m u"
  have "moves view ns t (bolt_setLob api ns key chunks checksum t) (set_lob key (old_count key m) chunks checksum m)"
    unfolding set_lob_def bolt_setLob_def
    by (rule moves_andThen [OF moves_clearChunks [OF v assms(1)]], rule moves_andThen [OF moves_putChunks], assumption, rule moves_Put, assumption)
  then show "\<exists>m'. moves view ns t (bolt_setLob api ns key chunks checksum t) m' \<and> rep NK NR NB m' (fold apply_sop [SetLob key chunks checksum] u)"
    using rep_set_lob [OF v(2) assms] by auto
qed

lemma refines_DelKV:
  assumes "NK k" shows "refines NK NR NB view ns (bolt_deleteIfStored api ns k) [DelKV k]"
proof (rule refines_moves)
  fix t m u assume v: "view t ns = Some m" "rep NK NR NB m u"
  have "moves view ns t (bolt_deleteIfStored api ns k t) (m(KeyKV k := None))"
  proof (cases "m (KeyKV k)")
    case None
    then have "m(KeyKV k := None) = m" by (rule fun_upd_idem)
    then show ?thesis using moves_same [of view t ns m, OF v(1)] None by (simp add: bolt_deleteIfStored_def get [OF v(1)])
  next
    case (Some x)
    then show ?thesis using moves_Delete [OF v(1)] by (simp add: bolt_deleteIfStored_def get [OF v(1)])
  qed
  then show "\<exists>m'. moves view ns t (bolt_deleteIfStored api ns k t) m' \<and> rep NK NR NB m' (fold apply_sop [DelKV k] u)"
    using rep_del_kv [OF v(2) assms] by auto
qed

lemma refines_DelLob:
  assumes "NB key" shows "refines NK NR NB view ns (bolt_deleteLob api ns key) [DelLob key]"
proof (rule refines_moves)
  fix t m u assume v: "view t ns = Some m" "rep NK NR NB m u"
  have "moves view ns t (bolt_deleteLob api ns key t) (del_lob key (old_count key m) m)"
  proof (cases "m (KeyBlobChunk key 0)")
    case None
    then have "del_lob key (old_count key m) m = m" by (auto simp: del_lob_def old_count_def chunk_keys_def del_all_def)
    then show ?thesis using None moves_same [of view t ns m, OF v(1)] by (simp add: bolt_deleteLob_def get [OF v(1)])
  next
    case (Some x)
    have "moves view ns t (andThen (forEach (\<lambda>i. api_Delete api ns (KeyBlobChunk key i)) [1..<Suc (chunkCountOf x)] t)
         (api_Delete api ns (KeyBlobChunk key 0))) (del_lob key (chunkCountOf x) m)"
      unfolding del_lob_def by (rule moves_andThen [OF moves_chunks [OF v(1)]], rule moves_Delete)
    then show ?thesis using Some rep_meta [OF v(2) assms Some] v(1) by (simp add: bolt_deleteLob_def get del: upt_Suc)
  qed
  then show "\<exists>m'. moves view ns t (bolt_deleteLob api ns key t) m' \<and> rep NK NR NB m' (fold apply_sop [DelLob key] u)"
    using rep_del_lob [OF v(2) assms] by auto
qed

lemma refines_DelCells:
  assumes "NR r" shows "refines NK NR NB view ns (forEach (\<lambda>(c, _). api_Delete api ns (KeyColumn r c)) es) [DelCells r (map fst es)]"
proof (rule refines_moves)
  fix t m u assume v: "view t ns = Some m" "rep NK NR NB m u"
  have "forEach (\<lambda>(c, _). api_Delete api ns (KeyColumn r c)) es t = forEach (api_Delete api ns) (map (KeyColumn r) (map fst es)) t"
    by (simp only: forEach_map case_prod_unfold)
  then show "\<exists>m'. moves view ns t (forEach (\<lambda>(c, _). api_Delete api ns (KeyColumn r c)) es t) m'
      \<and> rep NK NR NB m' (fold apply_sop [DelCells r (map fst es)] u)"
    using moves_Deletes [OF v(1)] rep_del_cells [OF v(2) assms, of "map fst es"] by auto
qed

lemma rowKeysOf_set:
  assumes "view t ns = Some m"
  shows "set (bolt_rowKeysOf api ns p t) = {k. m k \<noteq> None \<and> prefix p k}"
proof -
  have "set (bolt_rowKeysOf api ns p t) = fst ` set (takeWhile (\<lambda>x. prefix p (fst x)) (api_Seek api ns p t))"
    by (simp add: bolt_rowKeysOf_def case_prod_unfold)
  also have "\<dots> = fst ` {(k, v). m k = Some v \<and> prefix p k}"
    using seek_prefix(1) [OF seek [of t ns m p, OF assms]] by simp
  also have "\<dots> = {k. m k \<noteq> None \<and> prefix p k}" by (auto simp: image_iff)
  finally show ?thesis .
qed

lemma refines_DelRow:
  assumes "NR r" shows "refines NK NR NB view ns (\<lambda>t. forEach (api_Delete api ns) (bolt_rowKeysOf api ns (RowKey r) t) t) [DelRow r]"
proof (rule refines_moves)
  fix t m u assume v: "view t ns = Some m" "rep NK NR NB m u"
  have "del_all (bolt_rowKeysOf api ns (RowKey r) t) m x = (if prefix (RowKey r) x then None else m x)" for x
    by (auto simp: del_all_apply rowKeysOf_set [OF v(1)])
  from rep_del_row [OF v(2) assms this] moves_Deletes [OF v(1)]
  show "\<exists>m'. moves view ns t (forEach (api_Delete api ns) (bolt_rowKeysOf api ns (RowKey r) t) t) m' \<and> rep NK NR NB m' (fold apply_sop [DelRow r] u)"
    by auto
qed

lemma bolt_BatchDeleteRows_refines:
  assumes "stores NK NR NB (dview (bb_db b)) (bb_namespace b) u" "bolt_BatchDeleteRows api rs b = (b', n, r)" "list_all NR rs"
  shows "bb_namespace b' = bb_namespace b
    \<and> (if r = None then stores NK NR NB (dview (bb_db b')) (bb_namespace b) (fold apply_sop (map DelRow rs) u)
        \<and> (\<forall>n. n \<noteq> bb_namespace b \<longrightarrow> dview (bb_db b') n = dview (bb_db b) n) else b' = b)"
proof -
  let ?ns = "bb_namespace b"
  let ?g = "\<lambda>r t. forEach (api_Delete api ?ns) (bolt_rowKeysOf api ?ns (RowKey r) t) t"
  have ref: "refines NK NR NB view ?ns (forEach ?g rs) (map DelRow rs)"
    by (rule refines_list) (use assms(3) refines_DelRow in \<open>auto simp: list_all_iff\<close>)
  let ?f = "\<lambda>t. if api_Bucket api ?ns t then bolt_deleteRows api ?ns rs 0 t else (0, Inl ErrBucketNotFound)"
  obtain d' where d': "UpdateWith api 0 ?f (bb_db b) = (d', n, r)" "b' = b\<lparr>bb_db := d'\<rparr>"
    using assms(2) by (auto simp: bolt_BatchDeleteRows_def split: prod.splits)
  have "(\<lambda>t. snd (?f t)) = (\<lambda>t. if api_Bucket api ?ns t then forEach ?g rs t else Inl ErrBucketNotFound)"
    by (rule ext) (simp add: bolt_deleteRows_forEach)
  with UpdateWith_Update [OF d'(1)] d'(2) have "bolt_Update api (forEach ?g rs) b = (b', r)"
    by (simp add: bolt_Update_def)
  from bolt_Update_refines [OF assms(1) this ref] show ?thesis .
qed

lemma refines_delRows:
  assumes "list_all (sop_ok NK NR NB) (map (\<lambda>(r, es). DelCells r (map fst es)) xs)"
  shows "refines NK NR NB view ns (forEach (\<lambda>(r, es) tx. if es = [] then Inr tx
    else forEach (\<lambda>(c, _). api_Delete api ns (KeyColumn r c)) es tx) xs) (map (\<lambda>(r, es). DelCells r (map fst es)) xs)"
  by (rule refines_rows) (use assms in \<open>fastforce simp: list_all_iff intro: refines_DelCells\<close>, simp)

lemma refines_delKVs:
  "list_all (sop_ok NK NR NB) (map DelKV ks) \<Longrightarrow> refines NK NR NB view ns (forEach (bolt_deleteIfStored api ns) ks) (map DelKV ks)"
  by (rule refines_list) (auto simp: list_all_iff intro: refines_DelKV)

lemma refines_delLobs:
  "list_all (sop_ok NK NR NB) (map DelLob ks) \<Longrightarrow> refines NK NR NB view ns (forEach (bolt_deleteLob api ns) ks) (map DelLob ks)"
  by (rule refines_list) (auto simp: list_all_iff intro: refines_DelLob)

lemma call_update:
  assumes "stores NK NR NB (dview (bb_db b)) (bb_namespace b) u" "bolt_call api c b = (b', r)"
    and "bolt_call api c b = bolt_Update api f b" "refines NK NR NB view (bb_namespace b) f (call_sops c)"
  shows "bb_namespace b' = bb_namespace b
    \<and> (if r = None then stores NK NR NB (dview (bb_db b')) (bb_namespace b) (fold apply_sop (call_sops c) u)
        \<and> (\<forall>n. n \<noteq> bb_namespace b \<longrightarrow> dview (bb_db b') n = dview (bb_db b) n) else b' = b)"
  using bolt_Update_refines [OF assms(1) _ assms(4)] assms(2,3) by simp

lemma bolt_call_refines:
  assumes "stores NK NR NB (dview (bb_db b)) (bb_namespace b) u" "bolt_call api c b = (b', r)" "call_ok NK NR NB c"
  shows "bb_namespace b' = bb_namespace b
    \<and> (if r = None then stores NK NR NB (dview (bb_db b')) (bb_namespace b) (fold apply_sop (call_sops c) u)
        \<and> (\<forall>n. n \<noteq> bb_namespace b \<longrightarrow> dview (bb_db b') n = dview (bb_db b) n) else b' = b)"
proof -
  note upd = call_update [OF assms(1,2)]
  note ok = assms(3) [unfolded call_ok_def]
  let ?ns = "bb_namespace b"
  show ?thesis
  proof (cases c)
    case (CSetKV k v)
    show ?thesis
      by (rule upd [of "api_Put api ?ns (KeyKV k) v"]) (use ok CSetKV in \<open>auto simp: bolt_call_def bolt_SetKV_def intro: refines_Put\<close>)
  next
    case (CBatchSetKV ks vs)
    show ?thesis
    proof (cases "ks = [] \<or> vs = [] \<or> length ks \<noteq> length vs")
      case False
      then show ?thesis
        by (intro upd [of "forEach (\<lambda>(k, v). api_Put api ?ns (KeyKV k) v) (zip ks vs)"])
          (use ok CBatchSetKV refines_puts in \<open>simp_all add: bolt_call_def bolt_BatchSetKV_def\<close>)
    qed (use assms(2) CBatchSetKV in \<open>auto simp: bolt_call_def bolt_BatchSetKV_def\<close>)
  next
    case (CSetLobChunks k cs s)
    show ?thesis
      by (rule upd [of "bolt_setLob api ?ns k cs s"])
        (use ok CSetLobChunks in \<open>auto simp: bolt_call_def bolt_SetLobChunks_def intro: refines_SetLob\<close>)
  next
    case (CBatchSetCells rs ess)
    show ?thesis
    proof (cases "length rs = length ess")
      case True
      then show ?thesis
        by (intro upd [of "forEach (\<lambda>(r, es) tx. if es = [] then Inr tx
            else forEach (\<lambda>(c, v). api_Put api ?ns (KeyColumn r c) v) es tx) (zip rs ess)"])
          (use ok CBatchSetCells refines_setRows in \<open>simp_all add: bolt_call_def bolt_BatchSetCells_def\<close>)
    qed (use assms(2) CBatchSetCells in \<open>auto simp: bolt_call_def bolt_BatchSetCells_def\<close>)
  next
    case (CBatchDeleteCells rs ess)
    show ?thesis
    proof (cases "length rs = length ess")
      case True
      then show ?thesis
        by (intro upd [of "forEach (\<lambda>(r, es) tx. if es = [] then Inr tx
            else forEach (\<lambda>(c, _). api_Delete api ?ns (KeyColumn r c)) es tx) (zip rs ess)"])
          (use ok CBatchDeleteCells refines_delRows in \<open>simp_all add: bolt_call_def bolt_BatchDeleteCells_def\<close>)
    qed (use assms(2) CBatchDeleteCells in \<open>auto simp: bolt_call_def bolt_BatchDeleteCells_def\<close>)
  next
    case (CBatchDeleteRows rs)
    then obtain n where "bolt_BatchDeleteRows api rs b = (b', n, r)"
      using assms(2) by (auto simp: bolt_call_def split: prod.splits)
    from bolt_BatchDeleteRows_refines [OF assms(1) this] ok CBatchDeleteRows show ?thesis by (auto simp: list_all_iff)
  next
    case (CDeleteKV k)
    show ?thesis
      by (rule upd [of "bolt_deleteIfStored api ?ns k"]) (use ok CDeleteKV in \<open>auto simp: bolt_call_def bolt_DeleteKV_def intro: refines_DelKV\<close>)
  next
    case (CBatchDeleteKV ks)
    show ?thesis
      by (rule upd [of "forEach (bolt_deleteIfStored api ?ns) ks"])
        (use ok CBatchDeleteKV refines_delKVs in \<open>simp_all add: bolt_call_def bolt_BatchDeleteKV_def\<close>)
  next
    case (CBatchDeleteLobChunks ks)
    show ?thesis
      by (rule upd [of "forEach (bolt_deleteLob api ?ns) ks"])
        (use ok CBatchDeleteLobChunks refines_delLobs in \<open>simp_all add: bolt_call_def bolt_BatchDeleteLobChunks_def\<close>)
  qed
qed

end

section \<open>Correctness of the reading methods\<close>

text \<open>The loop of \<open>getColumns\<close> keeps the entries with the prefix that have a column name the filter accepts.\<close>

definition col_step :: "bytes \<Rightarrow> (bytes \<Rightarrow> bool) \<Rightarrow> bytes \<times> bytes \<Rightarrow> (bytes \<times> bytes) list \<Rightarrow> (bytes \<times> bytes) list" where
  "col_step pre filt x es =
    (let c = drop (length pre) (fst x) in
     if length (fst x) \<noteq> length pre \<and> filt c then AList.update c (snd x) es else es)"

lemma bolt_getColumns_fold:
  "bolt_getColumns pre filt xs es =
    (let r = fold (col_step pre filt) (takeWhile (\<lambda>x. prefix pre (fst x)) xs) es in if r = [] then Inl ErrKeyNotFound else Inr r)"
  by (induction pre filt xs es rule: bolt_getColumns.induct) (auto simp: col_step_def Let_def)

lemma map_of_col_steps:
  assumes "\<forall>x \<in> set xs. prefix pre (fst x)" "distinct (map fst xs)"
  shows "map_of (fold (col_step pre filt) xs es) c =
    (if c \<noteq> [] \<and> filt c \<and> map_of xs (pre @ c) \<noteq> None then map_of xs (pre @ c) else map_of es c)"
  using assms
proof (induction xs arbitrary: es)
  case (Cons x xs)
  obtain k v where x: "x = (k, v)" by (cases x)
  obtain c0 where k: "k = pre @ c0" using Cons.prems(1) x by (auto simp: prefix_def)
  have fresh: "map_of xs (pre @ c0) = None" using Cons.prems(2) x k by (auto simp: map_of_eq_None_iff)
  have "map_of (col_step pre filt x es) c = (if c = c0 \<and> c \<noteq> [] \<and> filt c then Some v else map_of es c)"
    by (auto simp: col_step_def x k update_conv')
  with Cons fresh show ?case by (auto simp: x k)
qed simp

lemma map_of_scan:
  assumes "seek_law m p xs"
  shows "map_of (takeWhile (\<lambda>x. prefix p (fst x)) xs) (p @ c) = m (p @ c)"
proof -
  have "map_of (takeWhile (\<lambda>x. prefix p (fst x)) xs) (p @ c) = Some v \<longleftrightarrow> m (p @ c) = Some v" for v
    using map_of_eq_Some_iff [OF seek_prefix(2) [OF assms]] seek_prefix(1) [OF assms] by simp
  then show ?thesis by (metis not_None_eq)
qed

text \<open>The columns of a row that a scan returns.\<close>

definition selected :: "(bytes \<Rightarrow> bool) option \<Rightarrow> (bytes \<rightharpoonup> bytes) \<Rightarrow> bytes \<rightharpoonup> bytes" where
  "selected filt cells c = (if c \<noteq> [] \<and> (case filt of None \<Rightarrow> True | Some f \<Rightarrow> f c) then cells c else None)"

context bolt_store
begin

lemma bolt_View_ok:
  assumes "stores NK NR NB (dview (bb_db b)) (bb_namespace b) u" "api_Begin api (bb_db b) = Inr t"
  shows "\<exists>m. view t (bb_namespace b) = Some m \<and> rep NK NR NB m u" and "bolt_View api f b = f t"
proof -
  obtain m where m: "dview (bb_db b) (bb_namespace b) = Some m" "rep NK NR NB m u" using assms(1) by (auto simp: stores_def)
  have v: "view t (bb_namespace b) = Some m" using begin_view [OF assms(2)] m(1) by simp
  then show "\<exists>m. view t (bb_namespace b) = Some m \<and> rep NK NR NB m u" using m(2) by blast
  show "bolt_View api f b = f t" using bucket [OF v] assms(2) by (simp add: bolt_View_def View_def andThen_def)
qed

lemma bolt_GetKV_ok:
  assumes "stores NK NR NB (dview (bb_db b)) (bb_namespace b) u" "api_Begin api (bb_db b) = Inr t" "NK k"
  shows "bolt_GetKV api k b = (case u_kv u k of None \<Rightarrow> Inl ErrKeyNotFound | Some v \<Rightarrow> Inr v)"
proof -
  obtain m where m: "view t (bb_namespace b) = Some m" "rep NK NR NB m u" using bolt_View_ok(1) [OF assms(1,2)] by blast
  show ?thesis
    unfolding bolt_GetKV_def bolt_View_ok(2) [OF assms(1,2)] get [OF m(1)] repD(1) [OF m(2) assms(3)] ..
qed

lemma bolt_GetCell_ok:
  assumes "stores NK NR NB (dview (bb_db b)) (bb_namespace b) u" "api_Begin api (bb_db b) = Inr t" "NR r"
  shows "bolt_GetCell api r c b = (case u_cell u r c of None \<Rightarrow> Inl ErrKeyNotFound | Some v \<Rightarrow> Inr v)"
proof -
  obtain m where m: "view t (bb_namespace b) = Some m" "rep NK NR NB m u" using bolt_View_ok(1) [OF assms(1,2)] by blast
  show ?thesis
    unfolding bolt_GetCell_def bolt_View_ok(2) [OF assms(1,2)] get [OF m(1)] repD(2) [OF m(2) assms(3)] ..
qed

lemma bolt_getChunks_ok:
  assumes "view t ns = Some m" "\<forall>i < length cs. m (KeyBlobChunk key (i + 1)) = Some (cs ! i)" "j \<le> length cs"
  shows "bolt_getChunks api ns key [j..<length cs] t = Inr (drop j cs)"
  using assms(3)
proof (induction "length cs - j" arbitrary: j)
  case (Suc n)
  then have j: "j < length cs" by simp
  with Suc have "bolt_getChunks api ns key [Suc j..<length cs] t = Inr (drop (Suc j) cs)" by simp
  moreover have "m (KeyBlobChunk key (j + 1)) = Some (cs ! j)" using assms(2) j by blast
  ultimately show ?case using j by (simp add: upt_conv_Cons get [OF assms(1)] Cons_nth_drop_Suc)
qed simp

lemma bolt_GetLOBChunks_ok:
  assumes "stores NK NR NB (dview (bb_db b)) (bb_namespace b) u" "api_Begin api (bb_db b) = Inr t" "NB k"
  shows "bolt_GetLOBChunks api k b = (case u_lob u k of None \<Rightarrow> Inl ErrKeyNotFound | Some (cs, s) \<Rightarrow> Inr cs)"
proof -
  obtain m where m: "view t (bb_namespace b) = Some m" "rep NK NR NB m u" using bolt_View_ok(1) [OF assms(1,2)] by blast
  have slot: "m (KeyBlobChunk k i) = lob_slot (u_lob u k) i" if "i < 2 ^ 32" for i using repD(3) [OF m(2) assms(3) that] .
  show ?thesis
  proof (cases "u_lob u k")
    case None
    then show ?thesis
      unfolding bolt_GetLOBChunks_def bolt_View_ok(2) [OF assms(1,2)] get [OF m(1)] using slot [of 0] by (simp add: lob_slot_def)
  next
    case (Some p)
    obtain cs s where p: "p = (cs, s)" by (cases p)
    have l: "length cs < 2 ^ 32" using repD(4) [OF m(2) assms(3)] Some p by blast
    have "\<forall>i < length cs. m (KeyBlobChunk k (i + 1)) = Some (cs ! i)" using slot l Some p by (auto simp: lob_slot_def)
    from bolt_getChunks_ok [OF m(1) this, of 0] show ?thesis
      unfolding bolt_GetLOBChunks_def bolt_View_ok(2) [OF assms(1,2)] get [OF m(1)]
      using slot [of 0] Some p l by (simp add: lob_slot_def)
  qed
qed

lemma bolt_ScanRowCells_ok:
  assumes "stores NK NR NB (dview (bb_db b)) (bb_namespace b) u" "api_Begin api (bb_db b) = Inr t" "NR r"
  shows "case bolt_ScanRowCells api r filt b of
     Inl e \<Rightarrow> e = ErrKeyNotFound \<and> selected filt (u_cell u r) = Map.empty
   | Inr es \<Rightarrow> map_of es = selected filt (u_cell u r) \<and> es \<noteq> []"
proof -
  obtain m where m: "view t (bb_namespace b) = Some m" "rep NK NR NB m u" using bolt_View_ok(1) [OF assms(1,2)] by blast
  define f where "f = (case filt of None \<Rightarrow> \<lambda>_. True | Some f \<Rightarrow> f)"
  define xs where "xs = api_Seek api (bb_namespace b) (RowKey r) t"
  define es where "es = fold (col_step (RowKey r) f) (takeWhile (\<lambda>x. prefix (RowKey r) (fst x)) xs) []"
  have law: "seek_law m (RowKey r) xs" unfolding xs_def by (rule seek [OF m(1)])
  have "map_of es c = selected filt (u_cell u r) c" for c
  proof -
    have "\<forall>x \<in> set (takeWhile (\<lambda>x. prefix (RowKey r) (fst x)) xs). prefix (RowKey r) (fst x)" by (auto dest: set_takeWhileD)
    from map_of_col_steps [OF this seek_prefix(2) [OF law], of f "[]" c] show ?thesis
      using repD(2) [OF m(2) assms(3), of c] unfolding es_def map_of_scan [OF law]
      by (auto simp: selected_def f_def KeyColumn_RowKey split: option.splits)
  qed
  then have e: "map_of es = selected filt (u_cell u r)" by (rule ext)
  moreover have "es = [] \<longleftrightarrow> map_of es = Map.empty" by (metis map_of_eq_empty_iff)
  ultimately show ?thesis
    unfolding bolt_ScanRowCells_def bolt_View_ok(2) [OF assms(1,2)] bolt_getColumns_fold
    by (simp add: Let_def flip: es_def xs_def f_def)
qed

lemma bolt_getCellsLoop_ok:
  assumes "view t ns = Some m"
  shows "map_of (bolt_getCellsLoop api ns r cs t res) c
    = (if c \<in> set cs \<and> m (KeyColumn r c) \<noteq> None then m (KeyColumn r c) else map_of res c)"
  by (induction cs arbitrary: res) (auto simp: get [OF assms] update_conv' split: option.splits)

lemma bolt_GetCells_ok:
  assumes "stores NK NR NB (dview (bb_db b)) (bb_namespace b) u" "api_Begin api (bb_db b) = Inr t" "NR r"
  shows "\<exists>es. bolt_GetCells api r cs b = Inr es \<and> map_of es = u_cell u r |` set cs"
proof -
  obtain m where m: "view t (bb_namespace b) = Some m" "rep NK NR NB m u" using bolt_View_ok(1) [OF assms(1,2)] by blast
  have "map_of (bolt_getCellsLoop api (bb_namespace b) r cs t []) c = (u_cell u r |` set cs) c" for c
    unfolding bolt_getCellsLoop_ok [OF m(1)] repD(2) [OF m(2) assms(3)] by (auto simp: restrict_map_def)
  then have "map_of (bolt_getCellsLoop api (bb_namespace b) r cs t []) = u_cell u r |` set cs" by (rule ext)
  then show ?thesis unfolding bolt_GetCells_def bolt_View_ok(2) [OF assms(1,2)] by blast
qed

end

lemma bolt_store_names:
  "bolt_laws api dview view \<Longrightarrow> key_names NK NR NB \<Longrightarrow> bolt_store NK NR NB api dview view"
  by (simp add: bolt_store_def named_db_def txn_db_def bolt_store_axioms_def bolt_laws_def)

interpretation mbolt: bolt_store "plain KeyTypeKV" "plain KeyTypeWideColumn" "plain KeyTypeBlobChunk" mem_bolt mem_view mem_view
  by (rule bolt_store_names [OF mem_bolt_laws user_names])

end
