(* ===== verification/BoltProgress.thy ===== *)
theory BoltProgress
  imports BoltStore
begin

text \<open>
  The bbolt driver does not fail by itself: on a database whose calls succeed, every writing method with arguments of
  matching lengths returns without an error.
\<close>

section \<open>A database that is available\<close>

definition reliable :: "('d, 't, 'z) txn_api_scheme \<Rightarrow> ('t \<Rightarrow> dbview) \<Rightarrow> bool" where
  "reliable api view \<longleftrightarrow> (\<forall>d. \<exists>t. api_Begin api d = Inr t) \<and> (\<forall>t d. \<exists>d'. api_Commit api t d = Inr d')
    \<and> (\<forall>ns k v t. view t ns \<noteq> None \<longrightarrow> (\<exists>t'. api_Put api ns k v t = Inr t'))
    \<and> (\<forall>ns k t. view t ns \<noteq> None \<longrightarrow> (\<exists>t'. api_Delete api ns k t = Inr t'))"

definition valid_args :: "storeCall \<Rightarrow> bool" where
  "valid_args c = (case c of
     CBatchSetKV ks vs \<Rightarrow> ks \<noteq> [] \<and> length ks = length vs
   | CBatchSetCells rs ess \<Rightarrow> length rs = length ess
   | CBatchDeleteCells rs ess \<Rightarrow> length rs = length ess
   | _ \<Rightarrow> True)"

text \<open>Steps that succeed on every transaction with the bucket.\<close>

definition keeps :: "('t \<Rightarrow> dbview) \<Rightarrow> string \<Rightarrow> ('t \<Rightarrow> error + 't) \<Rightarrow> bool" where
  "keeps view ns f \<longleftrightarrow> (\<forall>t. view t ns \<noteq> None \<longrightarrow> (\<exists>t'. f t = Inr t' \<and> view t' ns \<noteq> None))"

lemma keepsD: "keeps view ns f \<Longrightarrow> view t ns = Some m \<Longrightarrow> \<exists>t'. f t = Inr t' \<and> view t' ns \<noteq> None"
  by (auto simp: keeps_def)

lemma keeps_forEach: "(\<And>x. x \<in> set xs \<Longrightarrow> keeps view ns (f x)) \<Longrightarrow> keeps view ns (forEach f xs)"
proof (induction xs)
  case (Cons x xs)
  have "\<exists>t2. forEach f (x # xs) t = Inr t2 \<and> view t2 ns \<noteq> None" if v: "view t ns \<noteq> None" for t
  proof -
    obtain t1 where "f x t = Inr t1" "view t1 ns \<noteq> None" using Cons.prems [of x, OF list.set_intros(1)] v unfolding keeps_def by blast
    moreover have "keeps view ns (forEach f xs)" using Cons by simp
    ultimately show ?thesis unfolding keeps_def by simp
  qed
  then show ?case unfolding keeps_def by blast
qed (simp add: keeps_def)

section \<open>Every method succeeds\<close>

locale bolt_available = bolt_store NK NR NB api dview view
  for NK NR NB :: "bytes \<Rightarrow> bool" and api :: "('d, 't) bolt_api" and dview :: "'d \<Rightarrow> dbview" and view :: "'t \<Rightarrow> dbview" +
  assumes available: "reliable api view"
begin

lemma keeps_moves:
  assumes "\<And>t m. view t ns = Some m \<Longrightarrow> moves view ns t (f t) (g m)" "\<And>t. view t ns \<noteq> None \<Longrightarrow> \<exists>t'. f t = Inr t'"
  shows "keeps view ns f"
proof -
  have "\<exists>t'. f t = Inr t' \<and> view t' ns \<noteq> None" if v: "view t ns = Some m" for t m
  proof -
    obtain t' where t': "f t = Inr t'" using assms(2) v by auto
    then have "view t' = (view t)(ns \<mapsto> g m)" using assms(1) [OF v] by (simp add: moves_def)
    then show ?thesis using t' by simp
  qed
  then show ?thesis unfolding keeps_def by auto
qed

lemma keeps_Put: "keeps view ns (api_Put api ns k v)"
  by (rule keeps_moves [where g = "\<lambda>m. m(k \<mapsto> v)"], erule moves_Put) (use available in \<open>auto simp: reliable_def\<close>)

lemma keeps_Delete: "keeps view ns (api_Delete api ns k)"
  by (rule keeps_moves [where g = "\<lambda>m. m(k := None)"], erule moves_Delete) (use available in \<open>auto simp: reliable_def\<close>)

lemma keeps_Deletes: "keeps view ns (forEach (\<lambda>x. api_Delete api ns (g x)) xs)"
  by (rule keeps_forEach) (rule keeps_Delete)

text \<open>Steps that succeed on a bucket that represents a store.\<close>

definition works :: "string \<Rightarrow> ('t \<Rightarrow> error + 't) \<Rightarrow> bool" where
  "works ns f \<longleftrightarrow> (\<forall>t m u. view t ns = Some m \<longrightarrow> rep NK NR NB m u \<longrightarrow> (\<exists>t'. f t = Inr t'))"

lemma keeps_works: "keeps view ns f \<Longrightarrow> works ns f"
  by (auto simp: keeps_def works_def)

lemma works_list:
  assumes "\<And>x. x \<in> set xs \<Longrightarrow> works ns (f x)" "\<And>x. x \<in> set xs \<Longrightarrow> refines NK NR NB view ns (f x) [g x]"
  shows "works ns (forEach f xs)"
  using assms
proof (induction xs)
  case (Cons x xs)
  have "\<exists>t2. forEach f (x # xs) t = Inr t2" if v: "view t ns = Some m" "rep NK NR NB m u" for t m u
  proof -
    obtain t1 where t1: "f x t = Inr t1" using Cons.prems(1) [of x] v unfolding works_def by auto
    have "refines NK NR NB view ns (f x) [g x]" using Cons.prems(2) by simp
    then obtain m1 where "view t1 = (view t)(ns \<mapsto> m1)" "rep NK NR NB m1 (fold apply_sop [g x] u)"
      using v t1 by (rule refinesD)
    then have "view t1 ns = Some m1" "rep NK NR NB m1 (fold apply_sop [g x] u)" by simp_all
    moreover have "works ns (forEach f xs)" using Cons by simp
    ultimately have "\<exists>t2. forEach f xs t1 = Inr t2" unfolding works_def by blast
    then show ?thesis using t1 by simp
  qed
  then show ?case unfolding works_def by blast
qed (simp add: works_def)

lemma clearChunks_progress:
  assumes "NB key" "view t ns = Some m" "rep NK NR NB m u"
  shows "\<exists>t1. bolt_clearChunks api ns key t = Inr t1 \<and> view t1 ns \<noteq> None"
proof (cases "m (KeyBlobChunk key 0)")
  case (Some x)
  show ?thesis
    using rep_meta [OF assms(3,1) Some] Some keepsD [OF keeps_Deletes assms(2), of "KeyBlobChunk key" "[1..<Suc (chunkCountOf x)]"]
    by (simp add: bolt_clearChunks_def get [OF assms(2)] del: upt_Suc)
qed (use assms(2) in \<open>simp add: bolt_clearChunks_def get [OF assms(2)]\<close>)

lemma keeps_putChunks: "keeps view ns (forEach (\<lambda>(i, chunk). api_Put api ns (KeyBlobChunk key i) chunk) (enumerate 1 chunks))"
  by (rule keeps_forEach) (auto intro: keeps_Put)

lemma keeps_andThen: "keeps view ns f \<Longrightarrow> keeps view ns g \<Longrightarrow> keeps view ns (\<lambda>tx. andThen (f tx) g)"
  unfolding keeps_def andThen_def by fastforce

lemma works_after_clear:
  assumes "NB key" "keeps view ns f"
  shows "works ns (\<lambda>t. andThen (bolt_clearChunks api ns key t) f)"
  unfolding works_def
proof (intro allI impI)
  fix t m u assume v: "view t ns = Some m" "rep NK NR NB m u"
  obtain t1 where "bolt_clearChunks api ns key t = Inr t1" "view t1 ns \<noteq> None" using clearChunks_progress [OF assms(1) v] by blast
  moreover from this have "\<exists>t'. f t1 = Inr t'" using assms(2) unfolding keeps_def by blast
  ultimately show "\<exists>t'. andThen (bolt_clearChunks api ns key t) f = Inr t'" by (simp add: andThen_def)
qed

lemma works_SetLob:
  assumes "NB key" shows "works ns (bolt_setLob api ns key chunks checksum)"
  using works_after_clear [OF assms keeps_andThen [OF keeps_putChunks keeps_Put]] unfolding bolt_setLob_def .

lemma works_DelKV: "works ns (bolt_deleteIfStored api ns k)"
  unfolding works_def
proof (intro allI impI)
  fix t m u assume v: "view t ns = Some m"
  show "\<exists>t'. bolt_deleteIfStored api ns k t = Inr t'"
    using keepsD [OF keeps_Delete v, of "KeyKV k"] by (auto simp: bolt_deleteIfStored_def split: option.split)
qed

lemma works_DelLob:
  assumes "NB key" shows "works ns (bolt_deleteLob api ns key)"
  unfolding works_def
proof (intro allI impI)
  fix t m u assume v: "view t ns = Some m" "rep NK NR NB m u"
  show "\<exists>t'. bolt_deleteLob api ns key t = Inr t'"
  proof (cases "m (KeyBlobChunk key 0)")
    case (Some x)
    obtain t1 where t1: "forEach (\<lambda>i. api_Delete api ns (KeyBlobChunk key i)) [1..<Suc (chunkCountOf x)] t = Inr t1" "view t1 ns \<noteq> None"
      using keepsD [OF keeps_Deletes v(1)] by blast
    then have "\<exists>t'. api_Delete api ns (KeyBlobChunk key 0) t1 = Inr t'" using keeps_Delete unfolding keeps_def by blast
    then show ?thesis using t1(1) rep_meta [OF v(2) assms Some] Some
      by (simp add: bolt_deleteLob_def get [OF v(1)] andThen_def del: upt_Suc)
  qed (simp add: bolt_deleteLob_def get [OF v(1)])
qed

lemma works_Update:
  assumes "works (bb_namespace b) f" "stores NK NR NB (dview (bb_db b)) (bb_namespace b) u"
  shows "snd (bolt_Update api f b) = None"
proof -
  obtain t where t: "api_Begin api (bb_db b) = Inr t" using available unfolding reliable_def by blast
  obtain m where m: "view t (bb_namespace b) = Some m" "rep NK NR NB m u" using assms(2) begin_view [OF t] by (auto simp: stores_def)
  then obtain t' where t': "f t = Inr t'" using assms(1) unfolding works_def by blast
  obtain d' where "api_Commit api t' (bb_db b) = Inr d'" using available unfolding reliable_def by blast
  then show ?thesis using t t' bucket [OF m(1)] by (simp add: bolt_Update_def Update_def UpdateWith_def)
qed

lemma keeps_rows:
  "(\<And>r es. keeps view ns (f r es)) \<Longrightarrow> keeps view ns (forEach (\<lambda>(r, es) tx. if es = [] then Inr tx else f r es tx) xs)"
  by (rule keeps_forEach) (auto simp: keeps_def)

lemma works_call:
  assumes "call_ok NK NR NB c" "valid_args c"
  shows "\<exists>f. works (bb_namespace b) f \<and> snd (bolt_call api c b) = snd (bolt_Update api f b)"
proof -
  note ok = assms(1) [unfolded call_ok_def]
  let ?ns = "bb_namespace b"
  have by_works: ?thesis if "works ?ns f" "bolt_call api c b = bolt_Update api f b" for f using that by auto
  have putrows: "keeps view ?ns (forEach (\<lambda>(r, es) tx. if es = [] then Inr tx
      else forEach (\<lambda>(c, v). api_Put api ?ns (KeyColumn r c) v) es tx) xs)" for xs
    by (intro keeps_rows keeps_forEach) (auto intro: keeps_Put)
  have delrows: "keeps view ?ns (forEach (\<lambda>(r, es) tx. if es = [] then Inr tx
      else forEach (\<lambda>(c, _). api_Delete api ?ns (KeyColumn r c)) es tx) xs)" for xs :: "(bytes \<times> (bytes \<times> bytes) list) list"
    by (intro keeps_rows keeps_forEach) (auto intro: keeps_Delete)
  have puts: "keeps view ?ns (forEach (\<lambda>(k, v). api_Put api ?ns (KeyKV k) v) xs)" for xs
    by (rule keeps_forEach) (auto intro: keeps_Put)
  show ?thesis
  proof (cases c)
    case (CBatchDeleteRows rs)
    let ?g = "forEach (\<lambda>r t. forEach (api_Delete api ?ns) (bolt_rowKeysOf api ?ns (RowKey r) t) t) rs"
    have "keeps view ?ns (\<lambda>t. forEach (api_Delete api ?ns) (bolt_rowKeysOf api ?ns (RowKey r) t) t)" for r
      using keeps_Deletes [of ?ns "\<lambda>x. x"] unfolding keeps_def by simp
    then have "works ?ns ?g" by (intro keeps_works keeps_forEach)
    moreover have "snd (bolt_call api c b) = snd (bolt_Update api ?g b)"
      using CBatchDeleteRows by (auto simp: bolt_call_def bolt_BatchDeleteRows_def bolt_Update_def Update_def UpdateWith_def
        simp flip: bolt_deleteRows_forEach [where n = 0] split: sum.split prod.split)
    ultimately show ?thesis by blast
  next
    case (CBatchDeleteKV ks)
    then have "works ?ns (forEach (bolt_deleteIfStored api ?ns) ks)"
      using ok by (intro works_list [where g = DelKV] works_DelKV refines_DelKV) (auto simp: list_all_iff)
    then show ?thesis using CBatchDeleteKV by (intro by_works) (simp_all add: bolt_call_def bolt_BatchDeleteKV_def)
  next
    case (CBatchDeleteLobChunks ks)
    then have "works ?ns (forEach (bolt_deleteLob api ?ns) ks)"
      using ok by (intro works_list [where g = DelLob] works_DelLob refines_DelLob) (auto simp: list_all_iff)
    then show ?thesis using CBatchDeleteLobChunks by (intro by_works) (simp_all add: bolt_call_def bolt_BatchDeleteLobChunks_def)
  next
    case (CSetLobChunks k cs s)
    then have "works ?ns (bolt_setLob api ?ns k cs s)" using ok by (intro works_SetLob) simp
    then show ?thesis using CSetLobChunks by (intro by_works) (simp_all add: bolt_call_def bolt_SetLobChunks_def)
  qed (use assms(2) by_works [OF keeps_works [OF keeps_Put]] by_works [OF works_DelKV] by_works [OF keeps_works [OF putrows]]
      by_works [OF keeps_works [OF delrows]] by_works [OF keeps_works [OF puts]] in
      \<open>auto simp: valid_args_def bolt_call_def bolt_SetKV_def bolt_BatchSetKV_def bolt_DeleteKV_def
        bolt_BatchSetCells_def bolt_BatchDeleteCells_def\<close>)
qed

lemma bolt_call_succeeds:
  assumes "stores NK NR NB (dview (bb_db b)) (bb_namespace b) u" "call_ok NK NR NB c" "valid_args c"
  shows "\<exists>b'. bolt_call api c b = (b', None) \<and> bb_namespace b' = bb_namespace b
    \<and> stores NK NR NB (dview (bb_db b')) (bb_namespace b) (fold apply_sop (call_sops c) u)
    \<and> (\<forall>n. n \<noteq> bb_namespace b \<longrightarrow> dview (bb_db b') n = dview (bb_db b) n)"
proof -
  obtain b' r where b': "bolt_call api c b = (b', r)" by (cases "bolt_call api c b")
  have "r = None" using works_call [OF assms(2,3), of b] works_Update [OF _ assms(1)] b' by auto
  then show ?thesis using bolt_call_refines [OF assms(1) b' assms(2)] b' by simp
qed

end

lemma mem_bolt_reliable: "reliable mem_bolt mem_view"
  by (auto simp: reliable_def mem_bolt_def mem_view_def mem_Put_def mem_Delete_def)

lemma bolt_available_names:
  "bolt_laws api dview view \<Longrightarrow> reliable api view \<Longrightarrow> key_names NK NR NB \<Longrightarrow> bolt_available NK NR NB api dview view"
  by (simp add: bolt_available_def bolt_available_axioms_def bolt_store_names)

interpretation mavail: bolt_available "plain KeyTypeKV" "plain KeyTypeWideColumn" "plain KeyTypeBlobChunk" mem_bolt mem_view mem_view
  by (rule bolt_available_names [OF mem_bolt_laws mem_bolt_reliable user_names])

end
