(* ===== verification/TxnQueue.thy ===== *)
theory TxnQueue
  imports TxnApi
begin

text \<open>
  What the two transaction queues of \<open>pkg/kvdrivers\<close> share: the queue of closures with its counters, the loop that runs
  them in one transaction, and the way the methods of \<open>txnWriter\<close> put closures on the queue and flush it when it is
  full. The locale \<open>txn_writer\<close> states what a flush promises; its lemmas show that a sequence of calls followed by
  \<open>Commit\<close> does to the store what the calls say, in order, and that the store holds a prefix of the operations at
  any time.

  The counters are \<open>float32\<close> values in the source, which count exactly up to \<open>2\<^sup>2\<^sup>4\<close>; they are natural numbers here.
\<close>

section \<open>The queue\<close>

record TxnStats =
  EntriesModified :: nat
  PutOps :: nat
  DeleteOps :: nat

record counters =
  entriesModified :: nat
  putOps :: nat
  deleteOps :: nat

type_synonym 't qop = "counters \<Rightarrow> 't \<Rightarrow> counters \<times> (error + 't)"

record 't TxnQueue =
  tq_err :: "error option"
  tq_namespace :: string
  tq_opsQueue :: "'t qop list"
  tq_maxBatchSize :: nat
  tq_counters :: counters
  tq_stats :: TxnStats

definition no_counters :: counters where
  "no_counters = \<lparr>entriesModified = 0, putOps = 0, deleteOps = 0\<rparr>"

definition NewTxnQueue :: "string \<Rightarrow> nat \<Rightarrow> 't TxnQueue" where
  "NewTxnQueue ns maxBatchSize = \<lparr>tq_err = None, tq_namespace = ns, tq_opsQueue = [], tq_maxBatchSize = maxBatchSize,
     tq_counters = no_counters, tq_stats = \<lparr>EntriesModified = 0, PutOps = 0, DeleteOps = 0\<rparr>\<rparr>"

text \<open>The loop of \<open>flushBatch\<close> over the queue.\<close>

fun runOps :: "'t qop list \<Rightarrow> counters \<Rightarrow> 't \<Rightarrow> counters \<times> (error + 't)" where
  "runOps [] c t = (c, Inr t)"
| "runOps (op # ops) c t = (case op c t of (c', Inl e) \<Rightarrow> (c', Inl e) | (c', Inr t') \<Rightarrow> runOps ops c' t')"

text \<open>The queue after a transaction has been committed, whether the commit succeeded or not.\<close>

definition tq_reset :: "counters \<Rightarrow> 't TxnQueue \<Rightarrow> 't TxnQueue" where
  "tq_reset c q = q\<lparr>tq_stats := \<lparr>EntriesModified = EntriesModified (tq_stats q) + entriesModified c,
     PutOps = PutOps (tq_stats q) + putOps c, DeleteOps = DeleteOps (tq_stats q) + deleteOps c\<rparr>,
     tq_opsQueue := [], tq_counters := no_counters\<rparr>"

text \<open>The end of every method: closures are appended, and the queue is flushed when it has reached its size.\<close>

definition tq_enqueue ::
  "('d \<times> 't TxnQueue \<Rightarrow> ('d \<times> 't TxnQueue) \<times> error option) \<Rightarrow> bool \<Rightarrow> 't qop list \<Rightarrow> 'd \<times> 't TxnQueue
    \<Rightarrow> ('d \<times> 't TxnQueue) \<times> error option" where
  "tq_enqueue flush force ops s =
    (case s of (d, q) \<Rightarrow>
       let q = q\<lparr>tq_opsQueue := tq_opsQueue q @ ops\<rparr> in
       if force \<or> length (tq_opsQueue q) \<ge> tq_maxBatchSize q
       then (case flush (d, q) of ((d', q'), e) \<Rightarrow> ((d', q'\<lparr>tq_err := e\<rparr>), e))
       else ((d, q), tq_err q))"

text \<open>A client that issues calls until one returns an error.\<close>

fun runCalls :: "(storeCall \<Rightarrow> 's \<Rightarrow> 's \<times> error option) \<Rightarrow> storeCall list \<Rightarrow> 's \<Rightarrow> 's \<times> error option" where
  "runCalls call [] s = (s, None)"
| "runCalls call (c # cs) s = (case call c s of (s', Some e) \<Rightarrow> (s', Some e) | (s', None) \<Rightarrow> runCalls call cs s')"

section \<open>Closures that refine abstract operations\<close>

definition qrefines ::
  "(bytes \<Rightarrow> bool) \<Rightarrow> (bytes \<Rightarrow> bool) \<Rightarrow> (bytes \<Rightarrow> bool) \<Rightarrow> ('t \<Rightarrow> dbview) \<Rightarrow> string \<Rightarrow> 't qop \<Rightarrow> sop \<Rightarrow> bool" where
  "qrefines NK NR NB view ns op sop \<longleftrightarrow> (\<forall>c. refines NK NR NB view ns (\<lambda>t. snd (op c t)) [sop])"

lemma refines_runOps:
  "list_all2 (qrefines NK NR NB view ns) ops sops \<Longrightarrow> refines NK NR NB view ns (\<lambda>t. snd (runOps ops c t)) sops"
proof (induction arbitrary: c rule: list_all2_induct)
  case Nil
  then show ?case using refines_Nil by simp
next
  case (Cons op ops sop sops)
  show ?case unfolding refines_def
  proof (intro allI impI)
    fix t m u t' assume v: "view t ns = Some m" "rep NK NR NB m u" "snd (runOps (op # ops) c t) = Inr t'"
    obtain c1 t1 where t1: "op c t = (c1, Inr t1)" "snd (runOps ops c1 t1) = Inr t'"
      using v(3) by (auto split: prod.splits sum.splits)
    have op: "refines NK NR NB view ns (\<lambda>t. snd (op c t)) [sop]" using Cons.hyps(1) by (simp add: qrefines_def)
    have "snd (op c t) = Inr t1" using t1(1) by simp
    then obtain m1 where m1: "view t1 = (view t)(ns \<mapsto> m1)" "rep NK NR NB m1 (fold apply_sop [sop] u)"
      by (rule refinesD [OF op v(1,2)])
    have "view t1 ns = Some m1" using m1(1) by simp
    then obtain m2 where "view t' = (view t1)(ns \<mapsto> m2)" "rep NK NR NB m2 (fold apply_sop sops (fold apply_sop [sop] u))"
      using m1(2) t1(2) by (rule refinesD [OF Cons.IH])
    then show "\<exists>m'. view t' = (view t)(ns \<mapsto> m') \<and> rep NK NR NB m' (fold apply_sop (sop # sops) u)" using m1(1) by auto
  qed
qed

section \<open>The contract of a flush\<close>

text \<open>The bucket \<open>ns\<close> holds the store, and all other buckets are as in \<open>v0\<close>.\<close>

definition stores_over ::
  "(bytes \<Rightarrow> bool) \<Rightarrow> (bytes \<Rightarrow> bool) \<Rightarrow> (bytes \<Rightarrow> bool) \<Rightarrow> dbview \<Rightarrow> dbview \<Rightarrow> string \<Rightarrow> ustore \<Rightarrow> bool" where
  "stores_over NK NR NB v0 v ns u \<longleftrightarrow> stores NK NR NB v ns u \<and> (\<forall>n. n \<noteq> ns \<longrightarrow> v n = v0 n)"

text \<open>A flush of a queue without error commits all queued operations and empties the queue, or reports an error and
  leaves the database as it was.\<close>

locale txn_writer =
  fixes NK NR NB :: "bytes \<Rightarrow> bool" and dview :: "'d \<Rightarrow> dbview" and view :: "'t \<Rightarrow> dbview"
    and flush :: "'d \<times> 't TxnQueue \<Rightarrow> ('d \<times> 't TxnQueue) \<times> error option"
  assumes flush_commits:
    "\<lbrakk>flush (d, q) = ((d', q'), None); tq_err q = None; stores NK NR NB (dview d) (tq_namespace q) u;
      list_all2 (qrefines NK NR NB view (tq_namespace q)) (tq_opsQueue q) sops\<rbrakk>
      \<Longrightarrow> stores NK NR NB (dview d') (tq_namespace q) (fold apply_sop sops u)
        \<and> (\<forall>n. n \<noteq> tq_namespace q \<longrightarrow> dview d' n = dview d n)
        \<and> tq_opsQueue q' = [] \<and> tq_err q' = None \<and> tq_namespace q' = tq_namespace q \<and> tq_maxBatchSize q' = tq_maxBatchSize q"
    and flush_fails: "flush (d, q) = ((d', q'), Some e) \<Longrightarrow> d' = d \<and> tq_namespace q' = tq_namespace q"
begin

text \<open>The store holds the operations \<open>executed\<close>, and the queue those that follow.\<close>

lemma enqueue_ok:
  assumes "tq_enqueue flush force ops (d, q) = ((d', q'), e)" "tq_err q = None"
    and "stores_over NK NR NB v0 (dview d) (tq_namespace q) (fold apply_sop executed u)"
    and "list_all2 (qrefines NK NR NB view (tq_namespace q)) (tq_opsQueue q) pending"
    and "list_all2 (qrefines NK NR NB view (tq_namespace q)) ops sops"
  shows "tq_namespace q' = tq_namespace q \<and> (\<exists>ex pe. ex @ pe = executed @ pending @ sops
    \<and> stores_over NK NR NB v0 (dview d') (tq_namespace q) (fold apply_sop ex u)
    \<and> (e = None \<longrightarrow> tq_err q' = None \<and> list_all2 (qrefines NK NR NB view (tq_namespace q)) (tq_opsQueue q') pe))"
proof -
  let ?q = "q\<lparr>tq_opsQueue := tq_opsQueue q @ ops\<rparr>"
  let ?P = "\<lambda>ex pe. ex @ pe = executed @ pending @ sops
    \<and> stores_over NK NR NB v0 (dview d') (tq_namespace q) (fold apply_sop ex u)
    \<and> (e = None \<longrightarrow> tq_err q' = None \<and> list_all2 (qrefines NK NR NB view (tq_namespace q)) (tq_opsQueue q') pe)"
  have all: "list_all2 (qrefines NK NR NB view (tq_namespace q)) (tq_opsQueue ?q) (pending @ sops)"
    using assms(4,5) by (simp add: list_all2_appendI)
  show ?thesis
  proof (cases "force \<or> length (tq_opsQueue ?q) \<ge> tq_maxBatchSize q")
    case True
    then obtain q1 where f: "flush (d, ?q) = ((d', q1), e)" "q' = q1\<lparr>tq_err := e\<rparr>"
      using assms(1) by (auto simp: tq_enqueue_def Let_def split: prod.splits)
    show ?thesis
    proof (cases e)
      case None
      have "stores_over NK NR NB v0 (dview d') (tq_namespace q) (fold apply_sop (pending @ sops) (fold apply_sop executed u))
          \<and> tq_opsQueue q1 = [] \<and> tq_namespace q1 = tq_namespace q"
        using flush_commits [OF f(1) [unfolded None], of "fold apply_sop executed u" "pending @ sops"] assms(2,3) all by (auto simp: stores_over_def)
      then have "?P (executed @ pending @ sops) []" "tq_namespace q' = tq_namespace q" using f(2) None by simp_all
      then show ?thesis by blast
    next
      case (Some err)
      then have "d' = d \<and> tq_namespace q1 = tq_namespace ?q" using f(1) flush_fails by blast
      then have "?P executed (pending @ sops)" "tq_namespace q' = tq_namespace q" using f(2) Some assms(3) by simp_all
      then show ?thesis by blast
    qed
  next
    case False
    then have "d' = d" "q' = ?q" "e = None" using assms(1,2) by (auto simp: tq_enqueue_def Let_def split: if_splits)
    then have "?P executed (pending @ sops)" "tq_namespace q' = tq_namespace q" using assms(2,3) all by simp_all
    then show ?thesis by blast
  qed
qed

text \<open>A method puts closures for its operations on the queue or refuses its arguments.\<close>

definition queues :: "(storeCall \<Rightarrow> 'd \<times> 't TxnQueue \<Rightarrow> ('d \<times> 't TxnQueue) \<times> error option) \<Rightarrow> string \<Rightarrow> storeCall \<Rightarrow> bool" where
  "queues call ns c \<longleftrightarrow> (\<forall>d q. tq_err q = None \<longrightarrow> tq_namespace q = ns \<longrightarrow>
     (\<exists>force ops. call c (d, q) = tq_enqueue flush force ops (d, q) \<and> list_all2 (qrefines NK NR NB view ns) ops (call_sops c))
     \<or> (\<exists>q' e. call c (d, q) = ((d, q'), Some e) \<and> tq_namespace q' = ns))"

lemma runCalls_ok:
  assumes "runCalls call cs (d, q) = ((d', q'), e)" "\<forall>c \<in> set cs. queues call ns c" "tq_err q = None" "tq_namespace q = ns"
    and "stores_over NK NR NB v0 (dview d) ns (fold apply_sop executed u)" "list_all2 (qrefines NK NR NB view ns) (tq_opsQueue q) pending"
  shows "tq_namespace q' = ns \<and> (\<exists>ex pe. ex @ pe = executed @ pending @ concat (map call_sops cs)
    \<and> stores_over NK NR NB v0 (dview d') ns (fold apply_sop ex u)
    \<and> (e = None \<longrightarrow> tq_err q' = None \<and> list_all2 (qrefines NK NR NB view ns) (tq_opsQueue q') pe))"
  using assms
proof (induction cs arbitrary: d q executed pending)
  case Nil
  then show ?case by auto
next
  case (Cons c cs)
  obtain d1 q1 e1 where c1: "call c (d, q) = ((d1, q1), e1)" by (metis prod.exhaust)
  let ?P = "\<lambda>ex pe. ex @ pe = executed @ pending @ call_sops c \<and> stores_over NK NR NB v0 (dview d1) ns (fold apply_sop ex u)
      \<and> (e1 = None \<longrightarrow> tq_err q1 = None \<and> list_all2 (qrefines NK NR NB view ns) (tq_opsQueue q1) pe)"
  have step: "tq_namespace q1 = ns \<and> (\<exists>ex pe. ?P ex pe)"
  proof -
    have "queues call ns c" using Cons.prems(2) by simp
    then consider force ops where "call c (d, q) = tq_enqueue flush force ops (d, q)" "list_all2 (qrefines NK NR NB view ns) ops (call_sops c)"
      | q' e where "call c (d, q) = ((d, q'), Some e)" "tq_namespace q' = ns"
      using Cons.prems(3,4) unfolding queues_def by blast
    then show ?thesis
    proof cases
      case 1
      then show ?thesis using enqueue_ok [of force ops d q d1 q1 e1 v0 executed u pending "call_sops c"] c1 Cons.prems(3-6) by simp
    next
      case 2
      then have "?P executed (pending @ call_sops c)" using c1 Cons.prems(5) by simp
      then show ?thesis using 2 c1 by auto
    qed
  qed
  then obtain ex pe where expe: "?P ex pe" by blast
  show ?case
  proof (cases e1)
    case None
    then have "runCalls call cs (d1, q1) = ((d', q'), e)" using Cons.prems(1) c1 by simp
    from Cons.IH [OF this _ _ _ _, of ex pe] expe None step Cons.prems(2) obtain ex' pe' where
      "tq_namespace q' = ns" "ex' @ pe' = ex @ pe @ concat (map call_sops cs)" "stores_over NK NR NB v0 (dview d') ns (fold apply_sop ex' u)"
      "e = None \<longrightarrow> tq_err q' = None \<and> list_all2 (qrefines NK NR NB view ns) (tq_opsQueue q') pe'" by auto
    moreover have "ex @ pe @ concat (map call_sops cs) = executed @ pending @ concat (map call_sops (c # cs))" using expe by simp
    ultimately show ?thesis by metis
  next
    case (Some err)
    then have "d' = d1" "q' = q1" "e = Some err" using Cons.prems(1) c1 by auto
    then show ?thesis using step expe Some
      by (intro conjI exI [of _ ex] exI [of _ "pe @ concat (map call_sops cs)"]) auto
  qed
qed

text \<open>All calls and the final flush return no error: the store is the result of all operations in order.\<close>

lemma runCalls_commit:
  assumes "runCalls call cs (d, NewTxnQueue ns n) = ((d1, q1), None)" "flush (d1, q1) = ((d2, q2), None)"
    and "\<forall>c \<in> set cs. queues call ns c" "stores NK NR NB (dview d) ns u"
  shows "stores_over NK NR NB (dview d) (dview d2) ns (fold apply_sop (concat (map call_sops cs)) u)"
proof -
  have "tq_namespace q1 = ns \<and> (\<exists>ex pe. ex @ pe = [] @ [] @ concat (map call_sops cs) \<and> stores_over NK NR NB (dview d) (dview d1) ns (fold apply_sop ex u)
      \<and> (None = (None :: error option) \<longrightarrow> tq_err q1 = None \<and> list_all2 (qrefines NK NR NB view ns) (tq_opsQueue q1) pe))"
    using assms by (intro runCalls_ok [OF assms(1,3)]) (simp_all add: NewTxnQueue_def stores_over_def)
  then obtain ex pe where e: "tq_namespace q1 = ns" "ex @ pe = concat (map call_sops cs)" "stores_over NK NR NB (dview d) (dview d1) ns (fold apply_sop ex u)"
      "tq_err q1 = None" "list_all2 (qrefines NK NR NB view ns) (tq_opsQueue q1) pe" by auto
  have "stores_over NK NR NB (dview d) (dview d2) ns (fold apply_sop pe (fold apply_sop ex u))"
    using flush_commits [OF assms(2) e(4), of "fold apply_sop ex u" pe] e(1,3,5) by (simp add: stores_over_def)
  then show ?thesis by (simp flip: e(2))
qed

text \<open>At any time the store holds a prefix of the operations.\<close>

lemma runCalls_prefix:
  assumes "runCalls call cs (d, NewTxnQueue ns n) = ((d1, q1), e)"
    and "\<forall>c \<in> set cs. queues call ns c" "stores NK NR NB (dview d) ns u"
  shows "\<exists>k. stores_over NK NR NB (dview d) (dview d1) ns (fold apply_sop (take k (concat (map call_sops cs))) u)"
proof -
  have "tq_namespace q1 = ns \<and> (\<exists>ex pe. ex @ pe = [] @ [] @ concat (map call_sops cs) \<and> stores_over NK NR NB (dview d) (dview d1) ns (fold apply_sop ex u)
      \<and> (e = None \<longrightarrow> tq_err q1 = None \<and> list_all2 (qrefines NK NR NB view ns) (tq_opsQueue q1) pe))"
    using assms by (intro runCalls_ok [OF assms(1,2)]) (simp_all add: NewTxnQueue_def stores_over_def)
  then obtain ex pe where e: "ex @ pe = concat (map call_sops cs)" "stores_over NK NR NB (dview d) (dview d1) ns (fold apply_sop ex u)" by auto
  then show ?thesis by (intro exI [of _ "length ex"]) (simp flip: e(1))
qed

end

end
