(* ===== verification/BoltQueue.thy ===== *)
theory BoltQueue
  imports BoltStore TxnQueue
begin

text \<open>
  \<open>BoltTxnQueue\<close> in \<open>pkg/kvdrivers/bolt_txn_queue.go\<close>: the closures its methods queue, \<open>flushBatch\<close> and \<open>Commit\<close>. The
  interpretation shows that its flush keeps the contract of \<open>txn_writer\<close>.
\<close>

section \<open>The closures\<close>

definition bq_put :: "('d, 't) bolt_api \<Rightarrow> string \<Rightarrow> bytes list \<Rightarrow> nat \<Rightarrow> bytes \<Rightarrow> 't qop" where
  "bq_put api ns values i key c txn =
    (if i < length values then
       (case api_Put api ns (KeyKV key) (values ! i) txn of Inl e \<Rightarrow> (c, Inl e)
        | Inr txn' \<Rightarrow> (c\<lparr>putOps := putOps c + 1, entriesModified := entriesModified c + 1\<rparr>, Inr txn'))
     else (c, Inl Panic))"

definition bq_delete :: "('d, 't) bolt_api \<Rightarrow> string \<Rightarrow> bytes \<Rightarrow> 't qop" where
  "bq_delete api ns key c txn =
    (case api_Get api ns (KeyKV key) txn of None \<Rightarrow> (c, Inr txn) | Some _ \<Rightarrow> (c, api_Delete api ns (KeyKV key) txn))"

text \<open>The metadata is written before the chunks, unlike in \<open>BoltDBEmbed.SetLobChunks\<close>.\<close>

definition bq_setLob :: "('d, 't) bolt_api \<Rightarrow> string \<Rightarrow> bytes \<Rightarrow> bytes list \<Rightarrow> u32 \<Rightarrow> 't qop" where
  "bq_setLob api ns key chunks checksum c txn =
    (c, andThen (bolt_clearChunks api ns key txn) (\<lambda>txn.
        andThen (api_Put api ns (KeyBlobChunk key 0) (lob_meta (length chunks) checksum) txn)
          (forEach (\<lambda>(i, chunk). api_Put api ns (KeyBlobChunk key i) chunk) (enumerate 1 chunks))))"

definition bq_deleteLob :: "('d, 't) bolt_api \<Rightarrow> string \<Rightarrow> bytes \<Rightarrow> 't qop" where
  "bq_deleteLob api ns key c txn =
    (case api_Get api ns (KeyBlobChunk key 0) txn of None \<Rightarrow> (c, Inr txn)
     | Some storedValue \<Rightarrow>
       if length storedValue \<noteq> 9 then (c, Inl ErrInvalidChunkMetadata)
       else (c, andThen (forEach (\<lambda>i. api_Delete api ns (KeyBlobChunk key i)) [1..<Suc (chunkCountOf storedValue)] txn)
         (api_Delete api ns (KeyBlobChunk key 0))))"

fun bq_putCells :: "('d, 't) bolt_api \<Rightarrow> string \<Rightarrow> bytes \<Rightarrow> (bytes \<times> bytes) list \<Rightarrow> 't qop" where
  "bq_putCells api ns rowKey [] c txn = (c, Inr txn)"
| "bq_putCells api ns rowKey ((key, value) # rest) c txn =
    (let c = c\<lparr>entriesModified := entriesModified c + 1\<rparr> in
     case api_Put api ns (KeyColumn rowKey key) value txn of Inl e \<Rightarrow> (c, Inl e)
     | Inr txn' \<Rightarrow> bq_putCells api ns rowKey rest c txn')"

definition bq_setCells :: "('d, 't) bolt_api \<Rightarrow> string \<Rightarrow> bytes \<Rightarrow> (bytes \<times> bytes) list \<Rightarrow> 't qop" where
  "bq_setCells api ns rowKey columnEntries c txn =
    (if columnEntries = [] then (c, Inr txn)
     else bq_putCells api ns rowKey columnEntries (c\<lparr>putOps := putOps c + 1\<rparr>) txn)"

fun bq_delKeys :: "('d, 't) bolt_api \<Rightarrow> string \<Rightarrow> bytes list \<Rightarrow> 't qop" where
  "bq_delKeys api ns [] c txn = (c, Inr txn)"
| "bq_delKeys api ns (k # ks) c txn =
    (let c = c\<lparr>entriesModified := entriesModified c + 1\<rparr> in
     case api_Delete api ns k txn of Inl e \<Rightarrow> (c, Inl e) | Inr txn' \<Rightarrow> bq_delKeys api ns ks c txn')"

definition bq_deleteCells :: "('d, 't) bolt_api \<Rightarrow> string \<Rightarrow> bytes \<Rightarrow> (bytes \<times> bytes) list \<Rightarrow> 't qop" where
  "bq_deleteCells api ns rowKey columnEntries c txn =
    (if columnEntries = [] then (c, Inr txn)
     else bq_delKeys api ns (map (\<lambda>(key, _). KeyColumn rowKey key) columnEntries) (c\<lparr>deleteOps := deleteOps c + 1\<rparr>) txn)"

definition bq_deleteRow :: "('d, 't) bolt_api \<Rightarrow> string \<Rightarrow> bytes \<Rightarrow> 't qop" where
  "bq_deleteRow api ns rowKey c txn =
    bq_delKeys api ns (bolt_rowKeysOf api ns (RowKey rowKey) txn) (c\<lparr>deleteOps := deleteOps c + 1\<rparr>) txn"

section \<open>Flushing\<close>

text \<open>When the bucket is missing, the transaction that has been begun is neither committed nor rolled back. After
  \<open>Commit\<close> of the transaction the queue is emptied, even when it failed.\<close>

definition bq_flushBatch :: "('d, 't) bolt_api \<Rightarrow> 'd \<times> 't TxnQueue \<Rightarrow> ('d \<times> 't TxnQueue) \<times> error option" where
  "bq_flushBatch api s =
    (case s of (d, q) \<Rightarrow>
       if tq_err q \<noteq> None \<or> tq_opsQueue q = [] then ((d, q), tq_err q)
       else case api_Begin api d of Inl e \<Rightarrow> ((d, q), Some e)
       | Inr txn \<Rightarrow>
         if \<not> api_Bucket api (tq_namespace q) txn then ((d, q), Some ErrBucketNotFound)
         else case runOps (tq_opsQueue q) (tq_counters q) txn of
           (c, Inl e) \<Rightarrow> ((d, q\<lparr>tq_counters := c, tq_err := Some e\<rparr>), Some e)
         | (c, Inr txn') \<Rightarrow>
           case api_Commit api txn' d of Inl e \<Rightarrow> ((d, tq_reset c q), Some e)
           | Inr d' \<Rightarrow> ((d', tq_reset c q), None))"

definition bq_Commit :: "('d, 't) bolt_api \<Rightarrow> 'd \<times> 't TxnQueue \<Rightarrow> ('d \<times> 't TxnQueue) \<times> error option" where
  "bq_Commit api s = (if tq_err (snd s) \<noteq> None then (s, tq_err (snd s)) else bq_flushBatch api s)"

definition bq_Stats :: "'t TxnQueue \<Rightarrow> TxnStats" where
  "bq_Stats q = tq_stats q"

section \<open>The methods\<close>

definition bq_BatchPutKV ::
  "('d, 't) bolt_api \<Rightarrow> bytes list \<Rightarrow> bytes list \<Rightarrow> 'd \<times> 't TxnQueue \<Rightarrow> ('d \<times> 't TxnQueue) \<times> error option" where
  "bq_BatchPutKV api keys values s =
    (if tq_err (snd s) \<noteq> None then (s, tq_err (snd s))
     else tq_enqueue (bq_flushBatch api) False
       (map (\<lambda>(i, key). bq_put api (tq_namespace (snd s)) values i key) (enumerate 0 keys)) s)"

definition bq_BatchDeleteKV ::
  "('d, 't) bolt_api \<Rightarrow> bytes list \<Rightarrow> 'd \<times> 't TxnQueue \<Rightarrow> ('d \<times> 't TxnQueue) \<times> error option" where
  "bq_BatchDeleteKV api keys s =
    (if tq_err (snd s) \<noteq> None then (s, tq_err (snd s))
     else tq_enqueue (bq_flushBatch api) False (map (bq_delete api (tq_namespace (snd s))) keys) s)"

definition bq_SetLobChunks ::
  "('d, 't) bolt_api \<Rightarrow> bytes \<Rightarrow> bytes list \<Rightarrow> u32 \<Rightarrow> 'd \<times> 't TxnQueue \<Rightarrow> ('d \<times> 't TxnQueue) \<times> error option" where
  "bq_SetLobChunks api key chunks checksum s =
    (if tq_err (snd s) \<noteq> None then (s, tq_err (snd s))
     else tq_enqueue (bq_flushBatch api) False [bq_setLob api (tq_namespace (snd s)) key chunks checksum] s)"

definition bq_BatchDeleteLobChunks ::
  "('d, 't) bolt_api \<Rightarrow> bytes list \<Rightarrow> 'd \<times> 't TxnQueue \<Rightarrow> ('d \<times> 't TxnQueue) \<times> error option" where
  "bq_BatchDeleteLobChunks api keys s =
    (if tq_err (snd s) \<noteq> None then (s, tq_err (snd s))
     else tq_enqueue (bq_flushBatch api) False (map (bq_deleteLob api (tq_namespace (snd s))) keys) s)"

definition bq_BatchSetCells ::
  "('d, 't) bolt_api \<Rightarrow> bytes list \<Rightarrow> (bytes \<times> bytes) list list \<Rightarrow> 'd \<times> 't TxnQueue \<Rightarrow> ('d \<times> 't TxnQueue) \<times> error option" where
  "bq_BatchSetCells api rowKeys columnEntriesPerRow s =
    (if tq_err (snd s) \<noteq> None then (s, tq_err (snd s))
     else if length rowKeys \<noteq> length columnEntriesPerRow
       then ((fst s, (snd s)\<lparr>tq_err := Some ErrInvalidArguments\<rparr>), Some ErrInvalidArguments)
     else tq_enqueue (bq_flushBatch api) False
       (map (\<lambda>(rowKey, es). bq_setCells api (tq_namespace (snd s)) rowKey es) (zip rowKeys columnEntriesPerRow)) s)"

definition bq_BatchDeleteCells ::
  "('d, 't) bolt_api \<Rightarrow> bytes list \<Rightarrow> (bytes \<times> bytes) list list \<Rightarrow> 'd \<times> 't TxnQueue \<Rightarrow> ('d \<times> 't TxnQueue) \<times> error option" where
  "bq_BatchDeleteCells api rowKeys columnEntriesPerRow s =
    (if tq_err (snd s) \<noteq> None then (s, tq_err (snd s))
     else if length rowKeys \<noteq> length columnEntriesPerRow
       then ((fst s, (snd s)\<lparr>tq_err := Some ErrInvalidArguments\<rparr>), Some ErrInvalidArguments)
     else tq_enqueue (bq_flushBatch api) False
       (map (\<lambda>(rowKey, es). bq_deleteCells api (tq_namespace (snd s)) rowKey es) (zip rowKeys columnEntriesPerRow)) s)"

definition bq_BatchDeleteRows ::
  "('d, 't) bolt_api \<Rightarrow> bytes list \<Rightarrow> 'd \<times> 't TxnQueue \<Rightarrow> ('d \<times> 't TxnQueue) \<times> error option" where
  "bq_BatchDeleteRows api rowKeys s =
    (if tq_err (snd s) \<noteq> None then (s, tq_err (snd s))
     else tq_enqueue (bq_flushBatch api) False (map (bq_deleteRow api (tq_namespace (snd s))) rowKeys) s)"

text \<open>The calls of \<open>txnWriter\<close>; a single key is a batch of one.\<close>

definition bq_call :: "('d, 't) bolt_api \<Rightarrow> storeCall \<Rightarrow> 'd \<times> 't TxnQueue \<Rightarrow> ('d \<times> 't TxnQueue) \<times> error option" where
  "bq_call api c s = (case c of
     CSetKV k v \<Rightarrow> bq_BatchPutKV api [k] [v] s
   | CBatchSetKV ks vs \<Rightarrow> bq_BatchPutKV api ks vs s
   | CSetLobChunks k cs checksum \<Rightarrow> bq_SetLobChunks api k cs checksum s
   | CBatchSetCells rs ess \<Rightarrow> bq_BatchSetCells api rs ess s
   | CBatchDeleteCells rs ess \<Rightarrow> bq_BatchDeleteCells api rs ess s
   | CBatchDeleteRows rs \<Rightarrow> bq_BatchDeleteRows api rs s
   | CDeleteKV k \<Rightarrow> bq_BatchDeleteKV api [k] s
   | CBatchDeleteKV ks \<Rightarrow> bq_BatchDeleteKV api ks s
   | CBatchDeleteLobChunks ks \<Rightarrow> bq_BatchDeleteLobChunks api ks s)"

section \<open>Correctness\<close>

lemma bq_putCells_forEach:
  "snd (bq_putCells api ns r es c t) = forEach (\<lambda>(k, v). api_Put api ns (KeyColumn r k) v) es t"
  by (induction api ns r es c t rule: bq_putCells.induct) (auto simp: Let_def split: sum.splits)

lemma bq_delKeys_forEach: "snd (bq_delKeys api ns ks c t) = forEach (api_Delete api ns) ks t"
  by (induction api ns ks c t rule: bq_delKeys.induct) (auto simp: Let_def split: sum.splits)

text \<open>The closures a call queues, and the calls that are refused.\<close>

definition bq_ops :: "('d, 't) bolt_api \<Rightarrow> string \<Rightarrow> storeCall \<Rightarrow> 't qop list" where
  "bq_ops api ns c = (case c of
     CSetKV k v \<Rightarrow> map (\<lambda>(i, key). bq_put api ns [v] i key) (enumerate 0 [k])
   | CBatchSetKV ks vs \<Rightarrow> map (\<lambda>(i, key). bq_put api ns vs i key) (enumerate 0 ks)
   | CSetLobChunks k cs s \<Rightarrow> [bq_setLob api ns k cs s]
   | CBatchSetCells rs ess \<Rightarrow> map (\<lambda>(r, es). bq_setCells api ns r es) (zip rs ess)
   | CBatchDeleteCells rs ess \<Rightarrow> map (\<lambda>(r, es). bq_deleteCells api ns r es) (zip rs ess)
   | CBatchDeleteRows rs \<Rightarrow> map (bq_deleteRow api ns) rs
   | CDeleteKV k \<Rightarrow> [bq_delete api ns k]
   | CBatchDeleteKV ks \<Rightarrow> map (bq_delete api ns) ks
   | CBatchDeleteLobChunks ks \<Rightarrow> map (bq_deleteLob api ns) ks)"

definition bq_refuses :: "storeCall \<Rightarrow> bool" where
  "bq_refuses c = (case c of CBatchSetCells rs ess \<Rightarrow> length rs \<noteq> length ess | CBatchDeleteCells rs ess \<Rightarrow> length rs \<noteq> length ess | _ \<Rightarrow> False)"

lemma bq_call_eq:
  "tq_err q = None \<Longrightarrow> bq_call api c (d, q) = (if bq_refuses c then ((d, q\<lparr>tq_err := Some ErrInvalidArguments\<rparr>), Some ErrInvalidArguments)
     else tq_enqueue (bq_flushBatch api) False (bq_ops api (tq_namespace q) c) (d, q))"
  by (cases c) (simp_all add: bq_call_def bq_refuses_def bq_ops_def bq_BatchPutKV_def bq_BatchDeleteKV_def bq_SetLobChunks_def
      bq_BatchDeleteLobChunks_def bq_BatchSetCells_def bq_BatchDeleteCells_def bq_BatchDeleteRows_def)

context bolt_store
begin

lemma bq_flush_writer: "txn_writer NK NR NB dview view (bq_flushBatch api)"
proof
  fix d d' :: 'd and q q' :: "'t TxnQueue" and u sops
  assume f: "bq_flushBatch api (d, q) = ((d', q'), None)" and q: "tq_err q = None" "stores NK NR NB (dview d) (tq_namespace q) u"
    and ops: "list_all2 (qrefines NK NR NB view (tq_namespace q)) (tq_opsQueue q) sops"
  show "stores NK NR NB (dview d') (tq_namespace q) (fold apply_sop sops u)
        \<and> (\<forall>n. n \<noteq> tq_namespace q \<longrightarrow> dview d' n = dview d n)
        \<and> tq_opsQueue q' = [] \<and> tq_err q' = None \<and> tq_namespace q' = tq_namespace q \<and> tq_maxBatchSize q' = tq_maxBatchSize q"
  proof (cases "tq_opsQueue q = []")
    case True
    then show ?thesis using f q ops by (auto simp: bq_flushBatch_def)
  next
    case False
    then obtain t t' c where t: "api_Begin api d = Inr t" "runOps (tq_opsQueue q) (tq_counters q) t = (c, Inr t')"
        "api_Commit api t' d = Inr d'" "q' = tq_reset c q"
      using f q(1) by (auto simp: bq_flushBatch_def split: sum.splits prod.splits if_splits)
    have "Update api (\<lambda>t. snd (runOps (tq_opsQueue q) (tq_counters q) t)) d = (d', None)"
      using t by (simp add: Update_def UpdateWith_def)
    from refines_Update [OF q(2) this refines_runOps [OF ops]] t(4) q(1) show ?thesis by (simp add: tq_reset_def)
  qed
next
  fix d d' :: 'd and q q' :: "'t TxnQueue" and e
  assume "bq_flushBatch api (d, q) = ((d', q'), Some e)"
  then show "d' = d \<and> tq_namespace q' = tq_namespace q"
    by (auto simp: bq_flushBatch_def tq_reset_def split: sum.splits prod.splits if_splits)
qed

lemma q_put_nth: "NK k \<Longrightarrow> i < length vs \<Longrightarrow> qrefines NK NR NB view ns (bq_put api ns vs i k) (PutKV k (vs ! i))"
  unfolding qrefines_def bq_put_def using refines_Put [of k ns "vs ! i"] unfolding refines_def by (auto split: sum.splits)

lemma q_delete: "NK k \<Longrightarrow> qrefines NK NR NB view ns (bq_delete api ns k) (DelKV k)"
proof -
  assume "NK k"
  moreover have "snd (bq_delete api ns k c t) = bolt_deleteIfStored api ns k t" for c t
    by (simp add: bq_delete_def bolt_deleteIfStored_def split: option.splits)
  ultimately show ?thesis using refines_DelKV by (simp add: qrefines_def)
qed

lemma q_setLob:
  assumes "NB key" "length chunks < 2 ^ 32"
  shows "qrefines NK NR NB view ns (bq_setLob api ns key chunks s) (SetLob key chunks s)"
  unfolding qrefines_def
proof (intro allI refines_moves)
  fix c t m u assume v: "view t ns = Some m" "rep NK NR NB m u"
  let ?m1 = "del_all (chunk_keys key (old_count key m)) m"
  let ?m2 = "?m1(KeyBlobChunk key 0 \<mapsto> lob_meta (length chunks) s)"
  have mv: "moves view ns t (snd (bq_setLob api ns key chunks s c t)) (put_all (chunk_entries key chunks) ?m2)"
    unfolding bq_setLob_def snd_conv
    by (rule moves_andThen [OF moves_clearChunks [OF v assms(1)]], rule moves_andThen [OF moves_Put], assumption, rule moves_putChunks, assumption)
  have "KeyBlobChunk key 0 \<notin> fst ` set (chunk_entries key chunks)"
    unfolding fst_chunk_entries_set
  proof
    assume "KeyBlobChunk key 0 \<in> KeyBlobChunk key ` {1..length chunks}"
    then obtain j where "1 \<le> j" "j \<le> length chunks" "KeyBlobChunk key 0 = KeyBlobChunk key j" by auto
    with blob_inj [OF assms(1,1), of 0 j] assms(2) show False by simp
  qed
  then have "put_all (chunk_entries key chunks) ?m2 = set_lob key (old_count key m) chunks s m"
    unfolding set_lob_def by (rule put_all_upd)
  then show "\<exists>m'. moves view ns t (snd (bq_setLob api ns key chunks s c t)) m' \<and> rep NK NR NB m' (fold apply_sop [SetLob key chunks s] u)"
    using mv rep_set_lob [OF v(2) assms] by auto
qed

lemma q_deleteLob: "NB key \<Longrightarrow> qrefines NK NR NB view ns (bq_deleteLob api ns key) (DelLob key)"
proof -
  assume k: "NB key"
  have "snd (bq_deleteLob api ns key c t) = bolt_deleteLob api ns key t" if "view t ns = Some m" "rep NK NR NB m u" for c t m u
    using rep_meta [OF that(2) k] get [OF that(1)] by (auto simp: bq_deleteLob_def bolt_deleteLob_def split: option.splits)
  then show ?thesis using refines_DelLob [OF k, of ns] unfolding qrefines_def refines_def by metis
qed

lemma q_setCells: "NR r \<Longrightarrow> qrefines NK NR NB view ns (bq_setCells api ns r es) (SetCells r es)"
proof -
  assume "NR r"
  moreover have "snd (bq_setCells api ns r es c t) = forEach (\<lambda>(k, v). api_Put api ns (KeyColumn r k) v) es t" for c t
    by (simp add: bq_setCells_def bq_putCells_forEach)
  ultimately show ?thesis using refines_SetCells by (simp add: qrefines_def)
qed

lemma q_deleteCells: "NR r \<Longrightarrow> qrefines NK NR NB view ns (bq_deleteCells api ns r es) (DelCells r (map fst es))"
proof -
  assume "NR r"
  moreover have "snd (bq_deleteCells api ns r es c t) = forEach (\<lambda>(k, _). api_Delete api ns (KeyColumn r k)) es t" for c t
    by (simp add: bq_deleteCells_def bq_delKeys_forEach forEach_map case_prod_unfold)
  ultimately show ?thesis using refines_DelCells by (simp add: qrefines_def)
qed

lemma q_deleteRow: "NR r \<Longrightarrow> qrefines NK NR NB view ns (bq_deleteRow api ns r) (DelRow r)"
  using refines_DelRow by (simp add: qrefines_def bq_deleteRow_def bq_delKeys_forEach)

lemma q_puts:
  assumes "list_all (sop_ok NK NR NB) (map (\<lambda>(k, v). PutKV k v) (zip ks vs))" "length ks = length vs"
  shows "list_all2 (qrefines NK NR NB view ns) (map (\<lambda>(i, key). bq_put api ns vs i key) (enumerate 0 ks)) (map (\<lambda>(k, v). PutKV k v) (zip ks vs))"
proof (rule list_all2_all_nthI)
  fix n assume "n < length (map (\<lambda>(i, key). bq_put api ns vs i key) (enumerate 0 ks))"
  then have n: "n < length ks" by simp
  have "NK (ks ! n)" using assms n by (simp add: list_all_length)
  then show "qrefines NK NR NB view ns (map (\<lambda>(i, key). bq_put api ns vs i key) (enumerate 0 ks) ! n) (map (\<lambda>(k, v). PutKV k v) (zip ks vs) ! n)"
    using q_put_nth [of "ks ! n" n vs ns] n assms(2) by (simp add: nth_enumerate_eq)
qed (use assms(2) in simp)

lemma q_map:
  "(\<And>x. x \<in> set xs \<Longrightarrow> qrefines NK NR NB view ns (f x) (g x)) \<Longrightarrow> list_all2 (qrefines NK NR NB view ns) (map f xs) (map g xs)"
  by (simp add: list_all2_map1 list_all2_map2 list_all2_same)

lemma bq_ops_refine:
  assumes "call_ok NK NR NB c" "paired c"
  shows "list_all2 (qrefines NK NR NB view ns) (bq_ops api ns c) (call_sops c)"
proof -
  note ok = assms(1) [unfolded call_ok_def]
  show ?thesis
  proof (cases c)
    case (CSetKV k v)
    then show ?thesis using q_puts [of "[k]" "[v]" ns] ok by (simp add: bq_ops_def)
  next
    case (CBatchSetKV ks vs)
    then have "length ks = length vs" using assms(2) by (auto simp: paired_def)
    then show ?thesis using q_puts [of ks vs ns] ok CBatchSetKV by (simp add: bq_ops_def)
  next
    case (CSetLobChunks k cs s)
    then show ?thesis using q_setLob ok by (simp add: bq_ops_def)
  next
    case (CBatchSetCells rs ess)
    show ?thesis
      unfolding CBatchSetCells call_sops.simps bq_ops_def storeCall.case
      by (rule q_map) (use ok CBatchSetCells in \<open>fastforce simp: list_all_iff intro: q_setCells\<close>)
  next
    case (CBatchDeleteCells rs ess)
    show ?thesis
      unfolding CBatchDeleteCells call_sops.simps bq_ops_def storeCall.case
      by (rule q_map) (use ok CBatchDeleteCells in \<open>fastforce simp: list_all_iff intro: q_deleteCells\<close>)
  qed (use ok in \<open>auto simp: bq_ops_def list_all_iff list_all2_map1 list_all2_map2 list_all2_same intro: q_deleteRow q_delete q_deleteLob\<close>)
qed

lemma bq_queues:
  assumes "call_ok NK NR NB c" "paired c"
  shows "txn_writer.queues NK NR NB view (bq_flushBatch api) (bq_call api) ns c"
  unfolding txn_writer.queues_def [OF bq_flush_writer]
proof (intro allI impI)
  fix d and q :: "'t TxnQueue" assume q: "tq_err q = None" "tq_namespace q = ns"
  show "(\<exists>force ops. bq_call api c (d, q) = tq_enqueue (bq_flushBatch api) force ops (d, q) \<and> list_all2 (qrefines NK NR NB view ns) ops (call_sops c))
     \<or> (\<exists>q' e. bq_call api c (d, q) = ((d, q'), Some e) \<and> tq_namespace q' = ns)"
    using bq_call_eq [OF q(1), of api c d] bq_ops_refine [OF assms, of ns] q by (cases "bq_refuses c") auto
qed

text \<open>A sequence of calls and a final \<open>Commit\<close> without errors.\<close>

lemma bq_commits:
  assumes "runCalls (bq_call api) cs (d, NewTxnQueue ns n) = (s1, None)" "bq_Commit api s1 = ((d2, q2), None)"
    and "\<forall>c \<in> set cs. call_ok NK NR NB c \<and> paired c" "stores NK NR NB (dview d) ns u"
  shows "stores_over NK NR NB (dview d) (dview d2) ns (fold apply_sop (concat (map call_sops cs)) u)"
proof -
  obtain d1 q1 where s1: "s1 = (d1, q1)" by (cases s1)
  have "tq_err q1 = None" using assms(2) s1 by (auto simp: bq_Commit_def split: if_splits)
  then have "bq_flushBatch api (d1, q1) = ((d2, q2), None)" using assms(2) s1 by (simp add: bq_Commit_def)
  with txn_writer.runCalls_commit [OF bq_flush_writer] assms(1,3,4) bq_queues s1 show ?thesis by blast
qed

text \<open>Whatever fails, the store is the result of a prefix of the operations.\<close>

lemma bq_prefix:
  assumes "runCalls (bq_call api) cs (d, NewTxnQueue ns n) = ((d1, q1), e)"
    and "\<forall>c \<in> set cs. call_ok NK NR NB c \<and> paired c" "stores NK NR NB (dview d) ns u"
  shows "\<exists>k. stores_over NK NR NB (dview d) (dview d1) ns (fold apply_sop (take k (concat (map call_sops cs))) u)"
  using txn_writer.runCalls_prefix [OF bq_flush_writer assms(1)] assms(2,3) bq_queues by blast

end

interpretation mboltq: txn_writer "plain KeyTypeKV" "plain KeyTypeWideColumn" "plain KeyTypeBlobChunk" mem_view mem_view "bq_flushBatch mem_bolt"
  by (rule mbolt.bq_flush_writer)

end
