(* ===== verification/LmdbStore.thy ===== *)
theory LmdbStore
  imports TxnApi
begin

text \<open>
  The LMDB driver, \<open>pkg/kvdrivers/lmdb.go\<close>, over the same abstract store as the bbolt driver. The differences that show:
  deleting a missing key is an error the driver ignores, an object without chunks is refused, a scan returns the
  bare row key as a column with an empty name, and \<open>BatchDeleteRows\<close> stops at the end of the database.
\<close>

section \<open>The driver\<close>

record 'd LmdbEmbed =
  le_env :: 'd
  le_dataDB :: string
  le_metaDB :: string

definition lmdb_Update :: "('d, 't) lmdb_api \<Rightarrow> ('t \<Rightarrow> error + 't) \<Rightarrow> 'd LmdbEmbed \<Rightarrow> 'd LmdbEmbed \<times> error option" where
  "lmdb_Update api f l = (case Update api f (le_env l) of (d, e) \<Rightarrow> (l\<lparr>le_env := d\<rparr>, e))"

text \<open>\<open>Del\<close> with a missing key ignored.\<close>

definition lmdb_del :: "('d, 't) lmdb_api \<Rightarrow> string \<Rightarrow> bytes \<Rightarrow> 't \<Rightarrow> error + 't" where
  "lmdb_del api ns k t =
    (case api_Delete api ns k t of Inl e \<Rightarrow> if e = ErrNotFound then Inr t else Inl e | Inr t' \<Rightarrow> Inr t')"

section \<open>Writing\<close>

definition lmdb_SetKV :: "('d, 't) lmdb_api \<Rightarrow> bytes \<Rightarrow> bytes \<Rightarrow> 'd LmdbEmbed \<Rightarrow> 'd LmdbEmbed \<times> error option" where
  "lmdb_SetKV api key value l = lmdb_Update api (api_Put api (le_dataDB l) (KeyKV key) value) l"

definition lmdb_BatchSetKV ::
  "('d, 't) lmdb_api \<Rightarrow> bytes list \<Rightarrow> bytes list \<Rightarrow> 'd LmdbEmbed \<Rightarrow> 'd LmdbEmbed \<times> error option" where
  "lmdb_BatchSetKV api keys values l =
    (if keys = [] \<or> values = [] \<or> length keys \<noteq> length values then (l, Some ErrInvalidArguments)
     else lmdb_Update api (forEach (\<lambda>(key, value). api_Put api (le_dataDB l) (KeyKV key) value) (zip keys values)) l)"

definition lmdb_clearChunks :: "('d, 't) lmdb_api \<Rightarrow> string \<Rightarrow> bytes \<Rightarrow> 't \<Rightarrow> error + 't" where
  "lmdb_clearChunks api ns key t =
    (case lm_Get api ns (KeyBlobChunk key 0) t of Inl _ \<Rightarrow> Inr t
     | Inr storedValue \<Rightarrow>
       if storedValue \<noteq> [] \<and> storedValue ! 0 = chunkedValue
       then if length storedValue < 9 then Inl (Wrapped ''invalid chunk metadata for key'' ErrInvalidChunkMetadata)
         else forEach (\<lambda>i. lmdb_del api ns (KeyBlobChunk key i)) [1..<Suc (chunkCountOf storedValue)] t
       else Inr t)"

definition lmdb_setLob :: "('d, 't) lmdb_api \<Rightarrow> string \<Rightarrow> bytes \<Rightarrow> bytes list \<Rightarrow> u32 \<Rightarrow> 't \<Rightarrow> error + 't" where
  "lmdb_setLob api ns key chunks checksum txn =
    andThen (lmdb_clearChunks api ns key txn) (\<lambda>txn.
    andThen (forEach (\<lambda>(i, chunk). api_Put api ns (KeyBlobChunk key i) chunk) (enumerate 1 chunks) txn) (\<lambda>txn.
    api_Put api ns (KeyBlobChunk key 0) (lob_meta (length chunks) checksum) txn))"

definition lmdb_SetLobChunks ::
  "('d, 't) lmdb_api \<Rightarrow> bytes \<Rightarrow> bytes list \<Rightarrow> u32 \<Rightarrow> 'd LmdbEmbed \<Rightarrow> 'd LmdbEmbed \<times> error option" where
  "lmdb_SetLobChunks api key chunks checksum l =
    (if chunks = [] then (l, Some (ErrMsg ''empty chunks array''))
     else lmdb_Update api (lmdb_setLob api (le_dataDB l) key chunks checksum) l)"

definition lmdb_BatchSetCells ::
  "('d, 't) lmdb_api \<Rightarrow> bytes list \<Rightarrow> (bytes \<times> bytes) list list \<Rightarrow> 'd LmdbEmbed \<Rightarrow> 'd LmdbEmbed \<times> error option" where
  "lmdb_BatchSetCells api rowKeys columnEntriesPerRow l =
    (if length rowKeys \<noteq> length columnEntriesPerRow then (l, Some ErrInvalidArguments)
     else lmdb_Update api (forEach (\<lambda>(rowKey, columnEntries) tx.
       if columnEntries = [] then Inr tx
       else forEach (\<lambda>(columnKey, columnValue). api_Put api (le_dataDB l) (KeyColumn rowKey columnKey) columnValue) columnEntries tx)
       (zip rowKeys columnEntriesPerRow)) l)"

definition lmdb_BatchDeleteCells ::
  "('d, 't) lmdb_api \<Rightarrow> bytes list \<Rightarrow> (bytes \<times> bytes) list list \<Rightarrow> 'd LmdbEmbed \<Rightarrow> 'd LmdbEmbed \<times> error option" where
  "lmdb_BatchDeleteCells api rowKeys columnEntriesPerRow l =
    (if length rowKeys \<noteq> length columnEntriesPerRow then (l, Some ErrInvalidArguments)
     else lmdb_Update api (forEach (\<lambda>(rowKey, columnEntries) tx.
       if columnEntries = [] then Inr tx
       else forEach (\<lambda>(columnKey, _). lmdb_del api (le_dataDB l) (KeyColumn rowKey columnKey)) columnEntries tx)
       (zip rowKeys columnEntriesPerRow)) l)"

text \<open>Deleting a row with a cursor: the cursor goes on behind a deleted key. The result says whether the cursor
  reached the end of the database (\<open>MDB_NOTFOUND\<close>), and \<open>n\<close> counts the deleted columns.\<close>

fun lmdb_deleteRow ::
  "('d, 't) lmdb_api \<Rightarrow> string \<Rightarrow> bytes \<Rightarrow> (bytes \<times> bytes) list \<Rightarrow> nat \<Rightarrow> 't \<Rightarrow> nat \<times> (error + bool \<times> 't)" where
  "lmdb_deleteRow api ns pKey [] n t = (n, Inr (True, t))"
| "lmdb_deleteRow api ns pKey ((k, _) # rest) n t =
    (if \<not> prefix pKey k then (n, Inr (False, t))
     else case lmdb_del api ns k t of Inl e \<Rightarrow> (n, Inl e) | Inr t' \<Rightarrow> lmdb_deleteRow api ns pKey rest (Suc n) t')"

text \<open>At the end of the database the whole transaction function returns, and the rows that are left are not
  visited.\<close>

fun lmdb_deleteRows :: "('d, 't) lmdb_api \<Rightarrow> string \<Rightarrow> bytes list \<Rightarrow> nat \<Rightarrow> 't \<Rightarrow> nat \<times> (error + 't)" where
  "lmdb_deleteRows api ns [] n t = (n, Inr t)"
| "lmdb_deleteRows api ns (rowKey # rest) n t =
    (case lmdb_deleteRow api ns (RowKey rowKey) (api_Seek api ns (RowKey rowKey) t) n t of
       (n', Inl e) \<Rightarrow> (n', Inl e)
     | (n', Inr (True, t')) \<Rightarrow> (n', Inr t')
     | (n', Inr (False, t')) \<Rightarrow> lmdb_deleteRows api ns rest n' t')"

definition lmdb_BatchDeleteRows ::
  "('d, 't) lmdb_api \<Rightarrow> bytes list \<Rightarrow> 'd LmdbEmbed \<Rightarrow> 'd LmdbEmbed \<times> nat \<times> error option" where
  "lmdb_BatchDeleteRows api rowKeys l =
    (if rowKeys = [] then (l, 0, None)
     else case UpdateWith api 0 (\<lambda>t. case lm_OpenCursor api (le_dataDB l) t of Some e \<Rightarrow> (0, Inl e)
           | None \<Rightarrow> lmdb_deleteRows api (le_dataDB l) rowKeys 0 t) (le_env l) of
         (d, n, e) \<Rightarrow> (l\<lparr>le_env := d\<rparr>, n, e))"

definition lmdb_DeleteKV :: "('d, 't) lmdb_api \<Rightarrow> bytes \<Rightarrow> 'd LmdbEmbed \<Rightarrow> 'd LmdbEmbed \<times> error option" where
  "lmdb_DeleteKV api key l = lmdb_Update api (lmdb_del api (le_dataDB l) (KeyKV key)) l"

definition lmdb_BatchDeleteKV :: "('d, 't) lmdb_api \<Rightarrow> bytes list \<Rightarrow> 'd LmdbEmbed \<Rightarrow> 'd LmdbEmbed \<times> error option" where
  "lmdb_BatchDeleteKV api keys l =
    (if keys = [] then (l, None)
     else lmdb_Update api (forEach (\<lambda>key. lmdb_del api (le_dataDB l) (KeyKV key)) keys) l)"

definition lmdb_deleteLob :: "('d, 't) lmdb_api \<Rightarrow> string \<Rightarrow> bytes \<Rightarrow> 't \<Rightarrow> error + 't" where
  "lmdb_deleteLob api ns key t =
    (case lm_Get api ns (KeyBlobChunk key 0) t of Inl e \<Rightarrow> if e = ErrNotFound then Inr t else Inl e
     | Inr storedValue \<Rightarrow>
       if length storedValue < 9 then Inl ErrInvalidChunkMetadata
       else andThen (forEach (\<lambda>i. lmdb_del api ns (KeyBlobChunk key i)) [1..<Suc (chunkCountOf storedValue)] t)
         (lmdb_del api ns (KeyBlobChunk key 0)))"

definition lmdb_BatchDeleteLobChunks :: "('d, 't) lmdb_api \<Rightarrow> bytes list \<Rightarrow> 'd LmdbEmbed \<Rightarrow> 'd LmdbEmbed \<times> error option" where
  "lmdb_BatchDeleteLobChunks api keys l =
    (if keys = [] then (l, None) else lmdb_Update api (forEach (lmdb_deleteLob api (le_dataDB l)) keys) l)"

section \<open>Reading\<close>

definition lmdb_lookup :: "('d, 't) lmdb_api \<Rightarrow> string \<Rightarrow> bytes \<Rightarrow> 't \<Rightarrow> error + bytes" where
  "lmdb_lookup api ns k t =
    (case lm_Get api ns k t of Inl e \<Rightarrow> Inl (if e = ErrNotFound then ErrKeyNotFound else e) | Inr v \<Rightarrow> Inr v)"

definition lmdb_GetKV :: "('d, 't) lmdb_api \<Rightarrow> bytes \<Rightarrow> 'd LmdbEmbed \<Rightarrow> error + bytes" where
  "lmdb_GetKV api key l = View api (lmdb_lookup api (le_dataDB l) (KeyKV key)) (le_env l)"

fun lmdb_getChunks :: "('d, 't) lmdb_api \<Rightarrow> string \<Rightarrow> bytes \<Rightarrow> nat list \<Rightarrow> 't \<Rightarrow> error + bytes list" where
  "lmdb_getChunks api ns key [] t = Inr []"
| "lmdb_getChunks api ns key (i # is) t =
    (case lm_Get api ns (KeyBlobChunk key i) t of Inl e \<Rightarrow> Inl (if e = ErrNotFound then ErrMsg ''chunk missing'' else e)
     | Inr chunkValue \<Rightarrow> map_sum id ((#) chunkValue) (lmdb_getChunks api ns key is t))"

definition lmdb_GetLOBChunks :: "('d, 't) lmdb_api \<Rightarrow> bytes \<Rightarrow> 'd LmdbEmbed \<Rightarrow> error + bytes list" where
  "lmdb_GetLOBChunks api key l = View api (\<lambda>t.
     andThen (lmdb_lookup api (le_dataDB l) (KeyBlobChunk key 0) t) (\<lambda>storedValue.
     if length storedValue < 9 then Inl ErrInvalidChunkMetadata
     else lmdb_getChunks api (le_dataDB l) key [1..<Suc (chunkCountOf storedValue)] t)) (le_env l)"

definition lmdb_GetCell :: "('d, 't) lmdb_api \<Rightarrow> bytes \<Rightarrow> bytes \<Rightarrow> 'd LmdbEmbed \<Rightarrow> error + bytes" where
  "lmdb_GetCell api rowKey columnName l = View api (lmdb_lookup api (le_dataDB l) (KeyColumn rowKey columnName)) (le_env l)"

fun lmdb_getCellsLoop ::
  "('d, 't) lmdb_api \<Rightarrow> string \<Rightarrow> bytes \<Rightarrow> bytes list \<Rightarrow> 't \<Rightarrow> (bytes \<times> bytes) list \<Rightarrow> error + (bytes \<times> bytes) list" where
  "lmdb_getCellsLoop api ns rowKey [] t res = Inr res"
| "lmdb_getCellsLoop api ns rowKey (column # rest) t res =
    (case lm_Get api ns (KeyColumn rowKey column) t of
       Inl e \<Rightarrow> if e = ErrNotFound then lmdb_getCellsLoop api ns rowKey rest t res else Inl e
     | Inr v \<Rightarrow> lmdb_getCellsLoop api ns rowKey rest t (AList.update column v res))"

definition lmdb_GetCells :: "('d, 't) lmdb_api \<Rightarrow> bytes \<Rightarrow> bytes list \<Rightarrow> 'd LmdbEmbed \<Rightarrow> error + (bytes \<times> bytes) list" where
  "lmdb_GetCells api rowKey columns l = View api (\<lambda>t. lmdb_getCellsLoop api (le_dataDB l) rowKey columns t []) (le_env l)"

fun lmdb_columnsLoop :: "bytes \<Rightarrow> (bytes \<Rightarrow> bool) \<Rightarrow> (bytes \<times> bytes) list \<Rightarrow> (bytes \<times> bytes) list \<Rightarrow> (bytes \<times> bytes) list" where
  "lmdb_columnsLoop pre filt [] entries = entries"
| "lmdb_columnsLoop pre filt ((k, v) # rest) entries =
    (if \<not> prefix pre k then entries
     else let columnKey = drop (length pre) k in
       lmdb_columnsLoop pre filt rest (if filt columnKey then AList.update columnKey v entries else entries))"

definition lmdb_getColumns ::
  "('d, 't) lmdb_api \<Rightarrow> string \<Rightarrow> bytes \<Rightarrow> (bytes \<Rightarrow> bool) \<Rightarrow> 't \<Rightarrow> error + (bytes \<times> bytes) list" where
  "lmdb_getColumns api ns pre filt t =
    (case lm_OpenCursor api ns t of Some e \<Rightarrow> Inl e
     | None \<Rightarrow>
       let entries = lmdb_columnsLoop pre filt (api_Seek api ns pre t) [] in
       if entries = [] then Inl ErrKeyNotFound else Inr entries)"

definition lmdb_ScanRowCells ::
  "('d, 't) lmdb_api \<Rightarrow> bytes \<Rightarrow> (bytes \<Rightarrow> bool) option \<Rightarrow> 'd LmdbEmbed \<Rightarrow> error + (bytes \<times> bytes) list" where
  "lmdb_ScanRowCells api rowKey filt l =
    View api (lmdb_getColumns api (le_dataDB l) (RowKey rowKey) (case filt of None \<Rightarrow> \<lambda>_. True | Some f \<Rightarrow> f)) (le_env l)"

section \<open>Metadata\<close>

definition lmdb_StoreMetadata :: "('d, 't) lmdb_api \<Rightarrow> bytes \<Rightarrow> bytes \<Rightarrow> 'd LmdbEmbed \<Rightarrow> 'd LmdbEmbed \<times> error option" where
  "lmdb_StoreMetadata api key value l = lmdb_Update api (api_Put api (le_metaDB l) key value) l"

definition lmdb_RetrieveMetadata :: "('d, 't) lmdb_api \<Rightarrow> bytes \<Rightarrow> 'd LmdbEmbed \<Rightarrow> error + bytes" where
  "lmdb_RetrieveMetadata api key l = View api (lmdb_lookup api (le_metaDB l) key) (le_env l)"

section \<open>Correctness of the writing methods\<close>

definition lmdb_call :: "('d, 't) lmdb_api \<Rightarrow> storeCall \<Rightarrow> 'd LmdbEmbed \<Rightarrow> 'd LmdbEmbed \<times> error option" where
  "lmdb_call api c l = (case c of
     CSetKV k v \<Rightarrow> lmdb_SetKV api k v l
   | CBatchSetKV ks vs \<Rightarrow> lmdb_BatchSetKV api ks vs l
   | CSetLobChunks k cs s \<Rightarrow> lmdb_SetLobChunks api k cs s l
   | CBatchSetCells rs ess \<Rightarrow> lmdb_BatchSetCells api rs ess l
   | CBatchDeleteCells rs ess \<Rightarrow> lmdb_BatchDeleteCells api rs ess l
   | CBatchDeleteRows rs \<Rightarrow> (case lmdb_BatchDeleteRows api rs l of (l', _, e) \<Rightarrow> (l', e))
   | CDeleteKV k \<Rightarrow> lmdb_DeleteKV api k l
   | CBatchDeleteKV ks \<Rightarrow> lmdb_BatchDeleteKV api ks l
   | CBatchDeleteLobChunks ks \<Rightarrow> lmdb_BatchDeleteLobChunks api ks l)"

text \<open>\<open>BatchDeleteRows\<close> is correct for one row.\<close>

definition single_row :: "storeCall \<Rightarrow> bool" where
  "single_row c = (case c of CBatchDeleteRows rs \<Rightarrow> length rs \<le> 1 | _ \<Rightarrow> True)"

lemma lmdb_deleteRow_done:
  "lmdb_deleteRow api ns p xs n t = (n', Inr (b, t')) \<Longrightarrow>
    forEach (lmdb_del api ns) (map fst (takeWhile (\<lambda>x. prefix p (fst x)) xs)) t = Inr t'
    \<and> n' = n + length (takeWhile (\<lambda>x. prefix p (fst x)) xs) \<and> b = list_all (\<lambda>x. prefix p (fst x)) xs"
proof (induction xs arbitrary: n t)
  case (Cons x xs)
  obtain k v where x: "x = (k, v)" by (cases x)
  show ?case
  proof (cases "prefix p k")
    case True
    then obtain t1 where "lmdb_del api ns k t = Inr t1" "lmdb_deleteRow api ns p xs (Suc n) t1 = (n', Inr (b, t'))"
      using Cons.prems x by (auto split: sum.splits)
    with Cons.IH [of "Suc n" t1] True x show ?thesis by simp
  qed (use Cons.prems x in auto)
qed auto

locale lmdb_store = named_db NK NR NB api dview view
  for NK NR NB :: "bytes \<Rightarrow> bool" and api :: "('d, 't) lmdb_api" and dview :: "'d \<Rightarrow> dbview" and view :: "'t \<Rightarrow> dbview" +
  assumes llaws: "lmdb_laws api dview view"
begin

lemma lget:
  "view t ns = Some m \<Longrightarrow> lm_Get api ns k t = Inr v \<Longrightarrow> m k = Some v"
  "view t ns = Some m \<Longrightarrow> lm_Get api ns k t = Inl ErrNotFound \<Longrightarrow> m k = None"
  "lm_Get api ns k t = Inl e \<Longrightarrow> e \<noteq> ErrNotFound \<Longrightarrow> \<exists>e'. api_Put api ns k w t' = Inl e'"
  using llaws unfolding lmdb_laws_def by blast+

lemma moves_del: "view t ns = Some m \<Longrightarrow> moves view ns t (lmdb_del api ns k t) (m(k := None))"
proof -
  assume v: "view t ns = Some m"
  show ?thesis
  proof (cases "api_Delete api ns k t = Inl ErrNotFound")
    case True
    then have "m k = None" using llaws v unfolding lmdb_laws_def by blast
    then have "m(k := None) = m" by (rule fun_upd_idem)
    then show ?thesis using moves_same [of view t ns m, OF v] True by (simp add: lmdb_del_def)
  next
    case False
    then have "lmdb_del api ns k t = api_Delete api ns k t" by (auto simp: lmdb_del_def split: sum.splits)
    then show ?thesis using moves_Delete [OF v] by simp
  qed
qed

lemma moves_dels: "view t ns = Some m \<Longrightarrow> moves view ns t (forEach (lmdb_del api ns) ks t) (del_all ks m)"
  unfolding del_all_def by (rule moves_forEach) (auto intro: moves_del)

lemma moves_chunks: "view t ns = Some m \<Longrightarrow>
  moves view ns t (forEach (\<lambda>i. lmdb_del api ns (KeyBlobChunk key i)) [1..<Suc n] t) (del_all (chunk_keys key n) m)"
  using moves_dels [of t ns m "chunk_keys key n"] by (simp add: chunk_keys_def forEach_map del: upt_Suc)

lemma lmdb_Update_refines:
  assumes "stores NK NR NB (dview (le_env l)) (le_dataDB l) u" "lmdb_Update api f l = (l', r)"
    and "refines NK NR NB view (le_dataDB l) f sops"
  shows "le_dataDB l' = le_dataDB l
    \<and> (if r = None then stores NK NR NB (dview (le_env l')) (le_dataDB l) (fold apply_sop sops u) else l' = l)"
proof -
  obtain d' where "Update api f (le_env l) = (d', r)" "l' = l\<lparr>le_env := d'\<rparr>"
    using assms(2) by (auto simp: lmdb_Update_def split: prod.splits)
  then show ?thesis using refines_Update [OF assms(1) _ assms(3)] by fastforce
qed

lemma moves_clearChunks:
  assumes "view t ns = Some m" "rep NK NR NB m u" "NB key" "lm_Get api ns (KeyBlobChunk key 0) t \<in> range Inr \<union> {Inl ErrNotFound}"
  shows "moves view ns t (lmdb_clearChunks api ns key t) (del_all (chunk_keys key (old_count key m)) m)"
proof (cases "lm_Get api ns (KeyBlobChunk key 0) t")
  case (Inl e)
  then have "m (KeyBlobChunk key 0) = None" using assms(4) lget(2) [OF assms(1)] by auto
  then show ?thesis using moves_same [of view t ns m, OF assms(1)] Inl
    by (simp add: lmdb_clearChunks_def old_count_def chunk_keys_def del_all_def)
next
  case (Inr v)
  show ?thesis
    using moves_chunks [OF assms(1), of key "chunkCountOf v"] rep_meta [OF assms(2,3) lget(1) [OF assms(1) Inr]] Inr
    by (simp add: lmdb_clearChunks_def del: upt_Suc)
qed

lemma refines_SetLob:
  assumes "NB key" "length chunks < 2 ^ 32"
  shows "refines NK NR NB view ns (lmdb_setLob api ns key chunks checksum) [SetLob key chunks checksum]"
proof (rule refines_moves)
  fix t m u assume v: "view t ns = Some m" "rep NK NR NB m u"
  have "moves view ns t (lmdb_setLob api ns key chunks checksum t) (set_lob key (old_count key m) chunks checksum m)"
  proof (cases "lm_Get api ns (KeyBlobChunk key 0) t \<in> range Inr \<union> {Inl ErrNotFound}")
    case True
    show ?thesis unfolding set_lob_def lmdb_setLob_def
      by (rule moves_andThen [OF moves_clearChunks [OF v assms(1) True]],
          rule moves_andThen [OF moves_putChunks], assumption, rule moves_Put, assumption)
  next
    case False
    then obtain e where e: "lm_Get api ns (KeyBlobChunk key 0) t = Inl e" "e \<noteq> ErrNotFound"
      by (cases "lm_Get api ns (KeyBlobChunk key 0) t") auto
    have "\<exists>e'. lmdb_setLob api ns key chunks checksum t = Inl e'"
      using e(1) lget(3) [OF e, of "lob_meta (length chunks) checksum"]
      by (simp add: lmdb_setLob_def lmdb_clearChunks_def andThen_def split: sum.splits)
    then show ?thesis by (auto simp: moves_def)
  qed
  then show "\<exists>m'. moves view ns t (lmdb_setLob api ns key chunks checksum t) m' \<and> rep NK NR NB m' (fold apply_sop [SetLob key chunks checksum] u)"
    using rep_set_lob [OF v(2) assms] by auto
qed

lemma refines_DelKV:
  assumes "NK k" shows "refines NK NR NB view ns (lmdb_del api ns (KeyKV k)) [DelKV k]"
  by (rule refines_moves) (use assms in \<open>auto intro!: exI moves_del rep_del_kv [simplified]\<close>)

lemma refines_DelLob:
  assumes "NB key" shows "refines NK NR NB view ns (lmdb_deleteLob api ns key) [DelLob key]"
proof (rule refines_moves)
  fix t m u assume v: "view t ns = Some m" "rep NK NR NB m u"
  have "moves view ns t (lmdb_deleteLob api ns key t) (del_lob key (old_count key m) m)"
  proof (cases "lm_Get api ns (KeyBlobChunk key 0) t")
    case (Inl e)
    show ?thesis
    proof (cases "e = ErrNotFound")
      case True
      then have "m (KeyBlobChunk key 0) = None" using Inl lget(2) [OF v(1)] by auto
      then have "del_lob key (old_count key m) m = m" by (auto simp: del_lob_def old_count_def chunk_keys_def del_all_def)
      then show ?thesis using Inl True moves_same [of view t ns m, OF v(1)] by (simp add: lmdb_deleteLob_def)
    qed (use Inl in \<open>simp add: lmdb_deleteLob_def\<close>)
  next
    case (Inr x)
    have "moves view ns t (andThen (forEach (\<lambda>i. lmdb_del api ns (KeyBlobChunk key i)) [1..<Suc (chunkCountOf x)] t)
         (lmdb_del api ns (KeyBlobChunk key 0))) (del_lob key (chunkCountOf x) m)"
      unfolding del_lob_def by (rule moves_andThen [OF moves_chunks [OF v(1)]], rule moves_del)
    then show ?thesis using Inr rep_meta [OF v(2) assms lget(1) [OF v(1) Inr]] by (simp add: lmdb_deleteLob_def del: upt_Suc)
  qed
  then show "\<exists>m'. moves view ns t (lmdb_deleteLob api ns key t) m' \<and> rep NK NR NB m' (fold apply_sop [DelLob key] u)"
    using rep_del_lob [OF v(2) assms] by auto
qed

lemma refines_DelCells:
  assumes "NR r" shows "refines NK NR NB view ns (forEach (\<lambda>(c, _). lmdb_del api ns (KeyColumn r c)) es) [DelCells r (map fst es)]"
proof (rule refines_moves)
  fix t m u assume v: "view t ns = Some m" "rep NK NR NB m u"
  have "forEach (\<lambda>(c, _). lmdb_del api ns (KeyColumn r c)) es t = forEach (lmdb_del api ns) (map (KeyColumn r) (map fst es)) t"
    by (simp only: forEach_map case_prod_unfold)
  then show "\<exists>m'. moves view ns t (forEach (\<lambda>(c, _). lmdb_del api ns (KeyColumn r c)) es t) m'
      \<and> rep NK NR NB m' (fold apply_sop [DelCells r (map fst es)] u)"
    using moves_dels [OF v(1)] rep_del_cells [OF v(2) assms, of "map fst es"] by auto
qed

lemma del_scanned:
  assumes "view t ns = Some m"
  shows "del_all (map fst (takeWhile (\<lambda>x. prefix p (fst x)) (api_Seek api ns p t))) m x = (if prefix p x then None else m x)"
  using seek_prefix(1) [OF seek [of t ns m p, OF assms]] by (cases "m x") (auto simp: del_all_apply image_iff)

lemma refines_DelRow:
  assumes "NR r" shows "refines NK NR NB view ns (\<lambda>t. snd (lmdb_deleteRows api ns [r] n t)) [DelRow r]"
  unfolding refines_def
proof (intro allI impI)
  fix t m u t' assume v: "view t ns = Some m" "rep NK NR NB m u" "snd (lmdb_deleteRows api ns [r] n t) = Inr t'"
  let ?xs = "takeWhile (\<lambda>x. prefix (RowKey r) (fst x)) (api_Seek api ns (RowKey r) t)"
  obtain n' b where "lmdb_deleteRow api ns (RowKey r) (api_Seek api ns (RowKey r) t) n t = (n', Inr (b, t'))"
    using v(3) by (auto split: prod.splits sum.splits bool.splits)
  then have "forEach (lmdb_del api ns) (map fst ?xs) t = Inr t'" by (rule lmdb_deleteRow_done [THEN conjunct1])
  then have "view t' = (view t)(ns \<mapsto> del_all (map fst ?xs) m)" using moves_dels [OF v(1)] by (simp add: moves_def)
  then show "\<exists>m'. view t' = (view t)(ns \<mapsto> m') \<and> rep NK NR NB m' (fold apply_sop [DelRow r] u)"
    using rep_del_row [OF v(2) assms] del_scanned [OF v(1)] by auto
qed

lemma refines_delRows:
  assumes "list_all (sop_ok NK NR NB) (map (\<lambda>(r, es). DelCells r (map fst es)) xs)"
  shows "refines NK NR NB view ns (forEach (\<lambda>(r, es) tx. if es = [] then Inr tx
    else forEach (\<lambda>(c, _). lmdb_del api ns (KeyColumn r c)) es tx) xs) (map (\<lambda>(r, es). DelCells r (map fst es)) xs)"
  by (rule refines_rows) (use assms in \<open>fastforce simp: list_all_iff intro: refines_DelCells\<close>, simp)

lemma refines_delKVs:
  "list_all (sop_ok NK NR NB) (map DelKV ks) \<Longrightarrow> refines NK NR NB view ns (forEach (\<lambda>key. lmdb_del api ns (KeyKV key)) ks) (map DelKV ks)"
  by (rule refines_list) (auto simp: list_all_iff intro: refines_DelKV)

lemma refines_delLobs:
  "list_all (sop_ok NK NR NB) (map DelLob ks) \<Longrightarrow> refines NK NR NB view ns (forEach (lmdb_deleteLob api ns) ks) (map DelLob ks)"
  by (rule refines_list) (auto simp: list_all_iff intro: refines_DelLob)

lemma lmdb_BatchDeleteRows_refines:
  assumes "stores NK NR NB (dview (le_env l)) (le_dataDB l) u" "lmdb_BatchDeleteRows api [rk] l = (l', n, r)" "NR rk"
  shows "le_dataDB l' = le_dataDB l
    \<and> (if r = None then stores NK NR NB (dview (le_env l')) (le_dataDB l) (fold apply_sop [DelRow rk] u) else l' = l)"
proof -
  let ?f = "\<lambda>t. case lm_OpenCursor api (le_dataDB l) t of Some e \<Rightarrow> (0, Inl e) | None \<Rightarrow> lmdb_deleteRows api (le_dataDB l) [rk] 0 t"
  obtain d' where d': "UpdateWith api 0 ?f (le_env l) = (d', n, r)" "l' = l\<lparr>le_env := d'\<rparr>"
    using assms(2) by (auto simp: lmdb_BatchDeleteRows_def simp del: lmdb_deleteRows.simps split: prod.splits)
  have "refines NK NR NB view (le_dataDB l) (\<lambda>t. snd (?f t)) [DelRow rk]"
    using refines_DelRow [OF assms(3), of "le_dataDB l" 0] unfolding refines_def by (auto simp del: lmdb_deleteRows.simps split: option.splits)
  from refines_Update [OF assms(1) UpdateWith_Update [OF d'(1)] this] d'(2) show ?thesis by (auto split: if_splits)
qed

lemma call_update:
  assumes "stores NK NR NB (dview (le_env l)) (le_dataDB l) u" "lmdb_call api c l = (l', r)"
    and "lmdb_call api c l = lmdb_Update api f l" "refines NK NR NB view (le_dataDB l) f (call_sops c)"
  shows "le_dataDB l' = le_dataDB l
    \<and> (if r = None then stores NK NR NB (dview (le_env l')) (le_dataDB l) (fold apply_sop (call_sops c) u) else l' = l)"
  using lmdb_Update_refines [OF assms(1) _ assms(4)] assms(2,3) by simp

lemma lmdb_call_refines:
  assumes "stores NK NR NB (dview (le_env l)) (le_dataDB l) u" "lmdb_call api c l = (l', r)" "call_ok NK NR NB c" "single_row c"
  shows "le_dataDB l' = le_dataDB l
    \<and> (if r = None then stores NK NR NB (dview (le_env l')) (le_dataDB l) (fold apply_sop (call_sops c) u) else l' = l)"
proof -
  note upd = call_update [OF assms(1,2)]
  note ok = assms(3) [unfolded call_ok_def]
  let ?ns = "le_dataDB l"
  show ?thesis
  proof (cases c)
    case (CSetKV k v)
    show ?thesis
      by (rule upd [of "api_Put api ?ns (KeyKV k) v"]) (use ok CSetKV in \<open>auto simp: lmdb_call_def lmdb_SetKV_def intro: refines_Put\<close>)
  next
    case (CBatchSetKV ks vs)
    show ?thesis
    proof (cases "ks = [] \<or> vs = [] \<or> length ks \<noteq> length vs")
      case False
      then show ?thesis
        by (intro upd [of "forEach (\<lambda>(k, v). api_Put api ?ns (KeyKV k) v) (zip ks vs)"])
          (use ok CBatchSetKV refines_puts in \<open>simp_all add: lmdb_call_def lmdb_BatchSetKV_def\<close>)
    qed (use assms(2) CBatchSetKV in \<open>auto simp: lmdb_call_def lmdb_BatchSetKV_def\<close>)
  next
    case (CSetLobChunks k cs s)
    show ?thesis
    proof (cases "cs = []")
      case False
      then show ?thesis
        by (intro upd [of "lmdb_setLob api ?ns k cs s"])
          (use ok CSetLobChunks in \<open>auto simp: lmdb_call_def lmdb_SetLobChunks_def intro: refines_SetLob\<close>)
    qed (use assms(2) CSetLobChunks in \<open>auto simp: lmdb_call_def lmdb_SetLobChunks_def\<close>)
  next
    case (CBatchSetCells rs ess)
    show ?thesis
    proof (cases "length rs = length ess")
      case True
      then show ?thesis
        by (intro upd [of "forEach (\<lambda>(r, es) tx. if es = [] then Inr tx
            else forEach (\<lambda>(c, v). api_Put api ?ns (KeyColumn r c) v) es tx) (zip rs ess)"])
          (use ok CBatchSetCells refines_setRows in \<open>simp_all add: lmdb_call_def lmdb_BatchSetCells_def\<close>)
    qed (use assms(2) CBatchSetCells in \<open>auto simp: lmdb_call_def lmdb_BatchSetCells_def\<close>)
  next
    case (CBatchDeleteCells rs ess)
    show ?thesis
    proof (cases "length rs = length ess")
      case True
      then show ?thesis
        by (intro upd [of "forEach (\<lambda>(r, es) tx. if es = [] then Inr tx
            else forEach (\<lambda>(c, _). lmdb_del api ?ns (KeyColumn r c)) es tx) (zip rs ess)"])
          (use ok CBatchDeleteCells refines_delRows in \<open>simp_all add: lmdb_call_def lmdb_BatchDeleteCells_def\<close>)
    qed (use assms(2) CBatchDeleteCells in \<open>auto simp: lmdb_call_def lmdb_BatchDeleteCells_def\<close>)
  next
    case (CBatchDeleteRows rs)
    then consider "rs = []" | rk where "rs = [rk]" using assms(4) by (cases rs) (auto simp: single_row_def)
    then show ?thesis
    proof cases
      case 1
      then show ?thesis using CBatchDeleteRows assms(1,2) by (auto simp: lmdb_call_def lmdb_BatchDeleteRows_def)
    next
      case 2
      then obtain n where "lmdb_BatchDeleteRows api [rk] l = (l', n, r)"
        using assms(2) CBatchDeleteRows by (auto simp: lmdb_call_def split: prod.splits)
      from lmdb_BatchDeleteRows_refines [OF assms(1) this] ok CBatchDeleteRows 2 show ?thesis by auto
    qed
  next
    case (CDeleteKV k)
    show ?thesis
      by (rule upd [of "lmdb_del api ?ns (KeyKV k)"]) (use ok CDeleteKV in \<open>auto simp: lmdb_call_def lmdb_DeleteKV_def intro: refines_DelKV\<close>)
  next
    case (CBatchDeleteKV ks)
    show ?thesis
    proof (cases "ks = []")
      case False
      then show ?thesis
        by (intro upd [of "forEach (\<lambda>key. lmdb_del api ?ns (KeyKV key)) ks"])
          (use ok CBatchDeleteKV refines_delKVs in \<open>simp_all add: lmdb_call_def lmdb_BatchDeleteKV_def\<close>)
    qed (use assms(1,2) CBatchDeleteKV in \<open>auto simp: lmdb_call_def lmdb_BatchDeleteKV_def\<close>)
  next
    case (CBatchDeleteLobChunks ks)
    show ?thesis
    proof (cases "ks = []")
      case False
      then show ?thesis
        by (intro upd [of "forEach (lmdb_deleteLob api ?ns) ks"])
          (use ok CBatchDeleteLobChunks refines_delLobs in \<open>simp_all add: lmdb_call_def lmdb_BatchDeleteLobChunks_def\<close>)
    qed (use assms(1,2) CBatchDeleteLobChunks in \<open>auto simp: lmdb_call_def lmdb_BatchDeleteLobChunks_def\<close>)
  qed
qed

text \<open>When no key lies behind the row, the rows that follow it in the call are left alone.\<close>

lemma lmdb_deleteRows_stops:
  assumes "view t ns = Some m" "\<And>k. m k \<noteq> None \<Longrightarrow> RowKey r \<le> k \<Longrightarrow> prefix (RowKey r) k"
  shows "lmdb_deleteRows api ns (r # rs) n t = lmdb_deleteRows api ns [r] n t"
proof -
  let ?xs = "api_Seek api ns (RowKey r) t"
  have "list_all (\<lambda>x. prefix (RowKey r) (fst x)) ?xs"
    using seek [OF assms(1), of "RowKey r"] assms(2) by (auto simp: list_all_iff seek_law_def)
  then have "lmdb_deleteRow api ns (RowKey r) ?xs n t \<noteq> (n', Inr (False, t'))" for n' t'
    using lmdb_deleteRow_done [of api ns "RowKey r" ?xs n t n' False t'] by auto
  then show ?thesis by (cases "lmdb_deleteRow api ns (RowKey r) ?xs n t") (auto split: sum.splits bool.splits)
qed

lemma lmdb_BatchDeleteRows_stops:
  assumes "dview (le_env l) (le_dataDB l) = Some m" "\<And>k. m k \<noteq> None \<Longrightarrow> RowKey r \<le> k \<Longrightarrow> prefix (RowKey r) k"
  shows "lmdb_BatchDeleteRows api (r # rs) l = lmdb_BatchDeleteRows api [r] l"
proof (cases "api_Begin api (le_env l)")
  case (Inr t)
  have "view t (le_dataDB l) = Some m" using begin_view [OF Inr] assms(1) by simp
  from lmdb_deleteRows_stops [OF this assms(2), of rs 0] Inr show ?thesis
    by (simp add: lmdb_BatchDeleteRows_def UpdateWith_def del: lmdb_deleteRows.simps split: option.split)
qed (simp add: lmdb_BatchDeleteRows_def UpdateWith_def)

section \<open>Correctness of the reading methods\<close>

text \<open>The transaction finds keys or reports them missing.\<close>

lemma lmdb_View_ok:
  assumes "stores NK NR NB (dview (le_env l)) (le_dataDB l) u" "api_Begin api (le_env l) = Inr t"
  shows "\<exists>m. view t (le_dataDB l) = Some m \<and> rep NK NR NB m u" and "View api f (le_env l) = f t"
  using assms begin_view [OF assms(2)] by (auto simp: stores_def View_def andThen_def)

lemma lmdb_lookup_ok:
  assumes "view t ns = Some m" "\<And>e. lm_Get api ns k t = Inl e \<Longrightarrow> e = ErrNotFound"
  shows "lmdb_lookup api ns k t = (case m k of None \<Rightarrow> Inl ErrKeyNotFound | Some v \<Rightarrow> Inr v)"
  using lget(1) [OF assms(1), of k] lget(2) [OF assms(1), of k] assms(2)
  by (cases "lm_Get api ns k t") (auto simp: lmdb_lookup_def)

lemma lmdb_GetKV_ok:
  assumes "stores NK NR NB (dview (le_env l)) (le_dataDB l) u" "api_Begin api (le_env l) = Inr t" "NK k"
    and "\<And>k e. lm_Get api (le_dataDB l) k t = Inl e \<Longrightarrow> e = ErrNotFound"
  shows "lmdb_GetKV api k l = (case u_kv u k of None \<Rightarrow> Inl ErrKeyNotFound | Some v \<Rightarrow> Inr v)"
proof -
  obtain m where m: "view t (le_dataDB l) = Some m" "rep NK NR NB m u" using lmdb_View_ok(1) [OF assms(1,2)] by blast
  have "lmdb_lookup api (le_dataDB l) (KeyKV k) t = (case m (KeyKV k) of None \<Rightarrow> Inl ErrKeyNotFound | Some v \<Rightarrow> Inr v)"
    using m(1) assms(4) by (rule lmdb_lookup_ok)
  then show ?thesis unfolding lmdb_GetKV_def lmdb_View_ok(2) [OF assms(1,2)] repD(1) [OF m(2) assms(3)] .
qed

lemma lmdb_GetCell_ok:
  assumes "stores NK NR NB (dview (le_env l)) (le_dataDB l) u" "api_Begin api (le_env l) = Inr t" "NR r"
    and "\<And>k e. lm_Get api (le_dataDB l) k t = Inl e \<Longrightarrow> e = ErrNotFound"
  shows "lmdb_GetCell api r c l = (case u_cell u r c of None \<Rightarrow> Inl ErrKeyNotFound | Some v \<Rightarrow> Inr v)"
proof -
  obtain m where m: "view t (le_dataDB l) = Some m" "rep NK NR NB m u" using lmdb_View_ok(1) [OF assms(1,2)] by blast
  have "lmdb_lookup api (le_dataDB l) (KeyColumn r c) t = (case m (KeyColumn r c) of None \<Rightarrow> Inl ErrKeyNotFound | Some v \<Rightarrow> Inr v)"
    using m(1) assms(4) by (rule lmdb_lookup_ok)
  then show ?thesis unfolding lmdb_GetCell_def lmdb_View_ok(2) [OF assms(1,2)] repD(2) [OF m(2) assms(3)] .
qed

lemma lmdb_getChunks_ok:
  assumes "view t ns = Some m" "\<forall>i < length cs. m (KeyBlobChunk key (i + 1)) = Some (cs ! i)" "j \<le> length cs"
    and "\<And>k e. lm_Get api ns k t = Inl e \<Longrightarrow> e = ErrNotFound"
  shows "lmdb_getChunks api ns key [Suc j..<Suc (length cs)] t = Inr (drop j cs)"
  using assms(3)
proof (induction "length cs - j" arbitrary: j)
  case (Suc n)
  then have j: "j < length cs" by simp
  with Suc have "lmdb_getChunks api ns key [Suc (Suc j)..<Suc (length cs)] t = Inr (drop (Suc j) cs)" by (simp del: upt_Suc)
  moreover have c: "m (KeyBlobChunk key (Suc j)) = Some (cs ! j)" using assms(2) j by simp
  have "lm_Get api ns (KeyBlobChunk key (Suc j)) t = Inr (cs ! j)"
    using c lget(1) [OF assms(1)] lget(2) [OF assms(1)] assms(4) by (cases "lm_Get api ns (KeyBlobChunk key (Suc j)) t") fastforce+
  ultimately show ?case using j by (simp add: upt_conv_Cons Cons_nth_drop_Suc del: upt_Suc)
qed simp

lemma lmdb_GetLOBChunks_ok:
  assumes "stores NK NR NB (dview (le_env l)) (le_dataDB l) u" "api_Begin api (le_env l) = Inr t" "NB k"
    and "\<And>k e. lm_Get api (le_dataDB l) k t = Inl e \<Longrightarrow> e = ErrNotFound"
  shows "lmdb_GetLOBChunks api k l = (case u_lob u k of None \<Rightarrow> Inl ErrKeyNotFound | Some (cs, s) \<Rightarrow> Inr cs)"
proof -
  obtain m where m: "view t (le_dataDB l) = Some m" "rep NK NR NB m u" using lmdb_View_ok(1) [OF assms(1,2)] by blast
  have slot: "m (KeyBlobChunk k i) = lob_slot (u_lob u k) i" if "i < 2 ^ 32" for i using repD(3) [OF m(2) assms(3) that] .
  have look: "lmdb_lookup api (le_dataDB l) (KeyBlobChunk k 0) t = (case m (KeyBlobChunk k 0) of None \<Rightarrow> Inl ErrKeyNotFound | Some v \<Rightarrow> Inr v)"
    using m(1) assms(4) by (rule lmdb_lookup_ok)
  show ?thesis
  proof (cases "u_lob u k")
    case None
    then show ?thesis
      unfolding lmdb_GetLOBChunks_def lmdb_View_ok(2) [OF assms(1,2)] look using slot [of 0]
      by (simp add: lob_slot_def andThen_def)
  next
    case (Some p)
    obtain cs s where p: "p = (cs, s)" by (cases p)
    have l: "length cs < 2 ^ 32" using repD(4) [OF m(2) assms(3)] Some p by blast
    have "\<forall>i < length cs. m (KeyBlobChunk k (i + 1)) = Some (cs ! i)" using slot l Some p by (auto simp: lob_slot_def)
    from lmdb_getChunks_ok [OF m(1) this, of 0] assms(4) show ?thesis
      unfolding lmdb_GetLOBChunks_def lmdb_View_ok(2) [OF assms(1,2)] look
      using slot [of 0] Some p l by (simp add: lob_slot_def andThen_def del: upt_Suc)
  qed
qed

end

lemma lmdb_store_names:
  "lmdb_laws api dview view \<Longrightarrow> key_names NK NR NB \<Longrightarrow> lmdb_store NK NR NB api dview view"
  by (simp add: lmdb_store_def named_db_def txn_db_def lmdb_store_axioms_def lmdb_laws_def)

interpretation mlmdb: lmdb_store "plain KeyTypeKV" "plain KeyTypeWideColumn" "plain KeyTypeBlobChunk" mem_lmdb mem_view mem_view
  by (rule lmdb_store_names [OF mem_lmdb_laws user_names])

end
