(* ===== verification/LmdbQueue.thy ===== *)
theory LmdbQueue
  imports LmdbStore TxnQueue
begin

text \<open>
  \<open>LMDBTxnQueue\<close> in \<open>pkg/kvdrivers/lmdb_txn_queue.go\<close>: the closures its methods queue, \<open>flushBatch\<close> and \<open>Commit\<close>. Large
  objects are flushed at once, rows are deleted by one closure each, so that the end of the database does not cut
  the others off, and the deletion of a large object ignores the errors of the database.
\<close>

section \<open>The closures\<close>

definition lq_put :: "('d, 't) lmdb_api \<Rightarrow> string \<Rightarrow> bytes list \<Rightarrow> nat \<Rightarrow> bytes \<Rightarrow> 't qop" where
  "lq_put api ns values i key c txn =
    (if i < length values then
       (case api_Put api ns (KeyKV key) (values ! i) txn of Inl e \<Rightarrow> (c, Inl e)
        | Inr txn' \<Rightarrow> (c\<lparr>putOps := putOps c + 1, entriesModified := entriesModified c + 1\<rparr>, Inr txn'))
     else (c, Inl Panic))"

definition lq_delete :: "('d, 't) lmdb_api \<Rightarrow> string \<Rightarrow> bytes \<Rightarrow> 't qop" where
  "lq_delete api ns key c txn =
    (case api_Delete api ns (KeyKV key) txn of Inl e \<Rightarrow> if e = ErrNotFound then (c, Inr txn) else (c, Inl e)
     | Inr txn' \<Rightarrow> (c\<lparr>deleteOps := deleteOps c + 1, entriesModified := entriesModified c + 1\<rparr>, Inr txn'))"

fun lq_putKeys :: "('d, 't) lmdb_api \<Rightarrow> string \<Rightarrow> (bytes \<times> bytes) list \<Rightarrow> 't qop" where
  "lq_putKeys api ns [] c txn = (c, Inr txn)"
| "lq_putKeys api ns ((k, v) # rest) c txn =
    (let c = c\<lparr>entriesModified := entriesModified c + 1\<rparr> in
     case api_Put api ns k v txn of Inl e \<Rightarrow> (c, Inl e) | Inr txn' \<Rightarrow> lq_putKeys api ns rest c txn')"

definition lq_setLob :: "('d, 't) lmdb_api \<Rightarrow> string \<Rightarrow> bytes \<Rightarrow> bytes list \<Rightarrow> u32 \<Rightarrow> 't qop" where
  "lq_setLob api ns key chunks checksum c txn =
    (case lmdb_clearChunks api ns key txn of Inl e \<Rightarrow> (c, Inl e)
     | Inr txn \<Rightarrow>
       let c = c\<lparr>putOps := putOps c + 1, entriesModified := entriesModified c + 1\<rparr> in
       case lq_putKeys api ns (map (\<lambda>(i, chunk). (KeyBlobChunk key (i + 1), chunk)) (enumerate 0 chunks)) c txn of
         (c, Inl e) \<Rightarrow> (c, Inl e)
       | (c, Inr txn) \<Rightarrow> (c, api_Put api ns (KeyBlobChunk key 0) (lob_meta (length chunks) checksum) txn))"

text \<open>The errors of deleting the chunks are dropped. When \<open>Get\<close> fails it returns no value, which ends the closure
  without an error.\<close>

fun lq_dropKeys :: "('d, 't) lmdb_api \<Rightarrow> string \<Rightarrow> bytes list \<Rightarrow> counters \<Rightarrow> 't \<Rightarrow> counters \<times> 't" where
  "lq_dropKeys api ns [] c txn = (c, txn)"
| "lq_dropKeys api ns (k # ks) c txn =
    lq_dropKeys api ns ks (c\<lparr>entriesModified := entriesModified c + 1\<rparr>)
      (case api_Delete api ns k txn of Inl _ \<Rightarrow> txn | Inr txn' \<Rightarrow> txn')"

definition lq_deleteLob :: "('d, 't) lmdb_api \<Rightarrow> string \<Rightarrow> bytes \<Rightarrow> 't qop" where
  "lq_deleteLob api ns key c txn =
    (case lm_Get api ns (KeyBlobChunk key 0) txn of Inl _ \<Rightarrow> (c, Inr txn)
     | Inr storedValue \<Rightarrow>
       if length storedValue < 9 then (c, Inl ErrInvalidChunkMetadata)
       else
         let (c, txn) = lq_dropKeys api ns (map (KeyBlobChunk key) [1..<Suc (chunkCountOf storedValue)]) c txn in
         case lmdb_del api ns (KeyBlobChunk key 0) txn of Inl e \<Rightarrow> (c, Inl e)
         | Inr txn' \<Rightarrow> (c\<lparr>entriesModified := entriesModified c + 1, deleteOps := deleteOps c + 1\<rparr>, Inr txn'))"

definition lq_setCells :: "('d, 't) lmdb_api \<Rightarrow> string \<Rightarrow> bytes \<Rightarrow> (bytes \<times> bytes) list \<Rightarrow> 't qop" where
  "lq_setCells api ns rowKey columnEntries c txn =
    (if columnEntries = [] then (c, Inr txn)
     else lq_putKeys api ns (map (\<lambda>(key, value). (KeyColumn rowKey key, value)) columnEntries) (c\<lparr>putOps := putOps c + 1\<rparr>) txn)"

fun lq_delKeys :: "('d, 't) lmdb_api \<Rightarrow> string \<Rightarrow> bytes list \<Rightarrow> 't qop" where
  "lq_delKeys api ns [] c txn = (c, Inr txn)"
| "lq_delKeys api ns (k # ks) c txn =
    (case api_Delete api ns k txn of Inl e \<Rightarrow> if e = ErrNotFound then lq_delKeys api ns ks c txn else (c, Inl e)
     | Inr txn' \<Rightarrow> lq_delKeys api ns ks (c\<lparr>entriesModified := entriesModified c + 1\<rparr>) txn')"

definition lq_deleteCells :: "('d, 't) lmdb_api \<Rightarrow> string \<Rightarrow> bytes \<Rightarrow> (bytes \<times> bytes) list \<Rightarrow> 't qop" where
  "lq_deleteCells api ns rowKey columnEntries c txn =
    (if columnEntries = [] then (c, Inr txn)
     else case lq_delKeys api ns (map (\<lambda>(key, _). KeyColumn rowKey key) columnEntries) c txn of
         (c, Inl e) \<Rightarrow> (c, Inl e)
       | (c, Inr txn') \<Rightarrow> (c\<lparr>deleteOps := deleteOps c + 1\<rparr>, Inr txn'))"

fun lq_deleteRowLoop :: "('d, 't) lmdb_api \<Rightarrow> string \<Rightarrow> bytes \<Rightarrow> (bytes \<times> bytes) list \<Rightarrow> 't qop" where
  "lq_deleteRowLoop api ns pKey [] c txn = (c, Inr txn)"
| "lq_deleteRowLoop api ns pKey ((k, _) # rest) c txn =
    (if \<not> prefix pKey k then (c, Inr txn)
     else case lmdb_del api ns k txn of Inl e \<Rightarrow> (c, Inl e)
     | Inr txn' \<Rightarrow> lq_deleteRowLoop api ns pKey rest (c\<lparr>entriesModified := entriesModified c + 1\<rparr>) txn')"

definition lq_deleteRow :: "('d, 't) lmdb_api \<Rightarrow> string \<Rightarrow> bytes \<Rightarrow> 't qop" where
  "lq_deleteRow api ns rowKey c txn =
    (case lm_OpenCursor api ns txn of Some e \<Rightarrow> (c, Inl e)
     | None \<Rightarrow> lq_deleteRowLoop api ns (RowKey rowKey) (api_Seek api ns (RowKey rowKey) txn) (c\<lparr>deleteOps := deleteOps c + 1\<rparr>) txn)"

section \<open>Flushing\<close>

definition lq_flushBatch :: "('d, 't) lmdb_api \<Rightarrow> 'd \<times> 't TxnQueue \<Rightarrow> ('d \<times> 't TxnQueue) \<times> error option" where
  "lq_flushBatch api s =
    (case s of (d, q) \<Rightarrow>
       if tq_err q \<noteq> None \<or> tq_opsQueue q = [] then ((d, q), tq_err q)
       else case api_Begin api d of Inl e \<Rightarrow> ((d, q), Some e)
       | Inr txn \<Rightarrow>
         case runOps (tq_opsQueue q) (tq_counters q) txn of
           (c, Inl e) \<Rightarrow> ((d, q\<lparr>tq_counters := c, tq_err := Some e\<rparr>), Some e)
         | (c, Inr txn') \<Rightarrow>
           case api_Commit api txn' d of Inl e \<Rightarrow> ((d, tq_reset c q), Some e)
           | Inr d' \<Rightarrow> ((d', tq_reset c q), None))"

definition lq_Commit :: "('d, 't) lmdb_api \<Rightarrow> 'd \<times> 't TxnQueue \<Rightarrow> ('d \<times> 't TxnQueue) \<times> error option" where
  "lq_Commit api s = (if tq_err (snd s) \<noteq> None then (s, tq_err (snd s)) else lq_flushBatch api s)"

definition lq_Stats :: "'t TxnQueue \<Rightarrow> TxnStats" where
  "lq_Stats q = tq_stats q"

section \<open>The methods\<close>

definition lq_BatchPutKV ::
  "('d, 't) lmdb_api \<Rightarrow> bytes list \<Rightarrow> bytes list \<Rightarrow> 'd \<times> 't TxnQueue \<Rightarrow> ('d \<times> 't TxnQueue) \<times> error option" where
  "lq_BatchPutKV api keys values s =
    (if tq_err (snd s) \<noteq> None then (s, tq_err (snd s))
     else tq_enqueue (lq_flushBatch api) False
       (map (\<lambda>(i, key). lq_put api (tq_namespace (snd s)) values i key) (enumerate 0 keys)) s)"

definition lq_BatchDeleteKV ::
  "('d, 't) lmdb_api \<Rightarrow> bytes list \<Rightarrow> 'd \<times> 't TxnQueue \<Rightarrow> ('d \<times> 't TxnQueue) \<times> error option" where
  "lq_BatchDeleteKV api keys s =
    (if tq_err (snd s) \<noteq> None then (s, tq_err (snd s))
     else tq_enqueue (lq_flushBatch api) False (map (lq_delete api (tq_namespace (snd s))) keys) s)"

definition lq_SetLobChunks ::
  "('d, 't) lmdb_api \<Rightarrow> bytes \<Rightarrow> bytes list \<Rightarrow> u32 \<Rightarrow> 'd \<times> 't TxnQueue \<Rightarrow> ('d \<times> 't TxnQueue) \<times> error option" where
  "lq_SetLobChunks api key chunks checksum s =
    (if tq_err (snd s) \<noteq> None then (s, tq_err (snd s))
     else tq_enqueue (lq_flushBatch api) True [lq_setLob api (tq_namespace (snd s)) key chunks checksum] s)"

definition lq_BatchDeleteLobChunks ::
  "('d, 't) lmdb_api \<Rightarrow> bytes list \<Rightarrow> 'd \<times> 't TxnQueue \<Rightarrow> ('d \<times> 't TxnQueue) \<times> error option" where
  "lq_BatchDeleteLobChunks api keys s =
    (if tq_err (snd s) \<noteq> None then (s, tq_err (snd s))
     else tq_enqueue (lq_flushBatch api) False (map (lq_deleteLob api (tq_namespace (snd s))) keys) s)"

definition lq_BatchSetCells ::
  "('d, 't) lmdb_api \<Rightarrow> bytes list \<Rightarrow> (bytes \<times> bytes) list list \<Rightarrow> 'd \<times> 't TxnQueue \<Rightarrow> ('d \<times> 't TxnQueue) \<times> error option" where
  "lq_BatchSetCells api rowKeys columnEntriesPerRow s =
    (if tq_err (snd s) \<noteq> None then (s, tq_err (snd s))
     else if length rowKeys \<noteq> length columnEntriesPerRow
       then ((fst s, (snd s)\<lparr>tq_err := Some ErrInvalidArguments\<rparr>), Some ErrInvalidArguments)
     else tq_enqueue (lq_flushBatch api) False
       (map (\<lambda>(rowKey, es). lq_setCells api (tq_namespace (snd s)) rowKey es) (zip rowKeys columnEntriesPerRow)) s)"

definition lq_BatchDeleteCells ::
  "('d, 't) lmdb_api \<Rightarrow> bytes list \<Rightarrow> (bytes \<times> bytes) list list \<Rightarrow> 'd \<times> 't TxnQueue \<Rightarrow> ('d \<times> 't TxnQueue) \<times> error option" where
  "lq_BatchDeleteCells api rowKeys columnEntriesPerRow s =
    (if tq_err (snd s) \<noteq> None then (s, tq_err (snd s))
     else if length rowKeys \<noteq> length columnEntriesPerRow
       then ((fst s, (snd s)\<lparr>tq_err := Some ErrInvalidArguments\<rparr>), Some ErrInvalidArguments)
     else tq_enqueue (lq_flushBatch api) False
       (map (\<lambda>(rowKey, es). lq_deleteCells api (tq_namespace (snd s)) rowKey es) (zip rowKeys columnEntriesPerRow)) s)"

definition lq_BatchDeleteRows ::
  "('d, 't) lmdb_api \<Rightarrow> bytes list \<Rightarrow> 'd \<times> 't TxnQueue \<Rightarrow> ('d \<times> 't TxnQueue) \<times> error option" where
  "lq_BatchDeleteRows api rowKeys s =
    (if tq_err (snd s) \<noteq> None then (s, tq_err (snd s))
     else tq_enqueue (lq_flushBatch api) False (map (lq_deleteRow api (tq_namespace (snd s))) rowKeys) s)"

text \<open>The calls of \<open>txnWriter\<close>; a single key is a batch of one.\<close>

definition lq_call :: "('d, 't) lmdb_api \<Rightarrow> storeCall \<Rightarrow> 'd \<times> 't TxnQueue \<Rightarrow> ('d \<times> 't TxnQueue) \<times> error option" where
  "lq_call api c s = (case c of
     CSetKV k v \<Rightarrow> lq_BatchPutKV api [k] [v] s
   | CBatchSetKV ks vs \<Rightarrow> lq_BatchPutKV api ks vs s
   | CSetLobChunks k cs checksum \<Rightarrow> lq_SetLobChunks api k cs checksum s
   | CBatchSetCells rs ess \<Rightarrow> lq_BatchSetCells api rs ess s
   | CBatchDeleteCells rs ess \<Rightarrow> lq_BatchDeleteCells api rs ess s
   | CBatchDeleteRows rs \<Rightarrow> lq_BatchDeleteRows api rs s
   | CDeleteKV k \<Rightarrow> lq_BatchDeleteKV api [k] s
   | CBatchDeleteKV ks \<Rightarrow> lq_BatchDeleteKV api ks s
   | CBatchDeleteLobChunks ks \<Rightarrow> lq_BatchDeleteLobChunks api ks s)"

section \<open>Correctness\<close>

lemma lq_putKeys_forEach: "snd (lq_putKeys api ns es c t) = forEach (\<lambda>(k, v). api_Put api ns k v) es t"
  by (induction api ns es c t rule: lq_putKeys.induct) (auto simp: Let_def split: sum.splits)

lemma lq_delKeys_forEach: "snd (lq_delKeys api ns ks c t) = forEach (lmdb_del api ns) ks t"
  by (induction api ns ks c t rule: lq_delKeys.induct) (auto simp: lmdb_del_def split: sum.splits)

lemma lq_deleteRowLoop_forEach:
  "snd (lq_deleteRowLoop api ns p xs c t) = forEach (lmdb_del api ns) (map fst (takeWhile (\<lambda>x. prefix p (fst x)) xs)) t"
  by (induction api ns p xs c t rule: lq_deleteRowLoop.induct) (auto split: sum.splits)

text \<open>A database whose \<open>Get\<close> and \<open>Del\<close> fail only on missing keys; the deletion of large objects relies on it.\<close>

definition only_missing :: "('d, 't) lmdb_api \<Rightarrow> bool" where
  "only_missing api \<longleftrightarrow> (\<forall>ns k t e. api_Delete api ns k t = Inl e \<or> lm_Get api ns k t = Inl e \<longrightarrow> e = ErrNotFound)"

lemma lq_dropKeys_forEach:
  assumes "only_missing api" shows "Inr (snd (lq_dropKeys api ns ks c t)) = forEach (lmdb_del api ns) ks t"
proof (induction ks arbitrary: c t)
  case (Cons k ks)
  show ?case
  proof (cases "api_Delete api ns k t")
    case (Inl e)
    then have "e = ErrNotFound" using assms by (auto simp: only_missing_def)
    then show ?thesis using Inl Cons by (simp add: lmdb_del_def)
  qed (use Cons in \<open>simp add: lmdb_del_def\<close>)
qed simp

definition deletes_lobs :: "storeCall \<Rightarrow> bool" where
  "deletes_lobs c = (case c of CBatchDeleteLobChunks _ \<Rightarrow> True | _ \<Rightarrow> False)"

context lmdb_store
begin

lemma lq_flush_writer: "txn_writer NK NR NB dview view (lq_flushBatch api)"
proof
  fix d d' :: 'd and q q' :: "'t TxnQueue" and u sops
  assume f: "lq_flushBatch api (d, q) = ((d', q'), None)" and q: "tq_err q = None" "stores NK NR NB (dview d) (tq_namespace q) u"
    and ops: "list_all2 (qrefines NK NR NB view (tq_namespace q)) (tq_opsQueue q) sops"
  show "stores NK NR NB (dview d') (tq_namespace q) (fold apply_sop sops u)
        \<and> (\<forall>n. n \<noteq> tq_namespace q \<longrightarrow> dview d' n = dview d n)
        \<and> tq_opsQueue q' = [] \<and> tq_err q' = None \<and> tq_namespace q' = tq_namespace q \<and> tq_maxBatchSize q' = tq_maxBatchSize q"
  proof (cases "tq_opsQueue q = []")
    case True
    then show ?thesis using f q ops by (auto simp: lq_flushBatch_def)
  next
    case False
    then obtain t t' c where t: "api_Begin api d = Inr t" "runOps (tq_opsQueue q) (tq_counters q) t = (c, Inr t')"
        "api_Commit api t' d = Inr d'" "q' = tq_reset c q"
      using f q(1) by (auto simp: lq_flushBatch_def split: sum.splits prod.splits if_splits)
    have "Update api (\<lambda>t. snd (runOps (tq_opsQueue q) (tq_counters q) t)) d = (d', None)"
      using t by (simp add: Update_def UpdateWith_def)
    from refines_Update [OF q(2) this refines_runOps [OF ops]] t(4) q(1) show ?thesis by (simp add: tq_reset_def)
  qed
next
  fix d d' :: 'd and q q' :: "'t TxnQueue" and e
  assume "lq_flushBatch api (d, q) = ((d', q'), Some e)"
  then show "d' = d \<and> tq_namespace q' = tq_namespace q"
    by (auto simp: lq_flushBatch_def tq_reset_def split: sum.splits prod.splits if_splits)
qed

lemma q_put_nth: "NK k \<Longrightarrow> i < length vs \<Longrightarrow> qrefines NK NR NB view ns (lq_put api ns vs i k) (PutKV k (vs ! i))"
  unfolding qrefines_def lq_put_def using refines_Put [of k ns "vs ! i"] unfolding refines_def by (auto split: sum.splits)

lemma q_delete: "NK k \<Longrightarrow> qrefines NK NR NB view ns (lq_delete api ns k) (DelKV k)"
proof -
  assume "NK k"
  moreover have "snd (lq_delete api ns k c t) = lmdb_del api ns (KeyKV k) t" for c t
    by (auto simp: lq_delete_def lmdb_del_def split: sum.splits)
  ultimately show ?thesis using refines_DelKV by (simp add: qrefines_def)
qed

lemma q_setLob:
  assumes "NB key" "length chunks < 2 ^ 32"
  shows "qrefines NK NR NB view ns (lq_setLob api ns key chunks s) (SetLob key chunks s)"
proof -
  have e: "map (\<lambda>(i, chunk). (KeyBlobChunk key (i + 1), chunk)) (enumerate 0 chunks) = chunk_entries key chunks"
    by (rule nth_equalityI) (simp_all add: nth_enumerate_eq)
  have p: "forEach (\<lambda>(i, chunk). api_Put api ns (KeyBlobChunk key i) chunk) (enumerate 1 chunks) t
      = forEach (\<lambda>(k, v). api_Put api ns k v) (chunk_entries key chunks) t" for t
    by (simp add: chunk_entries_def forEach_map case_prod_unfold)
  have "snd (lq_setLob api ns key chunks s c t) = lmdb_setLob api ns key chunks s t" for c t
    unfolding lq_setLob_def lmdb_setLob_def Let_def e p andThen_def
    using lq_putKeys_forEach [of api ns "chunk_entries key chunks"]
    by (auto split: sum.splits prod.splits) (metis Inl_Inr_False snd_conv sum.inject)+
  then show ?thesis using refines_SetLob [OF assms] by (simp add: qrefines_def)
qed

lemma q_deleteLob:
  assumes "NB key" "only_missing api" shows "qrefines NK NR NB view ns (lq_deleteLob api ns key) (DelLob key)"
proof -
  have "snd (lq_deleteLob api ns key c t) = lmdb_deleteLob api ns key t" for c t
  proof (cases "lm_Get api ns (KeyBlobChunk key 0) t")
    case (Inl e)
    then have "e = ErrNotFound" using assms(2) by (auto simp: only_missing_def)
    then show ?thesis using Inl by (simp add: lq_deleteLob_def lmdb_deleteLob_def)
  next
    case (Inr v)
    let ?ks = "map (KeyBlobChunk key) [1..<Suc (chunkCountOf v)]"
    have "forEach (\<lambda>i. lmdb_del api ns (KeyBlobChunk key i)) [1..<Suc (chunkCountOf v)] t = Inr (snd (lq_dropKeys api ns ?ks c t))"
      using lq_dropKeys_forEach [OF assms(2), of ns ?ks c t] by (simp add: forEach_map del: upt_Suc)
    then show ?thesis using Inr
      by (auto simp: lq_deleteLob_def lmdb_deleteLob_def andThen_def simp del: upt_Suc split: prod.splits sum.splits)
  qed
  then show ?thesis using refines_DelLob [OF assms(1)] by (simp add: qrefines_def)
qed

lemma q_setCells: "NR r \<Longrightarrow> qrefines NK NR NB view ns (lq_setCells api ns r es) (SetCells r es)"
proof -
  assume "NR r"
  moreover have "snd (lq_setCells api ns r es c t) = forEach (\<lambda>(k, v). api_Put api ns (KeyColumn r k) v) es t" for c t
    by (simp add: lq_setCells_def lq_putKeys_forEach forEach_map case_prod_unfold)
  ultimately show ?thesis using refines_SetCells by (simp add: qrefines_def)
qed

lemma q_deleteCells: "NR r \<Longrightarrow> qrefines NK NR NB view ns (lq_deleteCells api ns r es) (DelCells r (map fst es))"
proof -
  assume "NR r"
  moreover have "snd (lq_deleteCells api ns r es c t) = forEach (\<lambda>(k, _). lmdb_del api ns (KeyColumn r k)) es t" for c t
    using lq_delKeys_forEach [of api ns "map (\<lambda>(key, _). KeyColumn r key) es" c t]
    by (auto simp: lq_deleteCells_def forEach_map case_prod_unfold split: prod.splits sum.splits)
  ultimately show ?thesis using refines_DelCells by (simp add: qrefines_def)
qed

lemma q_deleteRow:
  assumes "NR r" shows "qrefines NK NR NB view ns (lq_deleteRow api ns r) (DelRow r)"
  unfolding qrefines_def refines_def
proof (intro allI impI)
  fix c t m u t' assume v: "view t ns = Some m" "rep NK NR NB m u" "snd (lq_deleteRow api ns r c t) = Inr t'"
  let ?xs = "takeWhile (\<lambda>x. prefix (RowKey r) (fst x)) (api_Seek api ns (RowKey r) t)"
  have "forEach (lmdb_del api ns) (map fst ?xs) t = Inr t'"
    using v(3) by (simp add: lq_deleteRow_def lq_deleteRowLoop_forEach split: option.splits)
  then have "view t' = (view t)(ns \<mapsto> del_all (map fst ?xs) m)" using moves_dels [OF v(1)] by (simp add: moves_def)
  then show "\<exists>m'. view t' = (view t)(ns \<mapsto> m') \<and> rep NK NR NB m' (fold apply_sop [DelRow r] u)"
    using rep_del_row [OF v(2) assms] del_scanned [OF v(1)] by auto
qed

lemma q_puts:
  assumes "list_all (sop_ok NK NR NB) (map (\<lambda>(k, v). PutKV k v) (zip ks vs))" "length ks = length vs"
  shows "list_all2 (qrefines NK NR NB view ns) (map (\<lambda>(i, key). lq_put api ns vs i key) (enumerate 0 ks)) (map (\<lambda>(k, v). PutKV k v) (zip ks vs))"
proof (rule list_all2_all_nthI)
  fix n assume "n < length (map (\<lambda>(i, key). lq_put api ns vs i key) (enumerate 0 ks))"
  then have n: "n < length ks" by simp
  have "NK (ks ! n)" using assms n by (simp add: list_all_length)
  then show "qrefines NK NR NB view ns (map (\<lambda>(i, key). lq_put api ns vs i key) (enumerate 0 ks) ! n) (map (\<lambda>(k, v). PutKV k v) (zip ks vs) ! n)"
    using q_put_nth [of "ks ! n" n vs ns] n assms(2) by (simp add: nth_enumerate_eq)
qed (use assms(2) in simp)

lemma q_map:
  "(\<And>x. x \<in> set xs \<Longrightarrow> qrefines NK NR NB view ns (f x) (g x)) \<Longrightarrow> list_all2 (qrefines NK NR NB view ns) (map f xs) (map g xs)"
  by (simp add: list_all2_map1 list_all2_map2 list_all2_same)

lemma lq_queues:
  assumes "call_ok NK NR NB c" "paired c" "deletes_lobs c \<Longrightarrow> only_missing api"
  shows "txn_writer.queues NK NR NB view (lq_flushBatch api) (lq_call api) ns c"
proof -
  note def = txn_writer.queues_def [OF lq_flush_writer]
  note ok = assms(1) [unfolded call_ok_def]
  let ?ops = "list_all2 (qrefines NK NR NB view ns)"
  have by_ops: ?thesis if "\<And>d q. tq_err q = None \<Longrightarrow> tq_namespace q = ns \<Longrightarrow> lq_call api c (d, q) = tq_enqueue (lq_flushBatch api) force ops (d, q)"
      "?ops ops (call_sops c)" for ops force
    unfolding def using that by blast
  have refused: ?thesis if "\<And>d q. tq_err q = None \<Longrightarrow> lq_call api c (d, q) = ((d, q\<lparr>tq_err := Some ErrInvalidArguments\<rparr>), Some ErrInvalidArguments)"
    unfolding def using that by auto
  show ?thesis
  proof (cases c)
    case (CSetKV k v)
    show ?thesis by (rule by_ops [of False "map (\<lambda>(i, key). lq_put api ns [v] i key) (enumerate 0 [k])"])
        (use CSetKV q_puts [of "[k]" "[v]" ns] ok in \<open>simp_all add: lq_call_def lq_BatchPutKV_def\<close>)
  next
    case (CBatchSetKV ks vs)
    show ?thesis by (rule by_ops [of False "map (\<lambda>(i, key). lq_put api ns vs i key) (enumerate 0 ks)"])
        (use CBatchSetKV q_puts [of ks vs ns] ok assms(2) in \<open>simp_all add: lq_call_def lq_BatchPutKV_def paired_def\<close>)
  next
    case (CSetLobChunks k cs s)
    show ?thesis by (rule by_ops [of True "[lq_setLob api ns k cs s]"])
        (use CSetLobChunks q_setLob ok in \<open>simp_all add: lq_call_def lq_SetLobChunks_def\<close>)
  next
    case (CBatchSetCells rs ess)
    show ?thesis
    proof (cases "length rs = length ess")
      case True
      have "?ops (map (\<lambda>(r, es). lq_setCells api ns r es) (zip rs ess)) (call_sops c)"
        unfolding CBatchSetCells call_sops.simps by (rule q_map) (use ok CBatchSetCells in \<open>fastforce simp: list_all_iff intro: q_setCells\<close>)
      then show ?thesis by (intro by_ops) (use CBatchSetCells True in \<open>simp_all add: lq_call_def lq_BatchSetCells_def\<close>)
    qed (intro refused, use CBatchSetCells in \<open>simp add: lq_call_def lq_BatchSetCells_def\<close>)
  next
    case (CBatchDeleteCells rs ess)
    show ?thesis
    proof (cases "length rs = length ess")
      case True
      have "?ops (map (\<lambda>(r, es). lq_deleteCells api ns r es) (zip rs ess)) (call_sops c)"
        unfolding CBatchDeleteCells call_sops.simps by (rule q_map) (use ok CBatchDeleteCells in \<open>fastforce simp: list_all_iff intro: q_deleteCells\<close>)
      then show ?thesis by (intro by_ops) (use CBatchDeleteCells True in \<open>simp_all add: lq_call_def lq_BatchDeleteCells_def\<close>)
    qed (intro refused, use CBatchDeleteCells in \<open>simp add: lq_call_def lq_BatchDeleteCells_def\<close>)
  next
    case (CBatchDeleteRows rs)
    have "?ops (map (lq_deleteRow api ns) rs) (call_sops c)"
      unfolding CBatchDeleteRows call_sops.simps by (rule q_map) (use ok CBatchDeleteRows in \<open>auto simp: list_all_iff intro: q_deleteRow\<close>)
    then show ?thesis by (intro by_ops) (use CBatchDeleteRows in \<open>simp_all add: lq_call_def lq_BatchDeleteRows_def\<close>)
  next
    case (CDeleteKV k)
    show ?thesis by (rule by_ops [of False "[lq_delete api ns k]"])
        (use CDeleteKV q_delete ok in \<open>simp_all add: lq_call_def lq_BatchDeleteKV_def\<close>)
  next
    case (CBatchDeleteKV ks)
    have "?ops (map (lq_delete api ns) ks) (call_sops c)"
      unfolding CBatchDeleteKV call_sops.simps by (rule q_map) (use ok CBatchDeleteKV in \<open>auto simp: list_all_iff intro: q_delete\<close>)
    then show ?thesis by (intro by_ops) (use CBatchDeleteKV in \<open>simp_all add: lq_call_def lq_BatchDeleteKV_def\<close>)
  next
    case (CBatchDeleteLobChunks ks)
    have "?ops (map (lq_deleteLob api ns) ks) (call_sops c)"
      unfolding CBatchDeleteLobChunks call_sops.simps by (rule q_map) (use ok CBatchDeleteLobChunks assms(3) in \<open>auto simp: list_all_iff deletes_lobs_def intro: q_deleteLob\<close>)
    then show ?thesis by (intro by_ops) (use CBatchDeleteLobChunks in \<open>simp_all add: lq_call_def lq_BatchDeleteLobChunks_def\<close>)
  qed
qed

text \<open>A sequence of calls and a final \<open>Commit\<close> without errors.\<close>

lemma lq_commits:
  assumes "runCalls (lq_call api) cs (d, NewTxnQueue ns n) = (s1, None)" "lq_Commit api s1 = ((d2, q2), None)"
    and "\<forall>c \<in> set cs. call_ok NK NR NB c \<and> paired c \<and> (deletes_lobs c \<longrightarrow> only_missing api)" "stores NK NR NB (dview d) ns u"
  shows "stores_over NK NR NB (dview d) (dview d2) ns (fold apply_sop (concat (map call_sops cs)) u)"
proof -
  obtain d1 q1 where s1: "s1 = (d1, q1)" by (cases s1)
  have "tq_err q1 = None" using assms(2) s1 by (auto simp: lq_Commit_def split: if_splits)
  then have "lq_flushBatch api (d1, q1) = ((d2, q2), None)" using assms(2) s1 by (simp add: lq_Commit_def)
  with txn_writer.runCalls_commit [OF lq_flush_writer] assms(1,3,4) lq_queues s1 show ?thesis by blast
qed

text \<open>Whatever fails, the store is the result of a prefix of the operations.\<close>

lemma lq_prefix:
  assumes "runCalls (lq_call api) cs (d, NewTxnQueue ns n) = ((d1, q1), e)"
    and "\<forall>c \<in> set cs. call_ok NK NR NB c \<and> paired c \<and> (deletes_lobs c \<longrightarrow> only_missing api)" "stores NK NR NB (dview d) ns u"
  shows "\<exists>k. stores_over NK NR NB (dview d) (dview d1) ns (fold apply_sop (take k (concat (map call_sops cs))) u)"
  using txn_writer.runCalls_prefix [OF lq_flush_writer assms(1)] assms(2,3) lq_queues by blast

end

interpretation mlmdbq: txn_writer "plain KeyTypeKV" "plain KeyTypeWideColumn" "plain KeyTypeBlobChunk" mem_view mem_view "lq_flushBatch mem_lmdb"
  by (rule mlmdb.lq_flush_writer)

end
