(* ===== verification/StoreProps.thy ===== *)
theory StoreProps
  imports BoltProgress BoltQueue LmdbQueue
begin

text \<open>
  Properties of the storage drivers, for users that pass plain names and for the engine, which passes encoded keys. A
  database is a parameter that keeps the laws of \<open>TxnApi\<close>; the witnesses use the databases in memory.
\<close>

definition client_names :: "(bytes \<Rightarrow> bool) \<Rightarrow> (bytes \<Rightarrow> bool) \<Rightarrow> (bytes \<Rightarrow> bool) \<Rightarrow> bool" where
  "client_names NK NR NB \<longleftrightarrow>
    NK = plain KeyTypeKV \<and> NR = plain KeyTypeWideColumn \<and> NB = plain KeyTypeBlobChunk
    \<or> NK = encKV \<and> NR = encRow \<and> NB = encBlob"

lemma client_key_names: "client_names NK NR NB \<Longrightarrow> key_names NK NR NB"
  using user_names engine_names by (auto simp: client_names_def)

lemma client_user: "client_names (plain KeyTypeKV) (plain KeyTypeWideColumn) (plain KeyTypeBlobChunk)"
  by (simp add: client_names_def)

text \<open>An empty database in memory for the witnesses.\<close>

definition mem0 :: memdb where
  "mem0 = [''ns'' \<mapsto> []]"

definition u0 :: ustore where
  "u0 = \<lparr>u_kv = Map.empty, u_cell = (\<lambda>_. Map.empty), u_lob = Map.empty\<rparr>"

lemma stores_mem0: "stores NK NR NB (mem_view mem0) ''ns'' u0"
  by (simp add: stores_def rep_def mem_view_def mem0_def u0_def lob_slot_def)

definition bolt0 :: "memdb BoltDBEmbed" where
  "bolt0 = \<lparr>bb_db = mem0, bb_namespace = ''ns''\<rparr>"

definition lmdb0 :: "memdb LmdbEmbed" where
  "lmdb0 = \<lparr>le_env = mem0, le_dataDB = ''ns'', le_metaDB = ''meta''\<rparr>"

lemma bolt0_simps [simp]: "bb_db bolt0 = mem0" "bb_namespace bolt0 = ''ns''"
  by (simp_all add: bolt0_def)

lemma lmdb0_simps [simp]: "le_env lmdb0 = mem0" "le_dataDB lmdb0 = ''ns''"
  by (simp_all add: lmdb0_def)

lemma mem_bolt_Begin [simp]: "api_Begin mem_bolt = Inr"
  by (simp add: mem_bolt_def)

lemma mem_lmdb_simps [simp]: "api_Begin mem_lmdb = Inr" "lm_Get mem_lmdb ns k t = Inl e \<Longrightarrow> e = ErrNotFound"
  by (auto simp: mem_lmdb_def split: option.splits)

lemmas call_defs = call_ok_def valid_args_def single_row_def paired_def plain_def

text \<open>A sequence of calls that all succeed.\<close>

lemma runCalls_refine:
  assumes "\<And>c s s' u. P s u \<Longrightarrow> call c s = (s', None) \<Longrightarrow> ok c \<Longrightarrow> P s' (fold apply_sop (call_sops c) u)"
    and "runCalls call cs s = (s', None)" "P s u" "\<forall>c \<in> set cs. ok c"
  shows "P s' (fold apply_sop (concat (map call_sops cs)) u)"
  using assms(2-4)
proof (induction cs arbitrary: s u)
  case (Cons c cs)
  obtain s1 where "call c s = (s1, None)" "runCalls call cs s1 = (s', None)"
    using Cons.prems(1) by (auto split: prod.splits option.splits)
  with Cons assms(1) [OF Cons.prems(2)] show ?case by simp
qed simp

section \<open>Keys\<close>

text \<open>C25. The encoders of the drivers put every key into the key space of its kind, where \<open>ParseKeyKind\<close> finds it, and no two
  different names collide: values by key, cells by row and column, chunks by object and number. A scan over the
  prefix of a row meets the cells of that row only.\<close>

theorem storage_keys_distinct:
  assumes "plain KeyTypeWideColumn r"
  shows "(\<forall>k. ParseKeyKind (KeyKV k) = KeyKindKV) \<and> (\<forall>r c. ParseKeyKind (KeyColumn r c) = KeyKindWideColumn)
    \<and> (\<forall>b i. ParseKeyKind (KeyBlobChunk b i) = KeyKindBlobChunk) \<and> (\<forall>n. ParseKeyKind (KeySystem n) = KeyKindSystem)
    \<and> inj_on KeyKV {k. plain KeyTypeKV k}
    \<and> inj_on (\<lambda>(r, c). KeyColumn r c) {(r, c). plain KeyTypeWideColumn r}
    \<and> inj_on (\<lambda>(b, i). KeyBlobChunk b i) {(b, i). plain KeyTypeBlobChunk b \<and> i < 2 ^ 32}
    \<and> {(r', c). plain KeyTypeWideColumn r' \<and> prefix (RowKey r) (KeyColumn r' c)} = {r} \<times> UNIV"
  using assms by (auto simp: ParseKeyKind_keys inj_on_def KeyKV_inj KeyColumn_inj KeyBlobChunk_inj RowKey_prefix plain_def)

theorem storage_keys_distinct_witness:
  "{(r', c). plain KeyTypeWideColumn r' \<and> prefix (RowKey [7]) (KeyColumn r' c)} = {[7]} \<times> UNIV"
  using storage_keys_distinct [of "[7]"] by (simp add: plain_def)

section \<open>The bbolt driver\<close>

text \<open>C26. On a bbolt database every writing method does what it says to the abstract store, or it returns an error and the
  database is unchanged: no partial writes, and no effect on another key, row, object or bucket.\<close>

theorem bolt_call_atomic:
  assumes "bolt_laws api dview view" "client_names NK NR NB" "call_ok NK NR NB c"
    and "stores NK NR NB (dview (bb_db b)) (bb_namespace b) u" "bolt_call api c b = (b', r)"
  shows "bb_namespace b' = bb_namespace b
    \<and> (if r = None then stores NK NR NB (dview (bb_db b')) (bb_namespace b) (fold apply_sop (call_sops c) u)
        \<and> (\<forall>n. n \<noteq> bb_namespace b \<longrightarrow> dview (bb_db b') n = dview (bb_db b) n) else b' = b)"
  by (rule bolt_store.bolt_call_refines [OF bolt_store_names [OF assms(1) client_key_names [OF assms(2)]] assms(4,5,3)])

theorem bolt_call_atomic_witness:
  "case bolt_call mem_bolt (CBatchSetCells [[1], [2]] [[([3], [4])], []]) bolt0 of (b', r) \<Rightarrow>
    if r = None then stores (plain KeyTypeKV) (plain KeyTypeWideColumn) (plain KeyTypeBlobChunk) (mem_view (bb_db b')) ''ns''
      (u0\<lparr>u_cell := (\<lambda>_. Map.empty)([1] := [[3] \<mapsto> [4]])\<rparr>) else b' = bolt0"
proof -
  obtain b' r where b: "bolt_call mem_bolt (CBatchSetCells [[1], [2]] [[([3], [4])], []]) bolt0 = (b', r)" by fastforce
  have ok: "call_ok (plain KeyTypeKV) (plain KeyTypeWideColumn) (plain KeyTypeBlobChunk) (CBatchSetCells [[1], [2]] [[([3], [4])], []])"
    by (simp add: call_defs)
  have eq: "fold apply_sop (call_sops (CBatchSetCells [[1], [2]] [[([3], [4])], []])) u0
      = u0\<lparr>u_cell := (\<lambda>_. Map.empty)([1] := [[3] \<mapsto> [4]])\<rparr>" by (simp add: u0_def fun_eq_iff)
  show ?thesis
    using bolt_call_atomic [OF mem_bolt_laws client_user ok _ b, of u0] stores_mem0 unfolding b eq bolt0_simps prod.case by presburger
qed

text \<open>C27. On a database whose own calls succeed every writing method with arguments of matching lengths returns without error, and the
  store has the new contents.\<close>

theorem bolt_call_returns:
  assumes "bolt_laws api dview view" "reliable api view" "client_names NK NR NB" "call_ok NK NR NB c" "valid_args c"
    and "stores NK NR NB (dview (bb_db b)) (bb_namespace b) u"
  shows "\<exists>b'. bolt_call api c b = (b', None) \<and> bb_namespace b' = bb_namespace b
    \<and> stores NK NR NB (dview (bb_db b')) (bb_namespace b) (fold apply_sop (call_sops c) u)"
  using bolt_available.bolt_call_succeeds [OF bolt_available_names [OF assms(1,2) client_key_names [OF assms(3)]] assms(6,4,5)] by blast

theorem bolt_call_returns_witness:
  "\<exists>b'. bolt_call mem_bolt (CSetLobChunks [1] [[2], [3]] 9) bolt0 = (b', None)
    \<and> stores (plain KeyTypeKV) (plain KeyTypeWideColumn) (plain KeyTypeBlobChunk) (mem_view (bb_db b')) ''ns''
      (u0\<lparr>u_lob := [[1] \<mapsto> ([[2], [3]], 9)]\<rparr>)"
proof -
  have "call_ok (plain KeyTypeKV) (plain KeyTypeWideColumn) (plain KeyTypeBlobChunk) (CSetLobChunks [1] [[2], [3]] 9)"
      "valid_args (CSetLobChunks [1] [[2], [3]] 9)" by (simp_all add: call_defs)
  from bolt_call_returns [OF mem_bolt_laws mem_bolt_reliable client_user this, of bolt0 u0] stores_mem0
  show ?thesis by (auto simp: u0_def)
qed

text \<open>C28. The reading methods return what the abstract store holds, and \<open>ErrKeyNotFound\<close> for what it does not hold.
  A row scan returns the columns the filter selects, apart from a column with an empty name.\<close>

theorem bolt_reads:
  assumes "bolt_laws api dview view" "client_names NK NR NB" "stores NK NR NB (dview (bb_db b)) (bb_namespace b) u"
    and "api_Begin api (bb_db b) = Inr t" "NK k" "NR r" "NB l"
  shows "bolt_GetKV api k b = (case u_kv u k of None \<Rightarrow> Inl ErrKeyNotFound | Some v \<Rightarrow> Inr v)
    \<and> bolt_GetCell api r c b = (case u_cell u r c of None \<Rightarrow> Inl ErrKeyNotFound | Some v \<Rightarrow> Inr v)
    \<and> (\<exists>es. bolt_GetCells api r cs b = Inr es \<and> map_of es = u_cell u r |` set cs)
    \<and> (case bolt_ScanRowCells api r filt b of
         Inl e \<Rightarrow> e = ErrKeyNotFound \<and> selected filt (u_cell u r) = Map.empty
       | Inr es \<Rightarrow> map_of es = selected filt (u_cell u r) \<and> es \<noteq> [])
    \<and> bolt_GetLOBChunks api l b = (case u_lob u l of None \<Rightarrow> Inl ErrKeyNotFound | Some (chunks, s) \<Rightarrow> Inr chunks)"
proof -
  note store = bolt_store_names [OF assms(1) client_key_names [OF assms(2)]]
  show ?thesis
    using bolt_store.bolt_GetKV_ok [OF store assms(3,4,5)] bolt_store.bolt_GetCell_ok [OF store assms(3,4,6)]
      bolt_store.bolt_GetCells_ok [OF store assms(3,4,6)] bolt_store.bolt_ScanRowCells_ok [OF store assms(3,4,6)]
      bolt_store.bolt_GetLOBChunks_ok [OF store assms(3,4,7)] by blast
qed

theorem bolt_reads_witness:
  "bolt_GetKV mem_bolt [1] bolt0 = Inl ErrKeyNotFound \<and> bolt_GetLOBChunks mem_bolt [1] bolt0 = Inl ErrKeyNotFound"
  using bolt_reads [OF mem_bolt_laws client_user, of bolt0 u0 mem0 "[1]" "[1]" "[1]"] stores_mem0
  by (simp add: plain_def u0_def)

text \<open>C29. A large object written by \<open>SetLobChunks\<close> is read back chunk by chunk by \<open>GetLOBChunks\<close>, also when it replaces an
  object with more chunks, and after \<open>BatchDeleteLobChunks\<close> it is gone; other objects are read as before.\<close>

theorem lob_roundtrip:
  assumes "bolt_laws api dview view" "reliable api view" "client_names NK NR NB" "NB l" "NB l'" "l \<noteq> l'" "length chunks < 2 ^ 32"
    and "stores NK NR NB (dview (bb_db b)) (bb_namespace b) u"
  shows "\<exists>b1 b2. bolt_SetLobChunks api l chunks checksum b = (b1, None) \<and> bolt_GetLOBChunks api l b1 = Inr chunks
    \<and> bolt_GetLOBChunks api l' b1 = bolt_GetLOBChunks api l' b
    \<and> bolt_BatchDeleteLobChunks api [l] b1 = (b2, None) \<and> bolt_GetLOBChunks api l b2 = Inl ErrKeyNotFound
    \<and> bolt_GetLOBChunks api l' b2 = bolt_GetLOBChunks api l' b"
proof -
  note store = bolt_store_names [OF assms(1) client_key_names [OF assms(3)]]
  note avail = bolt_available_names [OF assms(1,2) client_key_names [OF assms(3)]]
  have read: "bolt_GetLOBChunks api x b' = (case u_lob u' x of None \<Rightarrow> Inl ErrKeyNotFound | Some (chunks, s) \<Rightarrow> Inr chunks)"
    if "stores NK NR NB (dview (bb_db b')) (bb_namespace b') u'" "NB x" for b' u' x
  proof -
    obtain t where "api_Begin api (bb_db b') = Inr t" using assms(2) unfolding reliable_def by blast
    from bolt_store.bolt_GetLOBChunks_ok [OF store that(1) this that(2)] show ?thesis .
  qed
  obtain b1 where b1: "bolt_SetLobChunks api l chunks checksum b = (b1, None)" "bb_namespace b1 = bb_namespace b"
      "stores NK NR NB (dview (bb_db b1)) (bb_namespace b1) (u\<lparr>u_lob := (u_lob u)(l \<mapsto> (chunks, checksum))\<rparr>)"
    using bolt_available.bolt_call_succeeds [OF avail assms(8), of "CSetLobChunks l chunks checksum"] assms(4,7)
    by (auto simp: call_defs bolt_call_def)
  obtain b2 where b2: "bolt_BatchDeleteLobChunks api [l] b1 = (b2, None)" "bb_namespace b2 = bb_namespace b1"
      "stores NK NR NB (dview (bb_db b2)) (bb_namespace b2) (u\<lparr>u_lob := (u_lob u)(l := None)\<rparr>)"
    using bolt_available.bolt_call_succeeds [OF avail b1(3), of "CBatchDeleteLobChunks [l]"] assms(4)
    by (auto simp: call_defs bolt_call_def)
  show ?thesis
    using b1(1) b2(1) read [OF b1(3) assms(4)] read [OF b1(3) assms(5)] read [OF b2(3) assms(4)] read [OF b2(3) assms(5)]
      read [OF assms(8,5)] assms(6) by simp
qed

theorem lob_roundtrip_witness:
  "\<exists>b1. bolt_SetLobChunks mem_bolt [1] [[2], [3]] 9 bolt0 = (b1, None) \<and> bolt_GetLOBChunks mem_bolt [1] b1 = Inr [[2], [3]]"
  using lob_roundtrip [OF mem_bolt_laws mem_bolt_reliable client_user, of "[1]" "[2]" "[[2], [3]]" bolt0 u0 9] stores_mem0
  by (auto simp: plain_def)

section \<open>The LMDB driver\<close>



text \<open>C31. When the cells of a row are the last keys of an LMDB database, \<open>BatchDeleteRows\<close> deletes that row and returns
  without visiting the rows that follow it in the argument.\<close>

theorem lmdb_delete_rows_stops:
  assumes "lmdb_laws api dview view" "dview (le_env l) (le_dataDB l) = Some m"
    and "\<And>k. m k \<noteq> None \<Longrightarrow> RowKey r \<le> k \<Longrightarrow> prefix (RowKey r) k"
  shows "lmdb_BatchDeleteRows api (r # rs) l = lmdb_BatchDeleteRows api [r] l"
  using assms(2,3) by (rule lmdb_store.lmdb_BatchDeleteRows_stops [OF lmdb_store_names [OF assms(1) user_names]])

definition two_rows :: "memdb LmdbEmbed" where
  "two_rows = \<lparr>le_env = [''ns'' \<mapsto> [(KeyColumn [1] [5], [10]), (KeyColumn [2] [5], [20])]], le_dataDB = ''ns'', le_metaDB = ''meta''\<rparr>"

theorem lmdb_delete_rows_stops_witness:
  "(case lmdb_BatchDeleteRows mem_lmdb [[2], [1]] two_rows of (l', n, e) \<Rightarrow>
      e = None \<and> n = 1 \<and> lmdb_GetCell mem_lmdb [1] [5] l' = Inr [10])"
proof -
  have k: "KeyColumn [1] [5] = [253, 0, 0, 0, 1, 1, 5]" "KeyColumn [2] [5] = [253, 0, 0, 0, 1, 2, 5]"
    "RowKey [2] = [253, 0, 0, 0, 1, 2]" "RowKey [1] = [253, 0, 0, 0, 1, 1]" by code_simp+
  have "lmdb_BatchDeleteRows mem_lmdb [[2], [1]] two_rows = lmdb_BatchDeleteRows mem_lmdb [[2]] two_rows"
    by (rule lmdb_delete_rows_stops [OF mem_lmdb_laws, of _ "map_of [(KeyColumn [1] [5], [10]), (KeyColumn [2] [5], [20])]"])
      (auto simp: two_rows_def mem_view_def k split: if_splits)
  moreover have "lmdb_BatchDeleteRows mem_lmdb [[2]] two_rows =
      (two_rows\<lparr>le_env := [''ns'' \<mapsto> [(KeyColumn [1] [5], [10])]]\<rparr>, 1, None)"
    by (simp add: lmdb_BatchDeleteRows_def UpdateWith_def two_rows_def mem_lmdb_def mem_Seek_def lmdb_del_def mem_Delete_def k)
  moreover have "lmdb_GetCell mem_lmdb [1] [5] (two_rows\<lparr>le_env := [''ns'' \<mapsto> [(KeyColumn [1] [5], [10])]]\<rparr>) = Inr [10]"
    by (simp add: lmdb_GetCell_def View_def andThen_def lmdb_lookup_def mem_lmdb_def two_rows_def)
  ultimately show ?thesis by simp
qed

section \<open>The drivers agree\<close>


lemma mem0_calls:
  "runCalls (bolt_call mem_bolt) [CSetKV [1] [2]] bolt0 = (bolt0\<lparr>bb_db := [''ns'' \<mapsto> [([254, 1], [2])]]\<rparr>, None)"
  "runCalls (lmdb_call mem_lmdb) [CSetKV [1] [2]] lmdb0 = (lmdb0\<lparr>le_env := [''ns'' \<mapsto> [([254, 1], [2])]]\<rparr>, None)"
  by (simp_all add: bolt_call_def bolt_SetKV_def bolt_Update_def lmdb_call_def lmdb_SetKV_def lmdb_Update_def Update_def UpdateWith_def
      mem_bolt_def mem_lmdb_def mem_Put_def mem0_def bolt0_def lmdb0_def KeyKV_def)


section \<open>The transaction queues\<close>

text \<open>C33. Calls on a bbolt transaction queue, however they are split into flushes, and the final \<open>Commit\<close> leave the store that the operations
  give in order; when a call fails, the store is the result of some of the operations, none skipped and none out
  of order.\<close>

theorem bolt_queue_commits:
  assumes "bolt_laws api dview view" "client_names NK NR NB" "\<forall>c \<in> set cs. call_ok NK NR NB c \<and> paired c"
    and "stores NK NR NB (dview d) ns u" "runCalls (bq_call api) cs (d, NewTxnQueue ns n) = (s1, e)"
  shows "(e = None \<longrightarrow> snd (bq_Commit api s1) = None \<longrightarrow>
      stores NK NR NB (dview (fst (fst (bq_Commit api s1)))) ns (fold apply_sop (concat (map call_sops cs)) u))
    \<and> (\<exists>k. stores NK NR NB (dview (fst s1)) ns (fold apply_sop (take k (concat (map call_sops cs))) u))"
proof -
  note store = bolt_store_names [OF assms(1) client_key_names [OF assms(2)]]
  obtain d1 q1 where s1: "s1 = (d1, q1)" by (cases s1)
  obtain d2 q2 e2 where c: "bq_Commit api s1 = ((d2, q2), e2)" by (metis prod.exhaust)
  show ?thesis
    using bolt_store.bq_commits [OF store _ _ assms(3,4)] bolt_store.bq_prefix [OF store assms(5) [unfolded s1] assms(3,4)]
      assms(5) c s1 by (auto simp: stores_over_def)
qed

theorem bolt_queue_commits_witness:
  "\<exists>k. stores (plain KeyTypeKV) (plain KeyTypeWideColumn) (plain KeyTypeBlobChunk)
    (mem_view (fst (fst (runCalls (bq_call mem_bolt) [CBatchSetKV [[1]] [[2]], CBatchDeleteKV [[1]]] (mem0, NewTxnQueue ''ns'' 1))))) ''ns''
    (fold apply_sop (take k [PutKV [1] [2], DelKV [1]]) u0)"
proof -
  have "\<forall>c \<in> set [CBatchSetKV [[1]] [[2]], CBatchDeleteKV [[1]]].
      call_ok (plain KeyTypeKV) (plain KeyTypeWideColumn) (plain KeyTypeBlobChunk) c \<and> paired c" by (simp add: call_defs)
  from bolt_queue_commits [where d = mem0 and dview = mem_view and ns = "''ns''" and n = 1, OF mem_bolt_laws client_user this stores_mem0 surjective_pairing]
  show ?thesis by simp
qed



end
