(* ===== verification/BTree.thy ===== *)
theory BTree
  imports BoltProgress BoltQueue
begin

text \<open>
  The store as the engine sees it: the interfaces \<open>BTreeStore\<close> and \<open>TxnBatcher\<close> of \<open>dbkernel/internal/common.go\<close> as a record
  of operations, and the locale \<open>btree_store\<close> with what they promise for the encoded keys the engine passes. \<open>R d u\<close> relates a
  driver to the abstract store it holds and \<open>M d\<close> is its metadata. The bbolt driver with its transaction queue is
  an instance, on any database that is available.
\<close>

record ('d, 'q) btree_api =
  bt_call :: "storeCall \<Rightarrow> 'd \<Rightarrow> 'd \<times> error option"
  bt_GetKV :: "bytes \<Rightarrow> 'd \<Rightarrow> error + bytes"
  bt_GetLOBChunks :: "bytes \<Rightarrow> 'd \<Rightarrow> error + bytes list"
  bt_ScanRowCells :: "bytes \<Rightarrow> (bytes \<Rightarrow> bool) option \<Rightarrow> 'd \<Rightarrow> error + (bytes \<times> bytes) list"
  bt_StoreMetadata :: "bytes \<Rightarrow> bytes \<Rightarrow> 'd \<Rightarrow> 'd \<times> error option"
  bt_RetrieveMetadata :: "bytes \<Rightarrow> 'd \<Rightarrow> error + bytes"
  bt_FSync :: "'d \<Rightarrow> error option"
  bt_NewTxnQueue :: "nat \<Rightarrow> 'd \<Rightarrow> 'q"
  bt_txnCall :: "storeCall \<Rightarrow> 'd \<times> 'q \<Rightarrow> ('d \<times> 'q) \<times> error option"
  bt_txnCommit :: "'d \<times> 'q \<Rightarrow> ('d \<times> 'q) \<times> error option"

definition engine_call :: "storeCall \<Rightarrow> bool" where
  "engine_call c \<longleftrightarrow> call_ok encKV encRow encBlob c \<and> valid_args c"

lemma engine_call_paired: "engine_call c \<Longrightarrow> paired c"
  by (auto simp: engine_call_def valid_args_def paired_def split: storeCall.splits)

locale btree_store =
  fixes bt :: "('d, 'q) btree_api" and R :: "'d \<Rightarrow> ustore \<Rightarrow> bool" and M :: "'d \<Rightarrow> bytes \<rightharpoonup> bytes"
  assumes call: "R d u \<Longrightarrow> engine_call c \<Longrightarrow>
      \<exists>d'. bt_call bt c d = (d', None) \<and> R d' (fold apply_sop (call_sops c) u) \<and> M d' = M d"
    and getkv: "R d u \<Longrightarrow> encKV k \<Longrightarrow> bt_GetKV bt k d = (case u_kv u k of None \<Rightarrow> Inl ErrKeyNotFound | Some v \<Rightarrow> Inr v)"
    and getlob: "R d u \<Longrightarrow> encBlob k \<Longrightarrow>
      bt_GetLOBChunks bt k d = (case u_lob u k of None \<Rightarrow> Inl ErrKeyNotFound | Some (chunks, s) \<Rightarrow> Inr chunks)"
    and scan: "R d u \<Longrightarrow> encRow r \<Longrightarrow> (case bt_ScanRowCells bt r filt d of
        Inl e \<Rightarrow> e = ErrKeyNotFound \<and> selected filt (u_cell u r) = Map.empty
      | Inr es \<Rightarrow> map_of es = selected filt (u_cell u r) \<and> es \<noteq> [])"
    and put_meta: "R d u \<Longrightarrow> \<exists>d'. bt_StoreMetadata bt k v d = (d', None) \<and> R d' u \<and> M d' = (M d)(k \<mapsto> v)"
    and get_meta: "R d u \<Longrightarrow> bt_RetrieveMetadata bt k d = (case M d k of None \<Rightarrow> Inl ErrKeyNotFound | Some v \<Rightarrow> Inr v)"
    and queue: "R d u \<Longrightarrow> \<forall>c \<in> set cs. engine_call c \<Longrightarrow>
      \<exists>s1. runCalls (bt_txnCall bt) cs (d, bt_NewTxnQueue bt n d) = (s1, None) \<and> M (fst s1) = M d
      \<and> (\<exists>k. R (fst s1) (fold apply_sop (take k (concat (map call_sops cs))) u))
      \<and> (\<exists>d2 q2. bt_txnCommit bt s1 = ((d2, q2), None) \<and> R d2 (fold apply_sop (concat (map call_sops cs)) u) \<and> M d2 = M d)"
begin

lemma calls:
  assumes "R d u" "\<forall>c \<in> set cs. engine_call c"
  shows "\<exists>d'. runCalls (bt_call bt) cs d = (d', None) \<and> R d' (fold apply_sop (concat (map call_sops cs)) u) \<and> M d' = M d"
  using assms
proof (induction cs arbitrary: d u)
  case (Cons c cs)
  obtain d1 where d1: "bt_call bt c d = (d1, None)" "R d1 (fold apply_sop (call_sops c) u)" "M d1 = M d"
    using call [OF Cons.prems(1)] Cons.prems(2) by auto
  from Cons.IH [OF d1(2)] Cons.prems(2) obtain d' where "runCalls (bt_call bt) cs d1 = (d', None)"
      "R d' (fold apply_sop (concat (map call_sops cs)) (fold apply_sop (call_sops c) u))" "M d' = M d1" by auto
  with d1 show ?case by simp
qed simp

end

section \<open>The bbolt driver\<close>

text \<open>\<open>sync\<close> is the outcome of \<open>bbolt.DB.Sync\<close>. The queue shares the database with the driver.\<close>

definition bolt_btree :: "('d, 't) bolt_api \<Rightarrow> ('d \<Rightarrow> error option) \<Rightarrow> ('d BoltDBEmbed, 't TxnQueue) btree_api" where
  "bolt_btree api sync = \<lparr>bt_call = bolt_call api, bt_GetKV = bolt_GetKV api, bt_GetLOBChunks = bolt_GetLOBChunks api,
     bt_ScanRowCells = bolt_ScanRowCells api, bt_StoreMetadata = bolt_StoreMetadata api,
     bt_RetrieveMetadata = bolt_RetrieveMetadata api, bt_FSync = (\<lambda>b. sync (bb_db b)),
     bt_NewTxnQueue = (\<lambda>n b. NewTxnQueue (bb_namespace b) n),
     bt_txnCall = (\<lambda>c (b, q). case bq_call api c (bb_db b, q) of ((d, q'), e) \<Rightarrow> ((b\<lparr>bb_db := d\<rparr>, q'), e)),
     bt_txnCommit = (\<lambda>(b, q). case bq_Commit api (bb_db b, q) of ((d, q'), e) \<Rightarrow> ((b\<lparr>bb_db := d\<rparr>, q'), e))\<rparr>"

definition bolt_meta :: "('d \<Rightarrow> dbview) \<Rightarrow> 'd BoltDBEmbed \<Rightarrow> bytes \<rightharpoonup> bytes" where
  "bolt_meta dview b k = (case dview (bb_db b) sysBucketMetaData of None \<Rightarrow> None | Some m \<Rightarrow> m k)"

definition bolt_holds :: "('d \<Rightarrow> dbview) \<Rightarrow> 'd BoltDBEmbed \<Rightarrow> ustore \<Rightarrow> bool" where
  "bolt_holds dview b u \<longleftrightarrow> stores encKV encRow encBlob (dview (bb_db b)) (bb_namespace b) u
    \<and> bb_namespace b \<noteq> sysBucketMetaData \<and> dview (bb_db b) sysBucketMetaData \<noteq> None"

lemma bolt_txnCalls:
  "runCalls (bt_txnCall (bolt_btree api sync)) cs (b, q) =
    (case runCalls (bq_call api) cs (bb_db b, q) of ((d, q'), e) \<Rightarrow> ((b\<lparr>bb_db := d\<rparr>, q'), e))"
proof (induction cs arbitrary: b q)
  case (Cons c cs)
  obtain d1 q1 e1 where c: "bq_call api c (bb_db b, q) = ((d1, q1), e1)" by (metis prod.exhaust)
  have "bt_txnCall (bolt_btree api sync) c (b, q) = ((b\<lparr>bb_db := d1\<rparr>, q1), e1)" using c by (simp add: bolt_btree_def)
  then show ?case using Cons.IH [of "b\<lparr>bb_db := d1\<rparr>" q1] c by (cases e1) (simp_all split: prod.splits)
qed simp

lemma bolt_holds_frame:
  assumes "bolt_holds dview b u" "stores encKV encRow encBlob (dview d) (bb_namespace b) u'"
    and "\<forall>n. n \<noteq> bb_namespace b \<longrightarrow> dview d n = dview (bb_db b) n"
  shows "bolt_holds dview (b\<lparr>bb_db := d\<rparr>) u' \<and> bolt_meta dview (b\<lparr>bb_db := d\<rparr>) = bolt_meta dview b"
proof -
  have "dview d sysBucketMetaData = dview (bb_db b) sysBucketMetaData" using assms(1,3) unfolding bolt_holds_def by metis
  then show ?thesis using assms(1,2) by (simp add: bolt_holds_def bolt_meta_def fun_eq_iff)
qed

context bolt_available
begin

lemma Update_meta:
  assumes "dview (bb_db b) sysBucketMetaData = Some m"
  shows "\<exists>d'. bolt_StoreMetadata api k v b = (b\<lparr>bb_db := d'\<rparr>, None) \<and> dview d' = (dview (bb_db b))(sysBucketMetaData \<mapsto> m(k \<mapsto> v))"
proof -
  obtain t where t: "api_Begin api (bb_db b) = Inr t" using available unfolding reliable_def by blast
  have v: "view t sysBucketMetaData = Some m" using begin_view [OF t] assms by simp
  have mv: "moves view sysBucketMetaData t (api_Put api sysBucketMetaData k v t) (m(k \<mapsto> v))" using moves_Put [OF v] .
  obtain t' where t': "api_Put api sysBucketMetaData k v t = Inr t'" using available v unfolding reliable_def by blast
  then have "view t' = (view t)(sysBucketMetaData \<mapsto> m(k \<mapsto> v))" using mv by (simp add: moves_def)
  moreover obtain d' where d': "api_Commit api t' (bb_db b) = Inr d'" using available unfolding reliable_def by blast
  moreover have "bolt_StoreMetadata api k v b = (b\<lparr>bb_db := d'\<rparr>, None)"
    using t t' d' bucket [OF v] by (simp add: bolt_StoreMetadata_def Update_def UpdateWith_def)
  ultimately show ?thesis using begin_view [OF t] commit_view [OF d'] by auto
qed

text \<open>The transaction queue makes progress: its closures succeed on a bucket that represents a store.\<close>

lemma works_runOps:
  assumes "list_all2 (qrefines NK NR NB view ns) ops sops" "\<forall>op \<in> set ops. \<forall>c. works ns (\<lambda>t. snd (op c t))"
  shows "works ns (\<lambda>t. snd (runOps ops c t))"
  using assms
proof (induction arbitrary: c rule: list_all2_induct)
  case (Cons op ops sop sops)
  have "\<exists>t'. snd (runOps (op # ops) c t) = Inr t'" if v: "view t ns = Some m" "rep NK NR NB m u" for t m u
  proof -
    obtain c1 t1 where t1: "op c t = (c1, Inr t1)" using Cons.prems v unfolding works_def by (metis list.set_intros(1) prod.collapse)
    have op: "refines NK NR NB view ns (\<lambda>t. snd (op c t)) [sop]" using Cons.hyps(1) by (simp add: qrefines_def)
    have "snd (op c t) = Inr t1" using t1 by simp
    then obtain m1 where "view t1 = (view t)(ns \<mapsto> m1)" "rep NK NR NB m1 (fold apply_sop [sop] u)" by (rule refinesD [OF op v])
    then have "view t1 ns = Some m1" "rep NK NR NB m1 (fold apply_sop [sop] u)" by simp_all
    moreover have "works ns (\<lambda>t. snd (runOps ops c1 t))" using Cons by simp
    ultimately have "\<exists>t'. snd (runOps ops c1 t1) = Inr t'" unfolding works_def by blast
    then show ?thesis using t1 by simp
  qed
  then show ?case unfolding works_def by blast
qed (simp add: works_def)

lemma works_ops:
  assumes "call_ok NK NR NB x" "valid_args x"
  shows "\<forall>op \<in> set (bq_ops api ns x). \<forall>c. works ns (\<lambda>t. snd (op c t))"
proof -
  note ok = assms(1) [unfolded call_ok_def]
  have put: "works ns (\<lambda>t. snd (bq_put api ns vs i k c t))" if "i < length vs" for vs i k c
  proof -
    have "snd (bq_put api ns vs i k c t) = api_Put api ns (KeyKV k) (vs ! i) t" for t using that by (simp add: bq_put_def split: sum.split)
    then show ?thesis using keeps_works [OF keeps_Put] by simp
  qed
  have del: "works ns (\<lambda>t. snd (bq_delete api ns k c t))" for k c
  proof -
    have "snd (bq_delete api ns k c t) = bolt_deleteIfStored api ns k t" for t by (simp add: bq_delete_def bolt_deleteIfStored_def split: option.splits)
    then show ?thesis using works_DelKV by simp
  qed
  have delrow: "works ns (\<lambda>t. snd (bq_deleteRow api ns r c t))" for r c
    using keeps_Deletes [of ns "\<lambda>x. x"] unfolding works_def keeps_def bq_deleteRow_def bq_delKeys_forEach by auto
  have cells: "works ns (\<lambda>t. snd (bq_setCells api ns r es c t))" "works ns (\<lambda>t. snd (bq_deleteCells api ns r es c t))" for r es c
  proof -
    have "snd (bq_setCells api ns r es c t) = forEach (\<lambda>(k, v). api_Put api ns (KeyColumn r k) v) es t" for t
      by (simp add: bq_setCells_def bq_putCells_forEach)
    moreover have "keeps view ns (forEach (\<lambda>(k, v). api_Put api ns (KeyColumn r k) v) es)" by (rule keeps_forEach) (auto intro: keeps_Put)
    ultimately show "works ns (\<lambda>t. snd (bq_setCells api ns r es c t))" using keeps_works by simp
    have "snd (bq_deleteCells api ns r es c t) = forEach (\<lambda>(k, _). api_Delete api ns (KeyColumn r k)) es t" for t
      by (simp add: bq_deleteCells_def bq_delKeys_forEach forEach_map case_prod_unfold)
    moreover have "keeps view ns (forEach (\<lambda>(k, _). api_Delete api ns (KeyColumn r k)) es)" by (rule keeps_forEach) (auto intro: keeps_Delete)
    ultimately show "works ns (\<lambda>t. snd (bq_deleteCells api ns r es c t))" using keeps_works by simp
  qed
  have lob: "works ns (\<lambda>t. snd (bq_setLob api ns k cs s c t))" "works ns (\<lambda>t. snd (bq_deleteLob api ns k c t))" if k: "NB k" for k cs s c
  proof -
    show "works ns (\<lambda>t. snd (bq_setLob api ns k cs s c t))" unfolding bq_setLob_def snd_conv by (rule works_after_clear [OF k keeps_andThen [OF keeps_Put keeps_putChunks]])
    have "snd (bq_deleteLob api ns k c t) = bolt_deleteLob api ns k t" if "view t ns = Some m" "rep NK NR NB m u" for t m u
      using rep_meta [OF that(2) k] get [OF that(1)] by (auto simp: bq_deleteLob_def bolt_deleteLob_def split: option.splits)
    then show "works ns (\<lambda>t. snd (bq_deleteLob api ns k c t))" using works_DelLob [OF k, of ns] unfolding works_def by metis
  qed
  show ?thesis
    using ok assms(2) put del delrow cells lob
    by (cases x) (auto simp: bq_ops_def valid_args_def in_set_enumerate_eq list_all_iff)
qed

lemma bq_flush_progress:
  assumes "tq_err q = None" "stores NK NR NB (dview d) (tq_namespace q) u"
    and "list_all2 (qrefines NK NR NB view (tq_namespace q)) (tq_opsQueue q) sops"
    and "\<forall>op \<in> set (tq_opsQueue q). \<forall>c. works (tq_namespace q) (\<lambda>t. snd (op c t))"
  shows "\<exists>d' q'. bq_flushBatch api (d, q) = ((d', q'), None)"
proof (cases "tq_opsQueue q = []")
  case True
  then show ?thesis using assms(1) by (simp add: bq_flushBatch_def)
next
  case False
  obtain t where t: "api_Begin api d = Inr t" using available unfolding reliable_def by blast
  obtain m where m: "view t (tq_namespace q) = Some m" "rep NK NR NB m u" using assms(2) begin_view [OF t] by (auto simp: stores_def)
  obtain c' t' where t': "runOps (tq_opsQueue q) (tq_counters q) t = (c', Inr t')"
    using works_runOps [OF assms(3,4), of "tq_counters q"] m unfolding works_def by (metis prod.collapse)
  obtain d' where "api_Commit api t' d = Inr d'" using available unfolding reliable_def by blast
  then show ?thesis using False assms(1) t t' bucket [OF m(1)] by (simp add: bq_flushBatch_def)
qed

lemma bq_progress_from:
  assumes "\<forall>c \<in> set cs. call_ok NK NR NB c \<and> valid_args c" "tq_err q = None" "stores NK NR NB (dview d) (tq_namespace q) u"
    and "list_all2 (qrefines NK NR NB view (tq_namespace q)) (tq_opsQueue q) sops"
    and "\<forall>op \<in> set (tq_opsQueue q). \<forall>c. works (tq_namespace q) (\<lambda>t. snd (op c t))"
  shows "\<exists>d1 q1 d2 q2. runCalls (bq_call api) cs (d, q) = ((d1, q1), None) \<and> bq_Commit api (d1, q1) = ((d2, q2), None)"
  using assms
proof (induction cs arbitrary: d q u sops)
  case Nil
  then show ?case using bq_flush_progress [OF Nil.prems(2-5)] by (auto simp: bq_Commit_def)
next
  case (Cons x cs)
  have x: "call_ok NK NR NB x" "valid_args x" using Cons.prems(1) by simp_all
  let ?ns = "tq_namespace q"
  let ?q = "q\<lparr>tq_opsQueue := tq_opsQueue q @ bq_ops api ?ns x\<rparr>"
  have "paired x" using x(2) by (auto simp: valid_args_def paired_def split: storeCall.splits)
  then have ops: "list_all2 (qrefines NK NR NB view ?ns) (tq_opsQueue ?q) (sops @ call_sops x)"
    using Cons.prems(4) bq_ops_refine [OF x(1)] by (simp add: list_all2_appendI)
  have wk: "\<forall>op \<in> set (tq_opsQueue ?q). \<forall>c. works ?ns (\<lambda>t. snd (op c t))"
    using Cons.prems(5) works_ops [OF x, of ?ns] by auto
  have "\<not> bq_refuses x" using x(2) by (auto simp: bq_refuses_def valid_args_def split: storeCall.splits)
  then have call: "bq_call api x (d, q) = tq_enqueue (bq_flushBatch api) False (bq_ops api ?ns x) (d, q)"
    using bq_call_eq [OF Cons.prems(2), of api x d] by simp
  have rest: "\<forall>c \<in> set cs. call_ok NK NR NB c \<and> valid_args c" using Cons.prems(1) by simp
  show ?case
  proof (cases "length (tq_opsQueue ?q) \<ge> tq_maxBatchSize q")
    case True
    obtain d' q' where f: "bq_flushBatch api (d, ?q) = ((d', q'), None)"
      using bq_flush_progress [of ?q d u "sops @ call_sops x"] ops wk Cons.prems(2,3) by auto
    have fc: "stores NK NR NB (dview d') ?ns (fold apply_sop (sops @ call_sops x) u) \<and> tq_opsQueue q' = [] \<and> tq_err q' = None \<and> tq_namespace q' = ?ns"
      using txn_writer.flush_commits [OF bq_flush_writer f, of u "sops @ call_sops x"] ops Cons.prems(2,3) by simp
    have "bq_call api x (d, q) = ((d', q'\<lparr>tq_err := None\<rparr>), None)"
      using call f True by (simp add: tq_enqueue_def Let_def)
    moreover have "q'\<lparr>tq_err := None\<rparr> = q'" using fc by simp
    ultimately show ?thesis
      using Cons.IH [OF rest, of q' d' "fold apply_sop (sops @ call_sops x) u" "[]"] fc by simp
  next
    case False
    then have "bq_call api x (d, q) = ((d, ?q), None)" using call Cons.prems(2) by (simp add: tq_enqueue_def Let_def)
    then show ?thesis using Cons.IH [OF rest, of ?q d u "sops @ call_sops x"] ops wk Cons.prems(2,3) by simp
  qed
qed

lemma bq_progress:
  assumes "\<forall>c \<in> set cs. call_ok NK NR NB c \<and> valid_args c" "stores NK NR NB (dview d) ns u"
  shows "\<exists>d1 q1 d2 q2. runCalls (bq_call api) cs (d, NewTxnQueue ns n) = ((d1, q1), None) \<and> bq_Commit api (d1, q1) = ((d2, q2), None)"
  by (rule bq_progress_from [where u = u and sops = "[]"]) (use assms in \<open>simp_all add: NewTxnQueue_def\<close>)

lemma Retrieve_meta:
  assumes "dview (bb_db b) sysBucketMetaData = Some m"
  shows "bolt_RetrieveMetadata api k b = (case m k of None \<Rightarrow> Inl ErrKeyNotFound | Some v \<Rightarrow> Inr v)"
proof -
  obtain t where t: "api_Begin api (bb_db b) = Inr t" using available unfolding reliable_def by blast
  have v: "view t sysBucketMetaData = Some m" using begin_view [OF t] assms by simp
  then show ?thesis using t bucket [OF v] get [OF v] by (simp add: bolt_RetrieveMetadata_def View_def andThen_def)
qed

end

lemma bolt_btree_store:
  assumes "bolt_laws api dview view" "reliable api view"
  shows "btree_store (bolt_btree api sync) (bolt_holds dview) (bolt_meta dview)"
proof -
  note avail = bolt_available_names [OF assms engine_names]
  note store = bolt_store_names [OF assms(1) engine_names]
  have opens: "\<exists>t. api_Begin api d = Inr t" for d using assms(2) unfolding reliable_def by blast
  show ?thesis
  proof
    fix b u c assume b: "bolt_holds dview b u" and c: "engine_call c"
    have "stores encKV encRow encBlob (dview (bb_db b)) (bb_namespace b) u" using b by (simp add: bolt_holds_def)
    then obtain b' where b': "bolt_call api c b = (b', None)" "bb_namespace b' = bb_namespace b"
        "stores encKV encRow encBlob (dview (bb_db b')) (bb_namespace b) (fold apply_sop (call_sops c) u)"
        "\<forall>n. n \<noteq> bb_namespace b \<longrightarrow> dview (bb_db b') n = dview (bb_db b) n"
      using bolt_available.bolt_call_succeeds [OF avail] c unfolding engine_call_def by blast
    moreover have same: "b\<lparr>bb_db := bb_db b'\<rparr> = b'" using b'(2) by simp
    ultimately show "\<exists>d'. bt_call (bolt_btree api sync) c b = (d', None)
        \<and> bolt_holds dview d' (fold apply_sop (call_sops c) u) \<and> bolt_meta dview d' = bolt_meta dview b"
      using bolt_holds_frame [OF b b'(3,4), unfolded same] by (simp add: bolt_btree_def)
  next
    fix b u k assume b: "bolt_holds dview b u" and k: "encKV k"
    then show "bt_GetKV (bolt_btree api sync) k b = (case u_kv u k of None \<Rightarrow> Inl ErrKeyNotFound | Some v \<Rightarrow> Inr v)"
      using bolt_store.bolt_GetKV_ok [OF store] opens by (fastforce simp: bolt_holds_def bolt_btree_def)
  next
    fix b u k assume b: "bolt_holds dview b u" and k: "encBlob k"
    then show "bt_GetLOBChunks (bolt_btree api sync) k b = (case u_lob u k of None \<Rightarrow> Inl ErrKeyNotFound | Some (chunks, s) \<Rightarrow> Inr chunks)"
      using bolt_store.bolt_GetLOBChunks_ok [OF store] opens by (fastforce simp: bolt_holds_def bolt_btree_def)
  next
    fix b u r filt assume b: "bolt_holds dview b u" and r: "encRow r"
    then have "stores encKV encRow encBlob (dview (bb_db b)) (bb_namespace b) u" by (simp add: bolt_holds_def)
    then show "case bt_ScanRowCells (bolt_btree api sync) r filt b of
        Inl e \<Rightarrow> e = ErrKeyNotFound \<and> selected filt (u_cell u r) = Map.empty
      | Inr es \<Rightarrow> map_of es = selected filt (u_cell u r) \<and> es \<noteq> []"
      using bolt_store.bolt_ScanRowCells_ok [OF store _ _ r, of b u] opens [of "bb_db b"] by (auto simp: bolt_btree_def)
  next
    fix b u k v assume b: "bolt_holds dview b u"
    then obtain m where m: "dview (bb_db b) sysBucketMetaData = Some m" by (auto simp: bolt_holds_def)
    from bolt_available.Update_meta [OF avail this, of k v] obtain d' where d':
      "bolt_StoreMetadata api k v b = (b\<lparr>bb_db := d'\<rparr>, None)" "dview d' = (dview (bb_db b))(sysBucketMetaData \<mapsto> m(k \<mapsto> v))" by blast
    then have "bolt_holds dview (b\<lparr>bb_db := d'\<rparr>) u" using b by (simp add: bolt_holds_def stores_def)
    moreover have "bolt_meta dview (b\<lparr>bb_db := d'\<rparr>) = (bolt_meta dview b)(k \<mapsto> v)" using d'(2) m by (auto simp: bolt_meta_def)
    moreover note d'(1)
    ultimately show "\<exists>d'. bt_StoreMetadata (bolt_btree api sync) k v b = (d', None) \<and> bolt_holds dview d' u \<and> bolt_meta dview d' = (bolt_meta dview b)(k \<mapsto> v)"
      by (simp add: bolt_btree_def)
  next
    fix b u k assume b: "bolt_holds dview b u"
    then obtain m where m: "dview (bb_db b) sysBucketMetaData = Some m" by (auto simp: bolt_holds_def)
    from bolt_available.Retrieve_meta [OF avail this] m
    show "bt_RetrieveMetadata (bolt_btree api sync) k b = (case bolt_meta dview b k of None \<Rightarrow> Inl ErrKeyNotFound | Some v \<Rightarrow> Inr v)"
      by (simp add: bolt_btree_def bolt_meta_def)
  next
    fix b u cs n assume b: "bolt_holds dview b u" and cs: "\<forall>c \<in> set cs. engine_call c"
    have st: "stores encKV encRow encBlob (dview (bb_db b)) (bb_namespace b) u" using b by (simp add: bolt_holds_def)
    have ok: "\<forall>c \<in> set cs. call_ok encKV encRow encBlob c \<and> paired c" using cs engine_call_paired by (auto simp: engine_call_def)
    have va: "\<forall>c \<in> set cs. call_ok encKV encRow encBlob c \<and> valid_args c" using cs by (auto simp: engine_call_def)
    obtain d1 q1 d2 q2 where r: "runCalls (bq_call api) cs (bb_db b, NewTxnQueue (bb_namespace b) n) = ((d1, q1), None)"
        "bq_Commit api (d1, q1) = ((d2, q2), None)"
      using bolt_available.bq_progress [OF avail va st, of n] by blast
    let ?s1 = "(b\<lparr>bb_db := d1\<rparr>, q1)"
    have run: "runCalls (bt_txnCall (bolt_btree api sync)) cs (b, bt_NewTxnQueue (bolt_btree api sync) n b) = (?s1, None)"
      unfolding bolt_txnCalls using r(1) by (simp add: bolt_btree_def)
    obtain k where k: "stores_over encKV encRow encBlob (dview (bb_db b)) (dview d1) (bb_namespace b)
        (fold apply_sop (take k (concat (map call_sops cs))) u)" using bolt_store.bq_prefix [OF store r(1) ok st] by blast
    have part: "bolt_meta dview (fst ?s1) = bolt_meta dview b \<and> (\<exists>k. bolt_holds dview (fst ?s1) (fold apply_sop (take k (concat (map call_sops cs))) u))"
      using bolt_holds_frame [OF b] k unfolding stores_over_def by (metis fst_conv)
    have "stores_over encKV encRow encBlob (dview (bb_db b)) (dview d2) (bb_namespace b)
        (fold apply_sop (concat (map call_sops cs)) u)" using bolt_store.bq_commits [OF store r ok st] .
    then have "bolt_holds dview (b\<lparr>bb_db := d2\<rparr>) (fold apply_sop (concat (map call_sops cs)) u)
        \<and> bolt_meta dview (b\<lparr>bb_db := d2\<rparr>) = bolt_meta dview b" using bolt_holds_frame [OF b] unfolding stores_over_def by blast
    moreover have "bt_txnCommit (bolt_btree api sync) ?s1 = ((b\<lparr>bb_db := d2\<rparr>, q2), None)" using r(2) by (simp add: bolt_btree_def)
    ultimately show "\<exists>s1. runCalls (bt_txnCall (bolt_btree api sync)) cs (b, bt_NewTxnQueue (bolt_btree api sync) n b) = (s1, None)
      \<and> bolt_meta dview (fst s1) = bolt_meta dview b \<and> (\<exists>k. bolt_holds dview (fst s1) (fold apply_sop (take k (concat (map call_sops cs))) u))
      \<and> (\<exists>d2 q2. bt_txnCommit (bolt_btree api sync) s1 = ((d2, q2), None)
          \<and> bolt_holds dview d2 (fold apply_sop (concat (map call_sops cs)) u) \<and> bolt_meta dview d2 = bolt_meta dview b)"
      using run part by blast
  qed
qed

interpretation mbtree: btree_store "bolt_btree mem_bolt (\<lambda>_. None)" "bolt_holds mem_view" "bolt_meta mem_view"
  by (rule bolt_btree_store [OF mem_bolt_laws mem_bolt_reliable])

end
