(* ===== verification/LogCodec.thy ===== *)
theory LogCodec
  imports Prelude "HOL-Library.AList"
begin

text \<open>
  The records of the log, \<open>internal/logcodec\<close>. FlatBuffers (\<open>github.com/google/flatbuffers\<close>) is a parameter: a builder that turns
  the fields of a table into bytes, and accessors that read the fields back (\<open>fb_api\<close>). A field that was not added
  to a table reads as \<open>nil\<close>, which is the empty byte slice here. A Go map is an association list with distinct keys
  in the order of iteration.
\<close>

section \<open>Records\<close>

datatype LogOperationType =
    LogOperationTypeNoOperation | LogOperationTypeInsert | LogOperationTypeDelete
  | LogOperationTypeTxnMarker | LogOperationTypeDeleteRowByKey

datatype TransactionState =
    TransactionStateNone | TransactionStateBegin | TransactionStatePrepare | TransactionStateCommit

datatype LogEntryType = LogEntryTypeKV | LogEntryTypeChunked | LogEntryTypeRow

record LogRecord =
  LSN :: u64
  HLC :: u64
  CRC32Checksum :: u32
  OperationType :: LogOperationType
  TxnState :: TransactionState
  EntryType :: LogEntryType
  TxnID :: bytes
  PrevTxnWalIndex :: bytes
  Entries :: "bytes list"

type_synonym columns = "(bytes \<times> bytes) list"

record KeyValueEntry =
  kve_Key :: bytes
  kve_Value :: bytes

record RowEntry =
  re_Key :: bytes
  re_Columns :: columns

section \<open>FlatBuffers\<close>

text \<open>The tables of \<open>schemas/logrecord\<close>.\<close>

record LogRecordTable =
  tb_Lsn :: u64
  tb_Hlc :: u64
  tb_Crc32Checksum :: u32
  tb_OperationType :: LogOperationType
  tb_TxnState :: TransactionState
  tb_EntryType :: LogEntryType
  tb_TxnId :: "bytes option"
  tb_PrevTxnWalIndex :: "bytes option"
  tb_Entries :: "bytes list"

record KeyValueTable =
  kt_Key :: bytes
  kt_Value :: bytes

record RowUpdateTable =
  rt_Key :: bytes
  rt_Columns :: "(bytes \<times> bytes) list"

record fb_api =
  finishLogRecord :: "LogRecordTable \<Rightarrow> bytes"
  GetRootAsLogRecord :: "bytes \<Rightarrow> LogRecordTable"
  finishKeyValueEntry :: "KeyValueTable \<Rightarrow> bytes"
  GetRootAsKeyValueEntry :: "bytes \<Rightarrow> KeyValueTable"
  finishRowUpdateEntry :: "RowUpdateTable \<Rightarrow> bytes"
  GetRootAsRowUpdateEntry :: "bytes \<Rightarrow> RowUpdateTable"

definition fb_laws :: "fb_api \<Rightarrow> bool" where
  "fb_laws fb \<longleftrightarrow> (\<forall>t. GetRootAsLogRecord fb (finishLogRecord fb t) = t)
    \<and> (\<forall>t. GetRootAsKeyValueEntry fb (finishKeyValueEntry fb t) = t)
    \<and> (\<forall>t. GetRootAsRowUpdateEntry fb (finishRowUpdateEntry fb t) = t)"

definition TxnIdBytes :: "LogRecordTable \<Rightarrow> bytes" where
  "TxnIdBytes t = (case tb_TxnId t of None \<Rightarrow> [] | Some b \<Rightarrow> b)"

definition PrevTxnWalIndexBytes :: "LogRecordTable \<Rightarrow> bytes" where
  "PrevTxnWalIndexBytes t = (case tb_PrevTxnWalIndex t of None \<Rightarrow> [] | Some b \<Rightarrow> b)"

definition PrevTxnWalIndexLength :: "LogRecordTable \<Rightarrow> nat" where
  "PrevTxnWalIndexLength t = length (PrevTxnWalIndexBytes t)"

section \<open>Encoding\<close>

text \<open>The vector of entries is built from its end.\<close>

definition serializeEntries :: "LogRecord \<Rightarrow> bytes list" where
  "serializeEntries log = fold (#) (rev (Entries log)) []"

definition serializeLogRecord :: "fb_api \<Rightarrow> LogRecord \<Rightarrow> bytes" where
  "serializeLogRecord fb record = finishLogRecord fb
    \<lparr>tb_Lsn = LSN record, tb_Hlc = HLC record, tb_Crc32Checksum = CRC32Checksum record,
     tb_OperationType = OperationType record, tb_TxnState = TxnState record, tb_EntryType = EntryType record,
     tb_TxnId = (if length (TxnID record) > 0 then Some (TxnID record) else None),
     tb_PrevTxnWalIndex = (if length (PrevTxnWalIndex record) > 0 then Some (PrevTxnWalIndex record) else None),
     tb_Entries = serializeEntries record\<rparr>"

definition FBEncode :: "fb_api \<Rightarrow> LogRecord \<Rightarrow> bytes" where
  "FBEncode fb r = serializeLogRecord fb r"

definition DeserializeFBRootLogRecord :: "LogRecordTable \<Rightarrow> LogRecord" where
  "DeserializeFBRootLogRecord fbRecord =
    \<lparr>LSN = tb_Lsn fbRecord, HLC = tb_Hlc fbRecord, CRC32Checksum = tb_Crc32Checksum fbRecord,
     OperationType = tb_OperationType fbRecord, TxnState = tb_TxnState fbRecord, EntryType = tb_EntryType fbRecord,
     TxnID = TxnIdBytes fbRecord, PrevTxnWalIndex = PrevTxnWalIndexBytes fbRecord,
     Entries = map (\<lambda>i. tb_Entries fbRecord ! i) [0..<length (tb_Entries fbRecord)]\<rparr>"

definition DeserializeLogRecord :: "fb_api \<Rightarrow> bytes \<Rightarrow> LogRecord" where
  "DeserializeLogRecord fb data = DeserializeFBRootLogRecord (GetRootAsLogRecord fb data)"

definition SerializeKVEntry :: "fb_api \<Rightarrow> bytes \<Rightarrow> bytes \<Rightarrow> bytes" where
  "SerializeKVEntry fb key value = finishKeyValueEntry fb \<lparr>kt_Key = key, kt_Value = value\<rparr>"

definition DeserializeKVEntry :: "fb_api \<Rightarrow> bytes \<Rightarrow> KeyValueEntry" where
  "DeserializeKVEntry fb data =
    (let record = GetRootAsKeyValueEntry fb data in \<lparr>kve_Key = kt_Key record, kve_Value = kt_Value record\<rparr>)"

definition SerializeRowUpdateEntry :: "fb_api \<Rightarrow> bytes \<Rightarrow> columns \<Rightarrow> bytes" where
  "SerializeRowUpdateEntry fb rowKey columns =
    (let columnOffsets = columns; columnsVector = fold (#) (rev columnOffsets) []
     in finishRowUpdateEntry fb \<lparr>rt_Key = rowKey, rt_Columns = columnsVector\<rparr>)"

fun columnsOf :: "(bytes \<times> bytes) list \<Rightarrow> columns \<Rightarrow> columns" where
  "columnsOf [] columns = columns"
| "columnsOf ((colName, colValue) # rest) columns = columnsOf rest (AList.update colName colValue columns)"

definition DeserializeRowUpdateEntry :: "fb_api \<Rightarrow> bytes \<Rightarrow> RowEntry" where
  "DeserializeRowUpdateEntry fb buf =
    (let rowEntry = GetRootAsRowUpdateEntry fb buf in
     \<lparr>re_Key = rt_Key rowEntry, re_Columns = columnsOf (rt_Columns rowEntry) []\<rparr>)"

section \<open>Round trips\<close>

lemma fold_Cons_rev [simp]: "fold (#) (rev xs) ys = xs @ ys"
  by (induction xs arbitrary: ys) simp_all

lemma fb_roots:
  assumes "fb_laws fb"
  shows "GetRootAsLogRecord fb (finishLogRecord fb t) = t" "GetRootAsKeyValueEntry fb (finishKeyValueEntry fb k) = k"
    "GetRootAsRowUpdateEntry fb (finishRowUpdateEntry fb r) = r"
  using assms by (simp_all add: fb_laws_def)

text \<open>The table a record is encoded as.\<close>

definition table_of :: "LogRecord \<Rightarrow> LogRecordTable" where
  "table_of r = \<lparr>tb_Lsn = LSN r, tb_Hlc = HLC r, tb_Crc32Checksum = CRC32Checksum r,
     tb_OperationType = OperationType r, tb_TxnState = TxnState r, tb_EntryType = EntryType r,
     tb_TxnId = (if length (TxnID r) > 0 then Some (TxnID r) else None),
     tb_PrevTxnWalIndex = (if length (PrevTxnWalIndex r) > 0 then Some (PrevTxnWalIndex r) else None),
     tb_Entries = Entries r\<rparr>"

lemma table_of_fields [simp]:
  "tb_Lsn (table_of r) = LSN r" "tb_Hlc (table_of r) = HLC r" "tb_Crc32Checksum (table_of r) = CRC32Checksum r"
  "tb_OperationType (table_of r) = OperationType r" "tb_TxnState (table_of r) = TxnState r"
  "tb_EntryType (table_of r) = EntryType r" "tb_Entries (table_of r) = Entries r"
  "TxnIdBytes (table_of r) = TxnID r" "PrevTxnWalIndexBytes (table_of r) = PrevTxnWalIndex r"
  "PrevTxnWalIndexLength (table_of r) = length (PrevTxnWalIndex r)"
  by (simp_all add: table_of_def TxnIdBytes_def PrevTxnWalIndexBytes_def PrevTxnWalIndexLength_def)

lemma root_FBEncode [simp]: "fb_laws fb \<Longrightarrow> GetRootAsLogRecord fb (FBEncode fb r) = table_of r"
  by (simp add: FBEncode_def serializeLogRecord_def serializeEntries_def fb_roots table_of_def)

lemma deserialize_table_of [simp]: "DeserializeFBRootLogRecord (table_of r) = r"
  by (simp add: DeserializeFBRootLogRecord_def map_nth)

lemma kv_entry_roundtrip [simp]:
  "fb_laws fb \<Longrightarrow> DeserializeKVEntry fb (SerializeKVEntry fb k v) = \<lparr>kve_Key = k, kve_Value = v\<rparr>"
  by (simp add: DeserializeKVEntry_def SerializeKVEntry_def fb_roots)

lemma columnsOf_append: "distinct (map fst (cs @ es)) \<Longrightarrow> columnsOf es cs = cs @ es"
proof (induction es arbitrary: cs)
  case (Cons e es)
  obtain n v where e: "e = (n, v)" by (cases e)
  then have "AList.update n v cs = cs @ [(n, v)]" using Cons.prems by (induction cs) auto
  moreover have "columnsOf es (cs @ [(n, v)]) = (cs @ [(n, v)]) @ es" using Cons.prems e by (intro Cons.IH) auto
  ultimately show ?case by (simp add: e)
qed simp

lemma row_entry_roundtrip [simp]:
  "fb_laws fb \<Longrightarrow> distinct (map fst cs) \<Longrightarrow> DeserializeRowUpdateEntry fb (SerializeRowUpdateEntry fb k cs) = \<lparr>re_Key = k, re_Columns = cs\<rparr>"
  by (simp add: DeserializeRowUpdateEntry_def SerializeRowUpdateEntry_def fb_roots columnsOf_append)

lemma row_root [simp]:
  "fb_laws fb \<Longrightarrow> rt_Key (GetRootAsRowUpdateEntry fb (SerializeRowUpdateEntry fb k cs)) = k"
  by (simp add: SerializeRowUpdateEntry_def fb_roots)

section \<open>A builder in memory\<close>

text \<open>A concrete codec that satisfies the laws: fields in sequence, with a unary length before each byte slice.\<close>

definition put_bytes :: "bytes \<Rightarrow> bytes" where
  "put_bytes b = replicate (length b) 1 @ 0 # b"

definition get_bytes :: "bytes \<Rightarrow> bytes \<times> bytes" where
  "get_bytes xs = (let n = length (takeWhile (\<lambda>x. x = 1) xs); r = drop (Suc n) xs in (take n r, drop n r))"

lemma unary_prefix: "takeWhile (\<lambda>x. x = 1) (replicate n (1 :: byte) @ 0 # r) = replicate n 1"
  by (induction n) simp_all

lemma get_put_bytes [simp]: "get_bytes (put_bytes b @ r) = (b, r)"
  by (simp add: get_bytes_def put_bytes_def unary_prefix)

fun get_many :: "nat \<Rightarrow> bytes \<Rightarrow> bytes list \<times> bytes" where
  "get_many 0 xs = ([], xs)"
| "get_many (Suc n) xs = (case get_bytes xs of (b, r) \<Rightarrow> case get_many n r of (bs, r') \<Rightarrow> (b # bs, r'))"

definition put_list :: "bytes list \<Rightarrow> bytes" where
  "put_list bs = replicate (length bs) 1 @ 0 # concat (map put_bytes bs)"

definition get_list :: "bytes \<Rightarrow> bytes list \<times> bytes" where
  "get_list xs = (let n = length (takeWhile (\<lambda>x. x = 1) xs) in get_many n (drop (Suc n) xs))"

lemma get_many_put: "get_many (length bs) (concat (map put_bytes bs) @ r) = (bs, r)"
  by (induction bs) simp_all

lemma get_put_list [simp]: "get_list (put_list bs @ r) = (bs, r)"
  by (simp add: get_list_def put_list_def unary_prefix get_many_put)

definition put_opt :: "bytes option \<Rightarrow> bytes list" where
  "put_opt x = (case x of None \<Rightarrow> [] | Some b \<Rightarrow> [b])"

definition get_opt :: "bytes list \<Rightarrow> bytes option" where
  "get_opt x = (case x of [] \<Rightarrow> None | b # _ \<Rightarrow> Some b)"

lemma get_put_opt [simp]: "get_opt (put_opt x) = x"
  by (cases x) (simp_all add: put_opt_def get_opt_def)

definition op_code :: "LogOperationType \<Rightarrow> byte" where
  "op_code t = (case t of LogOperationTypeNoOperation \<Rightarrow> 0 | LogOperationTypeInsert \<Rightarrow> 1 | LogOperationTypeDelete \<Rightarrow> 2
    | LogOperationTypeTxnMarker \<Rightarrow> 3 | LogOperationTypeDeleteRowByKey \<Rightarrow> 4)"

definition op_of :: "byte \<Rightarrow> LogOperationType" where
  "op_of b = (if b = 1 then LogOperationTypeInsert else if b = 2 then LogOperationTypeDelete
    else if b = 3 then LogOperationTypeTxnMarker else if b = 4 then LogOperationTypeDeleteRowByKey else LogOperationTypeNoOperation)"

definition txn_code :: "TransactionState \<Rightarrow> byte" where
  "txn_code t = (case t of TransactionStateNone \<Rightarrow> 0 | TransactionStateBegin \<Rightarrow> 1 | TransactionStatePrepare \<Rightarrow> 2
    | TransactionStateCommit \<Rightarrow> 3)"

definition txn_of :: "byte \<Rightarrow> TransactionState" where
  "txn_of b = (if b = 1 then TransactionStateBegin else if b = 2 then TransactionStatePrepare
    else if b = 3 then TransactionStateCommit else TransactionStateNone)"

definition entry_code :: "LogEntryType \<Rightarrow> byte" where
  "entry_code t = (case t of LogEntryTypeKV \<Rightarrow> 0 | LogEntryTypeChunked \<Rightarrow> 1 | LogEntryTypeRow \<Rightarrow> 2)"

definition entry_of :: "byte \<Rightarrow> LogEntryType" where
  "entry_of b = (if b = 1 then LogEntryTypeChunked else if b = 2 then LogEntryTypeRow else LogEntryTypeKV)"

lemma codes [simp]: "op_of (op_code a) = a" "txn_of (txn_code t) = t" "entry_of (entry_code e) = e"
  by (simp_all add: op_of_def op_code_def txn_of_def txn_code_def entry_of_def entry_code_def
      split: LogOperationType.split TransactionState.split LogEntryType.split)

definition mem_fb :: fb_api where
  "mem_fb = \<lparr>finishLogRecord = (\<lambda>t. put_list
       [LE_PutUint64 (tb_Lsn t), LE_PutUint64 (tb_Hlc t), LE_PutUint32 (tb_Crc32Checksum t),
        [op_code (tb_OperationType t), txn_code (tb_TxnState t), entry_code (tb_EntryType t)],
        put_list (put_opt (tb_TxnId t)), put_list (put_opt (tb_PrevTxnWalIndex t)), put_list (tb_Entries t)]),
     GetRootAsLogRecord = (\<lambda>b. let fs = fst (get_list b) in
       \<lparr>tb_Lsn = LE_Uint64 (fs ! 0), tb_Hlc = LE_Uint64 (fs ! 1), tb_Crc32Checksum = LE_Uint32 (fs ! 2),
        tb_OperationType = op_of (fs ! 3 ! 0), tb_TxnState = txn_of (fs ! 3 ! 1), tb_EntryType = entry_of (fs ! 3 ! 2),
        tb_TxnId = get_opt (fst (get_list (fs ! 4))), tb_PrevTxnWalIndex = get_opt (fst (get_list (fs ! 5))),
        tb_Entries = fst (get_list (fs ! 6))\<rparr>),
     finishKeyValueEntry = (\<lambda>t. put_list [kt_Key t, kt_Value t]),
     GetRootAsKeyValueEntry = (\<lambda>b. let fs = fst (get_list b) in \<lparr>kt_Key = fs ! 0, kt_Value = fs ! 1\<rparr>),
     finishRowUpdateEntry = (\<lambda>t. put_list (rt_Key t # map (\<lambda>(n, v). put_list [n, v]) (rt_Columns t))),
     GetRootAsRowUpdateEntry = (\<lambda>b. let fs = fst (get_list b) in
       \<lparr>rt_Key = hd fs, rt_Columns = map (\<lambda>x. (fst (get_list x) ! 0, fst (get_list x) ! 1)) (tl fs)\<rparr>)\<rparr>"

lemma mem_fb_laws: "fb_laws mem_fb"
proof -
  have "get_list (put_list bs) = (bs, [])" for bs using get_put_list [of bs "[]"] by simp
  then show ?thesis by (simp add: fb_laws_def mem_fb_def comp_def case_prod_unfold)
qed

end
