(* ===== verification/WalIO.thy ===== *)
theory WalIO
  imports LogCodec WALogReaderCorrect SegmentProps
begin

text \<open>
  \<open>dbkernel/internal/wal\<close>: the engine's view of the log. \<open>WalIO\<close> wraps the segmented log and counts the entries of the
  current segment; \<open>WalReader\<close> (\<open>Reader\<close> in the source) wraps a log reader and turns the end of the active segment into the
  end of the file unless it follows the tail. A failed fsync ends the process (\<open>log.Fatalf\<close>), which is the error \<open>Fatal\<close>;
  a nil offset that is dereferenced is \<open>Panic\<close>. Metrics and the background cleanup routines are left out. The chain of a
  transaction is followed through positions read from the log, so this loop is a partial function; it returns on every
  log in which these positions lead backwards.
\<close>

section \<open>Configuration\<close>

text \<open>\<open>SegmentSize\<close> is an \<open>int64\<close> in the source; sizes below zero are not modelled. Durations are in nanoseconds.\<close>

record WalConfig =
  cf_BytesPerSync :: u32
  cf_SegmentSize :: nat
  cf_FSync :: bool
  cf_SyncInterval :: int
  cf_AutoCleanup :: bool
  cf_MaxAge :: int
  cf_MinSegment :: int
  cf_MaxSegment :: int
  cf_CleanupInterval :: int

definition NewDefaultConfig :: WalConfig where
  "NewDefaultConfig = \<lparr>cf_BytesPerSync = 1048576, cf_SegmentSize = 16777216, cf_FSync = False, cf_SyncInterval = 1000000000,
     cf_AutoCleanup = False, cf_MaxAge = 0, cf_MinSegment = 0, cf_MaxSegment = 0, cf_CleanupInterval = 0\<rparr>"

definition applyDefaults :: "WalConfig \<Rightarrow> WalConfig" where
  "applyDefaults c =
    (let c = (if cf_BytesPerSync c = 0 then c\<lparr>cf_BytesPerSync := 1048576\<rparr> else c);
         c = (if cf_SegmentSize c = 0 then c\<lparr>cf_SegmentSize := 16777216\<rparr> else c);
         c = (if cf_FSync c then c\<lparr>cf_FSync := True\<rparr> else c);
         c = (if cf_SyncInterval c = 0 then c\<lparr>cf_SyncInterval := 1000000000\<rparr> else c)
     in if cf_CleanupInterval c = 0 then c\<lparr>cf_CleanupInterval := 5 * 60 * 1000000000\<rparr> else c)"

section \<open>The log of the engine\<close>

record WalIO =
  wio_appendLog :: WALog
  wio_entriesInSegment :: int

definition DecodeOffset :: "bytes \<Rightarrow> RecordPosition option" where
  "DecodeOffset b = (if length b = 0 then None
     else case DecodeRecordPosition b of Inl _ \<Rightarrow> None | Inr pos \<Rightarrow> Some pos)"

definition NewWalIO :: "(nat \<Rightarrow> ioenv) \<Rightarrow> WalConfig \<Rightarrow> string list \<Rightarrow> (string \<rightharpoonup> bytes) \<Rightarrow> error + WalIO" where
  "NewWalIO io config listing files =
    (let config = applyDefaults config;
         cfg = WithMaxSegmentSize (cf_SegmentSize config) (defaultConfig ''.seg'');
         cfg = WithMSyncEveryWrite (cf_FSync config) cfg;
         cfg = WithBytesPerSync (uint (cf_BytesPerSync config)) cfg;
         cfg = WithAutoCleanupPolicy (cf_MaxAge config) (cf_MinSegment config) (cf_MaxSegment config) (cf_AutoCleanup config) cfg
     in case NewWALog io cfg listing files of Inl e \<Rightarrow> Inl e
        | Inr wLog \<Rightarrow> Inr \<lparr>wio_appendLog = wLog, wio_entriesInSegment = 0\<rparr>)"

definition wio_Sync :: "ioenv \<Rightarrow> WalIO \<Rightarrow> error option" where
  "wio_Sync io w = wl_Sync io (wio_appendLog w)"

text \<open>\<open>Close\<close> goes on when the sync before it fails.\<close>

definition wio_Close :: "ioenv \<Rightarrow> WalIO \<Rightarrow> (WalIO \<times> error list) option" where
  "wio_Close io w = map_option (\<lambda>(l, es). (w\<lparr>wio_appendLog := l\<rparr>, es)) (wl_Close io (wio_appendLog w))"

definition wio_Read :: "RecordPosition option \<Rightarrow> WalIO \<Rightarrow> error + bytes" where
  "wio_Read pos w = (case pos of None \<Rightarrow> Inl Panic | Some p \<Rightarrow> wl_Read p (wio_appendLog w))"

text \<open>The callback of a rotation sets the counter to zero.\<close>

definition onRotate :: "WALog \<Rightarrow> WALog \<Rightarrow> int \<Rightarrow> int" where
  "onRotate l l' n = (if wl_segmentRotated l' = wl_segmentRotated l then n else 0)"

definition wio_Append :: "ioenv \<Rightarrow> bytes \<Rightarrow> WalIO \<Rightarrow> WalIO \<times> (error + RecordPosition)" where
  "wio_Append io data w =
    (case wl_Write io data (wio_appendLog w) of (l, res) \<Rightarrow>
       let n = onRotate (wio_appendLog w) l (wio_entriesInSegment w); w = w\<lparr>wio_appendLog := l, wio_entriesInSegment := n\<rparr> in
       case res of
         Inl err \<Rightarrow> if errors_Is err ErrFsync then (w, Inl Fatal) else (w, Inl err)
       | Inr off \<Rightarrow> (w\<lparr>wio_entriesInSegment := n + 1\<rparr>, Inr off))"

definition wio_BatchAppend :: "(nat \<Rightarrow> ioenv) \<Rightarrow> bytes list \<Rightarrow> WalIO \<Rightarrow> WalIO \<times> (error + RecordPosition list)" where
  "wio_BatchAppend io records w =
    (if length records = 0 then (w, Inr [])
     else case wl_WriteBatch io records (wio_appendLog w) of (l, offsets, err) \<Rightarrow>
       let n = onRotate (wio_appendLog w) l (wio_entriesInSegment w); w = w\<lparr>wio_appendLog := l, wio_entriesInSegment := n\<rparr> in
       case err of
         Some e \<Rightarrow> if errors_Is e ErrFsync then (w, Inl Fatal) else (w, Inl e)
       | None \<Rightarrow> (w\<lparr>wio_entriesInSegment := n + int (length offsets)\<rparr>, Inr offsets))"

section \<open>Readers\<close>

record WalReader =
  rdr_appendReader :: Reader
  rdr_closed :: bool
  rdr_withActiveTail :: bool
  rdr_readCount :: int

definition rdr_Close :: "ioenv \<Rightarrow> WalIO \<Rightarrow> WalReader \<Rightarrow> WalIO \<times> WalReader" where
  "rdr_Close io w r =
    (if rdr_closed r then (w, r)
     else case wr_Close io (wio_appendLog w) (rdr_appendReader r) of (l, ar) \<Rightarrow>
       (w\<lparr>wio_appendLog := l\<rparr>, r\<lparr>rdr_closed := True, rdr_appendReader := ar\<rparr>))"

definition rdr_Next :: "ioenv \<Rightarrow> WalIO \<Rightarrow> WalReader \<Rightarrow> WalIO \<times> WalReader \<times> (error + bytes \<times> RecordPosition)" where
  "rdr_Next io w r =
    (if rdr_closed r then (w, r, Inl EOF)
     else case wr_Next io (wio_appendLog w) (rdr_appendReader r) of (l, ar, res) \<Rightarrow>
       let w = w\<lparr>wio_appendLog := l\<rparr>; r = r\<lparr>rdr_appendReader := ar\<rparr> in
       case res of
         Inl err \<Rightarrow>
           if errors_Is err ErrNoNewData then
             (if \<not> rdr_withActiveTail r then (case rdr_Close io w r of (w, r) \<Rightarrow> (w, r, Inl EOF)) else (w, r, Inl err))
           else if errors_Is err EOF then (case rdr_Close io w r of (w, r) \<Rightarrow> (w, r, Inl err))
           else (w, r, Inl err)
       | Inr (data, pos) \<Rightarrow> (w, r\<lparr>rdr_readCount := rdr_readCount r + 1\<rparr>, Inr (data, pos)))"

definition wio_NewReader :: "bool \<Rightarrow> WalIO \<Rightarrow> WalReader" where
  "wio_NewReader tail w = \<lparr>rdr_appendReader = wl_NewReader (wio_appendLog w), rdr_closed = False,
     rdr_withActiveTail = tail, rdr_readCount = 0\<rparr>"

definition wio_NewReaderWithStart :: "bool \<Rightarrow> RecordPosition option \<Rightarrow> WalIO \<Rightarrow> error + WalReader" where
  "wio_NewReaderWithStart tail offset w =
    (case offset of None \<Rightarrow> Inl Panic
     | Some off \<Rightarrow>
       case NewReaderWithStart off (wio_appendLog w) of Inl e \<Rightarrow> Inl e
       | Inr ar \<Rightarrow> Inr \<lparr>rdr_appendReader = ar, rdr_closed = False, rdr_withActiveTail = tail, rdr_readCount = 0\<rparr>)"

section \<open>The records of a transaction\<close>

partial_function (option) txnRecordsLoop ::
  "fb_api \<Rightarrow> WalIO \<Rightarrow> RecordPosition option \<Rightarrow> LogRecordTable list \<Rightarrow> (error + LogRecordTable list) option" where
  "txnRecordsLoop fb w nextOffset records =
    (case wio_Read nextOffset w of
       Inl e \<Rightarrow> Some (Inl (if nextOffset = None then Panic else Wrapped ''failed to read WAL at offset'' ErrWalNextOffset))
     | Inr walEntry \<Rightarrow>
       let record = GetRootAsLogRecord fb walEntry; records = records @ [record] in
       if PrevTxnWalIndexLength record = 0 then Some (Inr (rev records))
       else txnRecordsLoop fb w (DecodeOffset (PrevTxnWalIndexBytes record)) records)"

definition GetTransactionRecords ::
  "fb_api \<Rightarrow> RecordPosition option \<Rightarrow> WalIO \<Rightarrow> (error + LogRecordTable list) option" where
  "GetTransactionRecords fb startOffset w =
    (if startOffset = None then Some (Inr []) else txnRecordsLoop fb w startOffset [])"

end
