(* ===== verification/WalIOCorrect.thy ===== *)
theory WalIOCorrect
  imports WalIO
begin

text \<open>
  The engine's log refines the list of its entries: appending adds entries at the end, a reader returns them in order,
  and the records of a transaction are those on the chain of positions that leads back to its begin record.
\<close>

section \<open>Reading does not change the log\<close>

definition reads_only :: "layout \<Rightarrow> WALog \<Rightarrow> WALog \<Rightarrow> bool" where
  "reads_only L w w' \<longleftrightarrow> (\<exists>h. w' = w\<lparr>wl_heap := h\<rparr>) \<and> (\<forall>x \<in> set L. sealed_in w' (fst x) = sealed_in w (fst x))"

lemma reads_only_refl [simp]: "reads_only L w w"
  by (auto simp: reads_only_def intro: exI [of _ "wl_heap w"])

lemma reads_only_trans: "reads_only L w w' \<Longrightarrow> reads_only L w' w'' \<Longrightarrow> reads_only L w w''"
  by (auto simp: reads_only_def)

lemma heap_put: "put_segment sid s (w\<lparr>wl_heap := h\<rparr>) = w\<lparr>wl_heap := h(sid \<mapsto> s)\<rparr>"
  by (simp add: put_segment_def)

lemma openNext_heap: "openNext w r = Some (w', r') \<Longrightarrow> \<exists>h. w' = w\<lparr>wl_heap := h\<rparr>"
  by (auto simp: openNext_def Let_def put_segment_def split: if_splits option.splits intro: exI [of _ "wl_heap w"])

lemma readCurrent_heap:
  "(readCurrent io w r sid rd = Inl (w', r', res) \<or> readCurrent io w r sid rd = Inr (w', r')) \<Longrightarrow> \<exists>h. w' = w\<lparr>wl_heap := h\<rparr>"
  by (auto simp: readCurrent_def put_segment_def split: option.splits prod.splits sum.splits if_splits intro: exI [of _ "wl_heap w"])

lemma wr_Next_heap: "wr_Next io w r = (w', r', res) \<Longrightarrow> \<exists>h. w' = w\<lparr>wl_heap := h\<rparr>"
proof (induction io w r rule: wr_Next.induct)
  case (1 io w r)
  show ?case
  proof (cases "wr_currentReader r")
    case None
    show ?thesis
    proof (cases "openNext w r")
      case None
      with \<open>wr_currentReader r = None\<close> "1.prems" show ?thesis
        by (subst (asm) wr_Next.simps) (auto intro: exI [of _ "wl_heap w"])
    next
      case (Some x)
      obtain w1 r1 where x: "x = (w1, r1)" by (cases x)
      have "wr_Next io w1 r1 = (w', r', res)"
        using "1.prems" None Some x by (subst (asm) wr_Next.simps) simp
      from "1.IH"(1) [OF None Some x [symmetric] this] openNext_heap [of w r w1 r1] Some x show ?thesis by auto
    qed
  next
    case (Some y)
    obtain sid rd where y: "y = (sid, rd)" by (cases y)
    show ?thesis
    proof (cases "readCurrent io w r sid rd")
      case (Inl z)
      with "1.prems" Some y have "z = (w', r', res)" by (subst (asm) wr_Next.simps) simp
      with Inl readCurrent_heap show ?thesis by blast
    next
      case (Inr x)
      obtain w1 r1 where x: "x = (w1, r1)" by (cases x)
      have "wr_Next io w1 r1 = (w', r', res)"
        using "1.prems" Some Inr x y by (subst (asm) wr_Next.simps) simp
      from "1.IH"(2) [OF Some y [symmetric] Inr x [symmetric] this] readCurrent_heap [of io w r sid rd w1 r1] Inr x show ?thesis by auto
    qed
  qed
qed

lemma next_reads_only:
  assumes "wr_Next io w r = (w', r', res)" "same_seals w w'" shows "reads_only L w w'"
  using wr_Next_heap [OF assms(1)] assms(2) by (simp add: reads_only_def same_seals_def)

lemma wr_Close_ok:
  assumes "wal_inv w L"
  shows "wal_inv (fst (wr_Close io w r)) L \<and> reads_only L w (fst (wr_Close io w r))"
proof (cases "wr_currentReader r")
  case (Some y)
  obtain sid rd where y: "y = (sid, rd)" by (cases y)
  show ?thesis
  proof (cases "wl_heap w sid")
    case (Some s)
    note heap = this
    show ?thesis
    proof (cases "rd_closed rd")
      case True
      then have "put_segment sid s w = w" using heap by (simp add: put_segment_def fun_upd_idem)
      with True assms heap \<open>wr_currentReader r = Some y\<close> y show ?thesis by (simp add: wr_Close_def reader_Close_def)
    next
      case False
      obtain rd' s' where c: "reader_Close io rd s = Some (rd', s')"
        using decrRef_returns [of io "rd_id rd" s] False by (auto simp: reader_Close_def)
      have fst: "fst (wr_Close io w r) = put_segment sid s' w"
        using c heap \<open>wr_currentReader r = Some y\<close> y by (simp add: wr_Close_def)
      show ?thesis
      proof (cases "sid \<in> fst ` set L")
        case True
        then obtain rs where rs: "(sid, rs) \<in> set L" by auto
        then have ok: "seg_ok (wl_maxSegmentSize w) sid s rs" using wal_inv_segment(1) [OF assms rs] heap by auto
        from seg_ok_reader_Close [OF ok False, of io] c
        have s': "seg_ok (wl_maxSegmentSize w) sid s' rs" "seg_isSealed s' = seg_isSealed s" by auto
        then have "wal_inv (put_segment sid s' w) L" using wal_inv_put_any [OF assms rs heap] by simp
        moreover have "same_seals w (put_segment sid s' w)" using same_seals_put heap s'(2) by simp
        ultimately show ?thesis unfolding fst reads_only_def same_seals_def put_segment_def by auto
      next
        case nin: False
        then have "wal_inv (put_segment sid s' w) L" using assms by (auto simp: wal_inv_def put_segment_def dest: in_set_butlastD)
        moreover have "\<forall>x \<in> set L. sealed_in (put_segment sid s' w) (fst x) = sealed_in w (fst x)"
          using nin by (auto simp: sealed_in_def put_segment_def)
        ultimately show ?thesis unfolding fst reads_only_def put_segment_def by auto
      qed
    qed
  qed (use assms \<open>wr_currentReader r = Some y\<close> y in \<open>simp add: wr_Close_def\<close>)
qed (use assms in \<open>simp add: wr_Close_def\<close>)

section \<open>Readers of the engine\<close>

definition wio_reads :: "layout \<Rightarrow> WalIO \<Rightarrow> WalIO \<Rightarrow> bool" where
  "wio_reads L w w' \<longleftrightarrow> reads_only L (wio_appendLog w) (wio_appendLog w') \<and> wio_entriesInSegment w' = wio_entriesInSegment w"

lemma wio_reads_refl [simp]: "wio_reads L w w"
  by (simp add: wio_reads_def)

lemma wio_reads_trans: "wio_reads L w w' \<Longrightarrow> wio_reads L w' w'' \<Longrightarrow> wio_reads L w w''"
  using reads_only_trans by (auto simp: wio_reads_def)

text \<open>The entries a reader has still to return; \<open>T\<close> is the rest of the log.\<close>

definition rdr_todo :: "WalIO \<Rightarrow> layout \<Rightarrow> WalReader \<Rightarrow> (RecordPosition \<times> bytes) list \<Rightarrow> bool" where
  "rdr_todo w L r T \<longleftrightarrow> \<not> rdr_closed r
    \<and> (\<exists>P R. L = P @ R \<and> R \<noteq> [] \<and> reader_todo (wio_appendLog w) R (rdr_appendReader r) T)"

lemma rdr_Next_entry:
  assumes "wal_inv (wio_appendLog w) L" "rdr_todo w L r ((p, d) # T)"
  shows "\<exists>w' r'. rdr_Next io w r = (w', r', Inr (d, p)) \<and> wal_inv (wio_appendLog w') L \<and> wio_reads L w w'
    \<and> rdr_todo w' L r' T \<and> rdr_withActiveTail r' = rdr_withActiveTail r"
proof -
  obtain P R where PR: "L = P @ R" "R \<noteq> []" "reader_todo (wio_appendLog w) R (rdr_appendReader r) ((p, d) # T)"
    using assms(2) by (auto simp: rdr_todo_def)
  obtain l ar where n: "wr_Next io (wio_appendLog w) (rdr_appendReader r) = (l, ar, Inr (d, p))" "wal_inv l L"
      "same_seals (wio_appendLog w) l" "reader_todo l R ar T"
    using wr_Next_ok [OF assms(1) [unfolded PR(1)] PR(2,3), of io] PR(1) by (auto simp: next_ok_def)
  moreover have "reads_only L (wio_appendLog w) l" using next_reads_only n(1,3) by simp
  ultimately show ?thesis using assms(2) PR(1,2) by (auto simp: rdr_Next_def rdr_todo_def wio_reads_def)
qed

lemma rdr_Close_ok:
  assumes "wal_inv (wio_appendLog w) L" "rdr_Close io w r = (w', r')"
  shows "wal_inv (wio_appendLog w') L \<and> wio_reads L w w'"
  using assms wr_Close_ok [OF assms(1), of io "rdr_appendReader r"]
  by (auto simp: rdr_Close_def wio_reads_def split: if_splits prod.splits)

text \<open>At the end a reader that does not follow the tail is closed and returns the end of the file.\<close>

lemma rdr_Next_end:
  assumes "wal_inv (wio_appendLog w) L" "rdr_todo w L r []" "\<not> rdr_withActiveTail r"
  shows "\<exists>w' r'. rdr_Next io w r = (w', r', Inl EOF) \<and> wal_inv (wio_appendLog w') L \<and> wio_reads L w w' \<and> rdr_closed r'"
proof -
  obtain P R where PR: "L = P @ R" "R \<noteq> []" "reader_todo (wio_appendLog w) R (rdr_appendReader r) []" and opened: "\<not> rdr_closed r"
    using assms(2) by (auto simp: rdr_todo_def)
  obtain l ar where n: "wr_Next io (wio_appendLog w) (rdr_appendReader r) = (l, ar, Inl (next_result (wio_appendLog w) R))"
      "wal_inv l L" "same_seals (wio_appendLog w) l"
    using wr_Next_ok [OF assms(1) [unfolded PR(1)] PR(2,3), of io] PR(1) by (auto simp: next_ok_def)
  let ?w = "w\<lparr>wio_appendLog := l\<rparr>" and ?r = "r\<lparr>rdr_appendReader := ar\<rparr>"
  obtain w' r' where c: "rdr_Close io ?w ?r = (w', r')" by fastforce
  have "wio_reads L w ?w" using next_reads_only [OF n(1,3)] by (simp add: wio_reads_def)
  then have "wal_inv (wio_appendLog w') L \<and> wio_reads L w w'"
    using rdr_Close_ok [OF _ c] n(2) wio_reads_trans by auto
  moreover have "rdr_closed r'" using c opened by (auto simp: rdr_Close_def split: prod.splits)
  moreover have "rdr_Next io w r = (w', r', Inl EOF)"
    using n(1) opened assms(3) c by (auto simp: rdr_Next_def next_result_def split: if_splits)
  ultimately show ?thesis by blast
qed

lemma wio_NewReader_todo:
  assumes "wal_inv (wio_appendLog w) L" "fresh_ids (wio_appendLog w) L"
  shows "rdr_todo w L (wio_NewReader tail w) (wal_log L)"
proof -
  have "L \<noteq> []" using assms(1) by (simp add: wal_inv_def)
  then show ?thesis using NewReader_todo [OF assms] by (auto simp: rdr_todo_def wio_NewReader_def intro: exI [of _ "[]"])
qed

lemma wio_NewReaderWithStart_zero:
  "wio_NewReaderWithStart tail (Some \<lparr>SegmentID = 0, Offset = x\<rparr>) w = Inr (wio_NewReader tail w)"
  by (simp add: wio_NewReaderWithStart_def NewReaderWithStart_def wio_NewReader_def)

lemma wio_NewReaderWithStart_todo:
  assumes "wal_inv (wio_appendLog w) L" "fresh_ids (wio_appendLog w) L" "wal_log L = us @ (p, d) # vs" "SegmentID p \<noteq> 0"
  shows "\<exists>r. wio_NewReaderWithStart tail (Some p) w = Inr r \<and> rdr_todo w L r ((p, d) # vs) \<and> rdr_withActiveTail r = tail"
proof -
  obtain P sid xs ys R where L: "L = P @ (sid, xs @ d # ys) # R" and p: "p = \<lparr>SegmentID = sid, Offset = int (64 + run_size xs)\<rparr>"
    and us: "us = wal_log P @ seg_entries (sid, xs)" using wal_log_split [OF assms(3)] by blast
  have "wal_log L = wal_log P @ seg_entries (sid, xs) @ entries_from sid xs (d # ys) @ wal_log R"
    by (simp add: L wal_log_def seg_entries_append entries_from_def del: zip_Cons_Cons positions.simps)
  then have T: "(p, d) # vs = entries_from sid xs (d # ys) @ wal_log R" using assms(3) us by simp
  have "sid \<noteq> 0" using assms(4) p by simp
  from NewReaderWithStart_todo [OF assms(1,2) [unfolded L] this, folded p T] obtain r where
    r: "NewReaderWithStart p (wio_appendLog w) = Inr r" "reader_todo (wio_appendLog w) ((sid, xs @ d # ys) # R) r ((p, d) # vs)" by blast
  then have "rdr_todo w L \<lparr>rdr_appendReader = r, rdr_closed = False, rdr_withActiveTail = tail, rdr_readCount = 0\<rparr> ((p, d) # vs)"
    unfolding rdr_todo_def L by auto
  with r(1) show ?thesis by (simp add: wio_NewReaderWithStart_def)
qed

section \<open>Appending\<close>

definition fits :: "WalIO \<Rightarrow> bytes \<Rightarrow> bool" where
  "fits w d \<longleftrightarrow> int (recordOverhead (length d)) \<le> int (wl_maxSegmentSize (wio_appendLog w)) - 64"

lemma wio_Append_ok:
  assumes "wal_inv (wio_appendLog w) L" "wal_active (wio_appendLog w)" "all_ok io" "unat (fst (last L)) + 1 < 2 ^ 32" "fits w d"
  shows "\<exists>w' L' p. wio_Append io d w = (w', Inr p) \<and> wal_inv (wio_appendLog w') L' \<and> wal_active (wio_appendLog w')
    \<and> extends L [(p, d)] L' \<and> same_config (wio_appendLog w) (wio_appendLog w')"
proof -
  obtain l L' p where "wl_Write io d (wio_appendLog w) = (l, Inr p)" "wal_inv l L'" "wal_active l" "extends L [(p, d)] L'"
      "same_config (wio_appendLog w) l"
    using wl_Write_ok [OF assms(1-4)] assms(5) unfolding fits_def by blast
  then show ?thesis by (auto simp: wio_Append_def Let_def)
qed

lemma wio_BatchAppend_ok:
  assumes "wal_inv (wio_appendLog w) L" "wal_active (wio_appendLog w)" "\<forall>i. all_ok (io i)" "unat (fst (last L)) + length ds < 2 ^ 32"
    and "\<forall>d \<in> set ds. fits w d"
  shows "\<exists>w' L' ps. wio_BatchAppend io ds w = (w', Inr ps) \<and> wal_inv (wio_appendLog w') L' \<and> wal_active (wio_appendLog w')
    \<and> length ps = length ds \<and> extends L (zip ps ds) L' \<and> same_config (wio_appendLog w) (wio_appendLog w')"
proof -
  obtain l L' ps where l: "wl_WriteBatch io ds (wio_appendLog w) = (l, ps, None)" "wal_inv l L'" "wal_active l" "length ps = length ds"
      "extends L (zip ps ds) L'" "same_config (wio_appendLog w) l"
    using wl_WriteBatch_ok [OF assms(1-4)] assms(5) unfolding fits_def by blast
  show ?thesis
  proof (cases "ds = []")
    case True
    then show ?thesis using assms(1,2) by (auto simp: wio_BatchAppend_def extends_def intro: exI [of _ L])
  next
    case False
    then show ?thesis using l by (auto simp: wio_BatchAppend_def Let_def)
  qed
qed

end
