(* ===== verification/Replay.thy ===== *)
theory Replay
  imports StoreSpec
begin

text \<open>
  Sequences of operations on the abstract store, place by place. Every operation overwrites the places it touches, so
  the contents of a place after a sequence are decided by the last operation that touches it. Two consequences carry
  the proofs about flushing and recovery: sequences with the same last writer everywhere have the same effect, and
  replaying a log over a store that already holds some of its effects gives the same result.
\<close>

datatype place = PlaceKV bytes | PlaceCell bytes bytes | PlaceLob bytes

fun touches :: "sop \<Rightarrow> place \<Rightarrow> bool" where
  "touches (PutKV k _) l = (l = PlaceKV k)"
| "touches (DelKV k) l = (l = PlaceKV k)"
| "touches (SetLob k _ _) l = (l = PlaceLob k)"
| "touches (DelLob k) l = (l = PlaceLob k)"
| "touches (SetCells r es) l = (\<exists>c \<in> fst ` set es. l = PlaceCell r c)"
| "touches (DelCells r cs) l = (\<exists>c \<in> set cs. l = PlaceCell r c)"
| "touches (DelRow r) l = (\<exists>c. l = PlaceCell r c)"

text \<open>Two stores agree at a place.\<close>

fun same_at :: "place \<Rightarrow> ustore \<Rightarrow> ustore \<Rightarrow> bool" where
  "same_at (PlaceKV k) u v = (u_kv u k = u_kv v k)"
| "same_at (PlaceCell r c) u v = (u_cell u r c = u_cell v r c)"
| "same_at (PlaceLob k) u v = (u_lob u k = u_lob v k)"

lemma same_at_refl [simp]: "same_at l u u"
  by (cases l) simp_all

lemma same_at_sym: "same_at l u v \<Longrightarrow> same_at l v u"
  by (cases l) simp_all

lemma same_at_trans: "same_at l u v \<Longrightarrow> same_at l v w \<Longrightarrow> same_at l u w"
  by (cases l) simp_all

lemma same_at_everywhere: "(\<And>l. same_at l u v) \<Longrightarrow> u = (v :: ustore)"
proof -
  assume a: "\<And>l. same_at l u v"
  have "u_kv u k = u_kv v k" "u_cell u r c = u_cell v r c" "u_lob u k = u_lob v k" for k r c
    using a [of "PlaceKV k"] a [of "PlaceCell r c"] a [of "PlaceLob k"] by simp_all
  then have "u_kv u = u_kv v" "u_cell u = u_cell v" "u_lob u = u_lob v" by (simp_all add: fun_eq_iff)
  then show ?thesis by simp
qed

lemma fold_put_other: "c \<notin> fst ` set es \<Longrightarrow> fold (\<lambda>(c, v) m. m(c \<mapsto> v)) es m c = m c"
  by (induction es arbitrary: m) auto

lemma fold_put_same: "c \<in> fst ` set es \<Longrightarrow> fold (\<lambda>(c, v) m. m(c \<mapsto> v)) es m c = fold (\<lambda>(c, v) m. m(c \<mapsto> v)) es m' c"
proof (induction es arbitrary: m m')
  case (Cons e es)
  obtain d v where e: "e = (d, v)" by (cases e)
  show ?case
  proof (cases "c \<in> fst ` set es")
    case True
    then show ?thesis using Cons.IH by (simp add: e)
  next
    case False
    then have "fold (\<lambda>(c, v) m. m(c \<mapsto> v)) es (f(d \<mapsto> v)) c = (f(d \<mapsto> v)) c" for f :: "'a \<Rightarrow> 'b option"
      by (rule fold_put_other)
    moreover have "c = d" using Cons.prems False by (simp add: e)
    ultimately show ?thesis by (simp only: e fold_simps prod.case fun_upd_same)
  qed
qed simp

lemma fold_del: "fold (\<lambda>c m. m(c := None)) cs m c = (if c \<in> set cs then None else m c)"
  by (induction cs arbitrary: m) auto

lemma touched: "touches op l \<Longrightarrow> same_at l (apply_sop op u) (apply_sop op v)"
proof (cases op)
  case (SetCells r es)
  assume "touches op l"
  then obtain c where c: "c \<in> fst ` set es" "l = PlaceCell r c" by (auto simp: SetCells)
  show ?thesis using fold_put_same [OF c(1), of "u_cell u r" "u_cell v r"] by (simp add: c(2) SetCells)
qed (auto simp: fold_del)

lemma untouched: "\<not> touches op l \<Longrightarrow> same_at l (apply_sop op u) u"
proof (cases op)
  case (SetCells r es)
  assume "\<not> touches op l"
  then show ?thesis by (cases l) (auto simp: SetCells fold_put_other)
qed (cases l; auto simp: fold_del)+

lemma apply_same_at: "same_at l u v \<Longrightarrow> same_at l (apply_sop op u) (apply_sop op v)"
  using touched untouched same_at_trans same_at_sym by (metis (full_types))

section \<open>The last writer\<close>

definition last_writer :: "sop list \<Rightarrow> place \<Rightarrow> sop option" where
  "last_writer ops l = (let ws = filter (\<lambda>op. touches op l) ops in if ws = [] then None else Some (last ws))"

lemma last_writer_Nil [simp]: "last_writer [] l = None"
  by (simp add: last_writer_def)

lemma last_writer_snoc: "last_writer (ops @ [op]) l = (if touches op l then Some op else last_writer ops l)"
  by (simp add: last_writer_def Let_def)

lemma last_writer_append:
  "last_writer (xs @ ys) l = (case last_writer ys l of None \<Rightarrow> last_writer xs l | Some op \<Rightarrow> Some op)"
  by (simp add: last_writer_def Let_def split: option.split)

lemma last_writer_None: "last_writer ops l = None \<longleftrightarrow> (\<forall>op \<in> set ops. \<not> touches op l)"
  by (auto simp: last_writer_def Let_def filter_empty_conv)

lemma last_writer_effect:
  "same_at l (fold apply_sop ops u) (case last_writer ops l of None \<Rightarrow> u | Some op \<Rightarrow> apply_sop op u)"
proof (induction ops rule: rev_induct)
  case (snoc op ops)
  show ?case
  proof (cases "touches op l")
    case True
    then show ?thesis using touched by (simp add: last_writer_snoc)
  next
    case False
    then have "same_at l (fold apply_sop (ops @ [op]) u) (fold apply_sop ops u)" using untouched by simp
    then show ?thesis using snoc.IH False same_at_trans by (auto simp: last_writer_snoc)
  qed
qed simp

lemma same_writers:
  assumes "\<And>l. last_writer ops l = last_writer ops' l"
  shows "fold apply_sop ops u = fold apply_sop ops' u"
proof (rule same_at_everywhere)
  fix l show "same_at l (fold apply_sop ops u) (fold apply_sop ops' u)"
    using last_writer_effect [of l ops u] last_writer_effect [of l ops' u] assms [of l] same_at_sym same_at_trans by metis
qed

text \<open>Replaying over a store that differs only at places the operations touch.\<close>

lemma replay:
  assumes "\<And>l. last_writer ops l = None \<Longrightarrow> same_at l u v"
  shows "fold apply_sop ops u = fold apply_sop ops v"
proof (rule same_at_everywhere)
  fix l
  have "same_at l (case last_writer ops l of None \<Rightarrow> u | Some op \<Rightarrow> apply_sop op u) (case last_writer ops l of None \<Rightarrow> v | Some op \<Rightarrow> apply_sop op v)"
  proof (cases "last_writer ops l")
    case (Some op)
    then have "touches op l" using last_in_set by (fastforce simp: last_writer_def Let_def split: if_splits)
    then show ?thesis using Some touched by simp
  qed (use assms in simp)
  then show "same_at l (fold apply_sop ops u) (fold apply_sop ops v)"
    using last_writer_effect [of l ops u] last_writer_effect [of l ops v] same_at_sym same_at_trans by metis
qed

lemma replay_untouched:
  assumes "\<And>op. op \<in> set ops' \<Longrightarrow> op \<in> set ops"
  shows "fold apply_sop ops (fold apply_sop ops' u) = fold apply_sop ops u"
proof (rule replay)
  fix l assume "last_writer ops l = None"
  then have "last_writer ops' l = None" using assms by (auto simp: last_writer_None)
  then show "same_at l (fold apply_sop ops' u) u" using last_writer_effect [of l ops' u] by simp
qed

end
