(* ===== verification/LogSpec.thy ===== *)
theory LogSpec
  imports WalIOCorrect Replay
begin

text \<open>
  What a log means. The decoded log is a list of records with their positions. A record outside transactions asks for one
  call on the store; a commit record asks for one call with the contents of the records of its transaction, which
  are the earlier records with the same transaction id. \<open>linked\<close> is the invariant that ties these records
  together by the positions stored in them; \<open>GetTransactionRecords\<close> follows the positions and returns exactly these records.
\<close>

type_synonym log = "(RecordPosition \<times> LogRecord) list"

definition decoded :: "fb_api \<Rightarrow> (RecordPosition \<times> bytes) list \<Rightarrow> log" where
  "decoded fb es = map (\<lambda>(p, d). (p, DeserializeLogRecord fb d)) es"

lemma decoded_append [simp]: "decoded fb (xs @ ys) = decoded fb xs @ decoded fb ys"
  by (simp add: decoded_def)

lemma decoded_Cons [simp]: "decoded fb ((p, d) # xs) = (p, DeserializeLogRecord fb d) # decoded fb xs" "decoded fb [] = []"
  by (simp_all add: decoded_def)

section \<open>Transactions\<close>

definition txn_part :: "log \<Rightarrow> bytes \<Rightarrow> log" where
  "txn_part rs tid = filter (\<lambda>(p, r). TxnState r \<noteq> TransactionStateNone \<and> TxnID r = tid) rs"

lemma txn_part_append [simp]: "txn_part (xs @ ys) tid = txn_part xs tid @ txn_part ys tid"
  by (simp add: txn_part_def)

lemma txn_part_Nil [simp]: "txn_part [] tid = []"
  by (simp add: txn_part_def)

lemma txn_part_Cons [simp]:
  "txn_part ((p, r) # rs) tid = (if TxnState r \<noteq> TransactionStateNone \<and> TxnID r = tid then (p, r) # txn_part rs tid else txn_part rs tid)"
  by (simp add: txn_part_def)

definition link_ok :: "log \<Rightarrow> LogRecord \<Rightarrow> bool" where
  "link_ok pre r = (case TxnState r of
     TransactionStateNone \<Rightarrow> True
   | TransactionStateBegin \<Rightarrow> PrevTxnWalIndex r = [] \<and> txn_part pre (TxnID r) = []
   | _ \<Rightarrow> txn_part pre (TxnID r) \<noteq> [] \<and> PrevTxnWalIndex r = rp_Encode (fst (last (txn_part pre (TxnID r)))))"

fun linked :: "log \<Rightarrow> log \<Rightarrow> bool" where
  "linked pre [] = True"
| "linked pre (x # xs) = (link_ok pre (snd x) \<and> linked (pre @ [x]) xs)"

lemma linked_append [simp]: "linked pre (xs @ ys) = (linked pre xs \<and> linked (pre @ xs) ys)"
  by (induction xs arbitrary: pre) auto

section \<open>The calls of a log\<close>

definition entries_call :: "fb_api \<Rightarrow> LogOperationType \<Rightarrow> LogEntryType \<Rightarrow> bytes list \<Rightarrow> storeCall option" where
  "entries_call fb op et es =
    (let kvs = map (DeserializeKVEntry fb) es; rows = map (DeserializeRowUpdateEntry fb) es in
     case (et, op) of
       (LogEntryTypeKV, LogOperationTypeInsert) \<Rightarrow> Some (CBatchSetKV (map kve_Key kvs) (map kve_Value kvs))
     | (LogEntryTypeKV, LogOperationTypeDelete) \<Rightarrow> Some (CBatchDeleteKV (map kve_Key kvs))
     | (LogEntryTypeRow, LogOperationTypeInsert) \<Rightarrow> Some (CBatchSetCells (map re_Key rows) (map re_Columns rows))
     | (LogEntryTypeRow, LogOperationTypeDelete) \<Rightarrow> Some (CBatchDeleteCells (map re_Key rows) (map re_Columns rows))
     | (LogEntryTypeRow, LogOperationTypeDeleteRowByKey) \<Rightarrow> Some (CBatchDeleteRows (map re_Key rows))
     | _ \<Rightarrow> None)"

definition chunk_call :: "fb_api \<Rightarrow> LogRecord \<Rightarrow> LogRecord list \<Rightarrow> storeCall" where
  "chunk_call fb r parts = CSetLobChunks (kve_Key (DeserializeKVEntry fb (hd (Entries r))))
     (map (\<lambda>q. kve_Value (DeserializeKVEntry fb (hd (Entries q)))) parts) (CRC32Checksum r)"

definition commit_call :: "fb_api \<Rightarrow> LogRecord \<Rightarrow> LogRecord list \<Rightarrow> storeCall option" where
  "commit_call fb r parts =
    (if EntryType r = LogEntryTypeChunked then Some (chunk_call fb r parts)
     else entries_call fb (OperationType r) (EntryType r) (concat (map Entries parts)))"

definition record_call :: "fb_api \<Rightarrow> log \<Rightarrow> LogRecord \<Rightarrow> storeCall option" where
  "record_call fb pre r = (case TxnState r of
     TransactionStateNone \<Rightarrow> entries_call fb (OperationType r)
       (if OperationType r = LogOperationTypeDeleteRowByKey then LogEntryTypeRow else EntryType r) (Entries r)
   | TransactionStateCommit \<Rightarrow> commit_call fb r (map snd (tl (txn_part pre (TxnID r))))
   | _ \<Rightarrow> None)"

fun log_calls :: "fb_api \<Rightarrow> log \<Rightarrow> log \<Rightarrow> storeCall list" where
  "log_calls fb pre [] = []"
| "log_calls fb pre (x # xs) =
    (case record_call fb pre (snd x) of None \<Rightarrow> [] | Some c \<Rightarrow> [c]) @ log_calls fb (pre @ [x]) xs"

definition log_sops :: "fb_api \<Rightarrow> log \<Rightarrow> log \<Rightarrow> sop list" where
  "log_sops fb pre xs = concat (map call_sops (log_calls fb pre xs))"

lemma log_calls_append [simp]: "log_calls fb pre (xs @ ys) = log_calls fb pre xs @ log_calls fb (pre @ xs) ys"
  by (induction xs arbitrary: pre) auto

lemma log_sops_append [simp]: "log_sops fb pre (xs @ ys) = log_sops fb pre xs @ log_sops fb (pre @ xs) ys"
  by (simp add: log_sops_def)

lemma log_sops_Nil [simp]: "log_sops fb pre [] = []"
  by (simp add: log_sops_def)

lemma log_sops_Cons:
  "log_sops fb pre (x # xs) = (case record_call fb pre (snd x) of None \<Rightarrow> [] | Some c \<Rightarrow> call_sops c) @ log_sops fb (pre @ [x]) xs"
  by (simp add: log_sops_def split: option.split)

section \<open>Following the positions\<close>

lemma root_fields [simp]:
  "TxnState (DeserializeFBRootLogRecord t) = tb_TxnState t" "OperationType (DeserializeFBRootLogRecord t) = tb_OperationType t"
  "EntryType (DeserializeFBRootLogRecord t) = tb_EntryType t" "CRC32Checksum (DeserializeFBRootLogRecord t) = tb_Crc32Checksum t"
  "PrevTxnWalIndex (DeserializeFBRootLogRecord t) = PrevTxnWalIndexBytes t" "TxnID (DeserializeFBRootLogRecord t) = TxnIdBytes t"
  "Entries (DeserializeFBRootLogRecord t) = tb_Entries t" "LSN (DeserializeFBRootLogRecord t) = tb_Lsn t"
  by (simp_all add: DeserializeFBRootLogRecord_def map_nth)

lemma length_rp_Encode [simp]: "length (rp_Encode p) = 12"
  by (simp add: rp_Encode_def)

lemma rp_Encode_not_Nil [simp]: "rp_Encode p \<noteq> []"
  using length_rp_Encode [of p] by force

lemma DecodeOffset_Encode: "is_int64 (Offset p) \<Longrightarrow> DecodeOffset (rp_Encode p) = Some p"
  by (simp add: DecodeOffset_def rp_decode_encode)

lemma wal_log_int64: "wal_inv w L \<Longrightarrow> (p, d) \<in> set (wal_log L) \<Longrightarrow> is_int64 (Offset p)"
  using wal_log_bounds [of w L p d] by (auto simp: is_int64_def wal_inv_def)

lemma txn_part_split:
  assumes "txn_part (decoded fb es) tid \<noteq> []"
  shows "\<exists>es1 q e es2. es = es1 @ (q, e) # es2 \<and> txn_part (decoded fb es2) tid = []
    \<and> TxnState (DeserializeLogRecord fb e) \<noteq> TransactionStateNone \<and> TxnID (DeserializeLogRecord fb e) = tid"
  using assms
proof (induction es rule: rev_induct)
  case (snoc x es)
  obtain q e where x: "x = (q, e)" by (cases x)
  show ?case
  proof (cases "TxnState (DeserializeLogRecord fb e) \<noteq> TransactionStateNone \<and> TxnID (DeserializeLogRecord fb e) = tid")
    case True
    then show ?thesis unfolding x by (intro exI [of _ es] exI [of _ q] exI [of _ e] exI [of _ "[]"]) simp
  next
    case False
    then have out: "txn_part (decoded fb [x]) tid = []" by (auto simp: x)
    with snoc obtain es1 q e es2 where "es = es1 @ (q, e) # es2" "txn_part (decoded fb es2) tid = []"
        "TxnState (DeserializeLogRecord fb e) \<noteq> TransactionStateNone \<and> TxnID (DeserializeLogRecord fb e) = tid" by auto
    with out show ?thesis by (intro exI [of _ es1] exI [of _ q] exI [of _ e] exI [of _ "es2 @ [x]"]) (simp add: x)
  qed
qed simp

lemma txnRecordsLoop_ok:
  assumes "wal_inv (wio_appendLog w) L" "linked [] (decoded fb (wal_log L))"
  shows "wal_log L = es @ (p, d) # es' \<Longrightarrow> r = DeserializeLogRecord fb d \<Longrightarrow> TxnState r \<noteq> TransactionStateNone
    \<Longrightarrow> \<exists>ts. txnRecordsLoop fb w (Some p) acc = Some (Inr (ts @ rev acc))
      \<and> map DeserializeFBRootLogRecord ts = map snd (txn_part (decoded fb es @ [(p, r)]) (TxnID r))"
proof (induction "length es" arbitrary: es p d es' r acc rule: less_induct)
  case less
  let ?t = "GetRootAsLogRecord fb d"
  have read: "wio_Read (Some p) w = Inr d" using wl_Read_entry [OF assms(1)] less.prems(1) by (simp add: wio_Read_def)
  have r: "r = DeserializeFBRootLogRecord ?t" using less.prems(2) by (simp add: DeserializeLogRecord_def)
  have link: "link_ok (decoded fb es) r" using assms(2) less.prems(1,2) by simp
  show ?case
  proof (cases "PrevTxnWalIndex r = []")
    case True
    then have "txn_part (decoded fb es) (TxnID r) = []"
      using link less.prems(3) by (auto simp: link_ok_def split: TransactionState.splits)
    moreover have "PrevTxnWalIndexLength ?t = 0" using True r by (simp add: PrevTxnWalIndexLength_def)
    ultimately show ?thesis using read less.prems(3) r by (subst txnRecordsLoop.simps) (simp add: Let_def)
  next
    case False
    let ?part = "txn_part (decoded fb es) (TxnID r)"
    have part: "?part \<noteq> []" "PrevTxnWalIndex r = rp_Encode (fst (last ?part))"
      using link less.prems(3) False by (auto simp: link_ok_def split: TransactionState.splits)
    obtain es1 q e es2 where es: "es = es1 @ (q, e) # es2" and out: "txn_part (decoded fb es2) (TxnID r) = []"
      and q: "TxnState (DeserializeLogRecord fb e) \<noteq> TransactionStateNone" "TxnID (DeserializeLogRecord fb e) = TxnID r"
      using txn_part_split [OF part(1)] by blast
    let ?s = "DeserializeLogRecord fb e"
    have eq: "?part = txn_part (decoded fb es1 @ [(q, ?s)]) (TxnID ?s)" using out q by (simp add: es)
    have next_off: "DecodeOffset (PrevTxnWalIndexBytes ?t) = Some q"
    proof -
      have "PrevTxnWalIndexBytes ?t = PrevTxnWalIndex r" using r by (metis root_fields(5))
      also have "\<dots> = rp_Encode q" using part(2) q by (simp add: es out)
      finally show ?thesis using DecodeOffset_Encode [OF wal_log_int64 [OF assms(1)], of q e] less.prems(1) by (simp add: es)
    qed
    have "PrevTxnWalIndexLength ?t \<noteq> 0" using False r by (simp add: PrevTxnWalIndexLength_def)
    then have step: "txnRecordsLoop fb w (Some p) acc = txnRecordsLoop fb w (Some q) (acc @ [?t])"
      using read next_off by (subst txnRecordsLoop.simps) (simp add: Let_def)
    obtain ts where "txnRecordsLoop fb w (Some q) (acc @ [?t]) = Some (Inr (ts @ rev (acc @ [?t])))"
        "map DeserializeFBRootLogRecord ts = map snd ?part"
      using less.hyps [of es1 q e "es2 @ (p, d) # es'" ?s "acc @ [?t]"] less.prems(1) q(1) unfolding eq by (auto simp: es)
    then show ?thesis using step less.prems(3) r by (intro exI [of _ "ts @ [?t]"]) simp
  qed
qed

text \<open>The records of a transaction that a prepare or commit record refers to.\<close>

lemma GetTransactionRecords_ok:
  assumes "wal_inv (wio_appendLog w) L" "linked [] (decoded fb (wal_log L))" "wal_log L = es @ (p, d) # es'"
    and "r = DeserializeLogRecord fb d" "TxnState r = TransactionStatePrepare \<or> TxnState r = TransactionStateCommit"
  shows "\<exists>ts. GetTransactionRecords fb (DecodeOffset (PrevTxnWalIndex r)) w = Some (Inr ts)
    \<and> map DeserializeFBRootLogRecord ts = map snd (txn_part (decoded fb es) (TxnID r)) \<and> ts \<noteq> []"
proof -
  let ?part = "txn_part (decoded fb es) (TxnID r)"
  have part: "?part \<noteq> []" "PrevTxnWalIndex r = rp_Encode (fst (last ?part))"
    using assms(2,3) assms(4) [symmetric] assms(5) by (auto simp: link_ok_def)
  obtain es1 q e es2 where es: "es = es1 @ (q, e) # es2" and out: "txn_part (decoded fb es2) (TxnID r) = []"
    and q: "TxnState (DeserializeLogRecord fb e) \<noteq> TransactionStateNone" "TxnID (DeserializeLogRecord fb e) = TxnID r"
    using txn_part_split [OF part(1)] by blast
  have eq: "?part = txn_part (decoded fb es1 @ [(q, DeserializeLogRecord fb e)]) (TxnID (DeserializeLogRecord fb e))"
    using out q by (simp add: es)
  have off: "DecodeOffset (PrevTxnWalIndex r) = Some q"
    using part(2) DecodeOffset_Encode [OF wal_log_int64 [OF assms(1)], of q e] assms(3) q by (simp add: es out)
  obtain ts where ts: "txnRecordsLoop fb w (Some q) [] = Some (Inr ts)" "map DeserializeFBRootLogRecord ts = map snd ?part"
    using txnRecordsLoop_ok [OF assms(1,2), of es1 q e "es2 @ (p, d) # es'" "DeserializeLogRecord fb e" "[]"] assms(3) q(1)
    unfolding eq by (auto simp: es)
  moreover have "ts \<noteq> []" using ts(2) part(1) by auto
  ultimately show ?thesis using off by (auto simp: GetTransactionRecords_def)
qed

end
