(* ===== verification/Metadata.thy ===== *)
theory Metadata
  imports BTree LogSpec
begin

text \<open>
  The checkpoint of the engine, \<open>dbkernel/internal/metadata.go\<close>: the number of records processed and the position in the log up
  to which the store is complete, kept under a system key in the metadata of the store.
\<close>

definition SysKeyWalCheckPoint :: bytes where
  "SysKeyWalCheckPoint = map of_char ''sys.kv.unisondb.key.wal.checkpoint''"

record Metadata =
  RecordProcessed :: u64
  Pos :: "RecordPosition option"

text \<open>A nil position panics in \<open>Encode\<close>.\<close>

definition MarshalBinary :: "Metadata \<Rightarrow> error + bytes" where
  "MarshalBinary m = (case Pos m of None \<Rightarrow> Inl Panic
     | Some pos \<Rightarrow>
       let encodedPos = rp_Encode pos;
           result = blit 0 (LE_PutUint64 (RecordProcessed m)) (replicate (length encodedPos + 8) 0)
       in Inr (blit 8 encodedPos result))"

definition UnmarshalMetadata :: "bytes \<Rightarrow> error + Metadata" where
  "UnmarshalMetadata data = (if length data < 8 then Inl Panic
     else Inr \<lparr>RecordProcessed = LE_Uint64 (bslice 0 8 data), Pos = DecodeOffset (drop 8 data)\<rparr>)"

definition SaveMetadata ::
  "('d, 'q) btree_api \<Rightarrow> RecordPosition option \<Rightarrow> u64 \<Rightarrow> 'd \<Rightarrow> 'd \<times> error option" where
  "SaveMetadata bt pos index db =
    (case MarshalBinary \<lparr>RecordProcessed = index, Pos = pos\<rparr> of Inl e \<Rightarrow> (db, Some e)
     | Inr value \<Rightarrow> bt_StoreMetadata bt SysKeyWalCheckPoint value db)"

lemma blit_prefix: "length a + length b = length xs \<Longrightarrow> blit (length a) b (blit 0 a xs) = a @ b"
  by (simp add: blit_def)

lemma MarshalBinary_eq: "MarshalBinary \<lparr>RecordProcessed = n, Pos = Some p\<rparr> = Inr (LE_PutUint64 n @ rp_Encode p)"
  using blit_prefix [of "LE_PutUint64 n" "rp_Encode p" "replicate 20 0"] by (simp add: MarshalBinary_def Let_def)

lemma Unmarshal_Marshal:
  "is_int64 (Offset p) \<Longrightarrow> UnmarshalMetadata (LE_PutUint64 n @ rp_Encode p) = Inr \<lparr>RecordProcessed = n, Pos = Some p\<rparr>"
  by (simp add: UnmarshalMetadata_def DecodeOffset_Encode bslice_def)

context btree_store
begin

lemma SaveMetadata_ok:
  assumes "R d u"
  shows "\<exists>d'. SaveMetadata bt (Some p) n d = (d', None) \<and> R d' u \<and> M d' = (M d)(SysKeyWalCheckPoint \<mapsto> LE_PutUint64 n @ rp_Encode p)"
  using put_meta [OF assms] by (simp add: SaveMetadata_def MarshalBinary_eq)

end

end
