(* ===== verification/Recovery.thy ===== *)
theory Recovery
  imports Metadata
begin

text \<open>
  Recovery after a restart, \<open>dbkernel/internal/recovery/wal_recovery.go\<close>: the records behind the checkpoint are applied to the
  store one by one; a commit record brings in the records of its transaction, other records of transactions are
  passed over. The loop over the log and the chain of a transaction are partial functions; \<open>recoverWAL_ok\<close> shows that they
  return, and that the store then holds what the log says.
\<close>

section \<open>The recovery\<close>

record 'd walRecovery =
  wre_store :: 'd
  wre_walIO :: WalIO
  wre_recoveredCount :: nat
  wre_lastRecoveredPos :: "RecordPosition option"

definition NewWalRecovery :: "'d \<Rightarrow> WalIO \<Rightarrow> 'd walRecovery" where
  "NewWalRecovery store walIO = \<lparr>wre_store = store, wre_walIO = walIO, wre_recoveredCount = 0, wre_lastRecoveredPos = None\<rparr>"

definition store_do :: "('d, 'q) btree_api \<Rightarrow> storeCall \<Rightarrow> 'd walRecovery \<Rightarrow> 'd walRecovery \<times> error option" where
  "store_do bt c wr = (case bt_call bt c (wre_store wr) of (d, e) \<Rightarrow> (wr\<lparr>wre_store := d\<rparr>, e))"

definition handleInsert :: "fb_api \<Rightarrow> ('d, 'q) btree_api \<Rightarrow> LogRecordTable \<Rightarrow> 'd walRecovery \<Rightarrow> 'd walRecovery \<times> error option" where
  "handleInsert fb bt record wr =
    (let logEntry = DeserializeFBRootLogRecord record in
     case tb_EntryType record of
       LogEntryTypeKV \<Rightarrow>
         let kvEntries = map (DeserializeKVEntry fb) (Entries logEntry)
         in store_do bt (CBatchSetKV (map kve_Key kvEntries) (map kve_Value kvEntries)) wr
     | LogEntryTypeRow \<Rightarrow>
         let rowEntries = map (DeserializeRowUpdateEntry fb) (Entries logEntry)
         in store_do bt (CBatchSetCells (map re_Key rowEntries) (map re_Columns rowEntries)) wr
     | _ \<Rightarrow> (wr, None))"

definition handleDelete :: "fb_api \<Rightarrow> ('d, 'q) btree_api \<Rightarrow> LogRecordTable \<Rightarrow> 'd walRecovery \<Rightarrow> 'd walRecovery \<times> error option" where
  "handleDelete fb bt record wr =
    (let logEntry = DeserializeFBRootLogRecord record in
     case tb_EntryType record of
       LogEntryTypeKV \<Rightarrow>
         store_do bt (CBatchDeleteKV (map (\<lambda>entry. kve_Key (DeserializeKVEntry fb entry)) (Entries logEntry))) wr
     | LogEntryTypeRow \<Rightarrow>
         let rowEntries = map (DeserializeRowUpdateEntry fb) (Entries logEntry)
         in store_do bt (CBatchDeleteCells (map re_Key rowEntries) (map re_Columns rowEntries)) wr
     | _ \<Rightarrow> (wr, None))"

definition handleDeleteRowByKey :: "fb_api \<Rightarrow> ('d, 'q) btree_api \<Rightarrow> LogRecordTable \<Rightarrow> 'd walRecovery \<Rightarrow> 'd walRecovery \<times> error option" where
  "handleDeleteRowByKey fb bt record wr =
    (let logEntry = DeserializeFBRootLogRecord record in
     store_do bt (CBatchDeleteRows (map (\<lambda>entry. re_Key (DeserializeRowUpdateEntry fb entry)) (Entries logEntry))) wr)"

definition isFatalError :: "error \<Rightarrow> bool" where
  "isFatalError err \<longleftrightarrow> \<not> errors_Is err EOF"

text \<open>The handlers of committed transactions take the records of the transaction without the begin record; the slice
  \<open>records[1:]\<close> panics when there is none.\<close>

definition handleKVValuesTxn ::
  "fb_api \<Rightarrow> ('d, 'q) btree_api \<Rightarrow> LogRecordTable \<Rightarrow> 'd walRecovery \<Rightarrow> ('d walRecovery \<times> error option) option" where
  "handleKVValuesTxn fb bt record wr =
    (case GetTransactionRecords fb (DecodeOffset (PrevTxnWalIndexBytes record)) (wre_walIO wr) of
       None \<Rightarrow> None
     | Some (Inl err) \<Rightarrow> Some (wr, Some err)
     | Some (Inr records) \<Rightarrow>
       if records = [] then Some (wr, Some Panic)
       else
         let preparedRecords = tl records;
             kvEntries = concat (map (\<lambda>pRecord. map (DeserializeKVEntry fb) (Entries (DeserializeFBRootLogRecord pRecord))) preparedRecords);
             keys = map kve_Key kvEntries; values = map kve_Value kvEntries;
             wr = wr\<lparr>wre_recoveredCount := wre_recoveredCount wr + length records\<rparr>
         in Some (case tb_OperationType record of
              LogOperationTypeInsert \<Rightarrow> store_do bt (CBatchSetKV keys values) wr
            | LogOperationTypeDelete \<Rightarrow> store_do bt (CBatchDeleteKV keys) wr
            | _ \<Rightarrow> (wr, None)))"

definition handleRowColumnTxn ::
  "fb_api \<Rightarrow> ('d, 'q) btree_api \<Rightarrow> LogRecordTable \<Rightarrow> 'd walRecovery \<Rightarrow> ('d walRecovery \<times> error option) option" where
  "handleRowColumnTxn fb bt record wr =
    (case GetTransactionRecords fb (DecodeOffset (PrevTxnWalIndexBytes record)) (wre_walIO wr) of
       None \<Rightarrow> None
     | Some (Inl err) \<Rightarrow> Some (wr, Some err)
     | Some (Inr records) \<Rightarrow>
       if records = [] then Some (wr, Some Panic)
       else
         let preparedRecords = tl records;
             rowEntries = concat (map (\<lambda>pRecord. map (DeserializeRowUpdateEntry fb) (Entries (DeserializeFBRootLogRecord pRecord))) preparedRecords);
             keys = map re_Key rowEntries; values = map re_Columns rowEntries;
             wr = wr\<lparr>wre_recoveredCount := wre_recoveredCount wr + length records\<rparr>
         in Some (case tb_OperationType record of
              LogOperationTypeInsert \<Rightarrow> store_do bt (CBatchSetCells keys values) wr
            | LogOperationTypeDelete \<Rightarrow> store_do bt (CBatchDeleteCells keys values) wr
            | LogOperationTypeDeleteRowByKey \<Rightarrow> store_do bt (CBatchDeleteRows keys) wr
            | _ \<Rightarrow> (wr, None)))"

text \<open>The loop over the prepared records reads the first entry of each.\<close>

fun firstValues :: "fb_api \<Rightarrow> LogRecordTable list \<Rightarrow> error + bytes list" where
  "firstValues fb [] = Inr []"
| "firstValues fb (record # rest) =
    (let r = DeserializeFBRootLogRecord record in
     if Entries r = [] then Inl Panic
     else map_sum id ((#) (kve_Value (DeserializeKVEntry fb (hd (Entries r))))) (firstValues fb rest))"

definition handleChunkedValuesTxn ::
  "fb_api \<Rightarrow> ('d, 'q) btree_api \<Rightarrow> LogRecordTable \<Rightarrow> 'd walRecovery \<Rightarrow> ('d walRecovery \<times> error option) option" where
  "handleChunkedValuesTxn fb bt record wr =
    (let checksum = tb_Crc32Checksum record; dr = DeserializeFBRootLogRecord record in
     if Entries dr = [] then Some (wr, Some Panic)
     else
       let key = kve_Key (DeserializeKVEntry fb (hd (Entries dr))) in
       case GetTransactionRecords fb (DecodeOffset (PrevTxnWalIndexBytes record)) (wre_walIO wr) of
         None \<Rightarrow> None
       | Some (Inl err) \<Rightarrow> Some (wr, Some (Wrapped ''failed to reconstruct batch value'' err))
       | Some (Inr records) \<Rightarrow>
         if records = [] then Some (wr, Some Panic)
         else case firstValues fb (tl records) of Inl e \<Rightarrow> Some (wr, Some e)
         | Inr values \<Rightarrow>
           case store_do bt (CSetLobChunks key values checksum) wr of (wr, err) \<Rightarrow>
             Some (wr\<lparr>wre_recoveredCount := wre_recoveredCount wr + length records\<rparr>, err))"

definition handleTxnCommited ::
  "fb_api \<Rightarrow> ('d, 'q) btree_api \<Rightarrow> LogRecordTable \<Rightarrow> 'd walRecovery \<Rightarrow> ('d walRecovery \<times> error option) option" where
  "handleTxnCommited fb bt record wr =
    (let wr = wr\<lparr>wre_recoveredCount := wre_recoveredCount wr + 1\<rparr> in
     case tb_EntryType record of
       LogEntryTypeKV \<Rightarrow> handleKVValuesTxn fb bt record wr
     | LogEntryTypeChunked \<Rightarrow> handleChunkedValuesTxn fb bt record wr
     | LogEntryTypeRow \<Rightarrow> handleRowColumnTxn fb bt record wr)"

definition handleRecord ::
  "fb_api \<Rightarrow> ('d, 'q) btree_api \<Rightarrow> LogRecordTable \<Rightarrow> 'd walRecovery \<Rightarrow> ('d walRecovery \<times> error option) option" where
  "handleRecord fb bt record wr =
    (case tb_TxnState record of
       TransactionStateNone \<Rightarrow>
         let wr = wr\<lparr>wre_recoveredCount := wre_recoveredCount wr + 1\<rparr> in
         Some (case tb_OperationType record of
            LogOperationTypeInsert \<Rightarrow> handleInsert fb bt record wr
          | LogOperationTypeDelete \<Rightarrow> handleDelete fb bt record wr
          | LogOperationTypeDeleteRowByKey \<Rightarrow> handleDeleteRowByKey fb bt record wr
          | _ \<Rightarrow> (wr, None))
     | TransactionStateCommit \<Rightarrow> handleTxnCommited fb bt record wr
     | _ \<Rightarrow> Some (wr, None))"

partial_function (option) recoverRecords ::
  "ioenv \<Rightarrow> fb_api \<Rightarrow> ('d, 'q) btree_api \<Rightarrow> WalReader \<Rightarrow> 'd walRecovery \<Rightarrow> ('d walRecovery \<times> error option) option" where
  "recoverRecords io fb bt reader wr =
    (case rdr_Next io (wre_walIO wr) reader of
       (w, reader, Inl err) \<Rightarrow>
         Some (wr\<lparr>wre_walIO := w\<rparr>, if errors_Is err EOF then None else Some (Wrapped ''recover WAL failed'' err))
     | (w, reader, Inr (value, pos)) \<Rightarrow>
       (case handleRecord fb bt (GetRootAsLogRecord fb value) (wr\<lparr>wre_walIO := w\<rparr>) of
          None \<Rightarrow> None
        | Some (wr, Some e) \<Rightarrow> Some (wr\<lparr>wre_lastRecoveredPos := Some pos\<rparr>, Some (Wrapped ''recover WAL failed'' e))
        | Some (wr, None) \<Rightarrow> recoverRecords io fb bt reader (wr\<lparr>wre_lastRecoveredPos := Some pos\<rparr>)))"

text \<open>The start of the reader: the position of the checkpoint, or zero without one.\<close>

definition startOffset :: "bytes \<Rightarrow> error + RecordPosition" where
  "startOffset checkPoint =
    (if length checkPoint \<noteq> 0 then
       (case UnmarshalMetadata checkPoint of Inl e \<Rightarrow> Inl e
        | Inr metadata \<Rightarrow> case Pos metadata of None \<Rightarrow> Inl Panic | Some p \<Rightarrow> Inr p)
     else Inr NilRecordPosition)"

definition recoverWAL ::
  "ioenv \<Rightarrow> fb_api \<Rightarrow> ('d, 'q) btree_api \<Rightarrow> bytes \<Rightarrow> 'd walRecovery \<Rightarrow> ('d walRecovery \<times> error option) option" where
  "recoverWAL io fb bt checkPoint wr =
    (case startOffset checkPoint of Inl e \<Rightarrow> Some (wr, Some e)
     | Inr offset \<Rightarrow>
       case wio_NewReaderWithStart False (Some offset) (wre_walIO wr) of
         Inl err \<Rightarrow> Some (wr, Some (Wrapped ''recover WAL failed'' err))
       | Inr reader \<Rightarrow>
         if length checkPoint \<noteq> 0 then
           (case rdr_Next io (wre_walIO wr) reader of
              (w, reader, Inl err) \<Rightarrow>
                if isFatalError err then Some (wr\<lparr>wre_walIO := w\<rparr>, Some (Wrapped ''recover WAL failed'' err))
                else recoverRecords io fb bt reader (wr\<lparr>wre_walIO := w\<rparr>)
            | (w, reader, Inr _) \<Rightarrow> recoverRecords io fb bt reader (wr\<lparr>wre_walIO := w\<rparr>))
         else recoverRecords io fb bt reader wr)"

section \<open>Correctness\<close>

text \<open>A record the store accepts: its call passes the argument checks of the store, and the records of a chunked transaction
  have an entry each.\<close>

definition record_ok :: "fb_api \<Rightarrow> log \<Rightarrow> LogRecord \<Rightarrow> bool" where
  "record_ok fb pre r \<longleftrightarrow> (case record_call fb pre r of None \<Rightarrow> True | Some c \<Rightarrow> engine_call c)
    \<and> (TxnState r = TransactionStateCommit \<longrightarrow> EntryType r = LogEntryTypeChunked \<longrightarrow>
         Entries r \<noteq> [] \<and> (\<forall>x \<in> set (tl (txn_part pre (TxnID r))). Entries (snd x) \<noteq> []))"

fun recoverable :: "fb_api \<Rightarrow> log \<Rightarrow> log \<Rightarrow> bool" where
  "recoverable fb pre [] = True"
| "recoverable fb pre (x # xs) = (record_ok fb pre (snd x) \<and> recoverable fb (pre @ [x]) xs)"

lemma recoverable_append [simp]: "recoverable fb pre (xs @ ys) = (recoverable fb pre xs \<and> recoverable fb (pre @ xs) ys)"
  by (induction xs arbitrary: pre) auto

text \<open>What \<open>RecoveredCount\<close> counts: records outside transactions, and commit records together with the records of
  their transactions.\<close>

definition record_weight :: "log \<Rightarrow> LogRecord \<Rightarrow> nat" where
  "record_weight pre r = (case TxnState r of TransactionStateNone \<Rightarrow> 1
     | TransactionStateCommit \<Rightarrow> 1 + length (txn_part pre (TxnID r)) | _ \<Rightarrow> 0)"

fun recovered_count :: "log \<Rightarrow> log \<Rightarrow> nat" where
  "recovered_count pre [] = 0"
| "recovered_count pre (x # xs) = record_weight pre (snd x) + recovered_count (pre @ [x]) xs"

lemma firstValues_ok:
  "map DeserializeFBRootLogRecord ts = rs \<Longrightarrow> \<forall>r \<in> set rs. Entries r \<noteq> [] \<Longrightarrow>
    firstValues fb ts = Inr (map (\<lambda>q. kve_Value (DeserializeKVEntry fb (hd (Entries q)))) rs)"
  by (induction ts arbitrary: rs) (auto simp: Let_def)

lemma prepared_entries:
  assumes "map DeserializeFBRootLogRecord ts = map snd qs"
  shows "concat (map (\<lambda>p. map f (tb_Entries p)) ts) = map f (concat (map (Entries \<circ> snd) qs))"
proof -
  have "map (\<lambda>p. map f (tb_Entries p)) ts = map (\<lambda>r. map f (Entries r)) (map DeserializeFBRootLogRecord ts)" by simp
  then show ?thesis unfolding assms by (simp add: map_concat comp_def)
qed

text \<open>The store after a record.\<close>

definition after_record :: "fb_api \<Rightarrow> log \<Rightarrow> LogRecord \<Rightarrow> ustore \<Rightarrow> ustore" where
  "after_record fb pre r u = fold apply_sop (case record_call fb pre r of None \<Rightarrow> [] | Some c \<Rightarrow> call_sops c) u"

lemma log_sops_after: "fold apply_sop (log_sops fb pre (x # xs)) u = fold apply_sop (log_sops fb (pre @ [x]) xs) (after_record fb pre (snd x) u)"
  by (simp add: log_sops_Cons after_record_def)

definition handled ::
  "('d \<Rightarrow> ustore \<Rightarrow> bool) \<Rightarrow> ('d \<Rightarrow> bytes \<rightharpoonup> bytes) \<Rightarrow> 'd walRecovery \<Rightarrow> nat \<Rightarrow> ustore \<Rightarrow> 'd walRecovery \<Rightarrow> bool" where
  "handled R M wr n u wr' \<longleftrightarrow> R (wre_store wr') u \<and> M (wre_store wr') = M (wre_store wr)
    \<and> wre_walIO wr' = wre_walIO wr \<and> wre_recoveredCount wr' = wre_recoveredCount wr + n"

context btree_store
begin

lemma store_do_ok:
  assumes "R (wre_store wr) u" "engine_call c"
  shows "\<exists>wr'. store_do bt c wr = (wr', None) \<and> handled R M wr 0 (fold apply_sop (call_sops c) u) wr'"
  using call [OF assms] by (auto simp: store_do_def handled_def)

lemma handleRecord_none:
  assumes "R (wre_store wr) u" "record_ok fb pre (DeserializeFBRootLogRecord t)" "tb_TxnState t = TransactionStateNone"
  shows "\<exists>wr'. handleRecord fb bt t wr = Some (wr', None) \<and> handled R M wr 1 (after_record fb pre (DeserializeFBRootLogRecord t) u) wr'"
proof -
  let ?wr = "wr\<lparr>wre_recoveredCount := wre_recoveredCount wr + 1\<rparr>"
  let ?c = "record_call fb pre (DeserializeFBRootLogRecord t)"
  have shift: "handled R M ?wr 0 x wr' \<Longrightarrow> handled R M wr 1 x wr'" for x wr' by (simp add: handled_def)
  have none: "handled R M wr 1 u ?wr" using assms(1) by (simp add: handled_def)
  have some: "\<exists>wr'. store_do bt c ?wr = (wr', None) \<and> handled R M wr 1 (fold apply_sop (call_sops c) u) wr'" if c: "?c = Some c" for c
  proof -
    have "R (wre_store ?wr) u" "engine_call c" using assms(1,2) c by (simp_all add: record_ok_def)
    then show ?thesis using store_do_ok [of ?wr u c] shift by blast
  qed
  note defs = record_call_def entries_call_def handleRecord_def handleInsert_def handleDelete_def handleDeleteRowByKey_def Let_def assms(3) after_record_def
  show ?thesis
  proof (cases ?c)
    case None
    then show ?thesis using none by (auto simp: defs comp_def split: LogOperationType.splits LogEntryType.splits)
  next
    case (Some c)
    then have "handleRecord fb bt t wr = Some (store_do bt c ?wr)"
      by (auto simp: defs comp_def split: LogOperationType.splits LogEntryType.splits)
    then show ?thesis using some [OF Some] Some by (auto simp: after_record_def)
  qed
qed

lemma handleRecord_commit:
  assumes "R (wre_store wr) u" "record_ok fb pre r" "r = DeserializeFBRootLogRecord t" "tb_TxnState t = TransactionStateCommit"
    and "GetTransactionRecords fb (DecodeOffset (PrevTxnWalIndex r)) (wre_walIO wr) = Some (Inr ts)"
    and "map DeserializeFBRootLogRecord ts = map snd (txn_part pre (TxnID r))" "ts \<noteq> []"
  shows "\<exists>wr'. handleRecord fb bt t wr = Some (wr', None) \<and> handled R M wr (1 + length ts) (after_record fb pre r u) wr'"
proof -
  let ?parts = "map snd (tl (txn_part pre (TxnID r)))"
  have parts: "map DeserializeFBRootLogRecord (tl ts) = ?parts" using assms(6) by (simp add: map_tl)
  let ?wr1 = "wr\<lparr>wre_recoveredCount := wre_recoveredCount wr + 1\<rparr>"
  let ?wr2 = "?wr1\<lparr>wre_recoveredCount := wre_recoveredCount wr + 1 + length ts\<rparr>"
  have get: "GetTransactionRecords fb (DecodeOffset (PrevTxnWalIndexBytes t)) (wre_walIO ?wr1) = Some (Inr ts)"
    using assms(3,5) by simp
  have call: "record_call fb pre r = commit_call fb r ?parts" using assms(3,4) by (simp add: record_call_def)
  have none: "handled R M wr (1 + length ts) u ?wr2" using assms(1) by (simp add: handled_def)
  have some: "\<exists>wr'. store_do bt c ?wr2 = (wr', None) \<and> handled R M wr (1 + length ts) (fold apply_sop (call_sops c) u) wr'"
    if c: "record_call fb pre r = Some c" for c
  proof -
    have "R (wre_store ?wr2) u" "engine_call c" using assms(1,2) c by (simp_all add: record_ok_def)
    then show ?thesis using store_do_ok [of ?wr2 u c] by (auto simp: handled_def)
  qed
  note cat = prepared_entries [OF parts, unfolded assms(3) root_fields]
  show ?thesis
  proof (cases "tb_EntryType t = LogEntryTypeChunked")
    case True
    then have ne: "Entries r \<noteq> []" "\<forall>q \<in> set ?parts. Entries q \<noteq> []" using assms(2,3,4) by (auto simp: record_ok_def)
    have c: "record_call fb pre r = Some (chunk_call fb r ?parts)" using call True assms(3) by (simp add: commit_call_def)
    then have ec: "engine_call (chunk_call fb r ?parts)" using assms(2) by (simp add: record_ok_def)
    obtain wr' where wr': "store_do bt (chunk_call fb r ?parts) ?wr1 = (wr', None)"
        "handled R M ?wr1 0 (fold apply_sop (call_sops (chunk_call fb r ?parts)) u) wr'"
      using store_do_ok [of ?wr1 u, OF _ ec] assms(1) by auto
    have "handleRecord fb bt t wr = Some (wr'\<lparr>wre_recoveredCount := wre_recoveredCount wr' + length ts\<rparr>, None)"
      using get ne(1) True assms(3,4,7) firstValues_ok [OF parts ne(2), of fb] wr'(1)
      by (simp add: handleRecord_def handleTxnCommited_def handleChunkedValuesTxn_def chunk_call_def Let_def)
    moreover have "handled R M wr (1 + length ts) (after_record fb pre r u) (wr'\<lparr>wre_recoveredCount := wre_recoveredCount wr' + length ts\<rparr>)"
      using wr'(2) c by (simp add: handled_def after_record_def)
    ultimately show ?thesis by blast
  next
    case False
    show ?thesis
    proof (cases "record_call fb pre r")
      case None
      then have "handleRecord fb bt t wr = Some (?wr2, None)"
        using call get False assms(3,4,7)
        by (auto simp: handleRecord_def handleTxnCommited_def handleKVValuesTxn_def handleRowColumnTxn_def commit_call_def entries_call_def Let_def
            split: LogOperationType.splits LogEntryType.splits)
      then show ?thesis using none None by (simp add: after_record_def)
    next
      case (Some c)
      then have "handleRecord fb bt t wr = Some (store_do bt c ?wr2)"
        using call get False assms(3,4,7)
        by (auto simp: handleRecord_def handleTxnCommited_def handleKVValuesTxn_def handleRowColumnTxn_def commit_call_def entries_call_def Let_def cat
            split: LogOperationType.splits LogEntryType.splits)
      then show ?thesis using some [OF Some] Some by (auto simp: after_record_def)
    qed
  qed
qed

lemma handleRecord_ok:
  assumes "wal_inv (wio_appendLog (wre_walIO wr)) L" "linked [] (decoded fb (wal_log L))" "wal_log L = es @ (p, d) # es'"
    and "R (wre_store wr) u" "record_ok fb (decoded fb es) (DeserializeLogRecord fb d)"
  shows "\<exists>wr'. handleRecord fb bt (GetRootAsLogRecord fb d) wr = Some (wr', None)
    \<and> handled R M wr (record_weight (decoded fb es) (DeserializeLogRecord fb d)) (after_record fb (decoded fb es) (DeserializeLogRecord fb d) u) wr'"
proof -
  let ?t = "GetRootAsLogRecord fb d" and ?r = "DeserializeLogRecord fb d" and ?pre = "decoded fb es"
  have r: "?r = DeserializeFBRootLogRecord ?t" by (simp add: DeserializeLogRecord_def)
  consider "tb_TxnState ?t = TransactionStateNone" | "tb_TxnState ?t = TransactionStateCommit"
    | "tb_TxnState ?t = TransactionStateBegin \<or> tb_TxnState ?t = TransactionStatePrepare" by (cases "tb_TxnState ?t") auto
  then show ?thesis
  proof cases
    case 1
    then show ?thesis using handleRecord_none [OF assms(4) assms(5) [unfolded r]] by (simp add: r record_weight_def)
  next
    case 2
    then obtain ts where ts: "GetTransactionRecords fb (DecodeOffset (PrevTxnWalIndex ?r)) (wre_walIO wr) = Some (Inr ts)"
        "map DeserializeFBRootLogRecord ts = map snd (txn_part ?pre (TxnID ?r))" "ts \<noteq> []"
      using GetTransactionRecords_ok [OF assms(1-3) refl] by (auto simp: r)
    from map_eq_imp_length_eq [OF ts(2)] have "length ts = length (txn_part ?pre (TxnID ?r))" by simp
    then show ?thesis using handleRecord_commit [OF assms(4,5) r 2 ts] 2 by (simp add: r record_weight_def)
  next
    case 3
    then show ?thesis using assms(4) by (auto simp: handleRecord_def handled_def r record_weight_def after_record_def record_call_def)
  qed
qed

lemma recoverRecords_ok:
  assumes "linked [] (decoded fb (wal_log L))"
  shows "wal_inv (wio_appendLog (wre_walIO wr)) L \<Longrightarrow> wal_log L = es @ T \<Longrightarrow> rdr_todo (wre_walIO wr) L reader T
    \<Longrightarrow> \<not> rdr_withActiveTail reader \<Longrightarrow> R (wre_store wr) u \<Longrightarrow> recoverable fb (decoded fb es) (decoded fb T)
    \<Longrightarrow> \<exists>wr'. recoverRecords io fb bt reader wr = Some (wr', None)
      \<and> R (wre_store wr') (fold apply_sop (log_sops fb (decoded fb es) (decoded fb T)) u) \<and> M (wre_store wr') = M (wre_store wr)
      \<and> wal_inv (wio_appendLog (wre_walIO wr')) L \<and> wio_reads L (wre_walIO wr) (wre_walIO wr')
      \<and> wre_recoveredCount wr' = wre_recoveredCount wr + recovered_count (decoded fb es) (decoded fb T)
      \<and> wre_lastRecoveredPos wr' = (if T = [] then wre_lastRecoveredPos wr else Some (fst (last T)))"
proof (induction T arbitrary: es reader wr u)
  case Nil
  from rdr_Next_end [OF Nil.prems(1,3,4), of io] obtain w r where
    "rdr_Next io (wre_walIO wr) reader = (w, r, Inl EOF)" "wal_inv (wio_appendLog w) L" "wio_reads L (wre_walIO wr) w" by blast
  then show ?case using Nil.prems(5) by (subst recoverRecords.simps) simp
next
  case (Cons x T)
  obtain p d where x: "x = (p, d)" by (cases x)
  let ?r = "DeserializeLogRecord fb d"
  obtain w r where n: "rdr_Next io (wre_walIO wr) reader = (w, r, Inr (d, p))" "wal_inv (wio_appendLog w) L"
      "wio_reads L (wre_walIO wr) w" "rdr_todo w L r T" "\<not> rdr_withActiveTail r"
    using rdr_Next_entry [OF Cons.prems(1), of reader p d T io] Cons.prems(3,4) x by auto
  have ok: "record_ok fb (decoded fb es) ?r" "recoverable fb (decoded fb (es @ [x])) (decoded fb T)" using Cons.prems(6) x by simp_all
  obtain wr1 where wr1: "handleRecord fb bt (GetRootAsLogRecord fb d) (wr\<lparr>wre_walIO := w\<rparr>) = Some (wr1, None)"
      "handled R M (wr\<lparr>wre_walIO := w\<rparr>) (record_weight (decoded fb es) ?r) (after_record fb (decoded fb es) ?r u) wr1"
    using handleRecord_ok [of "wr\<lparr>wre_walIO := w\<rparr>" L fb es p d T u] n(2) assms Cons.prems(2,5) ok(1) x by auto
  let ?wr = "wr1\<lparr>wre_lastRecoveredPos := Some p\<rparr>"
  have step: "recoverRecords io fb bt reader wr = recoverRecords io fb bt r ?wr"
    using n(1) wr1(1) by (subst recoverRecords.simps) simp
  obtain wr' where wr': "recoverRecords io fb bt r ?wr = Some (wr', None)"
      "R (wre_store wr') (fold apply_sop (log_sops fb (decoded fb (es @ [x])) (decoded fb T)) (after_record fb (decoded fb es) ?r u))"
      "M (wre_store wr') = M (wre_store wr)" "wal_inv (wio_appendLog (wre_walIO wr')) L" "wio_reads L w (wre_walIO wr')"
      "wre_recoveredCount wr' = wre_recoveredCount wr1 + recovered_count (decoded fb (es @ [x])) (decoded fb T)"
      "wre_lastRecoveredPos wr' = (if T = [] then Some p else Some (fst (last T)))"
    using Cons.IH [of ?wr "es @ [x]" r "after_record fb (decoded fb es) ?r u"] wr1(2) n(2,4,5) Cons.prems(2) ok(2) by (auto simp: handled_def)
  then show ?case using step wr1(2) n(3) wio_reads_trans log_sops_after [of fb "decoded fb es" "(p, ?r)" "decoded fb T" u]
    by (auto simp: handled_def x)
qed

lemma NewWalRecovery_fields [simp]:
  "wre_store (NewWalRecovery d w) = d" "wre_walIO (NewWalRecovery d w) = w" "wre_recoveredCount (NewWalRecovery d w) = 0"
  "wre_lastRecoveredPos (NewWalRecovery d w) = None" "rdr_withActiveTail (wio_NewReader tail w) = tail"
  by (simp_all add: NewWalRecovery_def wio_NewReader_def)

text \<open>Recovery from the beginning, and from a checkpoint at an entry of the log.\<close>

lemma recoverWAL_ok:
  assumes "wal_inv (wio_appendLog w) L" "fresh_ids (wio_appendLog w) L" "linked [] (decoded fb (wal_log L))" "R d u"
    and "cp = [] \<and> es = [] \<or> (\<exists>n es0 p x. cp = LE_PutUint64 n @ rp_Encode p \<and> es = es0 @ [(p, x)] \<and> SegmentID p \<noteq> 0)"
    and "wal_log L = es @ T" "recoverable fb (decoded fb es) (decoded fb T)"
  shows "\<exists>wr. recoverWAL io fb bt cp (NewWalRecovery d w) = Some (wr, None)
    \<and> R (wre_store wr) (fold apply_sop (log_sops fb (decoded fb es) (decoded fb T)) u) \<and> M (wre_store wr) = M d
    \<and> wal_inv (wio_appendLog (wre_walIO wr)) L \<and> wio_reads L w (wre_walIO wr)
    \<and> wre_recoveredCount wr = recovered_count (decoded fb es) (decoded fb T)
    \<and> wre_lastRecoveredPos wr = (if T = [] then None else Some (fst (last T)))"
  using assms(5)
proof
  assume cp: "cp = [] \<and> es = []"
  have "wio_NewReaderWithStart False (Some NilRecordPosition) w = Inr (wio_NewReader False w)"
    by (simp add: NilRecordPosition_def wio_NewReaderWithStart_zero)
  then have step: "recoverWAL io fb bt cp (NewWalRecovery d w) = recoverRecords io fb bt (wio_NewReader False w) (NewWalRecovery d w)"
    using cp by (simp add: recoverWAL_def startOffset_def NewWalRecovery_def)
  show ?thesis unfolding step
    using recoverRecords_ok [OF assms(3), of "NewWalRecovery d w" es T "wio_NewReader False w" u io]
      wio_NewReader_todo [OF assms(1,2), of False] assms(1,4,6,7) cp by (cases "T = []") simp_all
next
  assume "\<exists>n es0 p x. cp = LE_PutUint64 n @ rp_Encode p \<and> es = es0 @ [(p, x)] \<and> SegmentID p \<noteq> 0"
  then obtain n es0 p x where cp: "cp = LE_PutUint64 n @ rp_Encode p" and es: "es = es0 @ [(p, x)]" and nz: "SegmentID p \<noteq> 0" by blast
  have "is_int64 (Offset p)" using wal_log_int64 [OF assms(1), of p x] assms(6) es by simp
  then have off: "startOffset cp = Inr p" using Unmarshal_Marshal by (simp add: startOffset_def cp)
  have "wal_log L = es0 @ (p, x) # T" using assms(6) es by simp
  from wio_NewReaderWithStart_todo [OF assms(1,2) this nz, of False] obtain r where
    r: "wio_NewReaderWithStart False (Some p) w = Inr r" "rdr_todo w L r ((p, x) # T)" "\<not> rdr_withActiveTail r" by auto
  from rdr_Next_entry [OF assms(1) r(2), of io] r(3) obtain w1 r1 where
    n: "rdr_Next io w r = (w1, r1, Inr (x, p))" "wal_inv (wio_appendLog w1) L" "wio_reads L w w1" "rdr_todo w1 L r1 T" "\<not> rdr_withActiveTail r1" by auto
  let ?wr = "(NewWalRecovery d w)\<lparr>wre_walIO := w1\<rparr>"
  have step: "recoverWAL io fb bt cp (NewWalRecovery d w) = recoverRecords io fb bt r1 ?wr"
    using off r(1) n(1) cp by (simp add: recoverWAL_def NewWalRecovery_def)
  have "\<exists>wr'. recoverRecords io fb bt r1 ?wr = Some (wr', None)
      \<and> R (wre_store wr') (fold apply_sop (log_sops fb (decoded fb es) (decoded fb T)) u) \<and> M (wre_store wr') = M (wre_store ?wr)
      \<and> wal_inv (wio_appendLog (wre_walIO wr')) L \<and> wio_reads L (wre_walIO ?wr) (wre_walIO wr')
      \<and> wre_recoveredCount wr' = wre_recoveredCount ?wr + recovered_count (decoded fb es) (decoded fb T)
      \<and> wre_lastRecoveredPos wr' = (if T = [] then wre_lastRecoveredPos ?wr else Some (fst (last T)))"
    by (rule recoverRecords_ok [OF assms(3)]) (use n assms(4,6,7) in simp_all)
  then show ?thesis unfolding step using n(3) wio_reads_trans by (cases "T = []") auto
qed

end

end
