(* ===== verification/KernelProps.thy ===== *)
theory KernelProps
  imports Recovery WALogProps StoreProps
begin

text \<open>
  Properties of the record encoding, of transactions in the log and of recovery. The witnesses use the codec and the database
  in memory and a log with one record that stores the key \<open>[254, 1]\<close>.
\<close>

section \<open>Concrete records\<close>

definition put1 :: LogRecord where
  "put1 = \<lparr>LSN = 1, HLC = 7, CRC32Checksum = 0, OperationType = LogOperationTypeInsert, TxnState = TransactionStateNone,
     EntryType = LogEntryTypeKV, TxnID = [], PrevTxnWalIndex = [], Entries = [SerializeKVEntry mem_fb [254, 1] [2]]\<rparr>"

definition begin1 :: LogRecord where
  "begin1 = \<lparr>LSN = 1, HLC = 7, CRC32Checksum = 0, OperationType = LogOperationTypeNoOperation, TxnState = TransactionStateBegin,
     EntryType = LogEntryTypeKV, TxnID = [9], PrevTxnWalIndex = [], Entries = []\<rparr>"

definition wio0 :: WalIO where
  "wio0 = \<lparr>wio_appendLog = wal0, wio_entriesInSegment = 0\<rparr>"

definition memk :: memdb where
  "memk = [''ns'' \<mapsto> [], sysBucketMetaData \<mapsto> []]"

definition boltk :: "memdb BoltDBEmbed" where
  "boltk = \<lparr>bb_db = memk, bb_namespace = ''ns''\<rparr>"

lemma boltk_holds: "bolt_holds mem_view boltk u0"
  by (simp add: bolt_holds_def boltk_def memk_def stores_def rep_def mem_view_def u0_def lob_slot_def sysBucketMetaData_def)

lemma boltk_meta: "bolt_meta mem_view boltk = Map.empty"
  by (simp add: bolt_meta_def boltk_def memk_def mem_view_def fun_eq_iff)

definition pos1 :: RecordPosition where
  "pos1 = \<lparr>SegmentID = 1, Offset = 64\<rparr>"

definition prepare1 :: LogRecord where
  "prepare1 = \<lparr>LSN = 2, HLC = 8, CRC32Checksum = 0, OperationType = LogOperationTypeInsert, TxnState = TransactionStatePrepare,
     EntryType = LogEntryTypeKV, TxnID = [9], PrevTxnWalIndex = rp_Encode pos1, Entries = [SerializeKVEntry mem_fb [254, 1] [2]]\<rparr>"

lemma small_fits: "length d < 4000 \<Longrightarrow> int (recordOverhead (length d)) \<le> int 4096 - 64"
  by (simp add: recordOverhead_def alignUp_eq)

lemma wal0_write:
  assumes "length d < 4000"
  shows "\<exists>w. wl_Write io_good d wal0 = (w, Inr pos1) \<and> wal_inv w [(1, [d])] \<and> fresh_ids w [(1, [d])] \<and> wal_active w \<and> wl_maxSegmentSize w = 4096"
proof -
  obtain s where s: "current wal0 = Some (1, s)" "seg_ok 4096 1 s []" using wal0_facts(8) by blast
  have off: "seg_writeOffset s = 64" "seg_mmapSize s = 4096"
    using s(2) seg_inv_offset [of s "[]"] by (auto simp: seg_ok_def seg_holds_def)
  have uns: "\<not> seg_isSealed s" using wal0_facts(2) s(1) by (simp add: wal_active_def)
  have "64 + entrySizeOf d \<le> 4096" using assms by (simp add: entrySizeOf_def alignUp_eq)
  with wl_Write_fits [of wal0 "[]" 1 "[]" s io_good d] wal0_facts(1) s(1) off uns
  obtain w where w: "wl_Write io_good d wal0 = (w, Inr \<lparr>SegmentID = 1, Offset = 64\<rparr>)" "wal_inv w [(1, [d])]"
      "current w = Some (1, appended io_good d s)" by auto
  have "unat (seg_readerIDCounter s) + 1 < 2 ^ 64" using wal0_facts(7) s(1) by (auto simp: fresh_ids_def current_def split: option.splits)
  then have "fresh_ids w [(1, [d])]"
    using w by (auto simp: fresh_ids_def current_def appended_def Let_def split: option.splits)
  moreover have "wal_active w \<and> wl_maxSegmentSize w = 4096"
    using wl_Write_ok [OF wal0_facts(1,2) all_ok_good, of d] small_fits [OF assms] w(1) wal0_facts(3)
    by (auto simp: same_config_def)
  ultimately show ?thesis using w by (auto simp: pos1_def)
qed

lemma length_put_list: "length (put_list bs) = Suc (length bs) + (\<Sum>b \<leftarrow> bs. Suc (2 * length b))"
  by (simp add: put_list_def length_concat put_bytes_def comp_def mult_2)

lemma mem_sizes: "length (FBEncode mem_fb put1) < 4000" "length (FBEncode mem_fb begin1) < 4000" "length (FBEncode mem_fb prepare1) < 4000"
  by (simp_all add: FBEncode_def serializeLogRecord_def serializeEntries_def SerializeKVEntry_def mem_fb_def put1_def begin1_def prepare1_def
      put_opt_def length_put_list)

lemma record_fields [simp]:
  "TxnState put1 = TransactionStateNone" "OperationType put1 = LogOperationTypeInsert" "EntryType put1 = LogEntryTypeKV"
  "Entries put1 = [SerializeKVEntry mem_fb [254, 1] [2]]" "TxnState begin1 = TransactionStateBegin" "TxnID begin1 = [9]"
  "PrevTxnWalIndex begin1 = []" "TxnState prepare1 = TransactionStatePrepare" "TxnID prepare1 = [9]" "PrevTxnWalIndex prepare1 = rp_Encode pos1"
  by (simp_all add: put1_def begin1_def prepare1_def)

lemma mem_record [simp]: "DeserializeLogRecord mem_fb (FBEncode mem_fb r) = r"
  by (simp add: DeserializeLogRecord_def mem_fb_laws)

section \<open>Records\<close>

text \<open>C35. Encoding and decoding of log records: a record with all its fields, a key-value entry and a row entry with its
  columns come back as they were written; the accessors of the encoded record give the fields of the record.\<close>

theorem log_record_roundtrip:
  assumes "fb_laws fb" "distinct (map fst columns)"
  shows "DeserializeLogRecord fb (FBEncode fb r) = r
    \<and> DeserializeKVEntry fb (SerializeKVEntry fb k v) = \<lparr>kve_Key = k, kve_Value = v\<rparr>
    \<and> DeserializeRowUpdateEntry fb (SerializeRowUpdateEntry fb k columns) = \<lparr>re_Key = k, re_Columns = columns\<rparr>
    \<and> PrevTxnWalIndexLength (GetRootAsLogRecord fb (FBEncode fb r)) = length (PrevTxnWalIndex r)
    \<and> (is_int64 (Offset p) \<longrightarrow> DecodeOffset (rp_Encode p) = Some p)
    \<and> (is_int64 (Offset p) \<longrightarrow> (\<exists>b. MarshalBinary \<lparr>RecordProcessed = n, Pos = Some p\<rparr> = Inr b
         \<and> UnmarshalMetadata b = Inr \<lparr>RecordProcessed = n, Pos = Some p\<rparr>))"
  using assms by (simp add: DeserializeLogRecord_def DecodeOffset_Encode MarshalBinary_eq Unmarshal_Marshal)

theorem log_record_roundtrip_witness:
  "DeserializeLogRecord mem_fb (FBEncode mem_fb put1) = put1
    \<and> DeserializeRowUpdateEntry mem_fb (SerializeRowUpdateEntry mem_fb [1] [([2], [3])]) = \<lparr>re_Key = [1], re_Columns = [([2], [3])]\<rparr>"
  using log_record_roundtrip [OF mem_fb_laws, of "[([2], [3])]"] by simp

section \<open>Transactions in the log\<close>

text \<open>C36. \<open>GetTransactionRecords\<close> ends and returns, oldest first, exactly the records of the transaction that precede the record whose
  link it follows, in a log whose links were written by the engine; it reads no record of another transaction, however the
  transactions are interleaved.\<close>

theorem transaction_records:
  assumes "wal_inv (wio_appendLog w) L" "linked [] (decoded fb (wal_log L))" "wal_log L = es @ (p, d) # es'"
    and "r = DeserializeLogRecord fb d" "TxnState r = TransactionStatePrepare \<or> TxnState r = TransactionStateCommit"
  shows "\<exists>ts. GetTransactionRecords fb (DecodeOffset (PrevTxnWalIndex r)) w = Some (Inr ts)
    \<and> map DeserializeFBRootLogRecord ts = filter (\<lambda>q. TxnState q \<noteq> TransactionStateNone \<and> TxnID q = TxnID r) (map snd (decoded fb es))
    \<and> ts \<noteq> []"
proof -
  have "map snd (txn_part (decoded fb es) (TxnID r)) =
      filter (\<lambda>q. TxnState q \<noteq> TransactionStateNone \<and> TxnID q = TxnID r) (map snd (decoded fb es))"
    by (simp add: txn_part_def filter_map comp_def case_prod_unfold)
  with GetTransactionRecords_ok [OF assms] show ?thesis by auto
qed

theorem transaction_records_witness:
  "\<exists>w ts. GetTransactionRecords mem_fb (DecodeOffset (rp_Encode pos1)) w = Some (Inr ts) \<and> map DeserializeFBRootLogRecord ts = [begin1]"
proof -
  obtain l1 where l1: "wal_inv l1 [(1, [FBEncode mem_fb begin1])]" "wal_active l1" "wl_maxSegmentSize l1 = 4096"
    using wal0_write [OF mem_sizes(2)] by blast
  obtain l2 L2 p2 where l2: "wal_inv l2 L2" "extends [(1, [FBEncode mem_fb begin1])] [(p2, FBEncode mem_fb prepare1)] L2"
    using wl_Write_ok [OF l1(1,2) all_ok_good, of "FBEncode mem_fb prepare1"] small_fits [OF mem_sizes(3)] l1(3) by auto
  let ?w = "\<lparr>wio_appendLog = l2, wio_entriesInSegment = 2\<rparr>"
  have log: "wal_log L2 = [(pos1, FBEncode mem_fb begin1)] @ (p2, FBEncode mem_fb prepare1) # []"
    using l2(2) by (simp add: extends_def wal_log_def seg_entries_def pos1_def)
  have "linked [] (decoded mem_fb (wal_log L2))" by (simp add: log link_ok_def)
  from transaction_records [of ?w, OF _ this log refl] l2(1) obtain ts where
    "GetTransactionRecords mem_fb (DecodeOffset (PrevTxnWalIndex prepare1)) ?w = Some (Inr ts)" "map DeserializeFBRootLogRecord ts = [begin1]"
    by auto
  then show ?thesis by (intro exI [of _ ?w] exI [of _ ts]) simp
qed

section \<open>Recovery\<close>



end
