(* ===== verification/MemTable.thy ===== *)
theory MemTable
  imports Recovery
begin

text \<open>
  The memory table, \<open>dbkernel/internal/memtable\<close>. The skip list and the Bloom filter (\<open>badger/skl\<close>, \<open>badger/y\<close>, \<open>bloom\<close>) are parameters.
  A pair of a key and a timestamp stands for \<open>y.KeyWithTs\<close>, with \<open>y.ParseKey\<close> as its first component; the skip list visits
  keys in ascending order and the timestamps of a key from new to old. Plain values are kept under timestamp 0 and
  overwritten in place, row updates are kept all, each under a new timestamp.
\<close>

section \<open>Libraries\<close>

record ValueStruct =
  vs_Meta :: LogOperationType
  vs_UserMeta :: LogEntryType
  vs_Value :: bytes

text \<open>The zero value, which \<open>Get\<close> returns for a missing key.\<close>

definition noValue :: ValueStruct where
  "noValue = \<lparr>vs_Meta = LogOperationTypeNoOperation, vs_UserMeta = LogEntryTypeKV, vs_Value = []\<rparr>"

type_synonym tsKey = "bytes \<times> u64"

record ('s, 'b) mem_lib =
  sk_New :: "int \<Rightarrow> 's"
  sk_Put :: "tsKey \<Rightarrow> ValueStruct \<Rightarrow> 's \<Rightarrow> 's"
  sk_Get :: "tsKey \<Rightarrow> 's \<Rightarrow> ValueStruct"
  sk_MemSize :: "'s \<Rightarrow> int"
  sk_Empty :: "'s \<Rightarrow> bool"
  sk_SeekToFirst :: "'s \<Rightarrow> (tsKey \<times> ValueStruct) list"
  sk_Seek :: "tsKey \<Rightarrow> 's \<Rightarrow> (tsKey \<times> ValueStruct) list"
  vs_EncodedSize :: "ValueStruct \<Rightarrow> int"
  bl_New :: "int \<Rightarrow> 'b"
  bl_Add :: "bytes \<Rightarrow> 'b \<Rightarrow> 'b"
  bl_Test :: "bytes \<Rightarrow> 'b \<Rightarrow> bool"

definition ts_less :: "tsKey \<Rightarrow> tsKey \<Rightarrow> bool" where
  "ts_less a b \<longleftrightarrow> fst a < fst b \<or> fst a = fst b \<and> snd b < snd a"

text \<open>The entries of a skip list, in its order, and what the operations do to them. The Bloom filter has no false negatives.\<close>

definition mem_laws :: "('s, 'b) mem_lib \<Rightarrow> bool" where
  "mem_laws lib \<longleftrightarrow> (\<forall>s. sorted_wrt (\<lambda>x y. ts_less (fst x) (fst y)) (sk_SeekToFirst lib s))
    \<and> (\<forall>n. sk_SeekToFirst lib (sk_New lib n) = [])
    \<and> (\<forall>k v s. set (sk_SeekToFirst lib (sk_Put lib k v s)) = insert (k, v) {x \<in> set (sk_SeekToFirst lib s). fst x \<noteq> k})
    \<and> (\<forall>k s. sk_Get lib (k, 0) s = (case map_of (sk_SeekToFirst lib s) (k, 0) of None \<Rightarrow> noValue | Some v \<Rightarrow> v))
    \<and> (\<forall>k s. sk_Seek lib k s = dropWhile (\<lambda>x. ts_less (fst x) k) (sk_SeekToFirst lib s))
    \<and> (\<forall>s. sk_Empty lib s \<longleftrightarrow> sk_SeekToFirst lib s = [])
    \<and> (\<forall>k b. bl_Test lib k (bl_Add lib k b)) \<and> (\<forall>k k' b. bl_Test lib k b \<longrightarrow> bl_Test lib k (bl_Add lib k' b))"

section \<open>The table\<close>

record ('s, 'b) MemTable =
  mt_skipList :: 's
  mt_lastOffset :: "RecordPosition option"
  mt_firstOffset :: "RecordPosition option"
  mt_capacity :: int
  mt_opCount :: nat
  mt_offsetCount :: nat
  mt_bytesStored :: nat
  mt_chunkedFlushed :: nat
  mt_lastTS :: u64
  mt_bloomFilter :: 'b

text \<open>The filter is sized for an average entry of 100 bytes.\<close>

definition NewMemTable :: "('s, 'b) mem_lib \<Rightarrow> int \<Rightarrow> ('s, 'b) MemTable" where
  "NewMemTable lib capacity = \<lparr>mt_skipList = sk_New lib capacity, mt_lastOffset = None, mt_firstOffset = None, mt_capacity = capacity,
     mt_opCount = 0, mt_offsetCount = 0, mt_bytesStored = 0, mt_chunkedFlushed = 0, mt_lastTS = 0, mt_bloomFilter = bl_New lib (max 1000 (capacity div 100))\<rparr>"

definition mt_IsEmpty :: "('s, 'b) mem_lib \<Rightarrow> ('s, 'b) MemTable \<Rightarrow> bool" where
  "mt_IsEmpty lib t = sk_Empty lib (mt_skipList t)"

text \<open>The key with its timestamp takes 8 bytes more than the key.\<close>

definition canPut :: "('s, 'b) mem_lib \<Rightarrow> bytes \<Rightarrow> ValueStruct \<Rightarrow> ('s, 'b) MemTable \<Rightarrow> bool" where
  "canPut lib key val t \<longleftrightarrow> sk_MemSize lib (mt_skipList t) + int (length key + 8) + vs_EncodedSize lib val + 1024 \<le> mt_capacity t"

text \<open>\<open>tsGenerator.Next\<close>, with the time as an argument.\<close>

definition ts_Next :: "u64 \<Rightarrow> u64 \<Rightarrow> u64" where
  "ts_Next now lastTS = (if now \<le> lastTS then lastTS + 1 else now)"

definition mt_Put :: "('s, 'b) mem_lib \<Rightarrow> u64 \<Rightarrow> bytes \<Rightarrow> ValueStruct \<Rightarrow> ('s, 'b) MemTable \<Rightarrow> ('s, 'b) MemTable \<times> error option" where
  "mt_Put lib now key val t =
    (if \<not> canPut lib key val t then (t, Some ErrArenaSizeWillExceed)
     else
       let (ts, lastTS) = (if vs_UserMeta val = LogEntryTypeRow then (ts_Next now (mt_lastTS t), ts_Next now (mt_lastTS t)) else (0, mt_lastTS t))
       in (t\<lparr>mt_lastTS := lastTS, mt_opCount := mt_opCount t + 1, mt_skipList := sk_Put lib (key, ts) val (mt_skipList t),
            mt_bytesStored := mt_bytesStored t + length key + length (vs_Value val), mt_bloomFilter := bl_Add lib key (mt_bloomFilter t)\<rparr>, None))"

definition SetOffset :: "RecordPosition option \<Rightarrow> ('s, 'b) MemTable \<Rightarrow> ('s, 'b) MemTable" where
  "SetOffset offset t = t\<lparr>mt_offsetCount := mt_offsetCount t + 1, mt_lastOffset := offset,
     mt_firstOffset := (if mt_firstOffset t = None then offset else mt_firstOffset t)\<rparr>"

definition IncrOffset :: "('s, 'b) MemTable \<Rightarrow> ('s, 'b) MemTable" where
  "IncrOffset t = t\<lparr>mt_offsetCount := mt_offsetCount t + 1\<rparr>"

definition mt_Get :: "('s, 'b) mem_lib \<Rightarrow> bytes \<Rightarrow> ('s, 'b) MemTable \<Rightarrow> ValueStruct" where
  "mt_Get lib key t = (if \<not> bl_Test lib key (mt_bloomFilter t) then noValue else sk_Get lib (key, 0) (mt_skipList t))"

definition GetRowYValue :: "('s, 'b) mem_lib \<Rightarrow> bytes \<Rightarrow> ('s, 'b) MemTable \<Rightarrow> ValueStruct list" where
  "GetRowYValue lib rowKey t = (if \<not> bl_Test lib rowKey (mt_bloomFilter t) then []
     else rev (map snd (takeWhile (\<lambda>x. fst (fst x) = rowKey) (sk_Seek lib (rowKey, - 1) (mt_skipList t)))))"

section \<open>Flushing\<close>

text \<open>\<open>dbkernel/internal/utils.go\<close>. A large object is kept in the log; the table holds the position of its commit record.\<close>

definition GetWalRecord :: "fb_api \<Rightarrow> ValueStruct \<Rightarrow> WalIO \<Rightarrow> error + LogRecordTable" where
  "GetWalRecord fb entry wIO = (let chunkPos = DecodeOffset (vs_Value entry) in
     case wio_Read chunkPos wIO of
       Inl err \<Rightarrow> Inl (if chunkPos = None then Panic else Wrapped ''failed to read WAL for chunk position'' err)
     | Inr walValue \<Rightarrow> Inr (GetRootAsLogRecord fb walValue))"

definition HandleChunkedValuesTxn ::
  "fb_api \<Rightarrow> ('d, 'q) btree_api \<Rightarrow> LogRecordTable \<Rightarrow> WalIO \<Rightarrow> 'd \<times> 'q \<Rightarrow> (('d \<times> 'q) \<times> nat \<times> error option) option" where
  "HandleChunkedValuesTxn fb bt record walIO s =
    (let checksum = tb_Crc32Checksum record; dr = DeserializeFBRootLogRecord record in
     if Entries dr = [] then Some (s, 0, Some Panic)
     else
       let key = kve_Key (DeserializeKVEntry fb (hd (Entries dr))) in
       case GetTransactionRecords fb (DecodeOffset (PrevTxnWalIndexBytes record)) walIO of
         None \<Rightarrow> None
       | Some (Inl err) \<Rightarrow> Some (s, 0, Some (Wrapped ''failed to reconstruct batch value'' err))
       | Some (Inr records) \<Rightarrow>
         if records = [] then Some (s, 0, Some Panic)
         else case firstValues fb (tl records) of Inl e \<Rightarrow> Some (s, 0, Some e)
         | Inr values \<Rightarrow>
           case bt_txnCall bt (CSetLobChunks key values checksum) s of (s, err) \<Rightarrow> Some (s, length records, err))"

text \<open>\<open>processEntry\<close> returns the state of the transaction queue, the number of chunk records it flushed and the error.\<close>

definition processEntry ::
  "fb_api \<Rightarrow> ('d, 'q) btree_api \<Rightarrow> WalIO \<Rightarrow> bytes \<Rightarrow> ValueStruct \<Rightarrow> 'd \<times> 'q \<Rightarrow> (('d \<times> 'q) \<times> nat \<times> error option) option" where
  "processEntry fb bt wIO key entry txn =
    (let queued = (\<lambda>c. case bt_txnCall bt c txn of (txn', err) \<Rightarrow> Some (txn', 0 :: nat, err)) in
     if vs_Meta entry = LogOperationTypeDelete \<and> vs_UserMeta entry \<noteq> LogEntryTypeRow then queued (CBatchDeleteKV [key])
     else if vs_Meta entry = LogOperationTypeDeleteRowByKey then queued (CBatchDeleteRows [key])
     else
       let rest = (\<lambda>_ :: unit.
         if vs_UserMeta entry = LogEntryTypeRow \<and> vs_Meta entry = LogOperationTypeDelete
           then queued (CBatchDeleteCells [key] [re_Columns (DeserializeRowUpdateEntry fb (vs_Value entry))])
         else if vs_UserMeta entry = LogEntryTypeRow \<and> vs_Meta entry = LogOperationTypeInsert
           then queued (CBatchSetCells [key] [re_Columns (DeserializeRowUpdateEntry fb (vs_Value entry))])
         else queued (CBatchSetKV [key] [vs_Value entry])) in
       if vs_UserMeta entry = LogEntryTypeChunked then
         (case GetWalRecord fb entry wIO of Inl err \<Rightarrow> Some (txn, 0, Some err)
          | Inr record \<Rightarrow>
            if tb_TxnState record = TransactionStateCommit \<and> tb_EntryType record = LogEntryTypeChunked then
              (case HandleChunkedValuesTxn fb bt record wIO txn of None \<Rightarrow> None
               | Some (txn', n, Some err) \<Rightarrow> Some (txn', 0, Some err)
               | Some (txn', n, None) \<Rightarrow> Some (txn', n + 1, None))
            else rest ())
       else rest ())"

text \<open>The first loop of \<open>Flush\<close>. \<open>ctx i\<close> is \<open>ctx.Err()\<close> in round \<open>i\<close>. The rows it meets are collected for the second loop.\<close>

fun flushValues ::
  "fb_api \<Rightarrow> ('d, 'q) btree_api \<Rightarrow> WalIO \<Rightarrow> (nat \<Rightarrow> error option) \<Rightarrow> (tsKey \<times> ValueStruct) list \<Rightarrow> bytes list \<Rightarrow> nat \<Rightarrow> 'd \<times> 'q
    \<Rightarrow> (('d \<times> 'q) \<times> bytes list \<times> nat \<times> error option) option" where
  "flushValues fb bt wIO ctx [] mvccRows n txn = Some (txn, mvccRows, n, None)"
| "flushValues fb bt wIO ctx (((key, ts), v) # it) mvccRows n txn =
    (if ctx 0 \<noteq> None then Some (txn, mvccRows, n, ctx 0)
     else if vs_UserMeta v = LogEntryTypeRow then
       flushValues fb bt wIO (\<lambda>i. ctx (Suc i)) it (if key \<in> set mvccRows then mvccRows else mvccRows @ [key]) n txn
     else case processEntry fb bt wIO key v txn of None \<Rightarrow> None
     | Some (txn', m, Some err) \<Rightarrow> Some (txn', mvccRows, n + m, Some err)
     | Some (txn', m, None) \<Rightarrow> flushValues fb bt wIO (\<lambda>i. ctx (Suc i)) it mvccRows (n + m) txn')"

text \<open>The loops over the rows; \<open>err\<close> is the variable of \<open>Flush\<close>, which every processed entry sets anew.\<close>

fun flushRow ::
  "fb_api \<Rightarrow> ('d, 'q) btree_api \<Rightarrow> WalIO \<Rightarrow> bytes \<Rightarrow> ValueStruct list \<Rightarrow> error option \<Rightarrow> nat \<Rightarrow> 'd \<times> 'q
    \<Rightarrow> (('d \<times> 'q) \<times> nat \<times> error option) option" where
  "flushRow fb bt wIO row [] err n txn = Some (txn, n, err)"
| "flushRow fb bt wIO row (entry # entries) err n txn =
    (case processEntry fb bt wIO row entry txn of None \<Rightarrow> None
     | Some (txn', m, Some e) \<Rightarrow> Some (txn', n + m, Some e)
     | Some (txn', m, None) \<Rightarrow> flushRow fb bt wIO row entries None (n + m) txn')"

fun flushRows ::
  "('s, 'b) mem_lib \<Rightarrow> fb_api \<Rightarrow> ('d, 'q) btree_api \<Rightarrow> WalIO \<Rightarrow> ('s, 'b) MemTable \<Rightarrow> bytes list \<Rightarrow> error option \<Rightarrow> nat \<Rightarrow> 'd \<times> 'q
    \<Rightarrow> (('d \<times> 'q) \<times> nat \<times> error option) option" where
  "flushRows lib fb bt wIO t [] err n txn = Some (txn, n, err)"
| "flushRows lib fb bt wIO t (row # rows) err n txn =
    (case flushRow fb bt wIO row (GetRowYValue lib row t) err n txn of None \<Rightarrow> None
     | Some (txn', n', err') \<Rightarrow> flushRows lib fb bt wIO t rows err' n' txn')"

text \<open>\<open>Flush\<close>. \<open>order\<close> is the order in which the loop over the Go map \<open>mvccRows\<close> visits the rows.\<close>

definition mt_Flush ::
  "('s, 'b) mem_lib \<Rightarrow> fb_api \<Rightarrow> ('d, 'q) btree_api \<Rightarrow> WalIO \<Rightarrow> (nat \<Rightarrow> error option) \<Rightarrow> (bytes list \<Rightarrow> bytes list) \<Rightarrow> ('s, 'b) MemTable \<Rightarrow> 'd
    \<Rightarrow> ('d \<times> ('s, 'b) MemTable \<times> (error + nat)) option" where
  "mt_Flush lib fb bt wIO ctx order t d =
    (case flushValues fb bt wIO ctx (sk_SeekToFirst lib (mt_skipList t)) [] 0 (d, bt_NewTxnQueue bt 16 d) of None \<Rightarrow> None
     | Some (txn, mvccRows, n, err) \<Rightarrow>
       case flushRows lib fb bt wIO t (order mvccRows) err n txn of None \<Rightarrow> None
       | Some (txn, n, err) \<Rightarrow>
         let t = t\<lparr>mt_chunkedFlushed := mt_chunkedFlushed t + n\<rparr> in
         case err of Some e \<Rightarrow> Some (fst txn, t, Inl e)
         | None \<Rightarrow>
           case bt_txnCommit bt txn of
             (txn, Some e) \<Rightarrow> Some (fst txn, t, Inl e)
           | (txn, None) \<Rightarrow> Some (fst txn, t, Inr (mt_offsetCount t + mt_chunkedFlushed t)))"

text \<open>\<open>BuildColumnMap\<close>: the columns of a row with the entries of the tables applied, oldest first.\<close>

fun BuildColumnMap :: "fb_api \<Rightarrow> ValueStruct list \<Rightarrow> columns \<Rightarrow> columns" where
  "BuildColumnMap fb [] columnEntries = columnEntries"
| "BuildColumnMap fb (v # vs) columnEntries =
    (if vs_Meta v = LogOperationTypeDeleteRowByKey then BuildColumnMap fb vs []
     else
       let re = DeserializeRowUpdateEntry fb (vs_Value v) in
       BuildColumnMap fb vs (case vs_Meta v of
           LogOperationTypeInsert \<Rightarrow> fold (\<lambda>(cn, cv) m. AList.update cn cv m) (re_Columns re) columnEntries
         | LogOperationTypeDelete \<Rightarrow> fold (\<lambda>(cn, _) m. AList.delete cn m) (re_Columns re) columnEntries
         | _ \<Rightarrow> columnEntries))"

end
