(* ===== verification/MemTableCorrect.thy ===== *)
theory MemTableCorrect
  imports MemTable
begin

text \<open>
  The memory table holds a history of writes. \<open>mt_inv\<close> relates a table to the list of its writes: the last value of every key and all
  updates of every row, in order. A flush applies to the store what the whole history says, although it visits the
  values by key, leaves out what was overwritten, and takes the rows in any order.
\<close>

section \<open>Sorted lists\<close>

lemma sorted_wrt_unique:
  assumes "\<And>x y. P x y \<Longrightarrow> \<not> P y x" "sorted_wrt P xs" "sorted_wrt P ys" "set xs = set ys"
  shows "xs = ys"
  using assms(2-4)
proof (induction xs arbitrary: ys)
  case (Cons x xs)
  then obtain y zs where ys: "ys = y # zs" by (cases ys) auto
  have irr: "\<not> P a a" for a using assms(1) by blast
  have "x = y"
  proof (rule ccontr)
    assume "x \<noteq> y"
    then have "x \<in> set zs" "y \<in> set xs" using Cons.prems(3) ys by auto
    then have "P y x" "P x y" using Cons.prems(1,2) ys by auto
    then show False using assms(1) by blast
  qed
  moreover have "x \<notin> set xs" "y \<notin> set zs" using Cons.prems(1,2) ys irr by auto
  ultimately have "set xs = set zs" using Cons.prems(3) ys by auto
  then show ?case using Cons.IH [of zs] Cons.prems(1,2) ys \<open>x = y\<close> by simp
qed simp

lemma ts_less_asym: "ts_less x y \<Longrightarrow> \<not> ts_less y x"
  by (auto simp: ts_less_def)

lemma ts_sorted_filter:
  assumes "sorted_wrt (\<lambda>x y. ts_less (fst x) (fst y)) es"
  shows "sorted_wrt (\<lambda>x y. ts_less (fst x) (fst y)) (filter P es)"
  using assms by (rule sorted_wrt_filter)

lemma ts_unique:
  fixes es es' :: "(tsKey \<times> 'v) list"
  shows "sorted_wrt (\<lambda>x y. ts_less (fst x) (fst y)) es \<Longrightarrow> sorted_wrt (\<lambda>x y. ts_less (fst x) (fst y)) es' \<Longrightarrow> set es = set es' \<Longrightarrow> es = es'"
  by (rule sorted_wrt_unique [where P = "\<lambda>x y. ts_less (fst x) (fst y)"]) (auto dest: ts_less_asym)

lemma ts_sorted_map_of:
  fixes es :: "(tsKey \<times> 'v) list"
  assumes "sorted_wrt (\<lambda>x y. ts_less (fst x) (fst y)) es"
  shows "map_of es k = Some v \<longleftrightarrow> (k, v) \<in> set es"
proof -
  have "distinct (map fst es)" using assms
  proof (induction es)
    case (Cons e es)
    then have "fst e \<notin> fst ` set es" by (auto simp: ts_less_def)
    with Cons show ?case by simp
  qed simp
  then show ?thesis by simp
qed

text \<open>Seeking to a row and reading while the row lasts.\<close>

lemma seek_row:
  fixes es :: "(tsKey \<times> 'v) list"
  assumes "sorted_wrt (\<lambda>x y. ts_less (fst x) (fst y)) es"
  shows "takeWhile (\<lambda>x. fst (fst x) = r) (dropWhile (\<lambda>x. ts_less (fst x) (r, - 1)) es) = filter (\<lambda>x. fst (fst x) = r) es"
  using assms
proof (induction es)
  case (Cons e es)
  have less: "ts_less (fst e) (r, - 1) \<longleftrightarrow> fst (fst e) < r"
    by (auto simp: ts_less_def)
  show ?case
  proof (cases "fst (fst e) < r")
    case True
    then show ?thesis using Cons less by simp
  next
    case False
    show ?thesis
    proof (cases "fst (fst e) = r")
      case True
      have "takeWhile (\<lambda>x. fst (fst x) = r) es = filter (\<lambda>x. fst (fst x) = r) es"
      proof -
        have "\<forall>x \<in> set es. \<not> fst (fst x) < r" using Cons.prems True by (auto simp: ts_less_def)
        then have "dropWhile (\<lambda>x. ts_less (fst x) (r, - 1)) es = es"
          by (cases es) (auto simp: ts_less_def dest: leD)
        then show ?thesis using Cons by simp
      qed
      then show ?thesis using True less by simp
    next
      case ne: False
      then have "r < fst (fst e)" using False by simp
      then have "\<forall>x \<in> set es. fst (fst x) \<noteq> r" using Cons.prems by (auto simp: ts_less_def)
      then have "filter (\<lambda>x. fst (fst x) = r) es = []" by (simp add: filter_empty_conv)
      then show ?thesis using ne less False by simp
    qed
  qed
qed simp

section \<open>The history of a table\<close>

type_synonym history = "(bytes \<times> ValueStruct) list"

definition is_row :: "bytes \<times> ValueStruct \<Rightarrow> bool" where
  "is_row x \<longleftrightarrow> vs_UserMeta (snd x) = LogEntryTypeRow"

definition rows_of :: "history \<Rightarrow> bytes \<Rightarrow> ValueStruct list" where
  "rows_of H k = map snd (filter (\<lambda>x. fst x = k \<and> is_row x) H)"

definition value_of :: "history \<Rightarrow> bytes \<Rightarrow> ValueStruct option" where
  "value_of H k = map_of (rev (filter (\<lambda>x. \<not> is_row x) H)) k"

lemma history_snoc [simp]:
  "rows_of (H @ [(k, v)]) k' = rows_of H k' @ (if k' = k \<and> is_row (k, v) then [v] else [])"
  "value_of (H @ [(k, v)]) k' = (if k' = k \<and> \<not> is_row (k, v) then Some v else value_of H k')"
  by (auto simp: rows_of_def value_of_def)

definition row_entries :: "(tsKey \<times> ValueStruct) list \<Rightarrow> bytes \<Rightarrow> (tsKey \<times> ValueStruct) list" where
  "row_entries es k = filter (\<lambda>x. fst (fst x) = k \<and> snd (fst x) \<noteq> 0) es"

definition mt_inv :: "('s, 'b) mem_lib \<Rightarrow> ('s, 'b) MemTable \<Rightarrow> history \<Rightarrow> bool" where
  "mt_inv lib t H \<longleftrightarrow> (let es = sk_SeekToFirst lib (mt_skipList t) in
      (\<forall>k. map_of es (k, 0) = value_of H k)
    \<and> (\<forall>k. map snd (rev (row_entries es k)) = rows_of H k)
    \<and> (\<forall>x \<in> set es. snd (fst x) \<le> mt_lastTS t \<and> (snd (fst x) = 0 \<longleftrightarrow> vs_UserMeta (snd x) \<noteq> LogEntryTypeRow))
    \<and> (\<forall>x \<in> set H. bl_Test lib (fst x) (mt_bloomFilter t))
    \<and> mt_opCount t = length H \<and> unat (mt_lastTS t) \<le> 2 ^ 63 + length H)"

lemma mt_inv_New: "mem_laws lib \<Longrightarrow> mt_inv lib (NewMemTable lib n) []"
  by (simp add: mt_inv_def mem_laws_def NewMemTable_def value_of_def rows_of_def row_entries_def)

lemma mt_inv_offsets [simp]:
  "mt_inv lib (SetOffset p t) H = mt_inv lib t H" "mt_inv lib (IncrOffset t) H = mt_inv lib t H"
  "mt_inv lib (t\<lparr>mt_chunkedFlushed := n\<rparr>) H = mt_inv lib t H"
  by (simp_all add: mt_inv_def SetOffset_def IncrOffset_def)

lemma mt_invD:
  assumes "mt_inv lib t H"
  shows "map_of (sk_SeekToFirst lib (mt_skipList t)) (k, 0) = value_of H k"
    "map snd (rev (row_entries (sk_SeekToFirst lib (mt_skipList t)) k)) = rows_of H k"
    "x \<in> set (sk_SeekToFirst lib (mt_skipList t)) \<Longrightarrow> snd (fst x) \<le> mt_lastTS t"
    "x \<in> set (sk_SeekToFirst lib (mt_skipList t)) \<Longrightarrow> snd (fst x) = 0 \<longleftrightarrow> vs_UserMeta (snd x) \<noteq> LogEntryTypeRow"
    "(k', v) \<in> set H \<Longrightarrow> bl_Test lib k' (mt_bloomFilter t)"
  using assms by (auto simp: mt_inv_def Let_def)

lemma ts_Next_above:
  assumes "unat lastTS \<le> 2 ^ 63 + n" "n < 2 ^ 62" "now < 2 ^ 63"
  shows "lastTS < ts_Next now lastTS \<and> unat (ts_Next now lastTS) \<le> 2 ^ 63 + Suc n"
proof (cases "now \<le> lastTS")
  case True
  have "unat lastTS + 1 < 2 ^ 64" using assms(1,2) by simp
  then have "unat (lastTS + 1) = unat lastTS + 1" by (simp add: unat_word_ariths)
  then show ?thesis using True assms(1) by (simp add: ts_Next_def word_less_nat_alt)
next
  case False
  have "unat now < 2 ^ 63" using assms(3) by (simp add: word_less_nat_alt)
  then show ?thesis using False by (simp add: ts_Next_def)
qed

section \<open>Writing and reading\<close>

lemma mt_Put_ok:
  assumes laws: "mem_laws lib" and inv: "mt_inv lib t H" and room: "canPut lib key val t" "now < 2 ^ 63" "length H < 2 ^ 62"
  shows "\<exists>t'. mt_Put lib now key val t = (t', None) \<and> mt_inv lib t' (H @ [(key, val)])
    \<and> mt_lastOffset t' = mt_lastOffset t \<and> mt_firstOffset t' = mt_firstOffset t \<and> mt_capacity t' = mt_capacity t"
proof -
  define row where "row \<longleftrightarrow> vs_UserMeta val = LogEntryTypeRow"
  define ts where "ts = (if row then ts_Next now (mt_lastTS t) else 0)"
  define lts where "lts = (if row then ts else mt_lastTS t)"
  define t' where "t' = t\<lparr>mt_lastTS := lts, mt_opCount := mt_opCount t + 1, mt_skipList := sk_Put lib (key, ts) val (mt_skipList t),
    mt_bytesStored := mt_bytesStored t + length key + length (vs_Value val), mt_bloomFilter := bl_Add lib key (mt_bloomFilter t)\<rparr>"
  have put: "mt_Put lib now key val t = (t', None)" using room(1) by (simp add: mt_Put_def t'_def ts_def lts_def row_def Let_def)
  let ?es = "sk_SeekToFirst lib (mt_skipList t)" and ?es' = "sk_SeekToFirst lib (mt_skipList t')"
  have srt: "sorted_wrt (\<lambda>x y. ts_less (fst x) (fst y)) ?es" "sorted_wrt (\<lambda>x y. ts_less (fst x) (fst y)) ?es'"
    using laws by (simp_all add: mem_laws_def)
  have es': "set ?es' = insert ((key, ts), val) {x \<in> set ?es. fst x \<noteq> (key, ts)}" using laws by (simp add: mem_laws_def t'_def)
  have next_ts: "mt_lastTS t < ts_Next now (mt_lastTS t) \<and> unat (ts_Next now (mt_lastTS t)) \<le> 2 ^ 63 + Suc (length H)"
    using ts_Next_above [OF _ room(3,2), of "mt_lastTS t"] inv by (simp add: mt_inv_def Let_def)
  have ts0: "ts = 0 \<longleftrightarrow> \<not> row" using next_ts by (auto simp: ts_def)
  have new: "(key, ts) \<notin> fst ` set ?es" if row 
  proof
    assume "(key, ts) \<in> fst ` set ?es"
    then obtain x where "x \<in> set ?es" "fst x = (key, ts)" by auto
    then have "ts \<le> mt_lastTS t" using mt_invD(3) [OF inv, of x] by simp
    then show False using next_ts that by (simp add: ts_def linorder_not_le [symmetric])
  qed
  have vals: "map_of ?es' (k, 0) = value_of (H @ [(key, val)]) k" for k
  proof (cases "k = key \<and> \<not> row")
    case True
    then have "((k, 0), val) \<in> set ?es'" using es' ts0 by simp
    then show ?thesis using True ts_sorted_map_of [OF srt(2)] by (simp add: is_row_def row_def)
  next
    case False
    have "((k, 0), v) \<in> set ?es' \<longleftrightarrow> ((k, 0), v) \<in> set ?es" for v using False es' ts0 by auto
    then have "map_of ?es' (k, 0) = map_of ?es (k, 0)"
      using ts_sorted_map_of [OF srt(1)] ts_sorted_map_of [OF srt(2)] by (metis option.exhaust)
    then show ?thesis using False mt_invD(1) [OF inv] by (auto simp: is_row_def row_def)
  qed
  have rows: "map snd (rev (row_entries ?es' k)) = rows_of (H @ [(key, val)]) k" for k
  proof (cases "k = key \<and> row")
    case True
    have "row_entries ?es' k = ((key, ts), val) # row_entries ?es k"
    proof (rule ts_unique)
      show "sorted_wrt (\<lambda>x y. ts_less (fst x) (fst y)) (row_entries ?es' k)" using srt(2) unfolding row_entries_def by (rule ts_sorted_filter)
      show "sorted_wrt (\<lambda>x y. ts_less (fst x) (fst y)) (((key, ts), val) # row_entries ?es k)"
      proof -
        have "ts_less (key, ts) (fst x)" if "x \<in> set (row_entries ?es k)" for x
          using that True le_less_trans [OF mt_invD(3) [OF inv, of x] conjunct1 [OF next_ts]] by (simp add: row_entries_def ts_less_def ts_def)
        moreover have "sorted_wrt (\<lambda>x y. ts_less (fst x) (fst y)) (row_entries ?es k)" using srt(1) unfolding row_entries_def by (rule ts_sorted_filter)
        ultimately show ?thesis by simp
      qed
      show "set (row_entries ?es' k) = set (((key, ts), val) # row_entries ?es k)"
      proof -
        have nk: "(key, ts) \<notin> fst ` set ?es" using new True by blast
        have "fst x \<noteq> (key, ts)" if "x \<in> set ?es" for x
        proof
          assume "fst x = (key, ts)"
          then show False using imageI [OF that, of fst] nk by simp
        qed
        then have "{x \<in> set ?es. fst x \<noteq> (key, ts)} = set ?es" by blast
        then have "set ?es' = insert ((key, ts), val) (set ?es)" using es' by simp
        then have "set (row_entries ?es' k) = {x \<in> insert ((key, ts), val) (set ?es). fst (fst x) = k \<and> snd (fst x) \<noteq> 0}"
          by (simp only: row_entries_def set_filter)
        also have "\<dots> = insert ((key, ts), val) (set (row_entries ?es k))" using ts0 True unfolding row_entries_def by auto
        finally show ?thesis by simp
      qed
    qed
    then show ?thesis using True mt_invD(2) [OF inv, of k] by (simp add: is_row_def row_def)
  next
    case False
    have "row_entries ?es' k = row_entries ?es k"
    proof (rule ts_unique)
      show "sorted_wrt (\<lambda>x y. ts_less (fst x) (fst y)) (row_entries ?es' k)" using srt(2) unfolding row_entries_def by (rule ts_sorted_filter)
      show "sorted_wrt (\<lambda>x y. ts_less (fst x) (fst y)) (row_entries ?es k)" using srt(1) unfolding row_entries_def by (rule ts_sorted_filter)
      show "set (row_entries ?es' k) = set (row_entries ?es k)" using es' ts0 False by (auto simp: row_entries_def)
    qed
    then show ?thesis using False mt_invD(2) [OF inv, of k] by (auto simp: is_row_def row_def)
  qed
  have "snd (fst x) \<le> lts \<and> (snd (fst x) = 0 \<longleftrightarrow> vs_UserMeta (snd x) \<noteq> LogEntryTypeRow)" if x: "x \<in> set ?es'" for x
  proof (cases "x = ((key, ts), val)")
    case True
    then show ?thesis using ts0 by (auto simp: lts_def row_def ts_def)
  next
    case False
    then have "x \<in> set ?es" using x es' by auto
    then show ?thesis using mt_invD(3,4) [OF inv, of x] next_ts by (cases row) (auto simp: lts_def ts_def)
  qed
  moreover have "bl_Test lib (fst x) (mt_bloomFilter t')" if "x \<in> set (H @ [(key, val)])" for x
  proof -
    have bl: "bl_Test lib key (bl_Add lib key b)" "bl_Test lib k' b \<Longrightarrow> bl_Test lib k' (bl_Add lib key b)" for k' b
      using laws by (simp_all add: mem_laws_def)
    show ?thesis using that bl mt_invD(5) [OF inv, of "fst x" "snd x"] by (auto simp: t'_def)
  qed
  moreover have "unat lts \<le> 2 ^ 63 + Suc (length H)" using next_ts inv by (simp add: lts_def ts_def mt_inv_def Let_def)
  ultimately have "mt_inv lib t' (H @ [(key, val)])"
    using vals rows inv unfolding mt_inv_def Let_def by (simp add: t'_def)
  then show ?thesis using put by (simp add: t'_def)
qed

lemma value_of_None: "(\<forall>v. (k, v) \<notin> set H) \<Longrightarrow> value_of H k = None"
  by (auto simp: value_of_def map_of_eq_None_iff)

lemma mt_Get_ok:
  assumes "mem_laws lib" "mt_inv lib t H"
  shows "mt_Get lib k t = (case value_of H k of None \<Rightarrow> noValue | Some v \<Rightarrow> v)"
proof -
  have get: "sk_Get lib (k, 0) (mt_skipList t) = (case value_of H k of None \<Rightarrow> noValue | Some v \<Rightarrow> v)"
    using assms(1) mt_invD(1) [OF assms(2), of k] by (simp add: mem_laws_def)
  show ?thesis
  proof (cases "bl_Test lib k (mt_bloomFilter t)")
    case False
    then have "value_of H k = None" using mt_invD(5) [OF assms(2)] value_of_None by blast
    then show ?thesis using False by (simp add: mt_Get_def)
  qed (use get in \<open>simp add: mt_Get_def\<close>)
qed

lemma GetRowYValue_ok:
  assumes "mem_laws lib" "mt_inv lib t H" "value_of H k = None"
  shows "GetRowYValue lib k t = rows_of H k"
proof (cases "bl_Test lib k (mt_bloomFilter t)")
  case True
  let ?es = "sk_SeekToFirst lib (mt_skipList t)"
  have srt: "sorted_wrt (\<lambda>x y. ts_less (fst x) (fst y)) ?es" using assms(1) by (simp add: mem_laws_def)
  have "((k, 0), v) \<notin> set ?es" for v using mt_invD(1) [OF assms(2), of k] assms(3) ts_sorted_map_of [OF srt] by (metis option.distinct(1))
  then have "filter (\<lambda>x. fst (fst x) = k) ?es = row_entries ?es k"
    unfolding row_entries_def by (intro filter_cong) auto
  then show ?thesis
    using True assms(1) seek_row [OF srt] mt_invD(2) [OF assms(2), of k] by (simp add: GetRowYValue_def mem_laws_def rev_map)
next
  case False
  then have "\<forall>x \<in> set H. fst x \<noteq> k" using mt_invD(5) [OF assms(2)] by force
  then have "rows_of H k = []" by (auto simp: rows_of_def filter_empty_conv)
  then show ?thesis using False by (simp add: GetRowYValue_def)
qed

lemma mt_IsEmpty_ok:
  assumes "mem_laws lib" "mt_inv lib t H" shows "mt_IsEmpty lib t \<longleftrightarrow> H = []"
proof
  assume "mt_IsEmpty lib t"
  then have es: "sk_SeekToFirst lib (mt_skipList t) = []" using assms(1) by (simp add: mt_IsEmpty_def mem_laws_def)
  show "H = []"
  proof (cases H rule: rev_cases)
    case (snoc H' x)
    obtain k v where "x = (k, v)" by (cases x)
    then show ?thesis using mt_invD(1,2) [OF assms(2), of k] es snoc by (cases "is_row (k, v)") (auto simp: row_entries_def)
  qed
next
  assume H: "H = []"
  have "x \<notin> set (sk_SeekToFirst lib (mt_skipList t))" for x
  proof
    assume x: "x \<in> set (sk_SeekToFirst lib (mt_skipList t))"
    obtain k ts v where xk: "x = ((k, ts), v)" by (metis prod.exhaust)
    have srt: "sorted_wrt (\<lambda>x y. ts_less (fst x) (fst y)) (sk_SeekToFirst lib (mt_skipList t))" using assms(1) by (simp add: mem_laws_def)
    show False
    proof (cases "ts = 0")
      case True
      then show ?thesis using x xk mt_invD(1) [OF assms(2), of k] ts_sorted_map_of [OF srt] H by (metis option.distinct(1) value_of_None empty_iff list.set(1))
    next
      case False
      then have "row_entries (sk_SeekToFirst lib (mt_skipList t)) k \<noteq> []" using x xk by (force simp: row_entries_def filter_empty_conv)
      then show ?thesis using mt_invD(2) [OF assms(2), of k] H by (simp add: rows_of_def)
    qed
  qed
  then have "set (sk_SeekToFirst lib (mt_skipList t)) = {}" by (metis all_not_in_conv)
  then show "mt_IsEmpty lib t" using assms(1) by (simp add: mt_IsEmpty_def mem_laws_def)
qed

end
