(* ===== verification/FlushCorrect.thy ===== *)
theory FlushCorrect
  imports MemTableCorrect
begin

text \<open>
  Flushing a memory table. Every entry of a table asks for one call on the store; \<open>mem_call\<close> is that call and \<open>mem_sops\<close> what a
  history of entries means for the store. A flush makes the calls of the last values by key and then those of the
  rows, which has the effect of the whole history.
\<close>

section \<open>Positions in the log\<close>

definition log_at :: "log \<Rightarrow> RecordPosition \<Rightarrow> (log \<times> LogRecord) option" where
  "log_at D p = (case dropWhile (\<lambda>x. fst x \<noteq> p) D of [] \<Rightarrow> None | x # _ \<Rightarrow> Some (takeWhile (\<lambda>x. fst x \<noteq> p) D, snd x))"

lemma log_at_append: "log_at D p = Some z \<Longrightarrow> log_at (D @ E) p = Some z"
proof -
  assume a: "log_at D p = Some z"
  then have "dropWhile (\<lambda>x. fst x \<noteq> p) D \<noteq> []" by (metis list.case(1) log_at_def option.distinct(1))
  then have "\<not> (\<forall>x \<in> set D. fst x \<noteq> p)" by (simp only: dropWhile_eq_Nil_conv not_False_eq_True)
  then show ?thesis using a by (auto simp: log_at_def takeWhile_append dropWhile_append split: list.splits)
qed

lemma log_at_last: "p \<notin> fst ` set D \<Longrightarrow> log_at (D @ (p, r) # E) p = Some (D, r)"
  by (force simp: log_at_def takeWhile_append dropWhile_append)

lemma log_atD: "log_at D p = Some (pre, r) \<Longrightarrow> \<exists>post. D = pre @ (p, r) # post"
proof -
  assume a: "log_at D p = Some (pre, r)"
  then obtain x xs where x: "dropWhile (\<lambda>x. fst x \<noteq> p) D = x # xs" "pre = takeWhile (\<lambda>x. fst x \<noteq> p) D" "r = snd x"
    by (auto simp: log_at_def split: list.splits)
  have "fst x = p" using hd_dropWhile [of "\<lambda>x. fst x \<noteq> p" D] x(1) by simp
  moreover have "D = pre @ x # xs" using takeWhile_dropWhile_id [of "\<lambda>x. fst x \<noteq> p" D] x by simp
  ultimately show ?thesis using x(3) by (cases x) auto
qed

lemma wal_log_positions: "wal_inv w L \<Longrightarrow> distinct (map fst (wal_log L))"
proof -
  assume "wal_inv w L"
  then have "sorted_wrt pos_less (wal_log L)" by (intro wal_log_sorted) (simp add: wal_inv_def)
  moreover have "distinct (map fst xs)" if "sorted_wrt pos_less xs" for xs :: "(RecordPosition \<times> bytes) list"
    using that by (induction xs) force+
  ultimately show ?thesis by blast
qed

section \<open>The calls of a table\<close>

definition mem_call :: "fb_api \<Rightarrow> log \<Rightarrow> bytes \<times> ValueStruct \<Rightarrow> storeCall" where
  "mem_call fb D = (\<lambda>(k, v). let cols = re_Columns (DeserializeRowUpdateEntry fb (vs_Value v)) in
     case vs_UserMeta v of
       LogEntryTypeKV \<Rightarrow> if vs_Meta v = LogOperationTypeDelete then CBatchDeleteKV [k] else CBatchSetKV [k] [vs_Value v]
     | LogEntryTypeRow \<Rightarrow> if vs_Meta v = LogOperationTypeDeleteRowByKey then CBatchDeleteRows [k]
         else if vs_Meta v = LogOperationTypeDelete then CBatchDeleteCells [k] [cols] else CBatchSetCells [k] [cols]
     | LogEntryTypeChunked \<Rightarrow> (case Option.bind (DecodeOffset (vs_Value v)) (log_at D) of
           None \<Rightarrow> CBatchSetKV [] []
         | Some (pre, r) \<Rightarrow> chunk_call fb r (map snd (tl (txn_part pre (TxnID r))))))"

text \<open>The entries the engine puts into a table: keys with the prefix of their kind, and for a large object the position of its
  commit record in the log.\<close>

definition entry_ok :: "fb_api \<Rightarrow> log \<Rightarrow> bytes \<times> ValueStruct \<Rightarrow> bool" where
  "entry_ok fb D = (\<lambda>(k, v). case vs_UserMeta v of
       LogEntryTypeKV \<Rightarrow> encKV k \<and> vs_Meta v \<in> {LogOperationTypeInsert, LogOperationTypeDelete}
     | LogEntryTypeRow \<Rightarrow> encRow k \<and> vs_Meta v \<in> {LogOperationTypeInsert, LogOperationTypeDelete, LogOperationTypeDeleteRowByKey}
     | LogEntryTypeChunked \<Rightarrow> encBlob k \<and> vs_Meta v = LogOperationTypeInsert
         \<and> (\<exists>p pre r. DecodeOffset (vs_Value v) = Some p \<and> log_at D p = Some (pre, r)
             \<and> TxnState r = TransactionStateCommit \<and> EntryType r = LogEntryTypeChunked \<and> record_ok fb pre r
             \<and> kve_Key (DeserializeKVEntry fb (hd (Entries r))) = k))"

definition mem_sops :: "fb_api \<Rightarrow> log \<Rightarrow> history \<Rightarrow> sop list" where
  "mem_sops fb D H = concat (map (\<lambda>x. call_sops (mem_call fb D x)) H)"

lemma mem_sops_append [simp]:
  "mem_sops fb D (H @ H') = mem_sops fb D H @ mem_sops fb D H'" "mem_sops fb D [] = []"
  "mem_sops fb D (x # H) = call_sops (mem_call fb D x) @ mem_sops fb D H"
  by (simp_all add: mem_sops_def)

lemma entry_mono:
  assumes "entry_ok fb D x"
  shows "entry_ok fb (D @ E) x" "mem_call fb (D @ E) x = mem_call fb D x"
proof -
  obtain k v where x: "x = (k, v)" by (cases x)
  have at: "log_at (D @ E) p = Some z" if "log_at D p = Some z" for p z using log_at_append [OF that] .
  show "entry_ok fb (D @ E) x" using assms at by (fastforce simp: entry_ok_def x split: LogEntryType.splits)
  show "mem_call fb (D @ E) x = mem_call fb D x"
    using assms at by (fastforce simp: entry_ok_def mem_call_def x Let_def split: LogEntryType.splits)
qed

lemma mem_sops_mono: "\<forall>x \<in> set H. entry_ok fb D x \<Longrightarrow> mem_sops fb (D @ E) H = mem_sops fb D H"
  by (simp add: mem_sops_def entry_mono(2) cong: map_cong)

text \<open>The kinds of keys are told apart by their first byte.\<close>

lemma enc_disjoint: "encKV k \<Longrightarrow> \<not> encRow k" "encKV k \<Longrightarrow> \<not> encBlob k" "encRow k \<Longrightarrow> \<not> encBlob k"
proof -
  have t: "encRow k \<Longrightarrow> typed KeyTypeWideColumn k" "encBlob k \<Longrightarrow> typed KeyTypeBlobChunk k" for k
    by (auto simp: encRow_def encBlob_def kc_same)
  have u: "typed a k \<Longrightarrow> typed b k \<Longrightarrow> a = b" for a b by (simp add: typed_def)
  show "encKV k \<Longrightarrow> \<not> encRow k" "encKV k \<Longrightarrow> \<not> encBlob k" "encRow k \<Longrightarrow> \<not> encBlob k"
    using t u [of KeyTypeKV] u [of KeyTypeWideColumn KeyTypeBlobChunk] by (fastforce simp: encKV_def)+
qed

lemma entry_kind:
  assumes "entry_ok fb D (k, v)"
  shows "vs_UserMeta v = LogEntryTypeKV \<longleftrightarrow> encKV k" "vs_UserMeta v = LogEntryTypeRow \<longleftrightarrow> encRow k"
    "vs_UserMeta v = LogEntryTypeChunked \<longleftrightarrow> encBlob k"
  using assms enc_disjoint [of k] by (auto simp: entry_ok_def split: LogEntryType.splits)

text \<open>An entry asks for one operation, which touches the places of its key.\<close>

lemma entry_op:
  assumes "entry_ok fb D (k, v)"
  shows "\<exists>op. call_sops (mem_call fb D (k, v)) = [op] \<and> (\<forall>l. touches op l \<longrightarrow> l = PlaceKV k \<or> l = PlaceLob k \<or> (\<exists>c. l = PlaceCell k c))
    \<and> (encKV k \<longrightarrow> touches op (PlaceKV k)) \<and> (encBlob k \<longrightarrow> touches op (PlaceLob k))
    \<and> (touches op (PlaceKV k) \<longrightarrow> encKV k) \<and> (touches op (PlaceLob k) \<longrightarrow> encBlob k) \<and> (\<forall>c. touches op (PlaceCell k c) \<longrightarrow> encRow k)"
  using assms enc_disjoint [of k]
  by (auto simp: entry_ok_def mem_call_def chunk_call_def Let_def split: LogEntryType.splits)

definition the_op :: "fb_api \<Rightarrow> log \<Rightarrow> bytes \<times> ValueStruct \<Rightarrow> sop" where
  "the_op fb D x = hd (call_sops (mem_call fb D x))"

lemma the_op:
  assumes "entry_ok fb D (k, v)"
  shows "call_sops (mem_call fb D (k, v)) = [the_op fb D (k, v)]"
    "touches (the_op fb D (k, v)) (PlaceKV k') \<longleftrightarrow> encKV k \<and> k' = k" "touches (the_op fb D (k, v)) (PlaceLob k') \<longleftrightarrow> encBlob k \<and> k' = k"
    "touches (the_op fb D (k, v)) (PlaceCell r c) \<Longrightarrow> encRow k \<and> r = k"
  using entry_op [OF assms] by (auto simp: the_op_def)

lemma mem_sops_ops: "\<forall>x \<in> set H. entry_ok fb D x \<Longrightarrow> mem_sops fb D H = map (the_op fb D) H"
  by (induction H) (auto simp: the_op(1))

lemma entry_engine_call:
  assumes "entry_ok fb D (k, v)" shows "engine_call (mem_call fb D (k, v))"
proof (cases "vs_UserMeta v = LogEntryTypeChunked")
  case True
  then obtain p pre r where r: "DecodeOffset (vs_Value v) = Some p" "log_at D p = Some (pre, r)" "TxnState r = TransactionStateCommit"
      "EntryType r = LogEntryTypeChunked" "record_ok fb pre r"
    using assms by (auto simp: entry_ok_def)
  then have "record_call fb pre r = Some (mem_call fb D (k, v))"
    using True by (simp add: mem_call_def record_call_def commit_call_def)
  then show ?thesis using r(5) by (simp add: record_ok_def)
next
  case False
  then show ?thesis using assms
    by (auto simp: entry_ok_def mem_call_def engine_call_def call_ok_def valid_args_def Let_def split: LogEntryType.splits)
qed

section \<open>Last writers\<close>

lemma last_writer_unique:
  assumes "op \<in> set ops" "touches op l" "\<And>op'. op' \<in> set ops \<Longrightarrow> touches op' l \<Longrightarrow> op' = op"
  shows "last_writer ops l = Some op"
proof -
  have "filter (\<lambda>op. touches op l) ops \<noteq> []" using assms(1,2) by (auto simp: filter_empty_conv)
  then have "last (filter (\<lambda>op. touches op l) ops) \<in> set (filter (\<lambda>op. touches op l) ops)" by (rule last_in_set)
  then show ?thesis using assms(3) \<open>filter (\<lambda>op. touches op l) ops \<noteq> []\<close> by (auto simp: last_writer_def Let_def)
qed

lemma last_writer_value:
  assumes "\<forall>x \<in> set H. entry_ok fb D x" "l = PlaceKV k \<and> encKV k \<or> l = PlaceLob k \<and> encBlob k"
  shows "last_writer (mem_sops fb D H) l = map_option (\<lambda>v. the_op fb D (k, v)) (value_of H k)"
  using assms(1)
proof (induction H rule: rev_induct)
  case (snoc x H)
  obtain k' v where x: "x = (k', v)" by (cases x)
  have ok: "entry_ok fb D (k', v)" using snoc.prems by (simp add: x)
  have t: "touches (the_op fb D (k', v)) l \<longleftrightarrow> k' = k \<and> \<not> is_row (k', v)"
    using assms(2) the_op(2,3) [OF ok] entry_kind(2) [OF ok] enc_disjoint [of k] by (auto simp: is_row_def)
  show ?case using snoc t by (auto simp: x the_op(1) [OF ok] last_writer_snoc)
qed (simp add: value_of_def)

lemma last_writer_cells: "last_writer ops l = last_writer (filter (\<lambda>op. touches op l) ops) l"
  by (simp add: last_writer_def)

lemma filter_cells:
  assumes "\<forall>x \<in> set H. entry_ok fb D x" "encRow r"
  shows "filter (\<lambda>op. touches op (PlaceCell r c)) (mem_sops fb D H) =
    filter (\<lambda>op. touches op (PlaceCell r c)) (map (\<lambda>v. the_op fb D (r, v)) (rows_of H r))"
  using assms(1)
proof (induction H rule: rev_induct)
  case (snoc x H)
  obtain k v where x: "x = (k, v)" by (cases x)
  have ok: "entry_ok fb D (k, v)" using snoc.prems by (simp add: x)
  have "touches (the_op fb D (k, v)) (PlaceCell r c) \<Longrightarrow> r = k \<and> is_row (k, v)"
    using the_op(4) [OF ok, of r c] entry_kind(2) [OF ok] by (auto simp: is_row_def)
  then show ?case using snoc by (auto simp: x the_op(1) [OF ok])
qed (simp add: rows_of_def)

lemma filter_one:
  "distinct xs \<Longrightarrow> (\<And>x. x \<in> set xs \<Longrightarrow> x \<noteq> r \<Longrightarrow> filter P (f x) = []) \<Longrightarrow> filter P (concat (map f xs)) = (if r \<in> set xs then filter P (f r) else [])"
  by (induction xs) auto

section \<open>The flush\<close>

text \<open>The records of chunked transactions that a flush counts.\<close>

definition mem_weight :: "log \<Rightarrow> bytes \<times> ValueStruct \<Rightarrow> nat" where
  "mem_weight D = (\<lambda>(k, v). if vs_UserMeta v = LogEntryTypeChunked then
     (case Option.bind (DecodeOffset (vs_Value v)) (log_at D) of None \<Rightarrow> 0 | Some (pre, r) \<Rightarrow> length (txn_part pre (TxnID r)) + 1) else 0)"

lemma log_at_decoded:
  assumes "log_at (decoded fb es) p = Some (pre, r)"
  shows "\<exists>es1 d es2. es = es1 @ (p, d) # es2 \<and> pre = decoded fb es1 \<and> r = DeserializeLogRecord fb d"
proof -
  obtain post where "decoded fb es = pre @ (p, r) # post" using log_atD [OF assms] by blast
  then obtain es1 e es2 where "es = es1 @ e # es2" "decoded fb es1 = pre" "decoded fb [e] = [(p, r)]"
    by (auto simp: decoded_def map_eq_append_conv map_eq_Cons_conv)
  then show ?thesis by (cases e) auto
qed

lemma processEntry_ok:
  assumes "wal_inv (wio_appendLog w) L" "linked [] (decoded fb (wal_log L))" "entry_ok fb (decoded fb (wal_log L)) (k, v)"
    and "bt_txnCall bt (mem_call fb (decoded fb (wal_log L)) (k, v)) txn = (txn', None)"
  shows "processEntry fb bt w k v txn = Some (txn', mem_weight (decoded fb (wal_log L)) (k, v), None)"
proof (cases "vs_UserMeta v = LogEntryTypeChunked")
  case True
  let ?D = "decoded fb (wal_log L)"
  obtain p pre r where r: "DecodeOffset (vs_Value v) = Some p" "log_at ?D p = Some (pre, r)" "TxnState r = TransactionStateCommit"
      "EntryType r = LogEntryTypeChunked" "record_ok fb pre r" "vs_Meta v = LogOperationTypeInsert"
    using assms(3) True by (auto simp: entry_ok_def)
  obtain es1 d es2 where es: "wal_log L = es1 @ (p, d) # es2" "pre = decoded fb es1" "r = DeserializeLogRecord fb d"
    using log_at_decoded [OF r(2)] by blast
  obtain ts where ts: "GetTransactionRecords fb (DecodeOffset (PrevTxnWalIndex r)) w = Some (Inr ts)"
      "map DeserializeFBRootLogRecord ts = map snd (txn_part pre (TxnID r))" "ts \<noteq> []"
    using GetTransactionRecords_ok [OF assms(1,2) es(1,3)] r(3) es(2) by auto
  have len: "length ts = length (txn_part pre (TxnID r))" using arg_cong [OF ts(2), of length] by simp
  let ?t = "GetRootAsLogRecord fb d"
  have rt: "r = DeserializeFBRootLogRecord ?t" using es(3) by (simp add: DeserializeLogRecord_def)
  have read: "GetWalRecord fb v w = Inr ?t"
    using r(1) wl_Read_entry [OF assms(1), of p d] es(1) by (simp add: GetWalRecord_def wio_Read_def)
  have ne: "tb_Entries ?t \<noteq> []" "\<forall>q \<in> set (map snd (tl (txn_part pre (TxnID r)))). Entries q \<noteq> []"
    using r(3-5) rt by (auto simp: record_ok_def)
  have vals: "firstValues fb (tl ts) = Inr (map (\<lambda>q. kve_Value (DeserializeKVEntry fb (hd (Entries q)))) (map snd (tl (txn_part pre (TxnID r)))))"
    using firstValues_ok [OF _ ne(2), of "tl ts"] ts(2) by (simp add: map_tl)
  have call: "mem_call fb ?D (k, v) = chunk_call fb r (map snd (tl (txn_part pre (TxnID r))))" using True r(1,2) by (simp add: mem_call_def)
  have "HandleChunkedValuesTxn fb bt ?t w txn = Some (txn', length ts, None)"
    using ts(1,3) vals ne(1) assms(4) rt unfolding call by (simp add: HandleChunkedValuesTxn_def chunk_call_def Let_def)
  then show ?thesis using read r(1-4,6) rt True len by (simp add: processEntry_def mem_weight_def Let_def)
next
  case False
  then show ?thesis using assms(3,4)
    by (auto simp: processEntry_def mem_call_def mem_weight_def entry_ok_def Let_def split: LogEntryType.splits)
qed

definition plain_entries :: "(tsKey \<times> ValueStruct) list \<Rightarrow> history" where
  "plain_entries es = map (\<lambda>((k, ts), v). (k, v)) (filter (\<lambda>(k, v). vs_UserMeta v \<noteq> LogEntryTypeRow) es)"

lemma plain_entries_Cons [simp]:
  "plain_entries [] = []" "plain_entries (((k, ts), v) # es) = (if vs_UserMeta v = LogEntryTypeRow then plain_entries es else (k, v) # plain_entries es)"
  by (simp_all add: plain_entries_def)

lemma flushValues_ok:
  assumes "wal_inv (wio_appendLog w) L" "linked [] (decoded fb (wal_log L))" "\<forall>x \<in> set (plain_entries es). entry_ok fb (decoded fb (wal_log L)) x"
    and "\<forall>i. ctx i = None" "runCalls (bt_txnCall bt) (map (mem_call fb (decoded fb (wal_log L))) (plain_entries es)) txn = (txn', None)"
  shows "\<exists>rows. flushValues fb bt w ctx es rs n txn =
      Some (txn', rows, n + sum_list (map (mem_weight (decoded fb (wal_log L))) (plain_entries es)), None)
    \<and> (distinct rs \<longrightarrow> distinct rows) \<and> set rows = set rs \<union> {k. \<exists>ts v. ((k, ts), v) \<in> set es \<and> vs_UserMeta v = LogEntryTypeRow}"
  using assms(3-5)
proof (induction es arbitrary: rs n txn ctx)
  case (Cons e es)
  obtain k ts v where e: "e = ((k, ts), v)" by (metis prod.exhaust)
  show ?case
  proof (cases "vs_UserMeta v = LogEntryTypeRow")
    case True
    let ?rs = "if k \<in> set rs then rs else rs @ [k]"
    obtain rows where rows: "flushValues fb bt w (\<lambda>i. ctx (Suc i)) es ?rs n txn =
          Some (txn', rows, n + sum_list (map (mem_weight (decoded fb (wal_log L))) (plain_entries es)), None)"
        "distinct ?rs \<longrightarrow> distinct rows" "set rows = set ?rs \<union> {k. \<exists>ts v. ((k, ts), v) \<in> set es \<and> vs_UserMeta v = LogEntryTypeRow}"
      using Cons.IH [of "\<lambda>i. ctx (Suc i)" txn ?rs n] Cons.prems True by (auto simp: e)
    then show ?thesis using True Cons.prems(2) by (intro exI [of _ rows]) (auto simp: e)
  next
    case False
    then obtain txn1 where t1: "bt_txnCall bt (mem_call fb (decoded fb (wal_log L)) (k, v)) txn = (txn1, None)"
        "runCalls (bt_txnCall bt) (map (mem_call fb (decoded fb (wal_log L))) (plain_entries es)) txn1 = (txn', None)"
      using Cons.prems(3) by (auto simp: e split: prod.splits option.splits)
    have "entry_ok fb (decoded fb (wal_log L)) (k, v)" using Cons.prems(1) False by (simp add: e)
    note pe = processEntry_ok [OF assms(1,2) this t1(1)]
    obtain rows where "flushValues fb bt w (\<lambda>i. ctx (Suc i)) es rs (n + mem_weight (decoded fb (wal_log L)) (k, v)) txn1 =
          Some (txn', rows, n + mem_weight (decoded fb (wal_log L)) (k, v) + sum_list (map (mem_weight (decoded fb (wal_log L))) (plain_entries es)), None)"
        "distinct rs \<longrightarrow> distinct rows" "set rows = set rs \<union> {k. \<exists>ts v. ((k, ts), v) \<in> set es \<and> vs_UserMeta v = LogEntryTypeRow}"
      using Cons.IH [of "\<lambda>i. ctx (Suc i)" txn1 rs "n + mem_weight (decoded fb (wal_log L)) (k, v)"] Cons.prems False t1(2) by (auto simp: e)
    then show ?thesis using False Cons.prems(2) pe by (intro exI [of _ rows]) (auto simp: e)
  qed
qed simp

lemma runCalls_append:
  "runCalls call (cs @ cs') s = (case runCalls call cs s of (s', None) \<Rightarrow> runCalls call cs' s' | (s', Some e) \<Rightarrow> (s', Some e))"
  by (induction cs arbitrary: s) (auto split: prod.splits option.splits)

lemma flushRow_ok:
  assumes "wal_inv (wio_appendLog w) L" "linked [] (decoded fb (wal_log L))"
    and "\<forall>v \<in> set vs. entry_ok fb (decoded fb (wal_log L)) (row, v) \<and> vs_UserMeta v = LogEntryTypeRow"
    and "runCalls (bt_txnCall bt) (map (\<lambda>v. mem_call fb (decoded fb (wal_log L)) (row, v)) vs) txn = (txn', None)"
  shows "flushRow fb bt w row vs None n txn = Some (txn', n, None)"
  using assms(3,4)
proof (induction vs arbitrary: txn)
  case (Cons v vs)
  then obtain txn1 where t1: "bt_txnCall bt (mem_call fb (decoded fb (wal_log L)) (row, v)) txn = (txn1, None)"
      "runCalls (bt_txnCall bt) (map (\<lambda>v. mem_call fb (decoded fb (wal_log L)) (row, v)) vs) txn1 = (txn', None)"
    by (auto split: prod.splits option.splits)
  have "entry_ok fb (decoded fb (wal_log L)) (row, v)" "mem_weight (decoded fb (wal_log L)) (row, v) = 0"
    using Cons.prems(1) by (auto simp: mem_weight_def)
  then show ?case using Cons.IH [OF _ t1(2)] Cons.prems(1) processEntry_ok [OF assms(1,2) _ t1(1)] by simp
qed simp

lemma flushRows_ok:
  assumes "wal_inv (wio_appendLog w) L" "linked [] (decoded fb (wal_log L))" "mem_laws lib" "mt_inv lib t H"
    and "\<forall>x \<in> set H. entry_ok fb (decoded fb (wal_log L)) x" "\<forall>r \<in> set rows. encRow r"
    and "runCalls (bt_txnCall bt) (concat (map (\<lambda>r. map (\<lambda>v. mem_call fb (decoded fb (wal_log L)) (r, v)) (rows_of H r)) rows)) txn = (txn', None)"
  shows "flushRows lib fb bt w t rows None n txn = Some (txn', n, None)"
  using assms(6,7)
proof (induction rows arbitrary: txn)
  case (Cons r rows)
  obtain txn1 where t1: "runCalls (bt_txnCall bt) (map (\<lambda>v. mem_call fb (decoded fb (wal_log L)) (r, v)) (rows_of H r)) txn = (txn1, None)"
      "runCalls (bt_txnCall bt) (concat (map (\<lambda>r. map (\<lambda>v. mem_call fb (decoded fb (wal_log L)) (r, v)) (rows_of H r)) rows)) txn1 = (txn', None)"
    using Cons.prems(2) by (auto simp: runCalls_append split: prod.splits option.splits)
  have r: "encRow r" using Cons.prems(1) by simp
  have "value_of H r = None"
  proof (rule ccontr)
    assume "value_of H r \<noteq> None"
    then obtain v where "(r, v) \<in> set H" "\<not> is_row (r, v)" by (auto simp: value_of_def dest!: map_of_SomeD)
    then show False using assms(5) entry_kind(2) [of fb "decoded fb (wal_log L)" r v] r by (auto simp: is_row_def)
  qed
  then have get: "GetRowYValue lib r t = rows_of H r" using GetRowYValue_ok [OF assms(3,4)] by blast
  have "\<forall>v \<in> set (rows_of H r). entry_ok fb (decoded fb (wal_log L)) (r, v) \<and> vs_UserMeta v = LogEntryTypeRow"
    using assms(5) by (auto simp: rows_of_def is_row_def)
  from flushRow_ok [OF assms(1,2) this t1(1)] show ?case using Cons.IH [OF _ t1(2)] Cons.prems(1) get by simp
qed simp

lemma row_calls:
  assumes "\<forall>r \<in> set rows. \<forall>v \<in> set (f r). entry_ok fb D (r, v)"
  shows "concat (map call_sops (concat (map (\<lambda>r. map (\<lambda>v. mem_call fb D (r, v)) (f r)) rows))) = concat (map (\<lambda>r. map (\<lambda>v. the_op fb D (r, v)) (f r)) rows)"
proof -
  have "\<forall>v \<in> set vs. entry_ok fb D (r, v) \<Longrightarrow> concat (map call_sops (map (\<lambda>v. mem_call fb D (r, v)) vs)) = map (\<lambda>v. the_op fb D (r, v)) vs" for r vs
    by (induction vs) (simp_all add: the_op(1))
  then show ?thesis using assms by (induction rows) simp_all
qed

text \<open>The values in the order of the keys and the rows in any order write the same as the history.\<close>

lemma flush_same:
  assumes "mem_laws lib" "mt_inv lib t H" "\<forall>x \<in> set H. entry_ok fb D x"
    and "es = sk_SeekToFirst lib (mt_skipList t)" "distinct rows" "set rows = {k. \<exists>ts v. ((k, ts), v) \<in> set es \<and> vs_UserMeta v = LogEntryTypeRow}"
  shows "(\<forall>x \<in> set (plain_entries es). x \<in> set H) \<and> (\<forall>r \<in> set rows. encRow r)
    \<and> fold apply_sop (mem_sops fb D (plain_entries es) @ concat (map (\<lambda>r. map (\<lambda>v. the_op fb D (r, v)) (rows_of H r)) rows)) u
      = fold apply_sop (mem_sops fb D H) u"
proof -
  have srt: "sorted_wrt (\<lambda>x y. ts_less (fst x) (fst y)) es" using assms(1,4) by (simp add: mem_laws_def)
  have val: "(k, v) \<in> set (plain_entries es) \<longleftrightarrow> value_of H k = Some v" for k v
  proof -
    have "(k, v) \<in> set (plain_entries es) \<longleftrightarrow> ((k, 0), v) \<in> set es"
      using mt_invD(4) [OF assms(2)] assms(4) by (force simp: plain_entries_def)
    also have "\<dots> \<longleftrightarrow> value_of H k = Some v" using ts_sorted_map_of [OF srt, of "(k, 0)" v] mt_invD(1) [OF assms(2), of k] assms(4) by simp
    finally show ?thesis .
  qed
  have inH: "x \<in> set H" if "x \<in> set (plain_entries es)" for x
  proof -
    obtain k v where x: "x = (k, v)" by (cases x)
    then have "value_of H k = Some v" using that val by simp
    then show ?thesis by (auto simp: value_of_def x dest!: map_of_SomeD)
  qed
  have rows: "r \<in> set rows \<longleftrightarrow> rows_of H r \<noteq> []" for r
  proof -
    have "r \<in> set rows \<longleftrightarrow> row_entries es r \<noteq> []"
      using mt_invD(4) [OF assms(2)] unfolding assms(6) by (force simp: row_entries_def filter_empty_conv assms(4))
    then show ?thesis using mt_invD(2) [OF assms(2), of r] assms(4) by auto
  qed
  have enc: "encRow r" if "r \<in> set rows" for r
  proof -
    have "rows_of H r \<noteq> []" using that rows by blast
    then obtain v where "(r, v) \<in> set H" "is_row (r, v)" by (auto simp: rows_of_def filter_empty_conv)
    then show ?thesis using assms(3) entry_kind(2) by (fastforce simp: is_row_def)
  qed
  let ?vals = "mem_sops fb D (plain_entries es)" and ?rows = "concat (map (\<lambda>r. map (\<lambda>v. the_op fb D (r, v)) (rows_of H r)) rows)"
  have ok: "\<forall>x \<in> set (plain_entries es). entry_ok fb D x" using inH assms(3) by blast
  have vops: "op \<in> set ?vals \<longleftrightarrow> (\<exists>k v. value_of H k = Some v \<and> op = the_op fb D (k, v))" for op
    using val by (force simp: mem_sops_ops [OF ok])
  have vok: "entry_ok fb D (k, v)" "\<not> encRow k" if "value_of H k = Some v" for k v
    using that assms(3) entry_kind(2) [of fb D k v] by (auto simp: value_of_def is_row_def dest!: map_of_SomeD)
  have rops: "\<exists>r v. op = the_op fb D (r, v) \<and> entry_ok fb D (r, v) \<and> encRow r" if "op \<in> set ?rows" for op
    using that assms(3) enc by (auto simp: rows_of_def) blast
  have src: "\<exists>k v. op = the_op fb D (k, v) \<and> entry_ok fb D (k, v)" if "op \<in> set ?vals \<or> op \<in> set ?rows \<or> op \<in> set (mem_sops fb D H)" for op
  proof -
    have "\<exists>k v. op = the_op fb D (k, v) \<and> entry_ok fb D (k, v)" if "op \<in> set ?vals" using that vok(1) unfolding vops by blast
    moreover have "\<exists>k v. op = the_op fb D (k, v) \<and> entry_ok fb D (k, v)" if "op \<in> set ?rows" using rops [OF that] by blast
    moreover have "\<exists>k v. op = the_op fb D (k, v) \<and> entry_ok fb D (k, v)" if "op \<in> set (mem_sops fb D H)"
      using that assms(3) unfolding mem_sops_ops [OF assms(3)] by auto
    ultimately show ?thesis using that by blast
  qed
  have unwritten: "last_writer (?vals @ ?rows) l = last_writer (mem_sops fb D H) l"
    if "\<forall>op. op \<in> set ?vals \<or> op \<in> set ?rows \<or> op \<in> set (mem_sops fb D H) \<longrightarrow> \<not> touches op l" for l
    using that last_writer_None [of "?vals @ ?rows" l] last_writer_None [of "mem_sops fb D H" l] by auto
  have value_place: "last_writer (?vals @ ?rows) l = last_writer (mem_sops fb D H) l"
    if lk: "l = PlaceKV k \<and> encKV k \<or> l = PlaceLob k \<and> encBlob k" for l k
  proof -
    have t: "touches (the_op fb D (k', v)) l \<longleftrightarrow> k' = k" if "entry_ok fb D (k', v)" for k' v
      using lk the_op(2,3) [OF that] by auto
    have nr: "\<not> encRow k" using lk enc_disjoint by blast
    have r0: "last_writer ?rows l = None" unfolding last_writer_None
    proof
      fix op assume "op \<in> set ?rows"
      then obtain r v where "op = the_op fb D (r, v)" "entry_ok fb D (r, v)" "encRow r" using rops by blast
      then show "\<not> touches op l" using t nr by auto
    qed
    have "last_writer ?vals l = map_option (\<lambda>v. the_op fb D (k, v)) (value_of H k)"
    proof (cases "value_of H k")
      case None
      then have "last_writer ?vals l = None" using vok(1) t by (auto simp: last_writer_None vops)
      then show ?thesis using None by simp
    next
      case (Some v)
      have "last_writer ?vals l = Some (the_op fb D (k, v))"
      proof (rule last_writer_unique)
        show "the_op fb D (k, v) \<in> set ?vals" using Some vops by blast
        show "touches (the_op fb D (k, v)) l" using t [OF vok(1) [OF Some]] by simp
        show "op' = the_op fb D (k, v)" if op': "op' \<in> set ?vals" "touches op' l" for op'
        proof -
          obtain k' v' where "value_of H k' = Some v'" "op' = the_op fb D (k', v')" using op'(1) unfolding vops by blast
          then show ?thesis using op'(2) Some t [OF vok(1), of k' v'] by auto
        qed
      qed
      then show ?thesis using Some by simp
    qed
    then show ?thesis using r0 last_writer_value [OF assms(3) lk] by (simp add: last_writer_append split: option.split)
  qed
  have "last_writer (?vals @ ?rows) l = last_writer (mem_sops fb D H) l" for l
  proof (cases l)
    case (PlaceCell r c)
    have "\<not> touches op l" if op: "op \<in> set ?vals" for op
    proof -
      obtain k v where "value_of H k = Some v" "op = the_op fb D (k, v)" using op unfolding vops by blast
      then show ?thesis using vok [of k v] the_op(4) [of fb D k v r c] by (auto simp: PlaceCell)
    qed
    then have v: "filter (\<lambda>op. touches op l) ?vals = []" by (simp add: filter_empty_conv)
    have other: "filter (\<lambda>op. touches op l) (map (\<lambda>v. the_op fb D (r', v)) (rows_of H r')) = []" if "r' \<noteq> r" for r'
      using that assms(3) the_op(4) by (fastforce simp: filter_empty_conv rows_of_def PlaceCell)
    have "filter (\<lambda>op. touches op l) ?rows = filter (\<lambda>op. touches op l) (map (\<lambda>v. the_op fb D (r, v)) (rows_of H r))"
      using filter_one [OF assms(5), of r "\<lambda>op. touches op l" "\<lambda>r. map (\<lambda>v. the_op fb D (r, v)) (rows_of H r)"] other rows [of r] by auto
    also have "\<dots> = filter (\<lambda>op. touches op l) (mem_sops fb D H)"
    proof (cases "encRow r")
      case True
      then show ?thesis using filter_cells [OF assms(3)] by (simp add: PlaceCell)
    next
      case False
      have "\<not> touches op l" if op: "op \<in> set (mem_sops fb D H)" for op
      proof -
        obtain k v where "op = the_op fb D (k, v)" "entry_ok fb D (k, v)" using src op by blast
        then show ?thesis using the_op(4) [of fb D k v r c] False by (auto simp: PlaceCell)
      qed
      moreover have "rows_of H r = []" using False enc rows by blast
      ultimately show ?thesis by (simp add: filter_empty_conv)
    qed
    finally have "filter (\<lambda>op. touches op l) (?vals @ ?rows) = filter (\<lambda>op. touches op l) (mem_sops fb D H)" using v by (simp only: filter_append append_Nil)
    then show ?thesis by (simp only: last_writer_def)
  next
    case (PlaceKV k)
    have "\<not> touches (the_op fb D (k', v)) l" if "\<not> encKV k" "entry_ok fb D (k', v)" for k' v using that the_op(2) [OF that(2)] by (auto simp: PlaceKV)
    then have "last_writer (?vals @ ?rows) l = last_writer (mem_sops fb D H) l" if "\<not> encKV k" using that src by (intro unwritten) blast
    then show ?thesis using value_place [of l k] PlaceKV by blast
  next
    case (PlaceLob k)
    have "\<not> touches (the_op fb D (k', v)) l" if "\<not> encBlob k" "entry_ok fb D (k', v)" for k' v using that the_op(3) [OF that(2)] by (auto simp: PlaceLob)
    then have "last_writer (?vals @ ?rows) l = last_writer (mem_sops fb D H) l" if "\<not> encBlob k" using that src by (intro unwritten) blast
    then show ?thesis using value_place [of l k] PlaceLob by blast
  qed
  then have "fold apply_sop (?vals @ ?rows) u = fold apply_sop (mem_sops fb D H) u" by (rule same_writers)
  then show ?thesis using inH enc by blast
qed

context btree_store
begin

lemma mt_Flush_ok:
  assumes "mem_laws lib" "mt_inv lib t H" "\<forall>x \<in> set H. entry_ok fb (decoded fb (wal_log L)) x"
    and "wal_inv (wio_appendLog w) L" "linked [] (decoded fb (wal_log L))" "R d u"
    and "\<forall>i. ctx i = None" "\<forall>rs. distinct rs \<longrightarrow> distinct (order rs) \<and> set (order rs) = set rs"
  shows "\<exists>d' n. mt_Flush lib fb bt w ctx order t d = Some (d', t\<lparr>mt_chunkedFlushed := n\<rparr>, Inr (mt_offsetCount t + n))
    \<and> R d' (fold apply_sop (mem_sops fb (decoded fb (wal_log L)) H) u) \<and> M d' = M d"
proof -
  let ?D = "decoded fb (wal_log L)"
  define es where "es = sk_SeekToFirst lib (mt_skipList t)"
  have "finite {k. \<exists>ts v. ((k, ts), v) \<in> set es \<and> vs_UserMeta v = LogEntryTypeRow}"
    by (rule finite_subset [of _ "(\<lambda>x. fst (fst x)) ` set es"]) (force, simp)
  from finite_distinct_list [OF this] obtain rs where
    rs: "set rs = {k. \<exists>ts v. ((k, ts), v) \<in> set es \<and> vs_UserMeta v = LogEntryTypeRow}" "distinct rs" by blast
  have ok: "\<forall>x \<in> set (plain_entries es). entry_ok fb ?D x" using flush_same [OF assms(1-3) es_def rs(2,1)] assms(3) by simp
  let ?vals = "map (mem_call fb ?D) (plain_entries es)"
  have vc: "\<forall>c \<in> set ?vals. engine_call c" using ok entry_engine_call by auto
  obtain s1 where s1: "runCalls (bt_txnCall bt) ?vals (d, bt_NewTxnQueue bt 16 d) = (s1, None)" using queue [OF assms(6) vc] by blast
  obtain mvcc n where mvcc: "flushValues fb bt w ctx es [] 0 (d, bt_NewTxnQueue bt 16 d) = Some (s1, mvcc, n, None)"
      "distinct mvcc" "set mvcc = {k. \<exists>ts v. ((k, ts), v) \<in> set es \<and> vs_UserMeta v = LogEntryTypeRow}"
    using flushValues_ok [OF assms(4,5) ok assms(7) s1, of "[]" 0] by auto
  let ?rows = "order mvcc"
  have rows: "distinct ?rows" "set ?rows = {k. \<exists>ts v. ((k, ts), v) \<in> set es \<and> vs_UserMeta v = LogEntryTypeRow}"
    using assms(8) mvcc(2,3) by simp_all
  note same = flush_same [OF assms(1-3) es_def rows]
  let ?calls = "?vals @ concat (map (\<lambda>r. map (\<lambda>v. mem_call fb ?D (r, v)) (rows_of H r)) ?rows)"
  have rok: "entry_ok fb ?D (r, v)" if "v \<in> set (rows_of H r)" for r v using that assms(3) by (auto simp: rows_of_def)
  have "\<forall>c \<in> set ?calls. engine_call c" using vc rok entry_engine_call by auto
  then obtain s2 d2 q2 where s2: "runCalls (bt_txnCall bt) ?calls (d, bt_NewTxnQueue bt 16 d) = (s2, None)" "bt_txnCommit bt s2 = ((d2, q2), None)"
      "R d2 (fold apply_sop (concat (map call_sops ?calls)) u)" "M d2 = M d"
    using queue [OF assms(6)] by blast
  have "runCalls (bt_txnCall bt) (concat (map (\<lambda>r. map (\<lambda>v. mem_call fb ?D (r, v)) (rows_of H r)) ?rows)) s1 = (s2, None)"
    using s2(1) s1 by (simp add: runCalls_append)
  then have fr: "flushRows lib fb bt w t ?rows None n s1 = Some (s2, n, None)"
    using flushRows_ok [OF assms(4,5,1,2,3)] same by blast
  have "concat (map call_sops ?calls) = mem_sops fb ?D (plain_entries es) @ concat (map (\<lambda>r. map (\<lambda>v. the_op fb ?D (r, v)) (rows_of H r)) ?rows)"
    using row_calls [of ?rows "rows_of H" fb ?D] rok by (simp add: mem_sops_def comp_def)
  then have "R d2 (fold apply_sop (mem_sops fb ?D H) u)" using s2(3) same by metis
  moreover have "mt_Flush lib fb bt w ctx order t d =
      Some (d2, t\<lparr>mt_chunkedFlushed := mt_chunkedFlushed t + n\<rparr>, Inr (mt_offsetCount t + (mt_chunkedFlushed t + n)))"
    using mvcc(1) fr s2(2) by (simp add: mt_Flush_def es_def)
  ultimately show ?thesis using s2(4) by blast
qed

end

end
