(* ===== verification/MemTableProps.thy ===== *)
theory MemTableProps
  imports FlushCorrect KernelProps
begin

text \<open>
  Properties of the memory table. The witnesses use a skip list that keeps the list of its updates and a filter that keeps
  the list of its keys.
\<close>

section \<open>A skip list in memory\<close>

fun ts_insert :: "tsKey \<Rightarrow> 'v \<Rightarrow> (tsKey \<times> 'v) list \<Rightarrow> (tsKey \<times> 'v) list" where
  "ts_insert k v [] = [(k, v)]"
| "ts_insert k v (x # xs) = (if ts_less k (fst x) then (k, v) # x # xs else if k = fst x then (k, v) # xs else x # ts_insert k v xs)"

lemma ts_total: "ts_less a b \<or> a = b \<or> ts_less b a"
  using linorder_less_linear [of "fst a" "fst b"] linorder_less_linear [of "snd a" "snd b"] by (auto simp: ts_less_def prod_eq_iff)

lemma ts_trans: "ts_less a b \<Longrightarrow> ts_less b c \<Longrightarrow> ts_less a c"
  by (auto simp: ts_less_def)

lemma ts_insert_set:
  "sorted_wrt (\<lambda>x y. ts_less (fst x) (fst y)) xs \<Longrightarrow> set (ts_insert k v xs) = insert (k, v) {x \<in> set xs. fst x \<noteq> k}"
proof (induction xs)
  case (Cons x xs)
  have irr: "\<not> ts_less a a" for a by (simp add: ts_less_def)
  consider "ts_less k (fst x)" | "k = fst x" | "ts_less (fst x) k" using ts_total by blast
  then show ?case
  proof cases
    case 1
    then have "ts_less k (fst y)" if "y \<in> set (x # xs)" for y using that Cons.prems ts_trans [OF 1, of "fst y"] by auto
    then have "\<forall>y \<in> set (x # xs). fst y \<noteq> k" using irr by metis
    then have "{y \<in> set (x # xs). fst y \<noteq> k} = set (x # xs)" by blast
    then show ?thesis using 1 by simp
  next
    case 2
    then have "ts_less k (fst y)" if "y \<in> set xs" for y using that Cons.prems by simp
    then have "\<forall>y \<in> set xs. fst y \<noteq> k" using irr by metis
    then have "{y \<in> set (x # xs). fst y \<noteq> k} = set xs" using 2 by auto
    then show ?thesis using 2 irr by simp
  next
    case 3
    then have "\<not> ts_less k (fst x)" "k \<noteq> fst x" using ts_less_asym irr by blast+
    then show ?thesis using Cons by auto
  qed
qed simp

lemma ts_insert_sorted:
  "sorted_wrt (\<lambda>x y. ts_less (fst x) (fst y)) xs \<Longrightarrow> sorted_wrt (\<lambda>x y. ts_less (fst x) (fst y)) (ts_insert k v xs)"
proof (induction xs)
  case (Cons x xs)
  show ?case
  proof (cases "ts_less k (fst x) \<or> k = fst x")
    case True
    then show ?thesis using Cons.prems ts_trans by (auto simp: ts_less_def)
  next
    case False
    then have "ts_less (fst x) k" using ts_total by blast
    then show ?thesis using False Cons ts_insert_set [of xs k v] by auto
  qed
qed simp

definition ts_sort :: "(tsKey \<times> 'v) list \<Rightarrow> (tsKey \<times> 'v) list" where
  "ts_sort s = fold (\<lambda>x. ts_insert (fst x) (snd x)) s []"

lemma ts_sort_snoc: "ts_sort [] = []" "ts_sort (s @ [(k, v)]) = ts_insert k v (ts_sort s)"
  by (simp_all add: ts_sort_def)

definition mem_list :: "((tsKey \<times> ValueStruct) list, bytes list) mem_lib" where
  "mem_list = \<lparr>sk_New = (\<lambda>_. []), sk_Put = (\<lambda>k v s. s @ [(k, v)]),
     sk_Get = (\<lambda>k s. case map_of (ts_sort s) k of None \<Rightarrow> noValue | Some v \<Rightarrow> v), sk_MemSize = (\<lambda>s. int (length s)), sk_Empty = (\<lambda>s. s = []),
     sk_SeekToFirst = ts_sort, sk_Seek = (\<lambda>k s. dropWhile (\<lambda>x. ts_less (fst x) k) (ts_sort s)),
     vs_EncodedSize = (\<lambda>v. int (length (vs_Value v)) + 2), bl_New = (\<lambda>_. []), bl_Add = (#), bl_Test = (\<lambda>k b. k \<in> set b)\<rparr>"

lemma ts_sort_sorted: "sorted_wrt (\<lambda>x y. ts_less (fst x) (fst y)) (ts_sort s)"
  by (induction s rule: rev_induct) (auto simp: ts_sort_def ts_insert_sorted)

lemma ts_sort_empty: "ts_sort s = [] \<longleftrightarrow> s = []"
proof (cases s rule: rev_cases)
  case (snoc s' x)
  have "ts_insert k v xs \<noteq> []" for k and v :: 'a and xs by (cases xs) auto
  then show ?thesis by (simp add: snoc ts_sort_def)
qed (simp add: ts_sort_def)

lemma mem_list_laws: "mem_laws mem_list"
  unfolding mem_laws_def by (simp add: mem_list_def ts_sort_sorted ts_sort_empty ts_sort_snoc ts_insert_set)

section \<open>Tables filled by \<open>Put\<close>\<close>

text \<open>A sequence of calls of \<open>Put\<close> with the readings of the clock.\<close>

fun putAll :: "('s, 'b) mem_lib \<Rightarrow> (u64 \<times> bytes \<times> ValueStruct) list \<Rightarrow> ('s, 'b) MemTable \<Rightarrow> ('s, 'b) MemTable \<times> error option" where
  "putAll lib [] t = (t, None)"
| "putAll lib ((now, key, val) # xs) t = (case mt_Put lib now key val t of (t, None) \<Rightarrow> putAll lib xs t | (t, Some e) \<Rightarrow> (t, Some e))"

lemma putAll_inv:
  assumes "mem_laws lib" "\<forall>x \<in> set xs. fst x < 2 ^ 63" "length H + length xs < 2 ^ 62" "mt_inv lib t H" "putAll lib xs t = (t', None)"
  shows "mt_inv lib t' (H @ map snd xs)"
  using assms(2-5)
proof (induction xs arbitrary: t H)
  case (Cons x xs)
  obtain now k v where x: "x = (now, k, v)" by (metis prod.exhaust)
  have can: "canPut lib k v t" using Cons.prems(4) by (auto simp: x mt_Put_def split: if_splits)
  have "now < 2 ^ 63" "length H < 2 ^ 62" using Cons.prems(1,2) by (simp_all add: x)
  from mt_Put_ok [OF assms(1) Cons.prems(3) can this] obtain t1 where t1: "mt_Put lib now k v t = (t1, None)" "mt_inv lib t1 (H @ [(k, v)])" by blast
  have "mt_inv lib t' ((H @ [(k, v)]) @ map snd xs)"
    by (rule Cons.IH [OF _ _ t1(2)]) (use Cons.prems(1,2,4) t1(1) in \<open>auto simp: x\<close>)
  then show ?case by (simp add: x)
qed simp

lemma new_table_inv:
  assumes "mem_laws lib" "\<forall>x \<in> set xs. fst x < 2 ^ 63" "length xs < 2 ^ 62" "putAll lib xs (NewMemTable lib n) = (t, None)"
  shows "mt_inv lib t (map snd xs)"
  using putAll_inv [OF assms(1,2) _ mt_inv_New [OF assms(1)] assms(4)] assms(3) by simp

lemma rows_of_puts:
  "\<forall>x \<in> set xs. fst (snd x) = k \<longrightarrow> is_row (snd x) \<Longrightarrow> rows_of (map snd xs) k = map (snd \<circ> snd) (filter (\<lambda>x. fst (snd x) = k) xs)"
  by (induction xs) (auto simp: rows_of_def)

section \<open>Properties\<close>

text \<open>C38. Reading a memory table. After any sequence of successful \<open>Put\<close> calls, \<open>Get\<close> returns the last plain value of a key and the zero value for a key
  without one, \<open>GetRowYValue\<close> returns all updates of a row in the order they were made, even when the clock stands still or goes
  back between them, and the table is empty only if nothing was put.\<close>

theorem memtable_reads:
  assumes "mem_laws lib" "\<forall>x \<in> set xs. fst x < 2 ^ 63" "length xs < 2 ^ 62" "putAll lib xs (NewMemTable lib cap) = (t, None)"
  shows "mt_Get lib k t = (case map_of (rev (filter (\<lambda>x. vs_UserMeta (snd x) \<noteq> LogEntryTypeRow) (map snd xs))) k of None \<Rightarrow> noValue | Some v \<Rightarrow> v)
    \<and> ((\<forall>x \<in> set xs. fst (snd x) = k \<longrightarrow> vs_UserMeta (snd (snd x)) = LogEntryTypeRow)
        \<longrightarrow> GetRowYValue lib k t = map (snd \<circ> snd) (filter (\<lambda>x. fst (snd x) = k) xs))
    \<and> (mt_IsEmpty lib t \<longleftrightarrow> xs = [])"
proof -
  have inv: "mt_inv lib t (map snd xs)" using new_table_inv [OF assms] .
  have "value_of (map snd xs) k = None" "rows_of (map snd xs) k = map (snd \<circ> snd) (filter (\<lambda>x. fst (snd x) = k) xs)"
    if "\<forall>x \<in> set xs. fst (snd x) = k \<longrightarrow> vs_UserMeta (snd (snd x)) = LogEntryTypeRow"
  proof -
    show "value_of (map snd xs) k = None" using that by (auto simp: value_of_def is_row_def map_of_eq_None_iff)
    show "rows_of (map snd xs) k = map (snd \<circ> snd) (filter (\<lambda>x. fst (snd x) = k) xs)"
      using that by (intro rows_of_puts) (simp add: is_row_def)
  qed
  then show ?thesis
    using mt_Get_ok [OF assms(1) inv, of k] GetRowYValue_ok [OF assms(1) inv, of k] mt_IsEmpty_ok [OF assms(1) inv]
    by (simp add: value_of_def is_row_def)
qed

definition cell1 :: ValueStruct where
  "cell1 = \<lparr>vs_Meta = LogOperationTypeInsert, vs_UserMeta = LogEntryTypeRow, vs_Value = SerializeRowUpdateEntry mem_fb (kc_RowKey [1]) [([7], [8])]\<rparr>"

definition val1 :: ValueStruct where
  "val1 = \<lparr>vs_Meta = LogOperationTypeInsert, vs_UserMeta = LogEntryTypeKV, vs_Value = [2]\<rparr>"

definition puts1 :: "(u64 \<times> bytes \<times> ValueStruct) list" where
  "puts1 = [(5, kc_RowKey [1], cell1), (3, kc_RowKey [1], cell1), (0, [254, 1], val1)]"

definition table1 :: "((tsKey \<times> ValueStruct) list, bytes list) MemTable" where
  "table1 = fst (putAll mem_list puts1 (NewMemTable mem_list 1000000))"

lemma val_fields [simp]:
  "vs_UserMeta cell1 = LogEntryTypeRow" "vs_Meta cell1 = LogOperationTypeInsert" "vs_UserMeta val1 = LogEntryTypeKV"
  "vs_Meta val1 = LogOperationTypeInsert" "vs_Value val1 = [2]"
  "DeserializeRowUpdateEntry mem_fb (vs_Value cell1) = \<lparr>re_Key = kc_RowKey [1], re_Columns = [([7], [8])]\<rparr>"
  by (simp_all add: cell1_def val1_def mem_fb_laws)

lemma length_cell1: "length (vs_Value cell1) < 1000"
  by (simp add: cell1_def SerializeRowUpdateEntry_def mem_fb_def put_opt_def length_put_list kc_RowKey_def)

lemma row1: "kc_RowKey [1] = [253, 0, 0, 0, 1, 1]"
  by code_simp

lemma table1_puts: "putAll mem_list puts1 (NewMemTable mem_list 1000000) = (table1, None)"
  "mt_skipList table1 = [(([253, 0, 0, 0, 1, 1], 5), cell1), (([253, 0, 0, 0, 1, 1], 6), cell1), (([254, 1], 0), val1)]"
  using length_cell1
  by (simp_all add: table1_def puts1_def row1 mt_Put_def canPut_def NewMemTable_def mem_list_def ts_Next_def Let_def)

theorem memtable_reads_witness:
  "mt_Get mem_list [254, 1] table1 = val1 \<and> GetRowYValue mem_list (kc_RowKey [1]) table1 = [cell1, cell1] \<and> \<not> mt_IsEmpty mem_list table1"
  using memtable_reads [OF mem_list_laws, of puts1 1000000 table1 "[254, 1]"]
    memtable_reads [OF mem_list_laws, of puts1 1000000 table1 "kc_RowKey [1]"] table1_puts(1)
  by (simp add: puts1_def row1)


lemma entries1: "\<forall>x \<in> set puts1. entry_ok mem_fb D (snd x)"
proof -
  have "encRow (kc_RowKey [1])" unfolding encRow_def by (intro exI [of _ "[1]"]) (simp add: plain_def typed_def KeyTypeWideColumn_def)
  then show ?thesis by (simp add: puts1_def entry_ok_def encKV_def typed_def KeyTypeKV_def)
qed

lemma clock1: "\<forall>x \<in> set puts1. fst x < 2 ^ 63" "length puts1 < 2 ^ 62"
  by (simp_all add: puts1_def)

lemma wio0_facts: "wal_inv (wio_appendLog wio0) [(1, [])]" "linked [] (decoded fb (wal_log [(1, [])]))" "wal_log [(1, [])] = []"
  using wal0_facts(1) by (simp_all add: wio0_def wal_log_def seg_entries_def)


text \<open>C40. A cancelled flush can lose data and report success. When the context is cancelled after the first entry of a table and
  this entry belongs to a row, the loop over the rows overwrites the error: \<open>Flush\<close> commits the rows it has seen and returns
  without error, so that the caller advances the checkpoint over entries that are in no store.\<close>

theorem flush_cancelled:
  assumes "bolt_laws api dview view" "reliable api view" "mem_laws lib" "\<forall>x \<in> set xs. fst x < 2 ^ 63" "length xs < 2 ^ 62"
    and "putAll lib xs (NewMemTable lib cap) = (t, None)" "wal_inv (wio_appendLog w) L" "linked [] (decoded fb (wal_log L))"
    and "\<forall>x \<in> set xs. entry_ok fb (decoded fb (wal_log L)) (snd x)" "bolt_holds dview b u"
    and "sk_SeekToFirst lib (mt_skipList t) = ((r, ts), v) # rest" "vs_UserMeta v = LogEntryTypeRow" "rest \<noteq> []"
    and "ctx 0 = None" "ctx 1 = Some err" "order [r] = [r]"
  shows "\<exists>b' t' n. mt_Flush lib fb (bolt_btree api sync) w ctx order t b = Some (b', t', Inr n)
    \<and> bolt_holds dview b' (fold (\<lambda>x. fold apply_sop (call_sops (mem_call fb (decoded fb (wal_log L)) (snd x)))) (filter (\<lambda>x. fst (snd x) = r) xs) u)"
proof -
  let ?D = "decoded fb (wal_log L)" and ?bt = "bolt_btree api sync" and ?H = "map snd xs"
  have inv: "mt_inv lib t ?H" by (rule new_table_inv [OF assms(3-6)])
  have ok: "\<forall>x \<in> set ?H. entry_ok fb ?D x" using assms(9) by auto
  obtain k2 ts2 v2 rest2 where rest: "rest = ((k2, ts2), v2) # rest2" using assms(13) by (metis list.exhaust prod.exhaust)
  have fv: "flushValues fb ?bt w ctx (sk_SeekToFirst lib (mt_skipList t)) [] 0 (b, bt_NewTxnQueue ?bt 16 b) = Some ((b, bt_NewTxnQueue ?bt 16 b), [r], 0, Some err)"
    using assms(12,14,15) by (simp add: assms(11) rest)
  have "rows_of ?H r \<noteq> []"
  proof -
    have "snd (fst ((r, ts), v)) \<noteq> 0" using mt_invD(4) [OF inv, of "((r, ts), v)"] assms(11,12) by simp
    then have "row_entries (sk_SeekToFirst lib (mt_skipList t)) r \<noteq> []" by (simp add: row_entries_def assms(11))
    then show ?thesis using mt_invD(2) [OF inv, of r] by auto
  qed
  then obtain v0 where "(r, v0) \<in> set ?H" "is_row (r, v0)" unfolding rows_of_def by (metis (mono_tags, lifting) filter_empty_conv list.map_disc_iff prod.collapse)
  then have enc: "encRow r" using ok entry_kind(2) by (fastforce simp: is_row_def)
  let ?calls = "concat (map (\<lambda>r. map (\<lambda>v. mem_call fb ?D (r, v)) (rows_of ?H r)) [r])"
  have rok: "\<forall>v \<in> set (rows_of ?H r). entry_ok fb ?D (r, v)" using ok by (auto simp: rows_of_def)
  then have "\<forall>c \<in> set ?calls. engine_call c" using entry_engine_call by auto
  from btree_store.queue [OF bolt_btree_store [OF assms(1,2)] assms(10) this, of sync 16] obtain s1 d2 q2 where
    s1: "runCalls (bt_txnCall ?bt) ?calls (b, bt_NewTxnQueue ?bt 16 b) = (s1, None)" "bt_txnCommit ?bt s1 = ((d2, q2), None)"
      "bolt_holds dview d2 (fold apply_sop (concat (map call_sops ?calls)) u)" by blast
  have fr: "flushRows lib fb ?bt w t [r] (Some err) 0 (b, bt_NewTxnQueue ?bt 16 b) = Some (s1, 0, None)"
  proof -
    have "flushRows lib fb ?bt w t [r] None 0 (b, bt_NewTxnQueue ?bt 16 b) = Some (s1, 0, None)"
      using flushRows_ok [OF assms(7,8,3) inv ok _ s1(1)] enc by simp
    moreover have "flushRow fb ?bt w r (x # es) e n txn = flushRow fb ?bt w r (x # es) None n txn" for x es e n txn
      by (simp split: option.splits prod.splits)
    moreover have "GetRowYValue lib r t = rows_of ?H r"
    proof (rule GetRowYValue_ok [OF assms(3) inv])
      show "value_of ?H r = None"
        using ok enc entry_kind(2) [of fb ?D r] by (auto simp: value_of_def is_row_def map_of_eq_None_iff)
    qed
    ultimately show ?thesis using \<open>rows_of ?H r \<noteq> []\<close> by (cases "rows_of ?H r") (simp_all split: option.splits)
  qed
  have "fold (\<lambda>x. fold apply_sop (call_sops (mem_call fb ?D (snd x)))) (filter (\<lambda>x. fst (snd x) = r) xs) u = fold apply_sop (concat (map call_sops ?calls)) u"
  proof -
    have row: "is_row (snd x)" if "x \<in> set xs" "fst (snd x) = r" for x
      using that ok enc entry_kind(2) [of fb ?D r "snd (snd x)"] by (auto simp: is_row_def)
    have "fold (\<lambda>x. fold apply_sop (call_sops (mem_call fb ?D (snd x)))) ys u = fold apply_sop (concat (map call_sops (map (\<lambda>v. mem_call fb ?D (r, v)) (map (snd \<circ> snd) ys)))) u"
      if "\<forall>x \<in> set ys. fst (snd x) = r" for ys :: "(u64 \<times> bytes \<times> ValueStruct) list"
      using that by (induction ys arbitrary: u) auto
    moreover have "rows_of ?H r = map (snd \<circ> snd) (filter (\<lambda>x. fst (snd x) = r) xs)"
      using row by (intro rows_of_puts) blast
    ultimately show ?thesis by simp
  qed
  then show ?thesis using fv fr s1(2,3) assms(16) by (auto simp: mt_Flush_def Let_def)
qed

theorem flush_cancelled_witness:
  "\<exists>b' t' n. mt_Flush mem_list mem_fb (bolt_btree mem_bolt (\<lambda>_. None)) wio0 (\<lambda>i. if i = 0 then None else Some ErrCanceled) (\<lambda>rs. rs) table1 boltk
      = Some (b', t', Inr n) \<and> bolt_holds mem_view b' (u0\<lparr>u_cell := (u_cell u0)(kc_RowKey [1] := [[7] \<mapsto> [8]])\<rparr>)"
proof -
  have es: "sk_SeekToFirst mem_list (mt_skipList table1) =
      ((kc_RowKey [1], 6), cell1) # [((kc_RowKey [1], 5), cell1), (([254, 1], 0), val1)]"
    by (simp add: table1_puts(2) mem_list_def ts_sort_def ts_less_def row1)
  have "fold (\<lambda>x. fold apply_sop (call_sops (mem_call mem_fb [] (snd x)))) (filter (\<lambda>x. fst (snd x) = kc_RowKey [1]) puts1) u0
      = u0\<lparr>u_cell := (u_cell u0)(kc_RowKey [1] := [[7] \<mapsto> [8]])\<rparr>"
    by (simp add: puts1_def mem_call_def u0_def row1)
  then show ?thesis
    using flush_cancelled [OF mem_bolt_laws mem_bolt_reliable mem_list_laws clock1 table1_puts(1) wio0_facts(1,2) entries1 boltk_holds es,
        of "\<lambda>i. if i = 0 then None else Some ErrCanceled" ErrCanceled "\<lambda>rs. rs" "\<lambda>_. None"] by (auto simp: wio0_facts(3))
qed

end
