(* ===== verification/Engine.thy ===== *)
theory Engine
  imports FlushCorrect
begin

text \<open>
  The storage engine, \<open>dbkernel/engine.go\<close> and \<open>dbkernel/engine_public.go\<close>. A write goes to the log, then to the active memory
  table; full tables are sealed, flushed to the store in the background and followed by a checkpoint. Each method is one
  step on the record \<open>Engine\<close>. Readings of the clocks are arguments (\<open>clk\<close> for the timestamps of the table, \<open>hlc\<close> for the
  record); a buffered channel is the number of its pending signals, and \<open>appendNotify\<close> counts how often this channel was
  closed and made anew. \<open>log.Fatal\<close> is the error \<open>Fatal\<close>. Metrics and logging are left out.
\<close>

section \<open>State\<close>

record EngineConfig =
  ec_ArenaSize :: int
  ec_BTreeFlushInterval :: int
  ec_CoalescingEnabled :: bool
  ec_ReadOnly :: bool

text \<open>Durations are in nanoseconds.\<close>

definition effectiveBTreeFlushInterval :: "EngineConfig \<Rightarrow> int \<times> bool" where
  "effectiveBTreeFlushInterval cfg = (if ec_BTreeFlushInterval cfg < 1000000000 then (0, False) else (ec_BTreeFlushInterval cfg, True))"

record flushedMetadata =
  fm_metadata :: Metadata
  fm_recordProcessed :: nat
  fm_bytesFlushed :: nat

text \<open>The calls of the change notifier are recorded in the order they are made.\<close>

record ('s, 'b, 'd) Engine =
  en_writeSeenCounter :: u64
  en_opsFlushedCounter :: u64
  en_currentOffset :: "RecordPosition option"
  en_dataStore :: 'd
  en_walIO :: WalIO
  en_config :: EngineConfig
  en_activeMemTable :: "('s, 'b) MemTable"
  en_sealedMemTables :: "('s, 'b) MemTable list"
  en_flushReqSignal :: nat
  en_pendingMetadata :: "flushedMetadata list"
  en_fsyncReqSignal :: nat
  en_recoveredEntriesCount :: nat
  en_startMetadata :: Metadata
  en_shutdown :: bool
  en_flushPaused :: bool
  en_coalesceFlag :: bool
  en_appendNotify :: nat
  en_changes :: "(bytes \<times> LogOperationType \<times> LogEntryType) list"

definition getValueStruct :: "LogOperationType \<Rightarrow> LogEntryType \<Rightarrow> bytes \<Rightarrow> ValueStruct" where
  "getValueStruct ops entryType value = \<lparr>vs_Meta = ops, vs_UserMeta = entryType, vs_Value = value\<rparr>"

lemma getValueStruct_fields [simp]:
  "vs_Meta (getValueStruct o1 et v) = o1" "vs_UserMeta (getValueStruct o1 et v) = et" "vs_Value (getValueStruct o1 et v) = v"
  by (simp_all add: getValueStruct_def)

section \<open>Notification\<close>

text \<open>With coalescing, the goroutine started by the first append closes the channel later: \<open>coalesced\<close>.\<close>

definition notifyAppend :: "('s, 'b, 'd) Engine \<Rightarrow> ('s, 'b, 'd) Engine" where
  "notifyAppend e =
    (if \<not> ec_CoalescingEnabled (en_config e) then e\<lparr>en_appendNotify := en_appendNotify e + 1\<rparr>
     else if en_coalesceFlag e then e else e\<lparr>en_coalesceFlag := True\<rparr>)"

definition coalesced :: "('s, 'b, 'd) Engine \<Rightarrow> ('s, 'b, 'd) Engine" where
  "coalesced e = (if en_coalesceFlag e then e\<lparr>en_appendNotify := en_appendNotify e + 1, en_coalesceFlag := False\<rparr> else e)"

definition hasNewWriteSince :: "RecordPosition \<Rightarrow> RecordPosition option \<Rightarrow> bool" where
  "hasNewWriteSince currentPos lastSeen = (case lastSeen of None \<Rightarrow> True
     | Some l \<Rightarrow> SegmentID l < SegmentID currentPos \<or> SegmentID currentPos = SegmentID l \<and> Offset l < Offset currentPos)"

definition newWrite :: "('s, 'b, 'd) Engine \<Rightarrow> RecordPosition option \<Rightarrow> bool" where
  "newWrite e lastSeen = (case en_currentOffset e of None \<Rightarrow> False | Some currentPos \<Rightarrow> hasNewWriteSince currentPos lastSeen)"

text \<open>\<open>WaitForAppendOrDone\<close> looks at the engine three times: before it takes the channel, after it, and while it waits. When both
  channels are ready, \<open>select\<close> picks one (\<open>pick\<close>). \<open>None\<close>: it still waits.\<close>

definition WaitForAppendOrDone ::
  "bool \<Rightarrow> bool \<Rightarrow> RecordPosition option \<Rightarrow> ('s, 'b, 'd) Engine \<Rightarrow> ('s, 'b, 'd) Engine \<Rightarrow> ('s, 'b, 'd) Engine \<Rightarrow> error option option" where
  "WaitForAppendOrDone pick callerDone lastSeen e0 e1 e2 =
    (if newWrite e0 lastSeen then Some None
     else let done = en_appendNotify e0 in
     if newWrite e1 lastSeen then Some None
     else if callerDone \<and> (en_appendNotify e2 = done \<or> pick) then Some (Some ErrCanceled)
     else if en_appendNotify e2 \<noteq> done then Some None
     else None)"

section \<open>Memory tables\<close>

definition writeOffset :: "RecordPosition option \<Rightarrow> ('s, 'b, 'd) Engine \<Rightarrow> ('s, 'b, 'd) Engine" where
  "writeOffset offset e =
    (if offset \<noteq> None then notifyAppend (e\<lparr>en_activeMemTable := SetOffset offset (en_activeMemTable e), en_currentOffset := offset\<rparr>) else e)"

definition writeNilOffset :: "('s, 'b, 'd) Engine \<Rightarrow> ('s, 'b, 'd) Engine" where
  "writeNilOffset e = e\<lparr>en_activeMemTable := IncrOffset (en_activeMemTable e)\<rparr>"

definition rotateMemTable :: "('s, 'b) mem_lib \<Rightarrow> ('s, 'b, 'd) Engine \<Rightarrow> ('s, 'b, 'd) Engine" where
  "rotateMemTable lib e =
    (let oldTable = en_activeMemTable e in
     e\<lparr>en_activeMemTable := NewMemTable lib (ec_ArenaSize (en_config e)), en_sealedMemTables := en_sealedMemTables e @ [oldTable],
       en_flushReqSignal := min 2 (en_flushReqSignal e + 1)\<rparr>)"

definition Notify :: "bytes \<Rightarrow> ValueStruct \<Rightarrow> ('s, 'b, 'd) Engine \<Rightarrow> ('s, 'b, 'd) Engine" where
  "Notify key v e = e\<lparr>en_changes := en_changes e @ [(key, vs_Meta v, vs_UserMeta v)]\<rparr>"

definition memTableWrite :: "('s, 'b) mem_lib \<Rightarrow> u64 \<Rightarrow> bytes \<Rightarrow> ValueStruct \<Rightarrow> ('s, 'b, 'd) Engine \<Rightarrow> ('s, 'b, 'd) Engine \<times> error option" where
  "memTableWrite lib now key v e =
    (case mt_Put lib now key v (en_activeMemTable e) of
       (t, None) \<Rightarrow> (Notify key v (e\<lparr>en_activeMemTable := t\<rparr>), None)
     | (t, Some err) \<Rightarrow>
       let e = e\<lparr>en_activeMemTable := t\<rparr> in
       if errors_Is err ErrArenaSizeWillExceed then
         let e = rotateMemTable lib e in
         case mt_Put lib now key v (en_activeMemTable e) of
           (t, Some err) \<Rightarrow> (e\<lparr>en_activeMemTable := t\<rparr>, Some err)
         | (t, None) \<Rightarrow> (Notify key v (e\<lparr>en_activeMemTable := t\<rparr>), None)
       else (Notify key v e, Some err))"

text \<open>The loops that write a list of entries. \<open>post\<close> is what the loop does after each write: nothing, or \<open>writeNilOffset\<close>.\<close>

fun memTableWrites ::
  "('s, 'b) mem_lib \<Rightarrow> (('s, 'b, 'd) Engine \<Rightarrow> ('s, 'b, 'd) Engine) \<Rightarrow> (nat \<Rightarrow> u64) \<Rightarrow> (bytes \<times> ValueStruct) list \<Rightarrow> ('s, 'b, 'd) Engine \<Rightarrow> ('s, 'b, 'd) Engine \<times> error option" where
  "memTableWrites lib post clk [] e = (e, None)"
| "memTableWrites lib post clk ((key, v) # xs) e =
    (case memTableWrite lib (clk 0) key v e of
       (e, Some err) \<Rightarrow> (e, Some err)
     | (e, None) \<Rightarrow> memTableWrites lib post (\<lambda>i. clk (Suc i)) xs (post e))"

section \<open>Writing\<close>

text \<open>\<open>values[i]\<close> panics when there are fewer values than keys. The result of \<open>crc32.Update\<close> is not used by the code, and the checksum of
  these records is 0.\<close>

definition persistKeyValue ::
  "('s, 'b) mem_lib \<Rightarrow> fb_api \<Rightarrow> ioenv \<Rightarrow> (nat \<Rightarrow> u64) \<Rightarrow> u64 \<Rightarrow> bytes list \<Rightarrow> bytes list \<Rightarrow> LogOperationType \<Rightarrow> ('s, 'b, 'd) Engine
    \<Rightarrow> ('s, 'b, 'd) Engine \<times> error option" where
  "persistKeyValue lib fb io clk hlc keys values op e =
    (if ec_ReadOnly (en_config e) then (e, Some ErrEngineReadOnly)
     else if op \<noteq> LogOperationTypeDelete \<and> length values < length keys then (e, Some Panic)
     else
       let values = (if op = LogOperationTypeDelete then map (\<lambda>_. []) keys else take (length keys) values);
           kvEntries = map (\<lambda>(key, value). SerializeKVEntry fb key value) (zip keys values);
           index = en_writeSeenCounter e + 1;
           e = e\<lparr>en_writeSeenCounter := index\<rparr>;
           record = \<lparr>LSN = index, HLC = hlc, CRC32Checksum = 0, OperationType = op, TxnState = TransactionStateNone,
             EntryType = LogEntryTypeKV, TxnID = [], PrevTxnWalIndex = [], Entries = kvEntries\<rparr>
       in case wio_Append io (FBEncode fb record) (en_walIO e) of
            (w, Inl err) \<Rightarrow> (e\<lparr>en_walIO := w\<rparr>, Some err)
          | (w, Inr offset) \<Rightarrow>
            (case memTableWrites lib id clk (map (\<lambda>(key, value). (key, getValueStruct op LogEntryTypeKV value)) (zip keys values)) (e\<lparr>en_walIO := w\<rparr>) of
               (e, Some err) \<Rightarrow> (e, Some err)
             | (e, None) \<Rightarrow> (writeOffset (Some offset) e, None)))"

definition persistRowColumnAction ::
  "('s, 'b) mem_lib \<Rightarrow> fb_api \<Rightarrow> ioenv \<Rightarrow> (nat \<Rightarrow> u64) \<Rightarrow> u64 \<Rightarrow> LogOperationType \<Rightarrow> bytes list \<Rightarrow> columns list \<Rightarrow> ('s, 'b, 'd) Engine
    \<Rightarrow> ('s, 'b, 'd) Engine \<times> error option" where
  "persistRowColumnAction lib fb io clk hlc op rowKeys columnsEntries e =
    (if ec_ReadOnly (en_config e) then (e, Some ErrEngineReadOnly)
     else if op \<noteq> LogOperationTypeDeleteRowByKey \<and> length columnsEntries < length rowKeys then (e, Some Panic)
     else
       let columnsEntries = (if op = LogOperationTypeDeleteRowByKey then map (\<lambda>_. []) rowKeys else take (length rowKeys) columnsEntries);
           rowEntries = map (\<lambda>(entry, columns). SerializeRowUpdateEntry fb entry columns) (zip rowKeys columnsEntries);
           index = en_writeSeenCounter e + 1;
           e = e\<lparr>en_writeSeenCounter := index\<rparr>;
           record = \<lparr>LSN = index, HLC = hlc, CRC32Checksum = 0, OperationType = op, TxnState = TransactionStateNone,
             EntryType = LogEntryTypeRow, TxnID = [], PrevTxnWalIndex = [], Entries = rowEntries\<rparr>
       in case wio_Append io (FBEncode fb record) (en_walIO e) of
            (w, Inl err) \<Rightarrow> (e\<lparr>en_walIO := w\<rparr>, Some err)
          | (w, Inr offset) \<Rightarrow>
            (case memTableWrites lib id clk (map (\<lambda>(key, entry). (key, getValueStruct op LogEntryTypeRow entry)) (zip rowKeys rowEntries)) (e\<lparr>en_walIO := w\<rparr>) of
               (e, Some err) \<Rightarrow> (e, Some err)
             | (e, None) \<Rightarrow> (writeOffset (Some offset) e, None)))"

text \<open>The public methods encode the keys and refuse to run while the engine closes. \<open>guarded\<close> is this check.\<close>

definition guarded :: "(('s, 'b, 'd) Engine \<Rightarrow> ('s, 'b, 'd) Engine \<times> error option) \<Rightarrow> ('s, 'b, 'd) Engine \<Rightarrow> ('s, 'b, 'd) Engine \<times> error option" where
  "guarded f e = (if en_shutdown e then (e, Some ErrInCloseProcess) else f e)"

definition en_PutKV :: "('s, 'b) mem_lib \<Rightarrow> fb_api \<Rightarrow> ioenv \<Rightarrow> (nat \<Rightarrow> u64) \<Rightarrow> u64 \<Rightarrow> bytes \<Rightarrow> bytes \<Rightarrow> ('s, 'b, 'd) Engine \<Rightarrow> ('s, 'b, 'd) Engine \<times> error option" where
  "en_PutKV lib fb io clk hlc key value = guarded (persistKeyValue lib fb io clk hlc [kc_KeyKV key] [value] LogOperationTypeInsert)"

definition en_BatchPutKV :: "('s, 'b) mem_lib \<Rightarrow> fb_api \<Rightarrow> ioenv \<Rightarrow> (nat \<Rightarrow> u64) \<Rightarrow> u64 \<Rightarrow> bytes list \<Rightarrow> bytes list \<Rightarrow> ('s, 'b, 'd) Engine \<Rightarrow> ('s, 'b, 'd) Engine \<times> error option" where
  "en_BatchPutKV lib fb io clk hlc key value = guarded (persistKeyValue lib fb io clk hlc (map kc_KeyKV key) value LogOperationTypeInsert)"

definition en_DeleteKV :: "('s, 'b) mem_lib \<Rightarrow> fb_api \<Rightarrow> ioenv \<Rightarrow> (nat \<Rightarrow> u64) \<Rightarrow> u64 \<Rightarrow> bytes \<Rightarrow> ('s, 'b, 'd) Engine \<Rightarrow> ('s, 'b, 'd) Engine \<times> error option" where
  "en_DeleteKV lib fb io clk hlc key = guarded (persistKeyValue lib fb io clk hlc [kc_KeyKV key] [] LogOperationTypeDelete)"

definition en_BatchDeleteKV :: "('s, 'b) mem_lib \<Rightarrow> fb_api \<Rightarrow> ioenv \<Rightarrow> (nat \<Rightarrow> u64) \<Rightarrow> u64 \<Rightarrow> bytes list \<Rightarrow> ('s, 'b, 'd) Engine \<Rightarrow> ('s, 'b, 'd) Engine \<times> error option" where
  "en_BatchDeleteKV lib fb io clk hlc keys = guarded (persistKeyValue lib fb io clk hlc (map kc_KeyKV keys) [] LogOperationTypeDelete)"

definition en_PutColumnsForRow :: "('s, 'b) mem_lib \<Rightarrow> fb_api \<Rightarrow> ioenv \<Rightarrow> (nat \<Rightarrow> u64) \<Rightarrow> u64 \<Rightarrow> bytes \<Rightarrow> columns \<Rightarrow> ('s, 'b, 'd) Engine \<Rightarrow> ('s, 'b, 'd) Engine \<times> error option" where
  "en_PutColumnsForRow lib fb io clk hlc rowKey columnEntries =
    guarded (persistRowColumnAction lib fb io clk hlc LogOperationTypeInsert [kc_RowKey rowKey] [columnEntries])"

definition en_PutColumnsForRows :: "('s, 'b) mem_lib \<Rightarrow> fb_api \<Rightarrow> ioenv \<Rightarrow> (nat \<Rightarrow> u64) \<Rightarrow> u64 \<Rightarrow> bytes list \<Rightarrow> columns list \<Rightarrow> ('s, 'b, 'd) Engine \<Rightarrow> ('s, 'b, 'd) Engine \<times> error option" where
  "en_PutColumnsForRows lib fb io clk hlc rowKeys columnEntriesPerRow =
    guarded (persistRowColumnAction lib fb io clk hlc LogOperationTypeInsert (map kc_RowKey rowKeys) columnEntriesPerRow)"

definition en_DeleteColumnsForRow :: "('s, 'b) mem_lib \<Rightarrow> fb_api \<Rightarrow> ioenv \<Rightarrow> (nat \<Rightarrow> u64) \<Rightarrow> u64 \<Rightarrow> bytes \<Rightarrow> columns \<Rightarrow> ('s, 'b, 'd) Engine \<Rightarrow> ('s, 'b, 'd) Engine \<times> error option" where
  "en_DeleteColumnsForRow lib fb io clk hlc rowKey columnEntries =
    guarded (persistRowColumnAction lib fb io clk hlc LogOperationTypeDelete [kc_RowKey rowKey] [columnEntries])"

definition en_DeleteColumnsForRows :: "('s, 'b) mem_lib \<Rightarrow> fb_api \<Rightarrow> ioenv \<Rightarrow> (nat \<Rightarrow> u64) \<Rightarrow> u64 \<Rightarrow> bytes list \<Rightarrow> columns list \<Rightarrow> ('s, 'b, 'd) Engine \<Rightarrow> ('s, 'b, 'd) Engine \<times> error option" where
  "en_DeleteColumnsForRows lib fb io clk hlc rowKeys columnEntries =
    guarded (persistRowColumnAction lib fb io clk hlc LogOperationTypeDelete (map kc_RowKey rowKeys) columnEntries)"

definition en_DeleteRow :: "('s, 'b) mem_lib \<Rightarrow> fb_api \<Rightarrow> ioenv \<Rightarrow> (nat \<Rightarrow> u64) \<Rightarrow> u64 \<Rightarrow> bytes \<Rightarrow> ('s, 'b, 'd) Engine \<Rightarrow> ('s, 'b, 'd) Engine \<times> error option" where
  "en_DeleteRow lib fb io clk hlc rowKey = guarded (persistRowColumnAction lib fb io clk hlc LogOperationTypeDeleteRowByKey [kc_RowKey rowKey] [])"

definition en_BatchDeleteRows :: "('s, 'b) mem_lib \<Rightarrow> fb_api \<Rightarrow> ioenv \<Rightarrow> (nat \<Rightarrow> u64) \<Rightarrow> u64 \<Rightarrow> bytes list \<Rightarrow> ('s, 'b, 'd) Engine \<Rightarrow> ('s, 'b, 'd) Engine \<times> error option" where
  "en_BatchDeleteRows lib fb io clk hlc rowKeys =
    guarded (persistRowColumnAction lib fb io clk hlc LogOperationTypeDeleteRowByKey (map kc_RowKey rowKeys) [])"

section \<open>Reading\<close>

text \<open>The sealed tables from new to old.\<close>

fun sealedGet :: "('s, 'b) mem_lib \<Rightarrow> bytes \<Rightarrow> ('s, 'b) MemTable list \<Rightarrow> ValueStruct option" where
  "sealedGet lib key [] = None"
| "sealedGet lib key (t # ts) = (let val = mt_Get lib key t in if vs_Meta val \<noteq> LogOperationTypeNoOperation then Some val else sealedGet lib key ts)"

definition en_GetKV :: "('s, 'b) mem_lib \<Rightarrow> ('d, 'q) btree_api \<Rightarrow> bytes \<Rightarrow> ('s, 'b, 'd) Engine \<Rightarrow> error + bytes" where
  "en_GetKV lib bt key e =
    (if en_shutdown e then Inl ErrInCloseProcess
     else
       let key = kc_KeyKV key; yValue = mt_Get lib key (en_activeMemTable e) in
       if vs_Meta yValue \<noteq> LogOperationTypeNoOperation then
         (if vs_Meta yValue = LogOperationTypeDelete then Inl ErrKeyNotFound else Inr (vs_Value yValue))
       else case sealedGet lib key (rev (en_sealedMemTables e)) of
         Some yValue \<Rightarrow> if vs_Meta yValue = LogOperationTypeDelete then Inl ErrKeyNotFound else Inr (vs_Value yValue)
       | None \<Rightarrow> bt_GetKV bt key (en_dataStore e))"

text \<open>A nil map with an error is the empty list.\<close>

definition en_GetRowColumns ::
  "('s, 'b) mem_lib \<Rightarrow> fb_api \<Rightarrow> ('d, 'q) btree_api \<Rightarrow> bytes \<Rightarrow> (bytes \<Rightarrow> bool) option \<Rightarrow> ('s, 'b, 'd) Engine \<Rightarrow> error + columns" where
  "en_GetRowColumns lib fb bt rowKey predicate e =
    (if en_shutdown e then Inl ErrInCloseProcess
     else
       let key = kc_RowKey rowKey; first = GetRowYValue lib key (en_activeMemTable e) in
       if first \<noteq> [] \<and> vs_Meta (last first) = LogOperationTypeDeleteRowByKey then Inl ErrKeyNotFound
       else
         let vs = concat (map (GetRowYValue lib key) (en_sealedMemTables e)) @ first;
             predicateFunc = (\<lambda>columnKey. case predicate of None \<Rightarrow> True | Some p \<Rightarrow> p columnKey);
             scan = bt_ScanRowCells bt key (Some predicateFunc) (en_dataStore e)
         in case scan of
              Inl err \<Rightarrow>
                if \<not> errors_Is err ErrKeyNotFound then Inl err
                else
                  let columnsValue = filter (\<lambda>(columnKey, _). predicateFunc columnKey) (BuildColumnMap fb vs []) in
                  if columnsValue = [] \<and> vs = [] then Inl ErrKeyNotFound else Inr columnsValue
            | Inr columnsValue \<Rightarrow> Inr (filter (\<lambda>(columnKey, _). predicateFunc columnKey) (BuildColumnMap fb vs columnsValue)))"

definition reconstructChunkedValue :: "fb_api \<Rightarrow> LogRecordTable \<Rightarrow> WalIO \<Rightarrow> (error + bytes) option" where
  "reconstructChunkedValue fb record walIO =
    (case GetTransactionRecords fb (DecodeOffset (PrevTxnWalIndexBytes record)) walIO of
       None \<Rightarrow> None
     | Some (Inl err) \<Rightarrow> Some (Inl (Wrapped ''failed to reconstruct batch value'' err))
     | Some (Inr records) \<Rightarrow>
       if records = [] then Some (Inl Panic) else Some (map_sum id concat (firstValues fb (tl records))))"

definition en_GetLOB :: "('s, 'b) mem_lib \<Rightarrow> fb_api \<Rightarrow> ('d, 'q) btree_api \<Rightarrow> bytes \<Rightarrow> ('s, 'b, 'd) Engine \<Rightarrow> (error + bytes) option" where
  "en_GetLOB lib fb bt key e =
    (if en_shutdown e then Some (Inl ErrInCloseProcess)
     else
       let key = kc_KeyBlobChunk key 0; yv = mt_Get lib key (en_activeMemTable e);
           yv = (if vs_Meta yv = LogOperationTypeNoOperation then
                   (case sealedGet lib key (rev (en_sealedMemTables e)) of Some val \<Rightarrow> val | None \<Rightarrow> yv) else yv)
       in if vs_UserMeta yv = LogEntryTypeChunked then
            (case GetWalRecord fb yv (en_walIO e) of
               Inl err \<Rightarrow> Some (Inl err)
             | Inr rec \<Rightarrow> reconstructChunkedValue fb rec (en_walIO e))
          else case bt_GetLOBChunks bt key (en_dataStore e) of
            Inl err \<Rightarrow> Some (Inl err)
          | Inr chunks \<Rightarrow> Some (Inr (concat chunks)))"

section \<open>Flushing and checkpoints\<close>

text \<open>\<open>handleFlush\<close> takes the oldest sealed table, flushes it without holding the lock, and drops it from the list afterwards. The two parts are
  \<open>flushTable\<close> and \<open>dropTable\<close>; writes and reads of other goroutines can come between them.\<close>

definition flushTable ::
  "('s, 'b) mem_lib \<Rightarrow> fb_api \<Rightarrow> ('d, 'q) btree_api \<Rightarrow> (nat \<Rightarrow> error option) \<Rightarrow> (bytes list \<Rightarrow> bytes list) \<Rightarrow> ('s, 'b) MemTable
    \<Rightarrow> ('s, 'b, 'd) Engine \<Rightarrow> (('s, 'b, 'd) Engine \<times> error option) option" where
  "flushTable lib fb bt ctx order mt e =
    (case mt_Flush lib fb bt (en_walIO e) ctx order mt (en_dataStore e) of
       None \<Rightarrow> None
     | Some (d, mt, Inl err) \<Rightarrow> Some (e\<lparr>en_dataStore := d, en_sealedMemTables := mt # tl (en_sealedMemTables e)\<rparr>, Some Fatal)
     | Some (d, mt, Inr recordProcessed) \<Rightarrow>
       let flushed = en_opsFlushedCounter e + word_of_nat recordProcessed;
           fm = \<lparr>fm_metadata = \<lparr>RecordProcessed = flushed, Pos = mt_lastOffset mt\<rparr>, fm_recordProcessed = recordProcessed,
             fm_bytesFlushed = mt_bytesStored mt\<rparr>
       in Some (e\<lparr>en_dataStore := d, en_sealedMemTables := mt # tl (en_sealedMemTables e), en_opsFlushedCounter := flushed,
            en_pendingMetadata := en_pendingMetadata e @ [fm]\<rparr>, None))"

definition dropTable :: "('s, 'b, 'd) Engine \<Rightarrow> ('s, 'b, 'd) Engine" where
  "dropTable e = (let e = e\<lparr>en_sealedMemTables := tl (en_sealedMemTables e)\<rparr> in
     if \<not> snd (effectiveBTreeFlushInterval (en_config e)) then e\<lparr>en_fsyncReqSignal := min 1 (en_fsyncReqSignal e + 1)\<rparr> else e)"

definition handleFlush ::
  "('s, 'b) mem_lib \<Rightarrow> fb_api \<Rightarrow> ('d, 'q) btree_api \<Rightarrow> (nat \<Rightarrow> error option) \<Rightarrow> (bytes list \<Rightarrow> bytes list) \<Rightarrow> ('s, 'b, 'd) Engine
    \<Rightarrow> (('s, 'b, 'd) Engine \<times> error option) option" where
  "handleFlush lib fb bt ctx order e =
    (if en_flushPaused e then Some (e, None)
     else case en_sealedMemTables e of
       [] \<Rightarrow> Some (e, None)
     | mt # _ \<Rightarrow>
       if mt_IsEmpty lib mt then Some (e, None)
       else case flushTable lib fb bt ctx order mt e of
         None \<Rightarrow> None
       | Some (e, Some err) \<Rightarrow> Some (e, Some err)
       | Some (e, None) \<Rightarrow> Some (dropTable e, None))"

definition queueMetadata :: "flushedMetadata \<Rightarrow> ('s, 'b, 'd) Engine \<Rightarrow> ('s, 'b, 'd) Engine" where
  "queueMetadata fm e = e\<lparr>en_pendingMetadata := en_pendingMetadata e @ [fm]\<rparr>"

definition dequeueAllMetadata :: "('s, 'b, 'd) Engine \<Rightarrow> ('s, 'b, 'd) Engine \<times> flushedMetadata list" where
  "dequeueAllMetadata e = (e\<lparr>en_pendingMetadata := []\<rparr>, en_pendingMetadata e)"

definition fSyncStore :: "('d, 'q) btree_api \<Rightarrow> ('s, 'b, 'd) Engine \<Rightarrow> ('s, 'b, 'd) Engine \<times> error option" where
  "fSyncStore bt e =
    (if en_flushPaused e then (e, None)
     else case dequeueAllMetadata e of (e, all) \<Rightarrow>
       if all = [] then (e, None)
       else
         let md = fm_metadata (last all) in
         case SaveMetadata bt (Pos md) (RecordProcessed md) (en_dataStore e) of
           (d, Some err) \<Rightarrow> (e\<lparr>en_dataStore := d\<rparr>, Some (if err = Panic then Panic else Fatal))
         | (d, None) \<Rightarrow>
           (case bt_FSync bt d of
              Some err \<Rightarrow> (e\<lparr>en_dataStore := d\<rparr>, Some Fatal)
            | None \<Rightarrow> (e\<lparr>en_dataStore := d\<rparr>, None)))"

definition pauseFlush :: "('s, 'b, 'd) Engine \<Rightarrow> ('s, 'b, 'd) Engine" where
  "pauseFlush e = e\<lparr>en_flushPaused := True\<rparr>"

text \<open>What \<open>RunWalCleanup\<close> may delete: segments before the one of the current offset. Without an offset the predicate panics.\<close>

definition delPredicate :: "('s, 'b, 'd) Engine \<Rightarrow> u32 \<Rightarrow> error + bool" where
  "delPredicate e segID = (case en_currentOffset e of None \<Rightarrow> Inl Panic | Some currOff \<Rightarrow> Inr (segID < SegmentID currOff))"

section \<open>Starting and closing\<close>

text \<open>The engine over an opened log and store, before its metadata are loaded.\<close>

definition newEngine :: "('s, 'b) mem_lib \<Rightarrow> EngineConfig \<Rightarrow> WalIO \<Rightarrow> 'd \<Rightarrow> ('s, 'b, 'd) Engine" where
  "newEngine lib conf walIO store =
    \<lparr>en_writeSeenCounter = 0, en_opsFlushedCounter = 0, en_currentOffset = None, en_dataStore = store, en_walIO = walIO, en_config = conf,
     en_activeMemTable = NewMemTable lib (ec_ArenaSize conf), en_sealedMemTables = [], en_flushReqSignal = 0, en_pendingMetadata = [],
     en_fsyncReqSignal = 0, en_recoveredEntriesCount = 0, en_startMetadata = \<lparr>RecordProcessed = 0, Pos = None\<rparr>, en_shutdown = False,
     en_flushPaused = False, en_coalesceFlag = False, en_appendNotify = 0, en_changes = []\<rparr>"

text \<open>\<open>initStorage\<close> opens the log and the store; the database engine must be known and the arena must not be too small.\<close>

definition minArenaSize :: int where "minArenaSize = 1024 * 200"

definition initStorage ::
  "('s, 'b) mem_lib \<Rightarrow> EngineConfig \<Rightarrow> (error + bool) \<Rightarrow> (error + WalIO) \<Rightarrow> (error + 'd) \<Rightarrow> error + ('s, 'b, 'd) Engine" where
  "initStorage lib conf tryLock walIO store =
    (case tryLock of Inl e \<Rightarrow> Inl e
     | Inr locked \<Rightarrow>
       if \<not> locked then Inl ErrDatabaseDirInUse
       else case walIO of Inl e \<Rightarrow> Inl e
       | Inr w \<Rightarrow>
         case store of Inl e \<Rightarrow> Inl e
         | Inr d \<Rightarrow>
           if ec_ArenaSize conf < minArenaSize then Inl (ErrMsg ''arena capacity too small min capacity 2 KB'')
           else Inr (newEngine lib conf w d))"

definition loadMetaValues :: "('d, 'q) btree_api \<Rightarrow> ('s, 'b, 'd) Engine \<Rightarrow> ('s, 'b, 'd) Engine \<times> error option" where
  "loadMetaValues bt e =
    (case bt_RetrieveMetadata bt SysKeyWalCheckPoint (en_dataStore e) of
       Inl err \<Rightarrow> if errors_Is err ErrKeyNotFound then (e, None) else (e, Some err)
     | Inr data \<Rightarrow>
       case UnmarshalMetadata data of Inl err \<Rightarrow> (e, Some err)
       | Inr metadata \<Rightarrow>
         (e\<lparr>en_startMetadata := metadata, en_writeSeenCounter := RecordProcessed metadata, en_opsFlushedCounter := RecordProcessed metadata\<rparr>, None))"

definition en_recoverWAL :: "ioenv \<Rightarrow> fb_api \<Rightarrow> ('d, 'q) btree_api \<Rightarrow> ('s, 'b, 'd) Engine \<Rightarrow> (('s, 'b, 'd) Engine \<times> error option) option" where
  "en_recoverWAL io fb bt e =
    (case (case bt_RetrieveMetadata bt SysKeyWalCheckPoint (en_dataStore e) of
             Inl err \<Rightarrow> if errors_Is err ErrKeyNotFound then Inr [] else Inl err | Inr data \<Rightarrow> Inr data) of
       Inl err \<Rightarrow> Some (e, Some (Wrapped ''recover WAL failed'' err))
     | Inr checkpoint \<Rightarrow>
       case recoverWAL io fb bt checkpoint (NewWalRecovery (en_dataStore e) (en_walIO e)) of
         None \<Rightarrow> None
       | Some (wr, Some err) \<Rightarrow> Some (e\<lparr>en_dataStore := wre_store wr, en_walIO := wre_walIO wr\<rparr>, Some err)
       | Some (wr, None) \<Rightarrow>
         let n = wre_recoveredCount wr;
             offset = (if length checkpoint \<noteq> 0 then (case UnmarshalMetadata checkpoint of Inl _ \<Rightarrow> None | Inr md \<Rightarrow> Pos md) else None);
             offset = (if wre_lastRecoveredPos wr \<noteq> None then wre_lastRecoveredPos wr else offset);
             e = e\<lparr>en_dataStore := wre_store wr, en_walIO := wre_walIO wr, en_writeSeenCounter := en_writeSeenCounter e + word_of_nat n,
               en_recoveredEntriesCount := n, en_opsFlushedCounter := en_opsFlushedCounter e + word_of_nat n, en_currentOffset := offset\<rparr>
         in if n > 0 then
              let e = queueMetadata \<lparr>fm_metadata = \<lparr>RecordProcessed = en_opsFlushedCounter e, Pos = wre_lastRecoveredPos wr\<rparr>,
                    fm_recordProcessed = n, fm_bytesFlushed = 0\<rparr> e
              in if en_fsyncReqSignal e \<ge> 1 then Some (e, Some Panic) else Some (e\<lparr>en_fsyncReqSignal := 1\<rparr>, None)
            else Some (e, None))"

text \<open>\<open>NewStorageEngine\<close> without the creation of directories and the start of the background goroutines, whose steps are the definitions above.\<close>

definition NewStorageEngine ::
  "('s, 'b) mem_lib \<Rightarrow> ioenv \<Rightarrow> fb_api \<Rightarrow> ('d, 'q) btree_api \<Rightarrow> EngineConfig \<Rightarrow> (error + bool) \<Rightarrow> (error + WalIO) \<Rightarrow> (error + 'd)
    \<Rightarrow> (error + ('s, 'b, 'd) Engine) option" where
  "NewStorageEngine lib io fb bt conf tryLock walIO store =
    (case initStorage lib conf tryLock walIO store of
       Inl err \<Rightarrow> Some (Inl err)
     | Inr e \<Rightarrow>
       case loadMetaValues bt e of
         (e, Some err) \<Rightarrow> Some (Inl err)
       | (e, None) \<Rightarrow>
         case en_recoverWAL io fb bt e of
           None \<Rightarrow> None
         | Some (e, Some err) \<Rightarrow> Some (Inl err)
         | Some (e, None) \<Rightarrow> Some (Inr e))"

text \<open>\<open>Close\<close> collects the errors of its parts; \<open>storeClose\<close> and \<open>unlock\<close> are the outcomes of closing the store and releasing the lock file. A failed
  checkpoint ends the process.\<close>

definition en_Close ::
  "ioenv \<Rightarrow> ('d, 'q) btree_api \<Rightarrow> bool \<Rightarrow> error option \<Rightarrow> error option \<Rightarrow> ('s, 'b, 'd) Engine \<Rightarrow> (('s, 'b, 'd) Engine \<times> error list) option" where
  "en_Close io bt waited storeClose unlock e =
    (if en_shutdown e then Some (e, [ErrInCloseProcess])
     else
       let opt = (\<lambda>err. case err of None \<Rightarrow> [] | Some x \<Rightarrow> [x]);
           e = e\<lparr>en_shutdown := True\<rparr>;
           errs = (if \<not> waited then [ErrMsg ''[dbkernel]: WAL check operation timed out''] else []);
           errs = errs @ opt (wio_Sync io (en_walIO e))
       in case wio_Close io (en_walIO e) of None \<Rightarrow> None
       | Some (w, walErrs) \<Rightarrow>
         case fSyncStore bt (e\<lparr>en_walIO := w\<rparr>) of
           (e, Some err) \<Rightarrow> Some (e, [err])
         | (e, None) \<Rightarrow> Some (e, errs @ walErrs @ opt (bt_FSync bt (en_dataStore e)) @ opt storeClose @ opt unlock))"

end
