(* ===== verification/EngineCorrect.thy ===== *)
theory EngineCorrect
  imports Engine
begin

text \<open>
  The invariant of the engine. The log is the history of the namespace; its operations are \<open>F\<close>, which the store holds and no table
  needs any more, followed by those of the sealed tables and of the active table. \<open>P\<close> is the part of the tables that was
  flushed but not dropped yet. The last offset of a table, the queued checkpoints and the saved one lie in the log, and the
  records up to them are in the tables up to that one, or in the store. Every step keeps the invariant, and whatever step is cut
  off by a crash, recovery restores the state of the log.
\<close>

section \<open>Offsets\<close>

definition covers :: "fb_api \<Rightarrow> log \<Rightarrow> RecordPosition \<Rightarrow> nat \<Rightarrow> bool" where
  "covers fb D p n \<longleftrightarrow> (\<exists>es x es'. D = es @ (p, x) # es' \<and> length (log_sops fb [] (es @ [(p, x)])) \<le> n)"

lemma covers_mono: "covers fb D p n \<Longrightarrow> n \<le> m \<Longrightarrow> covers fb D p m"
  by (auto simp: covers_def intro: order_trans)

lemma covers_append: "covers fb D p n \<Longrightarrow> covers fb (D @ E) p n"
  by (fastforce simp: covers_def)

lemma covers_last: "covers fb (D @ [(p, x)]) p (length (log_sops fb [] (D @ [(p, x)])))"
  unfolding covers_def by blast

fun offs :: "fb_api \<Rightarrow> log \<Rightarrow> nat \<Rightarrow> ('s, 'b) MemTable list \<Rightarrow> history list \<Rightarrow> bool" where
  "offs fb D n (t # ts) (H # Hs) = ((\<forall>p. mt_lastOffset t = Some p \<longrightarrow> covers fb D p (n + length (mem_sops fb D H)))
     \<and> offs fb D (n + length (mem_sops fb D H)) ts Hs)"
| "offs fb D n [] [] = True"
| "offs fb D n _ _ = False"

lemma offs_snoc:
  "length ts = length Hs \<Longrightarrow> offs fb D n (ts @ [t]) (Hs @ [H]) \<longleftrightarrow> offs fb D n ts Hs
    \<and> (\<forall>p. mt_lastOffset t = Some p \<longrightarrow> covers fb D p (n + length (mem_sops fb D (concat Hs)) + length (mem_sops fb D H)))"
proof (induction ts Hs arbitrary: n rule: list_induct2)
  case (Cons t ts H Hs)
  then show ?case by (simp add: add.assoc)
qed simp

lemma offs_mono:
  assumes "\<And>H x. H \<in> set Hs \<Longrightarrow> x \<in> set H \<Longrightarrow> entry_ok fb D x"
  shows "offs fb D n ts Hs \<Longrightarrow> offs fb (D @ E) n ts Hs"
  using assms
proof (induction fb D n ts Hs rule: offs.induct)
  case (1 fb D n t ts H Hs)
  have m: "mem_sops fb (D @ E) H = mem_sops fb D H" by (rule mem_sops_mono) (use 1(3) in \<open>blast intro: list.set_intros\<close>)
  show ?case using 1 covers_append by (auto simp: m)
qed simp_all

section \<open>The tables\<close>

definition tables_ok :: "('s, 'b) mem_lib \<Rightarrow> fb_api \<Rightarrow> log \<Rightarrow> ('s, 'b, 'd) Engine \<Rightarrow> history list \<Rightarrow> history \<Rightarrow> bool" where
  "tables_ok lib fb D e Hs H \<longleftrightarrow> list_all2 (mt_inv lib) (en_sealedMemTables e) Hs \<and> mt_inv lib (en_activeMemTable e) H
    \<and> (\<forall>x \<in> set (concat Hs @ H). entry_ok fb D x)"

text \<open>The fields the tables do not touch.\<close>

definition same_rest :: "('s, 'b, 'd) Engine \<Rightarrow> ('s, 'b, 'd) Engine \<Rightarrow> bool" where
  "same_rest e e' \<longleftrightarrow> en_writeSeenCounter e' = en_writeSeenCounter e \<and> en_opsFlushedCounter e' = en_opsFlushedCounter e
    \<and> en_currentOffset e' = en_currentOffset e \<and> en_dataStore e' = en_dataStore e \<and> en_walIO e' = en_walIO e \<and> en_config e' = en_config e
    \<and> en_pendingMetadata e' = en_pendingMetadata e \<and> en_shutdown e' = en_shutdown e \<and> en_flushPaused e' = en_flushPaused e
    \<and> en_appendNotify e' = en_appendNotify e \<and> en_coalesceFlag e' = en_coalesceFlag e"

lemma same_rest_refl [simp]: "same_rest e e"
  by (simp add: same_rest_def)

lemma same_rest_trans: "same_rest e e' \<Longrightarrow> same_rest e' e'' \<Longrightarrow> same_rest e e''"
  by (simp add: same_rest_def)

text \<open>The entry fits into an empty table.\<close>

definition fits_arena :: "('s, 'b) mem_lib \<Rightarrow> ('s, 'b, 'd) Engine \<Rightarrow> bytes \<times> ValueStruct \<Rightarrow> bool" where
  "fits_arena lib e x \<longleftrightarrow> canPut lib (fst x) (snd x) (NewMemTable lib (ec_ArenaSize (en_config e)))"

definition table_step :: "('s, 'b) mem_lib \<Rightarrow> fb_api \<Rightarrow> log \<Rightarrow> nat \<Rightarrow> ('s, 'b, 'd) Engine \<Rightarrow> history list \<Rightarrow> history \<Rightarrow> history \<Rightarrow> ('s, 'b, 'd) Engine \<Rightarrow> bool" where
  "table_step lib fb D n e Hs H xs e' \<longleftrightarrow> (\<exists>zs H'. tables_ok lib fb D e' (Hs @ zs) H' \<and> concat zs @ H' = H @ xs
     \<and> offs fb D n (en_sealedMemTables e' @ [en_activeMemTable e']) (Hs @ zs @ [H']) \<and> same_rest e e')"

lemma memTableWrite_ok:
  assumes "mem_laws lib" "tables_ok lib fb D e Hs H" "offs fb D n (en_sealedMemTables e @ [en_activeMemTable e]) (Hs @ [H])"
    and "entry_ok fb D (k, v)" "now < 2 ^ 63" "length H < 2 ^ 62" "fits_arena lib e (k, v)"
  shows "\<exists>e'. memTableWrite lib now k v e = (e', None) \<and> table_step lib fb D n e Hs H [(k, v)] e'"
proof -
  have inv: "mt_inv lib (en_activeMemTable e) H" and len: "length (en_sealedMemTables e) = length Hs"
    using assms(2) list_all2_lengthD by (auto simp: tables_ok_def)
  note o1 = offs_snoc [OF len, of fb D n, THEN iffD1, OF assms(3)]
  show ?thesis
  proof (cases "canPut lib k v (en_activeMemTable e)")
    case True
    from mt_Put_ok [OF assms(1) inv True assms(5,6)] obtain t where
      t: "mt_Put lib now k v (en_activeMemTable e) = (t, None)" "mt_inv lib t (H @ [(k, v)])" "mt_lastOffset t = mt_lastOffset (en_activeMemTable e)" by blast
    let ?e = "Notify k v (e\<lparr>en_activeMemTable := t\<rparr>)"
    have "tables_ok lib fb D ?e Hs (H @ [(k, v)])" using assms(2,4) t(2) by (auto simp: tables_ok_def Notify_def)
    moreover have "offs fb D n (en_sealedMemTables ?e @ [en_activeMemTable ?e]) (Hs @ [H @ [(k, v)]])"
      using o1 t(3) covers_mono by (fastforce simp: offs_snoc [OF len] Notify_def)
    moreover have "memTableWrite lib now k v e = (?e, None)" using t(1) by (simp add: memTableWrite_def)
    moreover have "same_rest e ?e" by (simp add: same_rest_def Notify_def)
    ultimately show ?thesis unfolding table_step_def
      by (intro exI [of _ ?e] conjI exI [of _ "[]"] exI [of _ "H @ [(k, v)]"]) simp_all
  next
    case False
    let ?new = "NewMemTable lib (ec_ArenaSize (en_config e))"
    let ?r = "rotateMemTable lib e"
    have put: "mt_Put lib now k v (en_activeMemTable e) = (en_activeMemTable e, Some ErrArenaSizeWillExceed)" using False by (simp add: mt_Put_def)
    have "canPut lib k v ?new" using assms(7) by (simp add: fits_arena_def)
    from mt_Put_ok [OF assms(1) mt_inv_New [OF assms(1)] this assms(5)] obtain t where
      t: "mt_Put lib now k v ?new = (t, None)" "mt_inv lib t [(k, v)]" "mt_lastOffset t = mt_lastOffset ?new" by auto
    have none: "mt_lastOffset t = None" using t(3) by (simp add: NewMemTable_def)
    let ?e = "Notify k v (?r\<lparr>en_activeMemTable := t\<rparr>)"
    have "list_all2 (mt_inv lib) (en_sealedMemTables ?e) (Hs @ [H])"
      using assms(2) inv by (auto simp: tables_ok_def Notify_def rotateMemTable_def Let_def intro: list_all2_appendI)
    then have "tables_ok lib fb D ?e (Hs @ [H]) [(k, v)]"
      using assms(2,4) t(2) by (auto simp: tables_ok_def Notify_def rotateMemTable_def Let_def)
    moreover have "offs fb D n (en_sealedMemTables ?e @ [en_activeMemTable ?e]) ((Hs @ [H]) @ [[(k, v)]])"
      using assms(3) none len by (subst offs_snoc) (simp_all add: Notify_def rotateMemTable_def Let_def)
    moreover have "memTableWrite lib now k v e = (?e, None)"
      using put t(1) by (simp add: memTableWrite_def rotateMemTable_def Let_def)
    moreover have "same_rest e ?e" by (simp add: same_rest_def Notify_def rotateMemTable_def Let_def)
    ultimately show ?thesis unfolding table_step_def
      by (intro exI [of _ ?e] conjI exI [of _ "[H]"] exI [of _ "[(k, v)]"]) simp_all
  qed
qed

lemma writeNilOffset_step: "table_step lib fb D n e Hs H xs e' \<Longrightarrow> table_step lib fb D n e Hs H xs (writeNilOffset e')"
proof -
  assume "table_step lib fb D n e Hs H xs e'"
  then obtain zs H' where s: "tables_ok lib fb D e' (Hs @ zs) H'" "concat zs @ H' = H @ xs"
      "offs fb D n (en_sealedMemTables e' @ [en_activeMemTable e']) ((Hs @ zs) @ [H'])" "same_rest e e'" by (auto simp: table_step_def)
  have len: "length (en_sealedMemTables e') = length (Hs @ zs)" using s(1) list_all2_lengthD unfolding tables_ok_def by blast
  have "offs fb D n (en_sealedMemTables e' @ [IncrOffset (en_activeMemTable e')]) ((Hs @ zs) @ [H'])"
    using s(3) unfolding offs_snoc [OF len] by (simp add: IncrOffset_def)
  then show ?thesis using s unfolding table_step_def
    by (intro exI [of _ zs] exI [of _ H']) (simp add: tables_ok_def writeNilOffset_def same_rest_def)
qed

lemma memTableWrites_ok:
  assumes "mem_laws lib" "post = id \<or> post = writeNilOffset" "\<forall>i. clk i < 2 ^ 63" "\<forall>x \<in> set xs. entry_ok fb D x \<and> fits_arena lib e x"
    and "tables_ok lib fb D e Hs H" "offs fb D n (en_sealedMemTables e @ [en_activeMemTable e]) (Hs @ [H])" "length H + length xs \<le> 2 ^ 62"
  shows "\<exists>e'. memTableWrites lib post clk xs e = (e', None) \<and> table_step lib fb D n e Hs H xs e'"
  using assms(3-7)
proof (induction xs arbitrary: clk e Hs H)
  case Nil
  then show ?case unfolding table_step_def by (auto intro!: exI [of _ "[]"] exI [of _ H])
next
  case (Cons x xs)
  obtain k v where x: "x = (k, v)" by (cases x)
  have "\<exists>e1. memTableWrite lib (clk 0) k v e = (e1, None) \<and> table_step lib fb D n e Hs H [(k, v)] e1"
    by (rule memTableWrite_ok [OF assms(1) Cons.prems(3,4)]) (use Cons.prems in \<open>auto simp: x\<close>)
  then obtain e0 where e0: "memTableWrite lib (clk 0) k v e = (e0, None)" "table_step lib fb D n e Hs H [(k, v)] e0" by blast
  have "table_step lib fb D n e Hs H [(k, v)] (post e0)" using assms(2) writeNilOffset_step [OF e0(2)] e0(2) by auto
  then obtain zs H1 where e1: "tables_ok lib fb D (post e0) (Hs @ zs) H1" "concat zs @ H1 = H @ [(k, v)]"
      "offs fb D n (en_sealedMemTables (post e0) @ [en_activeMemTable (post e0)]) ((Hs @ zs) @ [H1])" "same_rest e (post e0)"
    unfolding table_step_def by auto
  have "length H1 \<le> length (H @ [(k, v)])" unfolding e1(2) [symmetric] by simp
  then have len: "length H1 + length xs \<le> 2 ^ 62" using Cons.prems(5) by simp
  have "\<forall>y \<in> set xs. entry_ok fb D y \<and> fits_arena lib (post e0) y"
    using Cons.prems(2) e1(4) by (auto simp: fits_arena_def same_rest_def)
  from Cons.IH [OF _ this e1(1,3) len, of "\<lambda>i. clk (Suc i)"] Cons.prems(1) obtain e2 where
    e2: "memTableWrites lib post (\<lambda>i. clk (Suc i)) xs (post e0) = (e2, None)" "table_step lib fb D n (post e0) (Hs @ zs) H1 xs e2" by auto
  then obtain ys H2 where "tables_ok lib fb D e2 ((Hs @ zs) @ ys) H2" "concat ys @ H2 = H1 @ xs"
      "offs fb D n (en_sealedMemTables e2 @ [en_activeMemTable e2]) ((Hs @ zs) @ ys @ [H2])" "same_rest (post e0) e2"
    unfolding table_step_def by blast
  moreover have "concat (zs @ ys) @ H2 = H @ x # xs"
    using calculation(2) e1(2) by (metis append.assoc append_Cons append_Nil concat_append x)
  ultimately have "table_step lib fb D n e Hs H (x # xs) e2"
    unfolding table_step_def using same_rest_trans [OF e1(4)] by (intro exI [of _ "zs @ ys"] exI [of _ H2]) simp
  then show ?case using e0(1) e2(1) by (simp add: x)
qed

section \<open>The invariant\<close>

definition wal_ok :: "fb_api \<Rightarrow> WalIO \<Rightarrow> layout \<Rightarrow> bool" where
  "wal_ok fb w L \<longleftrightarrow> wal_inv (wio_appendLog w) L \<and> wal_active (wio_appendLog w) \<and> fst (hd L) \<noteq> 0
    \<and> linked [] (decoded fb (wal_log L)) \<and> recoverable fb [] (decoded fb (wal_log L))"

text \<open>A position up to which the store is complete: the queued and the saved checkpoints.\<close>

definition checkpoints_ok ::
  "fb_api \<Rightarrow> ('d \<Rightarrow> bytes \<rightharpoonup> bytes) \<Rightarrow> log \<Rightarrow> nat \<Rightarrow> ('s, 'b, 'd) Engine \<Rightarrow> bool" where
  "checkpoints_ok fb M D n e \<longleftrightarrow>
    (\<forall>fm \<in> set (en_pendingMetadata e). \<forall>p. Pos (fm_metadata fm) = Some p \<longrightarrow> covers fb D p n)
    \<and> (\<forall>cp. M (en_dataStore e) SysKeyWalCheckPoint = Some cp \<longrightarrow> (\<exists>k p. cp = LE_PutUint64 k @ rp_Encode p \<and> covers fb D p n))"

text \<open>The tables, the store and the checkpoints against a log.\<close>

definition tab_inv ::
  "('s, 'b) mem_lib \<Rightarrow> fb_api \<Rightarrow> ('d \<Rightarrow> ustore \<Rightarrow> bool) \<Rightarrow> ('d \<Rightarrow> bytes \<rightharpoonup> bytes) \<Rightarrow> ustore \<Rightarrow> ('s, 'b, 'd) Engine
    \<Rightarrow> log \<Rightarrow> history list \<Rightarrow> history \<Rightarrow> sop list \<Rightarrow> sop list \<Rightarrow> bool" where
  "tab_inv lib fb R M u e D Hs H F P \<longleftrightarrow> tables_ok lib fb D e Hs H
     \<and> offs fb D (length F) (en_sealedMemTables e @ [en_activeMemTable e]) (Hs @ [H])
     \<and> log_sops fb [] D = F @ mem_sops fb D (concat Hs @ H) \<and> prefix P (mem_sops fb D (concat Hs))
     \<and> R (en_dataStore e) (fold apply_sop (F @ P) u) \<and> checkpoints_ok fb M D (length F + length P) e
     \<and> (\<forall>p. en_currentOffset e = Some p \<longrightarrow> p \<in> fst ` set D)"

definition en_inv ::
  "('s, 'b) mem_lib \<Rightarrow> fb_api \<Rightarrow> ('d \<Rightarrow> ustore \<Rightarrow> bool) \<Rightarrow> ('d \<Rightarrow> bytes \<rightharpoonup> bytes) \<Rightarrow> ustore \<Rightarrow> ('s, 'b, 'd) Engine
    \<Rightarrow> layout \<Rightarrow> history list \<Rightarrow> history \<Rightarrow> sop list \<Rightarrow> sop list \<Rightarrow> bool" where
  "en_inv lib fb R M u e L Hs H F P \<longleftrightarrow> wal_ok fb (en_walIO e) L \<and> tab_inv lib fb R M u e (decoded fb (wal_log L)) Hs H F P"

lemma tab_invD:
  assumes "tab_inv lib fb R M u e D Hs H F P"
  shows "tables_ok lib fb D e Hs H" "offs fb D (length F) (en_sealedMemTables e @ [en_activeMemTable e]) (Hs @ [H])"
    "log_sops fb [] D = F @ mem_sops fb D (concat Hs @ H)" "prefix P (mem_sops fb D (concat Hs))" "R (en_dataStore e) (fold apply_sop (F @ P) u)"
    "checkpoints_ok fb M D (length F + length P) e" "en_currentOffset e = Some p \<Longrightarrow> p \<in> fst ` set D"
  using assms by (simp_all add: tab_inv_def)

lemma en_invD:
  assumes "en_inv lib fb R M u e L Hs H F P"
  shows "wal_ok fb (en_walIO e) L" "tables_ok lib fb (decoded fb (wal_log L)) e Hs H"
    "offs fb (decoded fb (wal_log L)) (length F) (en_sealedMemTables e @ [en_activeMemTable e]) (Hs @ [H])"
    "log_sops fb [] (decoded fb (wal_log L)) = F @ mem_sops fb (decoded fb (wal_log L)) (concat Hs @ H)"
    "prefix P (mem_sops fb (decoded fb (wal_log L)) (concat Hs))" "R (en_dataStore e) (fold apply_sop (F @ P) u)"
    "checkpoints_ok fb M (decoded fb (wal_log L)) (length F + length P) e"
    "en_currentOffset e = Some p \<Longrightarrow> p \<in> fst ` set (decoded fb (wal_log L))"
  using assms by (simp_all add: en_inv_def tab_inv_def)

lemma tab_inv_fields [simp]:
  "tab_inv lib fb R M u (e\<lparr>en_walIO := w\<rparr>) D Hs H F P = tab_inv lib fb R M u e D Hs H F P"
  "tab_inv lib fb R M u (e\<lparr>en_writeSeenCounter := c\<rparr>) D Hs H F P = tab_inv lib fb R M u e D Hs H F P"
  by (simp_all add: tab_inv_def tables_ok_def checkpoints_ok_def)

lemma wal_okD:
  assumes "wal_ok fb w L"
  shows "wal_inv (wio_appendLog w) L" "wal_active (wio_appendLog w)" "linked [] (decoded fb (wal_log L))" "recoverable fb [] (decoded fb (wal_log L))"
  using assms by (simp_all add: wal_ok_def)

lemma positions_decoded: "fst ` set (decoded fb es) = fst ` set es"
  by (force simp: decoded_def)

lemma wal_ok_segment:
  assumes "wal_ok fb w L" "p \<in> fst ` set (wal_log L)" shows "SegmentID p \<noteq> 0"
proof -
  obtain us d vs where "wal_log L = us @ (p, d) # vs" using assms(2) by (auto simp: in_set_conv_decomp)
  from wal_log_split [OF this] obtain A sid xs ys B where L: "L = A @ (sid, xs @ d # ys) # B" and p: "SegmentID p = sid" by auto
  have srt: "sorted_wrt (<) (map fst L)" and nz: "fst (hd L) \<noteq> 0" using assms(1) by (auto simp: wal_ok_def wal_inv_def)
  have "fst (hd L) \<le> sid" using srt by (cases A) (auto simp: L)
  then show ?thesis using nz p by (auto simp: word_le_nat_alt unat_eq_zero)
qed

text \<open>A record on the log.\<close>

lemma log_append_data:
  assumes "wal_ok fb w L" "all_ok io" "unat (fst (last L)) + 1 < 2 ^ 32" "fits w d" "r = DeserializeLogRecord fb d"
    and "link_ok (decoded fb (wal_log L)) r" "record_ok fb (decoded fb (wal_log L)) r"
  shows "\<exists>w' L' p. wio_Append io d w = (w', Inr p) \<and> wal_ok fb w' L' \<and> wal_log L' = wal_log L @ [(p, d)]
    \<and> p \<notin> fst ` set (decoded fb (wal_log L)) \<and> is_int64 (Offset p) \<and> same_config (wio_appendLog w) (wio_appendLog w')"
proof -
  obtain w' L' p where w': "wio_Append io d w = (w', Inr p)" "wal_inv (wio_appendLog w') L'" "wal_active (wio_appendLog w')"
      "extends L [(p, d)] L'" "same_config (wio_appendLog w) (wio_appendLog w')"
    using wio_Append_ok [OF wal_okD(1,2) [OF assms(1)] assms(2-4)] by blast
  have log: "wal_log L' = wal_log L @ [(p, d)]" and ids: "\<exists>ids. map fst L' = map fst L @ ids" using w'(4) by (auto simp: extends_def)
  have "p \<notin> fst ` set (wal_log L)" using wal_log_positions [OF w'(2)] by (simp add: log)
  moreover have "is_int64 (Offset p)" using wal_log_int64 [OF w'(2), of p d] by (simp add: log)
  moreover have "wal_ok fb w' L'"
  proof -
    have "L \<noteq> []" using wal_okD(1) [OF assms(1)] by (auto elim: wal_inv_snoc)
    then have "fst (hd L') = fst (hd L)" using ids by (metis hd_append2 list.map_disc_iff hd_map append_is_Nil_conv)
    then show ?thesis using w'(2,3) assms(1,5-7) by (simp add: wal_ok_def log)
  qed
  ultimately show ?thesis using w'(1,5) log by (auto simp: positions_decoded)
qed

lemma log_append:
  assumes "fb_laws fb" "wal_ok fb w L" "all_ok io" "unat (fst (last L)) + 1 < 2 ^ 32" "fits w (FBEncode fb r)"
    and "link_ok (decoded fb (wal_log L)) r" "record_ok fb (decoded fb (wal_log L)) r"
  shows "\<exists>w' L' p. wio_Append io (FBEncode fb r) w = (w', Inr p) \<and> wal_ok fb w' L' \<and> decoded fb (wal_log L') = decoded fb (wal_log L) @ [(p, r)]
    \<and> p \<notin> fst ` set (decoded fb (wal_log L)) \<and> is_int64 (Offset p) \<and> same_config (wio_appendLog w) (wio_appendLog w')"
proof -
  have r: "r = DeserializeLogRecord fb (FBEncode fb r)" using assms(1) by (simp add: DeserializeLogRecord_def)
  then have "decoded fb (es @ [(p, FBEncode fb r)]) = decoded fb es @ [(p, r)]" for es p by simp
  then show ?thesis using log_append_data [OF assms(2-5) r assms(6,7)] by fastforce
qed

definition record_sops :: "fb_api \<Rightarrow> log \<Rightarrow> LogRecord \<Rightarrow> sop list" where
  "record_sops fb D r = (case record_call fb D r of None \<Rightarrow> [] | Some c \<Rightarrow> call_sops c)"

lemma log_sops_one [simp]: "log_sops fb D [(p, r)] = record_sops fb D r"
  by (simp add: log_sops_Cons record_sops_def)

lemma checkpoints_append: "checkpoints_ok fb M D n e \<Longrightarrow> checkpoints_ok fb M (D @ E) n e"
  unfolding checkpoints_ok_def using covers_append by blast

lemma tables_mono:
  assumes "tables_ok lib fb D e Hs H"
  shows "tables_ok lib fb (D @ E) e Hs H" "mem_sops fb (D @ E) (concat Hs @ H) = mem_sops fb D (concat Hs @ H)"
    "mem_sops fb (D @ E) (concat Hs) = mem_sops fb D (concat Hs)"
    "offs fb D n ts (Hs @ [H]) \<Longrightarrow> offs fb (D @ E) n ts (Hs @ [H])"
proof -
  have ok: "\<forall>x \<in> set (concat Hs @ H). entry_ok fb D x" using assms by (simp add: tables_ok_def)
  show "tables_ok lib fb (D @ E) e Hs H" using assms entry_mono(1) unfolding tables_ok_def by blast
  show "mem_sops fb (D @ E) (concat Hs @ H) = mem_sops fb D (concat Hs @ H)" using ok by (rule mem_sops_mono)
  show "mem_sops fb (D @ E) (concat Hs) = mem_sops fb D (concat Hs)" using ok by (intro mem_sops_mono) simp
  show "offs fb D n ts (Hs @ [H]) \<Longrightarrow> offs fb (D @ E) n ts (Hs @ [H])" using ok by (intro offs_mono) auto
qed

text \<open>A record without operations, such as the first records of a transaction, changes only the log.\<close>

lemma tab_inv_log:
  assumes "tab_inv lib fb R M u e D Hs H F P" "record_sops fb D r = []"
  shows "tab_inv lib fb R M u e (D @ [(p, r)]) Hs H F P"
  using assms(2) tab_invD(3-5,7) [OF assms(1)] tables_mono(1-3) [OF tab_invD(1) [OF assms(1)], of "[(p, r)]"]
    tables_mono(4) [OF tab_invD(1,2) [OF assms(1)], of "[(p, r)]"] checkpoints_append [OF tab_invD(6) [OF assms(1)], of "[(p, r)]"]
  by (auto simp: tab_inv_def)

lemma en_inv_log:
  assumes "en_inv lib fb R M u e L Hs H F P" "wal_ok fb w' L'" "decoded fb (wal_log L') = decoded fb (wal_log L) @ [(p, r)]"
    and "record_sops fb (decoded fb (wal_log L)) r = []"
  shows "en_inv lib fb R M u (e\<lparr>en_walIO := w', en_writeSeenCounter := c\<rparr>) L' Hs H F P"
  using assms tab_inv_log [of lib fb R M u e "decoded fb (wal_log L)" Hs H F P r p] by (simp add: en_inv_def)

text \<open>A record and its entries in the tables.\<close>

lemma tab_inv_apply:
  assumes "mem_laws lib" "tab_inv lib fb R M u e D Hs H F P" "D' = D @ [(p, r)]"
    and "post = id \<or> post = writeNilOffset" "\<forall>i. clk i < 2 ^ 63" "\<forall>x \<in> set xs. entry_ok fb D' x \<and> fits_arena lib e x"
    and "mem_sops fb D' xs = record_sops fb D r" "length H + length xs \<le> 2 ^ 62" "e1 = e \<or> e1 = writeNilOffset e"
  shows "\<exists>e2 Hs' H'. memTableWrites lib post clk xs e1 = (e2, None)
    \<and> tab_inv lib fb R M u (writeOffset (Some p) e2) D' Hs' H' F P \<and> same_rest e e2 \<and> concat Hs' @ H' = concat Hs @ H @ xs
    \<and> length H' \<le> length H + length xs \<and> prefix Hs Hs'"
proof -
  have t: "tables_ok lib fb D e Hs H" using tab_invD(1) [OF assms(2)] .
  have "table_step lib fb D' (length F) e Hs H [] e" unfolding table_step_def
    using tables_mono(1) [OF t, of "[(p, r)]"] tables_mono(4) [OF t tab_invD(2) [OF assms(2)], of "[(p, r)]"]
    by (intro exI [of _ "[]"] exI [of _ H]) (simp add: assms(3) tables_ok_def)
  then have "table_step lib fb D' (length F) e Hs H [] e1" using assms(9) writeNilOffset_step by auto
  then obtain zs0 H0 where e1: "tables_ok lib fb D' e1 (Hs @ zs0) H0" "concat zs0 @ H0 = H"
      "offs fb D' (length F) (en_sealedMemTables e1 @ [en_activeMemTable e1]) ((Hs @ zs0) @ [H0])" "same_rest e e1"
    by (auto simp: table_step_def)
  have "length H0 \<le> length H" using arg_cong [OF e1(2), of length] by simp
  then have "length H0 + length xs \<le> 2 ^ 62" using assms(8) by simp
  moreover have "\<forall>x \<in> set xs. entry_ok fb D' x \<and> fits_arena lib e1 x"
    using assms(6) e1(4) by (auto simp: fits_arena_def same_rest_def)
  ultimately obtain e2 where e2: "memTableWrites lib post clk xs e1 = (e2, None)" "table_step lib fb D' (length F) e1 (Hs @ zs0) H0 xs e2"
    using memTableWrites_ok [OF assms(1,4,5) _ e1(1,3)] by blast
  then obtain zs1 H' where s2: "tables_ok lib fb D' e2 ((Hs @ zs0) @ zs1) H'" "concat zs1 @ H' = H0 @ xs"
      "offs fb D' (length F) (en_sealedMemTables e2 @ [en_activeMemTable e2]) ((Hs @ zs0) @ zs1 @ [H'])" "same_rest e1 e2"
    unfolding table_step_def by blast
  let ?Hs = "Hs @ zs0 @ zs1"
  have cat: "concat ?Hs @ H' = concat Hs @ H @ xs" using s2(2) e1(2) by (metis append.assoc concat_append)
  have short: "length H' \<le> length H + length xs" using arg_cong [OF s2(2), of length] \<open>length H0 \<le> length H\<close> by simp
  have rest: "same_rest e e2" using same_rest_trans [OF e1(4) s2(4)] .
  let ?w = "writeOffset (Some p) e2"
  have w: "en_sealedMemTables ?w = en_sealedMemTables e2" "en_activeMemTable ?w = SetOffset (Some p) (en_activeMemTable e2)"
      "en_currentOffset ?w = Some p" "en_dataStore ?w = en_dataStore e" "en_pendingMetadata ?w = en_pendingMetadata e"
    using rest by (simp_all add: writeOffset_def notifyAppend_def same_rest_def)
  have ops: "log_sops fb [] D' = F @ mem_sops fb D' (concat ?Hs @ H')"
  proof -
    have "mem_sops fb D' (concat ?Hs @ H') = mem_sops fb D' (concat Hs @ H) @ mem_sops fb D' xs" by (simp only: cat mem_sops_append(1) append.assoc)
    also have "\<dots> = mem_sops fb D (concat Hs @ H) @ record_sops fb D r" using tables_mono(2) [OF t] assms(7) by (simp add: assms(3))
    finally show ?thesis using tab_invD(3) [OF assms(2)] by (simp add: assms(3))
  qed
  have len: "length (en_sealedMemTables e2) = length ?Hs" using s2(1) list_all2_lengthD unfolding tables_ok_def by fastforce
  have "offs fb D' (length F) (en_sealedMemTables ?w @ [en_activeMemTable ?w]) (?Hs @ [H'])"
  proof -
    have "length (log_sops fb [] D') = length F + length (mem_sops fb D' (concat ?Hs)) + length (mem_sops fb D' H')"
      unfolding ops by simp
    then have "covers fb D' p (length F + length (mem_sops fb D' (concat ?Hs)) + length (mem_sops fb D' H'))"
      using covers_last [of fb D p r] by (simp add: assms(3))
    moreover have "offs fb D' (length F) (en_sealedMemTables e2) ?Hs" using s2(3) offs_snoc [OF len] by (simp add: append.assoc)
    ultimately show ?thesis unfolding w offs_snoc [OF len] by (simp add: SetOffset_def)
  qed
  moreover have "tables_ok lib fb D' ?w ?Hs H'" using s2(1) by (simp add: tables_ok_def w)
  moreover have "prefix P (mem_sops fb D' (concat ?Hs))"
    using tab_invD(4) [OF assms(2)] tables_mono(3) [OF t, of "[(p, r)]"] by (auto simp: assms(3) intro: prefix_prefix)
  moreover have "checkpoints_ok fb M D' (length F + length P) ?w"
    using checkpoints_append [OF tab_invD(6) [OF assms(2)], of "[(p, r)]"] by (simp add: checkpoints_ok_def w assms(3))
  ultimately have "tab_inv lib fb R M u ?w D' ?Hs H' F P"
    using ops tab_invD(5) [OF assms(2)] by (simp add: tab_inv_def w) (simp add: assms(3))
  moreover have "prefix Hs ?Hs" by simp
  ultimately show ?thesis using e2(1) rest cat short by blast
qed

lemma en_inv_apply:
  assumes "mem_laws lib" "en_inv lib fb R M u e L Hs H F P" "wal_ok fb w' L'" "decoded fb (wal_log L') = decoded fb (wal_log L) @ [(p, r)]"
    and "post = id \<or> post = writeNilOffset" "\<forall>i. clk i < 2 ^ 63" "\<forall>x \<in> set xs. entry_ok fb (decoded fb (wal_log L')) x \<and> fits_arena lib e x"
    and "mem_sops fb (decoded fb (wal_log L')) xs = record_sops fb (decoded fb (wal_log L)) r" "length H + length xs \<le> 2 ^ 62"
    and "e1 = e\<lparr>en_walIO := w', en_writeSeenCounter := c\<rparr> \<or> e1 = writeNilOffset (e\<lparr>en_walIO := w', en_writeSeenCounter := c\<rparr>)"
  shows "\<exists>e2 Hs' H'. memTableWrites lib post clk xs e1 = (e2, None)
    \<and> en_inv lib fb R M u (writeOffset (Some p) e2) L' Hs' H' F P \<and> same_rest (e\<lparr>en_walIO := w', en_writeSeenCounter := c\<rparr>) e2
    \<and> concat Hs' @ H' = concat Hs @ H @ xs \<and> prefix Hs Hs'"
proof -
  let ?e = "e\<lparr>en_walIO := w', en_writeSeenCounter := c\<rparr>"
  have "tab_inv lib fb R M u ?e (decoded fb (wal_log L)) Hs H F P" using assms(2) by (simp add: en_inv_def)
  moreover have "\<forall>x \<in> set xs. entry_ok fb (decoded fb (wal_log L')) x \<and> fits_arena lib ?e x" using assms(7) by (simp add: fits_arena_def)
  ultimately obtain e2 Hs' H' where e2: "memTableWrites lib post clk xs e1 = (e2, None)" "same_rest ?e e2" "concat Hs' @ H' = concat Hs @ H @ xs" "prefix Hs Hs'"
      "tab_inv lib fb R M u (writeOffset (Some p) e2) (decoded fb (wal_log L')) Hs' H' F P"
    using tab_inv_apply [OF assms(1) _ assms(4-6) _ assms(8-10)] by blast
  moreover have "en_walIO (writeOffset (Some p) e2) = w'" using e2(2) by (simp add: same_rest_def writeOffset_def notifyAppend_def)
  ultimately show ?thesis using assms(3) by (auto simp: en_inv_def)
qed

end
