(* ===== verification/EngineSteps.thy ===== *)
theory EngineSteps
  imports EngineCorrect
begin

text \<open>
  The steps of the engine keep the invariant: writes, the two parts of a flush, the checkpoint, and a restart from whatever a crash
  leaves behind.
\<close>

section \<open>Writes\<close>

text \<open>The batch methods; the others are batches of one key.\<close>

datatype engine_write =
    WPutKV "bytes list" "bytes list"
  | WDeleteKV "bytes list"
  | WPutColumns "bytes list" "columns list"
  | WDeleteColumns "bytes list" "columns list"
  | WDeleteRows "bytes list"

definition run_write ::
  "('s, 'b) mem_lib \<Rightarrow> fb_api \<Rightarrow> ioenv \<Rightarrow> (nat \<Rightarrow> u64) \<Rightarrow> u64 \<Rightarrow> engine_write \<Rightarrow> ('s, 'b, 'd) Engine \<Rightarrow> ('s, 'b, 'd) Engine \<times> error option" where
  "run_write lib fb io clk hlc w = (case w of
     WPutKV ks vs \<Rightarrow> en_BatchPutKV lib fb io clk hlc ks vs
   | WDeleteKV ks \<Rightarrow> en_BatchDeleteKV lib fb io clk hlc ks
   | WPutColumns rs css \<Rightarrow> en_PutColumnsForRows lib fb io clk hlc rs css
   | WDeleteColumns rs css \<Rightarrow> en_DeleteColumnsForRows lib fb io clk hlc rs css
   | WDeleteRows rs \<Rightarrow> en_BatchDeleteRows lib fb io clk hlc rs)"

lemma single_writes:
  "en_PutKV lib fb io clk hlc k v = run_write lib fb io clk hlc (WPutKV [k] [v])"
  "en_DeleteKV lib fb io clk hlc k = run_write lib fb io clk hlc (WDeleteKV [k])"
  "en_PutColumnsForRow lib fb io clk hlc r cs = run_write lib fb io clk hlc (WPutColumns [r] [cs])"
  "en_DeleteColumnsForRow lib fb io clk hlc r cs = run_write lib fb io clk hlc (WDeleteColumns [r] [cs])"
  "en_DeleteRow lib fb io clk hlc r = run_write lib fb io clk hlc (WDeleteRows [r])"
  by (simp_all add: run_write_def en_PutKV_def en_BatchPutKV_def en_DeleteKV_def en_BatchDeleteKV_def en_PutColumnsForRow_def
      en_PutColumnsForRows_def en_DeleteColumnsForRow_def en_DeleteColumnsForRows_def en_DeleteRow_def en_BatchDeleteRows_def)

text \<open>What a write asks of the store.\<close>

definition write_call :: "engine_write \<Rightarrow> storeCall" where
  "write_call w = (case w of
     WPutKV ks vs \<Rightarrow> CBatchSetKV (map kc_KeyKV ks) vs
   | WDeleteKV ks \<Rightarrow> CBatchDeleteKV (map kc_KeyKV ks)
   | WPutColumns rs css \<Rightarrow> CBatchSetCells (map kc_RowKey rs) css
   | WDeleteColumns rs css \<Rightarrow> CBatchDeleteCells (map kc_RowKey rs) css
   | WDeleteRows rs \<Rightarrow> CBatchDeleteRows (map kc_RowKey rs))"

text \<open>Arguments of a write: as many values as keys and at least one, row keys that are not encoded already, every column once.\<close>

definition row_names :: "bytes list \<Rightarrow> bool" where
  "row_names rs \<longleftrightarrow> (\<forall>r \<in> set rs. plain KeyTypeWideColumn r)"

definition write_ok :: "engine_write \<Rightarrow> bool" where
  "write_ok w = (case w of
     WPutKV ks vs \<Rightarrow> ks \<noteq> [] \<and> length vs = length ks
   | WDeleteKV ks \<Rightarrow> True
   | WPutColumns rs css \<Rightarrow> row_names rs \<and> length css = length rs \<and> (\<forall>cs \<in> set css. distinct (map fst cs))
   | WDeleteColumns rs css \<Rightarrow> row_names rs \<and> length css = length rs \<and> (\<forall>cs \<in> set css. distinct (map fst cs))
   | WDeleteRows rs \<Rightarrow> row_names rs)"

text \<open>The record of a write and its entries in the tables.\<close>

definition plain_record :: "u64 \<Rightarrow> u64 \<Rightarrow> LogOperationType \<Rightarrow> LogEntryType \<Rightarrow> bytes list \<Rightarrow> LogRecord" where
  "plain_record lsn hlc op et es = \<lparr>LSN = lsn, HLC = hlc, CRC32Checksum = 0, OperationType = op, TxnState = TransactionStateNone,
     EntryType = et, TxnID = [], PrevTxnWalIndex = [], Entries = es\<rparr>"

definition write_record :: "fb_api \<Rightarrow> u64 \<Rightarrow> u64 \<Rightarrow> engine_write \<Rightarrow> LogRecord" where
  "write_record fb hlc lsn w = (let kv = (\<lambda>ks vs. map (\<lambda>(k, v). SerializeKVEntry fb (kc_KeyKV k) v) (zip ks vs));
       rows = (\<lambda>rs css. map (\<lambda>(r, cs). SerializeRowUpdateEntry fb (kc_RowKey r) cs) (zip rs css)) in
     case w of
       WPutKV ks vs \<Rightarrow> plain_record lsn hlc LogOperationTypeInsert LogEntryTypeKV (kv ks vs)
     | WDeleteKV ks \<Rightarrow> plain_record lsn hlc LogOperationTypeDelete LogEntryTypeKV (kv ks (map (\<lambda>_. []) ks))
     | WPutColumns rs css \<Rightarrow> plain_record lsn hlc LogOperationTypeInsert LogEntryTypeRow (rows rs css)
     | WDeleteColumns rs css \<Rightarrow> plain_record lsn hlc LogOperationTypeDelete LogEntryTypeRow (rows rs css)
     | WDeleteRows rs \<Rightarrow> plain_record lsn hlc LogOperationTypeDeleteRowByKey LogEntryTypeRow (rows rs (map (\<lambda>_. []) rs)))"

definition write_entries :: "fb_api \<Rightarrow> engine_write \<Rightarrow> history" where
  "write_entries fb w = (let kv = (\<lambda>op ks vs. map (\<lambda>(k, v). (kc_KeyKV k, getValueStruct op LogEntryTypeKV v)) (zip ks vs));
       rows = (\<lambda>op rs css. map (\<lambda>(r, cs). (kc_RowKey r, getValueStruct op LogEntryTypeRow (SerializeRowUpdateEntry fb (kc_RowKey r) cs))) (zip rs css)) in
     case w of
       WPutKV ks vs \<Rightarrow> kv LogOperationTypeInsert ks vs
     | WDeleteKV ks \<Rightarrow> kv LogOperationTypeDelete ks (map (\<lambda>_. []) ks)
     | WPutColumns rs css \<Rightarrow> rows LogOperationTypeInsert rs css
     | WDeleteColumns rs css \<Rightarrow> rows LogOperationTypeDelete rs css
     | WDeleteRows rs \<Rightarrow> rows LogOperationTypeDeleteRowByKey rs (map (\<lambda>_. []) rs))"

definition persist ::
  "('s, 'b) mem_lib \<Rightarrow> fb_api \<Rightarrow> ioenv \<Rightarrow> (nat \<Rightarrow> u64) \<Rightarrow> LogRecord \<Rightarrow> history \<Rightarrow> ('s, 'b, 'd) Engine \<Rightarrow> ('s, 'b, 'd) Engine \<times> error option" where
  "persist lib fb io clk r xs e =
    (case wio_Append io (FBEncode fb r) (en_walIO e) of
       (w, Inl err) \<Rightarrow> (e\<lparr>en_writeSeenCounter := LSN r, en_walIO := w\<rparr>, Some err)
     | (w, Inr offset) \<Rightarrow>
       (case memTableWrites lib id clk xs (e\<lparr>en_writeSeenCounter := LSN r, en_walIO := w\<rparr>) of
          (e, Some err) \<Rightarrow> (e, Some err)
        | (e, None) \<Rightarrow> (writeOffset (Some offset) e, None)))"

lemma persistKeyValue_persist:
  assumes "\<not> ec_ReadOnly (en_config e)" "op \<noteq> LogOperationTypeDelete \<longrightarrow> length vs = length ks"
  shows "persistKeyValue lib fb io clk hlc ks vs op e = (let vs = (if op = LogOperationTypeDelete then map (\<lambda>_. []) ks else vs) in
    persist lib fb io clk (plain_record (en_writeSeenCounter e + 1) hlc op LogEntryTypeKV (map (\<lambda>(k, v). SerializeKVEntry fb k v) (zip ks vs)))
      (map (\<lambda>(k, v). (k, getValueStruct op LogEntryTypeKV v)) (zip ks vs)) e)"
  using assms by (simp add: persistKeyValue_def persist_def plain_record_def Let_def)

lemma persistRowColumnAction_persist:
  assumes "\<not> ec_ReadOnly (en_config e)" "op \<noteq> LogOperationTypeDeleteRowByKey \<longrightarrow> length css = length rs"
  shows "persistRowColumnAction lib fb io clk hlc op rs css e = (let css = (if op = LogOperationTypeDeleteRowByKey then map (\<lambda>_. []) rs else css) in
    persist lib fb io clk (plain_record (en_writeSeenCounter e + 1) hlc op LogEntryTypeRow (map (\<lambda>(r, cs). SerializeRowUpdateEntry fb r cs) (zip rs css)))
      (map (\<lambda>(r, cs). (r, getValueStruct op LogEntryTypeRow (SerializeRowUpdateEntry fb r cs))) (zip rs css)) e)"
proof -
  have "map (\<lambda>(k, en). (k, getValueStruct op LogEntryTypeRow en)) (zip rs (map (\<lambda>(r, cs). SerializeRowUpdateEntry fb r cs) (zip rs css)))
      = map (\<lambda>(r, cs). (r, getValueStruct op LogEntryTypeRow (SerializeRowUpdateEntry fb r cs))) (zip rs css)" for css
    by (induction rs css rule: list_induct2') auto
  then show ?thesis using assms by (simp add: persistRowColumnAction_def persist_def plain_record_def Let_def)
qed

lemma zip_keys: "map (\<lambda>(k, v). f k v) (zip (map g ks) vs) = map (\<lambda>(k, v). f (g k) v) (zip ks vs)"
  by (induction ks vs rule: list_induct2') auto

lemma run_write_persist:
  assumes "write_ok w" "\<not> en_shutdown e" "\<not> ec_ReadOnly (en_config e)"
  shows "run_write lib fb io clk hlc w e = persist lib fb io clk (write_record fb hlc (en_writeSeenCounter e + 1) w) (write_entries fb w) e"
  using assms
  by (cases w) (simp_all add: run_write_def write_ok_def write_record_def write_entries_def persistKeyValue_persist persistRowColumnAction_persist
      en_BatchPutKV_def en_BatchDeleteKV_def en_PutColumnsForRows_def en_DeleteColumnsForRows_def en_BatchDeleteRows_def guarded_def
      Let_def zip_keys comp_def)

text \<open>The record of a write means its call, and so do its entries.\<close>

lemma enc_names [simp]: "encKV (kc_KeyKV k)" "plain KeyTypeWideColumn r \<Longrightarrow> encRow (kc_RowKey r)"
  by (auto simp: encKV_def kc_same encRow_def)

lemma plain_record_fields [simp]:
  "LSN (plain_record lsn hlc op et es) = lsn" "TxnState (plain_record lsn hlc op et es) = TransactionStateNone"
  "OperationType (plain_record lsn hlc op et es) = op" "EntryType (plain_record lsn hlc op et es) = et" "Entries (plain_record lsn hlc op et es) = es"
  by (simp_all add: plain_record_def)

lemma LSN_write_record [simp]: "LSN (write_record fb hlc lsn w) = lsn" "TxnState (write_record fb hlc lsn w) = TransactionStateNone"
  by (cases w; simp add: write_record_def Let_def)+

lemma map_zip_decode:
  "length vs = length ks \<Longrightarrow> map (\<lambda>(k, v). f k) (zip ks vs) = map f ks" "length vs = length ks \<Longrightarrow> map (\<lambda>(k, v). v) (zip ks vs) = vs"
  by (induction vs ks rule: list_induct2) auto

lemma decode_kv:
  assumes "fb_laws fb" "length vs = length ks"
  shows "map (kve_Key \<circ> (DeserializeKVEntry fb \<circ> (\<lambda>(k, v). SerializeKVEntry fb (f k) v))) (zip ks vs) = map f ks"
    "map (kve_Value \<circ> (DeserializeKVEntry fb \<circ> (\<lambda>(k, v). SerializeKVEntry fb (f k) v))) (zip ks vs) = vs"
  using assms(2) by (induction vs ks rule: list_induct2) (simp_all add: assms(1))

lemma decode_rows:
  assumes "fb_laws fb" "length css = length rs" "\<forall>cs \<in> set css. distinct (map fst cs)"
  shows "map (re_Key \<circ> (DeserializeRowUpdateEntry fb \<circ> (\<lambda>(r, cs). SerializeRowUpdateEntry fb (f r) cs))) (zip rs css) = map f rs"
    "map (re_Columns \<circ> (DeserializeRowUpdateEntry fb \<circ> (\<lambda>(r, cs). SerializeRowUpdateEntry fb (f r) cs))) (zip rs css) = css"
  using assms(2,3) by (induction css rs rule: list_induct2) (simp_all add: assms(1))

lemma write_record_call:
  assumes "fb_laws fb" "write_ok w"
  shows "record_call fb D (write_record fb hlc lsn w) = Some (write_call w)"
  using assms(2)
  by (cases w) (simp_all add: decode_kv [OF assms(1)] decode_rows [OF assms(1)] record_call_def entries_call_def write_record_def write_call_def write_ok_def Let_def)

lemma write_engine_call: "write_ok w \<Longrightarrow> engine_call (write_call w)"
  by (cases w) (auto simp: write_ok_def write_call_def engine_call_def call_ok_def valid_args_def row_names_def list_all_iff dest!: set_zip_leftD)

lemma write_entries_ok:
  assumes "write_ok w" shows "\<forall>x \<in> set (write_entries fb w). entry_ok fb D x"
  using assms
  by (cases w) (auto simp: write_ok_def write_entries_def entry_ok_def row_names_def Let_def dest!: set_zip_leftD)

lemma write_entries_sops:
  assumes "fb_laws fb" "write_ok w"
  shows "mem_sops fb D (write_entries fb w) = call_sops (write_call w)"
proof -
  have kv: "length vs = length ks \<Longrightarrow> mem_sops fb D (map (\<lambda>(k, v). (kc_KeyKV k, getValueStruct LogOperationTypeInsert LogEntryTypeKV v)) (zip ks vs))
      = map (\<lambda>(k, v). PutKV k v) (zip (map kc_KeyKV ks) vs)" for ks and vs :: "bytes list"
    by (induction vs ks rule: list_induct2) (auto simp: mem_call_def)
  have del: "mem_sops fb D (map (\<lambda>(k, v). (kc_KeyKV k, getValueStruct LogOperationTypeDelete LogEntryTypeKV v)) (zip ks (map (\<lambda>_. []) ks)))
      = map DelKV (map kc_KeyKV ks)" for ks
    by (induction ks) (auto simp: mem_call_def)
  have put: "length css = length rs \<Longrightarrow> \<forall>cs \<in> set css. distinct (map fst cs) \<Longrightarrow>
      mem_sops fb D (map (\<lambda>(r, cs). (kc_RowKey r, getValueStruct LogOperationTypeInsert LogEntryTypeRow (SerializeRowUpdateEntry fb (kc_RowKey r) cs))) (zip rs css))
      = map (\<lambda>(r, cs). SetCells r cs) (zip (map kc_RowKey rs) css)" for rs and css :: "columns list"
    by (induction css rs rule: list_induct2) (auto simp: mem_call_def assms(1))
  have dc: "length css = length rs \<Longrightarrow> \<forall>cs \<in> set css. distinct (map fst cs) \<Longrightarrow>
      mem_sops fb D (map (\<lambda>(r, cs). (kc_RowKey r, getValueStruct LogOperationTypeDelete LogEntryTypeRow (SerializeRowUpdateEntry fb (kc_RowKey r) cs))) (zip rs css))
      = map (\<lambda>(r, cs). DelCells r (map fst cs)) (zip (map kc_RowKey rs) css)" for rs and css :: "columns list"
    by (induction css rs rule: list_induct2) (auto simp: mem_call_def assms(1))
  have dr: "mem_sops fb D (map (\<lambda>(r, cs). (kc_RowKey r, getValueStruct LogOperationTypeDeleteRowByKey LogEntryTypeRow (SerializeRowUpdateEntry fb (kc_RowKey r) cs)))
      (zip rs (map (\<lambda>_. []) rs))) = map DelRow (map kc_RowKey rs)" for rs
    by (induction rs) (auto simp: mem_call_def)
  show ?thesis using assms(2) kv del put dc dr by (cases w) (simp_all add: write_entries_def write_call_def write_ok_def Let_def)
qed

text \<open>What a record and its entries need: system calls that succeed, an identifier for another segment, a segment and an arena that are large
  enough, and a clock before the year 2262.\<close>

definition room :: "('s, 'b) mem_lib \<Rightarrow> fb_api \<Rightarrow> ioenv \<Rightarrow> (nat \<Rightarrow> u64) \<Rightarrow> ('s, 'b, 'd) Engine \<Rightarrow> layout \<Rightarrow> nat \<Rightarrow> LogRecord \<Rightarrow> history \<Rightarrow> bool" where
  "room lib fb io clk e L n r xs \<longleftrightarrow> all_ok io \<and> unat (fst (last L)) + 1 < 2 ^ 32 \<and> fits (en_walIO e) (FBEncode fb r)
    \<and> (\<forall>i. clk i < 2 ^ 63) \<and> (\<forall>x \<in> set xs. fits_arena lib e x) \<and> n + length xs \<le> 2 ^ 62"

definition view_of :: "fb_api \<Rightarrow> ustore \<Rightarrow> layout \<Rightarrow> ustore" where
  "view_of fb u L = fold apply_sop (log_sops fb [] (decoded fb (wal_log L))) u"

lemma view_of_snoc: "decoded fb (wal_log L') = decoded fb (wal_log L) @ [(p, r)] \<Longrightarrow>
    view_of fb u L' = fold apply_sop (record_sops fb (decoded fb (wal_log L)) r) (view_of fb u L)"
  by (simp add: view_of_def)

text \<open>The fields a write leaves alone.\<close>

definition kept :: "('s, 'b, 'd) Engine \<Rightarrow> ('s, 'b, 'd) Engine \<Rightarrow> bool" where
  "kept e e' \<longleftrightarrow> en_opsFlushedCounter e' = en_opsFlushedCounter e \<and> en_dataStore e' = en_dataStore e \<and> en_config e' = en_config e
    \<and> en_pendingMetadata e' = en_pendingMetadata e \<and> en_shutdown e' = en_shutdown e \<and> en_flushPaused e' = en_flushPaused e
    \<and> wl_maxSegmentSize (wio_appendLog (en_walIO e')) = wl_maxSegmentSize (wio_appendLog (en_walIO e))"

lemma writeOffset_fields [simp]:
  "en_opsFlushedCounter (writeOffset p e) = en_opsFlushedCounter e" "en_dataStore (writeOffset p e) = en_dataStore e"
  "en_config (writeOffset p e) = en_config e" "en_pendingMetadata (writeOffset p e) = en_pendingMetadata e"
  "en_shutdown (writeOffset p e) = en_shutdown e" "en_flushPaused (writeOffset p e) = en_flushPaused e" "en_walIO (writeOffset p e) = en_walIO e"
  "en_writeSeenCounter (writeOffset p e) = en_writeSeenCounter e" "en_currentOffset (writeOffset (Some q) e) = Some q"
  "\<not> ec_CoalescingEnabled (en_config e) \<Longrightarrow> en_appendNotify (writeOffset (Some q) e) = en_appendNotify e + 1"
  by (simp_all add: writeOffset_def notifyAppend_def)

lemma persist_ok:
  assumes "fb_laws fb" "mem_laws lib" "en_inv lib fb R M u e L Hs H F P" "room lib fb io clk e L (length H) r xs"
    and "link_ok (decoded fb (wal_log L)) r" "record_ok fb (decoded fb (wal_log L)) r" "LSN r = en_writeSeenCounter e + 1"
    and "\<And>p. p \<notin> fst ` set (decoded fb (wal_log L)) \<Longrightarrow> is_int64 (Offset p) \<Longrightarrow>
      (\<forall>x \<in> set xs. entry_ok fb (decoded fb (wal_log L) @ [(p, r)]) x)
      \<and> mem_sops fb (decoded fb (wal_log L) @ [(p, r)]) xs = record_sops fb (decoded fb (wal_log L)) r"
  shows "\<exists>e' L' Hs' H' p. persist lib fb io clk r xs e = (e', None) \<and> en_inv lib fb R M u e' L' Hs' H' F P
    \<and> decoded fb (wal_log L') = decoded fb (wal_log L) @ [(p, r)] \<and> concat Hs' @ H' = concat Hs @ H @ xs \<and> prefix Hs Hs' \<and> kept e e'
    \<and> en_writeSeenCounter e' = LSN r \<and> en_currentOffset e' = Some p
    \<and> (\<not> ec_CoalescingEnabled (en_config e) \<longrightarrow> en_appendNotify e' = en_appendNotify e + 1)"
proof -
  have r: "all_ok io" "unat (fst (last L)) + 1 < 2 ^ 32" "fits (en_walIO e) (FBEncode fb r)" "\<forall>i. clk i < 2 ^ 63"
      "\<forall>x \<in> set xs. fits_arena lib e x" "length H + length xs \<le> 2 ^ 62"
    using assms(4) by (auto simp: room_def)
  obtain w' L' p where w': "wio_Append io (FBEncode fb r) (en_walIO e) = (w', Inr p)" "wal_ok fb w' L'"
      "decoded fb (wal_log L') = decoded fb (wal_log L) @ [(p, r)]" "p \<notin> fst ` set (decoded fb (wal_log L))" "is_int64 (Offset p)"
      "same_config (wio_appendLog (en_walIO e)) (wio_appendLog w')"
    using log_append [OF assms(1) en_invD(1) [OF assms(3)] r(1-3) assms(5,6)] by blast
  note xs = assms(8) [OF w'(4,5)]
  have ok: "\<forall>x \<in> set xs. entry_ok fb (decoded fb (wal_log L')) x \<and> fits_arena lib e x" "mem_sops fb (decoded fb (wal_log L')) xs = record_sops fb (decoded fb (wal_log L)) r"
    using xs r(5) by (simp_all add: w'(3))
  let ?e1 = "e\<lparr>en_walIO := w', en_writeSeenCounter := LSN r\<rparr>"
  have eq: "e\<lparr>en_writeSeenCounter := LSN r, en_walIO := w'\<rparr> = ?e1" by simp
  from en_inv_apply [OF assms(2,3) w'(2,3) disjI1 [OF refl] r(4) ok r(6) disjI1 [OF refl], of "LSN r"] obtain e2 Hs' H' where
    e2: "memTableWrites lib id clk xs ?e1 = (e2, None)" "en_inv lib fb R M u (writeOffset (Some p) e2) L' Hs' H' F P" "same_rest ?e1 e2"
      "concat Hs' @ H' = concat Hs @ H @ xs" "prefix Hs Hs'" by blast
  have run: "persist lib fb io clk r xs e = (writeOffset (Some p) e2, None)" using w'(1) e2(1) by (simp add: persist_def eq)
  have rest: "en_writeSeenCounter e2 = LSN r" "en_walIO e2 = w'" "en_opsFlushedCounter e2 = en_opsFlushedCounter e" "en_dataStore e2 = en_dataStore e"
      "en_config e2 = en_config e" "en_pendingMetadata e2 = en_pendingMetadata e" "en_shutdown e2 = en_shutdown e" "en_flushPaused e2 = en_flushPaused e"
      "en_appendNotify e2 = en_appendNotify e"
    using e2(3) by (simp_all add: same_rest_def)
  have "kept e (writeOffset (Some p) e2)" using w'(6) by (simp add: kept_def rest same_config_def)
  then show ?thesis using run e2(2,4,5) w'(3) rest by (intro exI conjI) (assumption | simp)+
qed

lemma run_write_ok:
  assumes "fb_laws fb" "mem_laws lib" "en_inv lib fb R M u e L Hs H F P" "write_ok w" "\<not> en_shutdown e" "\<not> ec_ReadOnly (en_config e)"
    and "r = write_record fb hlc (en_writeSeenCounter e + 1) w" "room lib fb io clk e L (length H) r (write_entries fb w)"
  shows "\<exists>e' L' Hs' H' p. run_write lib fb io clk hlc w e = (e', None) \<and> en_inv lib fb R M u e' L' Hs' H' F P
    \<and> decoded fb (wal_log L') = decoded fb (wal_log L) @ [(p, r)] \<and> concat Hs' @ H' = concat Hs @ H @ write_entries fb w \<and> prefix Hs Hs' \<and> kept e e'
    \<and> en_writeSeenCounter e' = LSN r \<and> en_currentOffset e' = Some p
    \<and> (\<not> ec_CoalescingEnabled (en_config e) \<longrightarrow> en_appendNotify e' = en_appendNotify e + 1)"
proof -
  have "link_ok (decoded fb (wal_log L)) r" by (simp add: assms(7) link_ok_def)
  moreover have "record_ok fb (decoded fb (wal_log L)) r"
    using write_record_call [OF assms(1,4)] write_engine_call [OF assms(4)] by (simp add: record_ok_def assms(7))
  moreover have "LSN r = en_writeSeenCounter e + 1" by (simp add: assms(7))
  moreover have "record_sops fb D r = call_sops (write_call w)" for D
    using write_record_call [OF assms(1,4)] by (simp add: record_sops_def assms(7))
  ultimately show ?thesis
    unfolding run_write_persist [OF assms(4-6)] assms(7) [symmetric]
    using write_entries_ok [OF assms(4)] write_entries_sops [OF assms(1,4)] by (intro persist_ok [OF assms(1-3,8)]) auto
qed

lemma write_sops:
  assumes "fb_laws fb" "write_ok w" shows "record_sops fb D (write_record fb hlc lsn w) = call_sops (write_call w)"
  using write_record_call [OF assms] by (simp add: record_sops_def)

section \<open>Flushing and checkpoints\<close>

lemma checkpoints_mono: "checkpoints_ok fb M D n e \<Longrightarrow> n \<le> m \<Longrightarrow> checkpoints_ok fb M D m e"
  unfolding checkpoints_ok_def using covers_mono by blast

lemma dropTable_ok:
  assumes "en_inv lib fb R M u e L (H1 # Hs) H F (mem_sops fb (decoded fb (wal_log L)) H1)"
  shows "en_inv lib fb R M u (dropTable e) L Hs H (F @ mem_sops fb (decoded fb (wal_log L)) H1) []"
proof -
  let ?D = "decoded fb (wal_log L)"
  have t: "tables_ok lib fb ?D e (H1 # Hs) H" using en_invD(2) [OF assms] .
  then obtain t1 ts where ts: "en_sealedMemTables e = t1 # ts" "list_all2 (mt_inv lib) ts Hs" by (auto simp: tables_ok_def list_all2_Cons2)
  have f: "en_sealedMemTables (dropTable e) = ts" "en_activeMemTable (dropTable e) = en_activeMemTable e" "en_dataStore (dropTable e) = en_dataStore e"
      "en_walIO (dropTable e) = en_walIO e" "en_pendingMetadata (dropTable e) = en_pendingMetadata e" "en_currentOffset (dropTable e) = en_currentOffset e"
    by (simp_all add: dropTable_def Let_def ts)
  show ?thesis using en_invD(1,3-8) [OF assms] t ts unfolding en_inv_def tab_inv_def Let_def
    by (simp add: f tables_ok_def checkpoints_ok_def)
qed

lemma wal_active_reads:
  assumes "wal_inv w L" "wal_active w" "reads_only L w w'" "wal_inv w' L"
  shows "wal_active w'"
proof -
  obtain cid s where c: "current w' = Some (cid, s)" "wl_heap w' cid = Some s" using assms(4) by (rule wal_inv_snoc)
  have cur: "wl_currentSegment w' = Some cid" "cid = fst (last L)"
    using c(1) assms(4) by (auto simp: current_def wal_inv_def split: option.splits)
  obtain s0 where s0: "current w = Some (cid, s0)" "\<not> seg_isSealed s0"
    using assms(1,2) cur(2) by (auto simp: wal_active_def current_def wal_inv_def split: option.splits)
  have "wl_heap w cid = Some s0" using s0(1) by (auto simp: current_def split: option.splits)
  then have "\<not> sealed_in w cid" using s0(2) by (simp add: sealed_in_def)
  moreover have "last L \<in> set L" using assms(4) by (simp add: wal_inv_def)
  ultimately have "\<not> sealed_in w' cid" using assms(3) cur(2) unfolding reads_only_def by metis
  then show ?thesis using c by (simp add: wal_active_def sealed_in_def)
qed

lemma newEngine_fields [simp]:
  "en_writeSeenCounter (newEngine lib conf w d) = 0" "en_opsFlushedCounter (newEngine lib conf w d) = 0" "en_dataStore (newEngine lib conf w d) = d"
  "en_walIO (newEngine lib conf w d) = w" "en_sealedMemTables (newEngine lib conf w d) = []"
  "en_activeMemTable (newEngine lib conf w d) = NewMemTable lib (ec_ArenaSize conf)" "en_pendingMetadata (newEngine lib conf w d) = []"
  "en_fsyncReqSignal (newEngine lib conf w d) = 0" "en_shutdown (newEngine lib conf w d) = False" "en_flushPaused (newEngine lib conf w d) = False"
  "en_config (newEngine lib conf w d) = conf"
  by (simp_all add: newEngine_def)

text \<open>The store after a crash: what it holds differs from the log up to the checkpoint only where the rest of the log writes.\<close>

lemma crash_store:
  assumes "prefix Q (log_sops fb [] D)" "D = es @ T" "length (log_sops fb [] es) \<le> length Q" "last_writer (log_sops fb es T) l = None"
  shows "same_at l (fold apply_sop Q u) (fold apply_sop (log_sops fb [] es) u)"
proof -
  obtain S where S: "log_sops fb [] es @ log_sops fb es T = Q @ S" using assms(1,2) by (auto simp: prefix_def)
  define Q' where "Q' = drop (length (log_sops fb [] es)) Q"
  have Q: "Q = log_sops fb [] es @ Q'" using S assms(3) unfolding Q'_def by (metis append_eq_append_conv_if append_take_drop_id)
  then have "log_sops fb es T = Q' @ S" using S by simp
  then have "last_writer Q' l = None" using assms(4) by (simp add: last_writer_None)
  then have "same_at l (fold apply_sop Q' (fold apply_sop (log_sops fb [] es) u)) (fold apply_sop (log_sops fb [] es) u)"
    using last_writer_effect [of l Q'] by (metis option.case(1))
  then show ?thesis by (simp add: Q)
qed

lemma recover_engine:
  assumes "(case bt_RetrieveMetadata bt SysKeyWalCheckPoint d of Inl err \<Rightarrow> if errors_Is err ErrKeyNotFound then Inr [] else Inl err | Inr data \<Rightarrow> Inr data) = Inr cp"
    and "recoverWAL io fb bt cp (NewWalRecovery d w) = Some (wr, None)"
  shows "\<exists>e2. en_recoverWAL io fb bt ((newEngine lib conf w d)\<lparr>en_startMetadata := fst c, en_writeSeenCounter := snd c, en_opsFlushedCounter := snd c\<rparr>) = Some (e2, None)
    \<and> en_sealedMemTables e2 = [] \<and> en_activeMemTable e2 = NewMemTable lib (ec_ArenaSize conf) \<and> en_dataStore e2 = wre_store wr \<and> en_walIO e2 = wre_walIO wr
    \<and> en_config e2 = conf \<and> \<not> en_shutdown e2 \<and> \<not> en_flushPaused e2
    \<and> (\<forall>fm \<in> set (en_pendingMetadata e2). Pos (fm_metadata fm) = wre_lastRecoveredPos wr)
    \<and> en_currentOffset e2 = (if wre_lastRecoveredPos wr \<noteq> None then wre_lastRecoveredPos wr
        else if cp \<noteq> [] then (case UnmarshalMetadata cp of Inl _ \<Rightarrow> None | Inr md \<Rightarrow> Pos md) else None)
    \<and> en_recoveredEntriesCount e2 = wre_recoveredCount wr \<and> en_writeSeenCounter e2 = snd c + word_of_nat (wre_recoveredCount wr)"
  using assms by (cases "0 < wre_recoveredCount wr") (simp_all add: en_recoverWAL_def Let_def queueMetadata_def)

context btree_store
begin

lemma flushTable_ok:
  assumes "mem_laws lib" "en_inv lib fb R M u e L Hs H F []" "en_sealedMemTables e = mt # ts"
    and "\<forall>i. ctx i = None" "\<forall>rs. distinct rs \<longrightarrow> distinct (order rs) \<and> set (order rs) = set rs"
  shows "\<exists>e' H1 Hs'. flushTable lib fb bt ctx order mt e = Some (e', None) \<and> Hs = H1 # Hs'
    \<and> en_inv lib fb R M u e' L Hs H F (mem_sops fb (decoded fb (wal_log L)) H1)
    \<and> en_config e' = en_config e \<and> en_shutdown e' = en_shutdown e \<and> en_flushPaused e' = en_flushPaused e \<and> en_walIO e' = en_walIO e
    \<and> en_writeSeenCounter e' = en_writeSeenCounter e"
proof -
  let ?D = "decoded fb (wal_log L)"
  have t: "tables_ok lib fb ?D e Hs H" using en_invD(2) [OF assms(2)] .
  then obtain H1 Hs' where Hs: "Hs = H1 # Hs'" "mt_inv lib mt H1" "list_all2 (mt_inv lib) ts Hs'" by (auto simp: tables_ok_def assms(3) list_all2_Cons1)
  have ok: "\<forall>x \<in> set H1. entry_ok fb ?D x" using t by (auto simp: tables_ok_def Hs(1))
  have d: "R (en_dataStore e) (fold apply_sop F u)" using en_invD(6) [OF assms(2)] by simp
  obtain d' n where fl: "mt_Flush lib fb bt (en_walIO e) ctx order mt (en_dataStore e) = Some (d', mt\<lparr>mt_chunkedFlushed := n\<rparr>, Inr (mt_offsetCount mt + n))"
      "R d' (fold apply_sop (mem_sops fb ?D H1) (fold apply_sop F u))" "M d' = M (en_dataStore e)"
    using mt_Flush_ok [OF assms(1) Hs(2) ok wal_okD(1,3) [OF en_invD(1) [OF assms(2)]] d assms(4,5)] by blast
  let ?mt = "mt\<lparr>mt_chunkedFlushed := n\<rparr>"
  let ?fl = "en_opsFlushedCounter e + word_of_nat (mt_offsetCount mt + n)"
  let ?e = "e\<lparr>en_dataStore := d', en_sealedMemTables := ?mt # ts, en_opsFlushedCounter := ?fl,
      en_pendingMetadata := en_pendingMetadata e @ [\<lparr>fm_metadata = \<lparr>RecordProcessed = ?fl, Pos = mt_lastOffset mt\<rparr>,
        fm_recordProcessed = mt_offsetCount mt + n, fm_bytesFlushed = mt_bytesStored mt\<rparr>]\<rparr>"
  have run: "flushTable lib fb bt ctx order mt e = Some (?e, None)" using fl(1) by (simp add: flushTable_def Let_def assms(3))
  have o1: "offs fb ?D (length F) ((mt # ts) @ [en_activeMemTable e]) ((H1 # Hs') @ [H])" using en_invD(3) [OF assms(2)] by (simp add: assms(3) Hs(1))
  then have cov: "covers fb ?D p (length F + length (mem_sops fb ?D H1))" if "mt_lastOffset mt = Some p" for p using that by simp
  have "checkpoints_ok fb M ?D (length F + length (mem_sops fb ?D H1)) ?e"
    using checkpoints_mono [OF en_invD(7) [OF assms(2)], of "length F + length (mem_sops fb ?D H1)"] cov fl(3)
    by (auto simp: checkpoints_ok_def)
  moreover have "tables_ok lib fb ?D ?e Hs H" using t Hs by (simp add: tables_ok_def)
  ultimately have "en_inv lib fb R M u ?e L Hs H F (mem_sops fb ?D H1)"
    using en_invD(1,4,8) [OF assms(2)] o1 fl(2) by (simp add: en_inv_def tab_inv_def Let_def Hs(1))
  then show ?thesis using run Hs(1) by auto
qed

lemma fSyncStore_ok:
  assumes "en_inv lib fb R M u e L Hs H F P" "\<forall>d. bt_FSync bt d = None"
    and "en_pendingMetadata e \<noteq> [] \<longrightarrow> Pos (fm_metadata (last (en_pendingMetadata e))) \<noteq> None"
  shows "\<exists>e'. fSyncStore bt e = (e', None) \<and> en_inv lib fb R M u e' L Hs H F P \<and> en_config e' = en_config e \<and> en_shutdown e' = en_shutdown e
    \<and> en_flushPaused e' = en_flushPaused e \<and> en_walIO e' = en_walIO e \<and> en_writeSeenCounter e' = en_writeSeenCounter e"
proof (cases "en_flushPaused e \<or> en_pendingMetadata e = []")
  case True
  then have "fSyncStore bt e = (e, None)" by (auto simp: fSyncStore_def dequeueAllMetadata_def)
  then show ?thesis using assms(1) by auto
next
  case False
  let ?D = "decoded fb (wal_log L)" and ?md = "fm_metadata (last (en_pendingMetadata e))"
  obtain p where p: "Pos ?md = Some p" using assms(3) False by auto
  have d: "R (en_dataStore e) (fold apply_sop (F @ P) u)" using en_invD(6) [OF assms(1)] .
  obtain d' where d': "SaveMetadata bt (Some p) (RecordProcessed ?md) (en_dataStore e) = (d', None)" "R d' (fold apply_sop (F @ P) u)"
      "M d' = (M (en_dataStore e))(SysKeyWalCheckPoint \<mapsto> LE_PutUint64 (RecordProcessed ?md) @ rp_Encode p)"
    using SaveMetadata_ok [OF d] by blast
  let ?e = "e\<lparr>en_pendingMetadata := [], en_dataStore := d'\<rparr>"
  have run: "fSyncStore bt e = (?e, None)"
    using False d'(1) p assms(2) by (simp add: fSyncStore_def dequeueAllMetadata_def Let_def)
  have "last (en_pendingMetadata e) \<in> set (en_pendingMetadata e)" using False by simp
  then have "covers fb ?D p (length F + length P)" using en_invD(7) [OF assms(1)] p unfolding checkpoints_ok_def by blast
  then have "checkpoints_ok fb M ?D (length F + length P) ?e" using d'(3) by (auto simp: checkpoints_ok_def)
  then have "en_inv lib fb R M u ?e L Hs H F P"
    using en_invD(1-5,8) [OF assms(1)] d'(2) by (simp add: en_inv_def tab_inv_def Let_def tables_ok_def)
  then show ?thesis using run by auto
qed

text \<open>A start over the log and the store of an engine that stopped at any point.\<close>

lemma restart_ok:
  assumes "mem_laws lib" "en_inv lib fb R M u e L Hs H F P" "wal_ok fb w L" "fresh_ids (wio_appendLog w) L" "minArenaSize \<le> ec_ArenaSize conf"
  shows "\<exists>e' k es T. NewStorageEngine lib io fb bt conf (Inr True) (Inr w) (Inr (en_dataStore e)) = Some (Inr e')
    \<and> en_inv lib fb R M u e' L [] [] (log_sops fb [] (decoded fb (wal_log L))) []
    \<and> en_config e' = conf \<and> \<not> en_shutdown e' \<and> \<not> en_flushPaused e' \<and> wio_reads L w (en_walIO e')
    \<and> wal_log L = es @ T \<and> en_recoveredEntriesCount e' = recovered_count (decoded fb es) (decoded fb T)
    \<and> (M (en_dataStore e) SysKeyWalCheckPoint = None \<and> k = 0 \<or> (\<exists>p. M (en_dataStore e) SysKeyWalCheckPoint = Some (LE_PutUint64 k @ rp_Encode p)))
    \<and> en_writeSeenCounter e' = k + word_of_nat (en_recoveredEntriesCount e')"
proof -
  let ?D = "decoded fb (wal_log L)" and ?d = "en_dataStore e" and ?Q = "F @ P"
  let ?e0 = "newEngine lib conf w ?d"
  have pre: "prefix ?Q (log_sops fb [] ?D)" using en_invD(4,5) [OF assms(2)] by (auto simp: prefix_def)
  have d: "R ?d (fold apply_sop ?Q u)" using en_invD(6) [OF assms(2)] .
  have init: "initStorage lib conf (Inr True) (Inr w) (Inr ?d) = Inr ?e0" using assms(5) by (simp add: initStorage_def)
  define cp where "cp = (case M ?d SysKeyWalCheckPoint of None \<Rightarrow> [] | Some cp \<Rightarrow> cp)"
  have cps: "\<exists>es T c. wal_log L = es @ T \<and> (cp = [] \<and> es = [] \<or> (\<exists>n es0 p x. cp = LE_PutUint64 n @ rp_Encode p \<and> es = es0 @ [(p, x)] \<and> SegmentID p \<noteq> 0))
      \<and> length (log_sops fb [] (decoded fb es)) \<le> length ?Q \<and> loadMetaValues bt ?e0 = (?e0\<lparr>en_startMetadata := fst c, en_writeSeenCounter := snd c, en_opsFlushedCounter := snd c\<rparr>, None)
      \<and> (case bt_RetrieveMetadata bt SysKeyWalCheckPoint ?d of Inl err \<Rightarrow> if errors_Is err ErrKeyNotFound then Inr [] else Inl err | Inr data \<Rightarrow> Inr data) = Inr cp
      \<and> (cp \<noteq> [] \<longrightarrow> (\<exists>md p. UnmarshalMetadata cp = Inr md \<and> Pos md = Some p \<and> p \<in> fst ` set ?D))
      \<and> (M ?d SysKeyWalCheckPoint = None \<and> snd c = 0 \<or> (\<exists>p. M ?d SysKeyWalCheckPoint = Some (LE_PutUint64 (snd c) @ rp_Encode p)))"
  proof (cases "M ?d SysKeyWalCheckPoint")
    case None
    then have get: "bt_RetrieveMetadata bt SysKeyWalCheckPoint ?d = Inl ErrKeyNotFound" using get_meta [OF d] by simp
    then have "loadMetaValues bt ?e0 = (?e0\<lparr>en_startMetadata := \<lparr>RecordProcessed = 0, Pos = None\<rparr>, en_writeSeenCounter := 0, en_opsFlushedCounter := 0\<rparr>, None)"
      by (simp add: loadMetaValues_def newEngine_def)
    then show ?thesis using get None
      by (intro exI [of _ "[]"] exI [of _ "wal_log L"] exI [of _ "(\<lparr>RecordProcessed = 0, Pos = None\<rparr>, 0)"]) (simp add: cp_def)
  next
    case (Some c)
    then obtain k p where c: "c = LE_PutUint64 k @ rp_Encode p" "covers fb ?D p (length ?Q)"
      using en_invD(7) [OF assms(2)] by (auto simp: checkpoints_ok_def)
    then obtain es0 x es1 where es: "?D = es0 @ (p, x) # es1" "length (log_sops fb [] (es0 @ [(p, x)])) \<le> length ?Q" by (auto simp: covers_def)
    then obtain ws0 y ws1 where ws: "wal_log L = ws0 @ (p, y) # ws1" "decoded fb ws0 = es0" "DeserializeLogRecord fb y = x"
      by (auto simp: decoded_def map_eq_append_conv map_eq_Cons_conv)
    have int: "is_int64 (Offset p)" using wal_log_int64 [OF wal_okD(1) [OF assms(3)], of p y] by (simp add: ws(1))
    have get: "bt_RetrieveMetadata bt SysKeyWalCheckPoint ?d = Inr c" using get_meta [OF d] Some by simp
    have un: "UnmarshalMetadata c = Inr \<lparr>RecordProcessed = k, Pos = Some p\<rparr>" using Unmarshal_Marshal [OF int] by (simp add: c(1))
    have "SegmentID p \<noteq> 0" by (rule wal_ok_segment [OF assms(3)]) (simp add: ws(1))
    moreover have "length (log_sops fb [] (decoded fb (ws0 @ [(p, y)]))) \<le> length ?Q" using es(2) ws(2,3) by simp
    moreover have "loadMetaValues bt ?e0 = (?e0\<lparr>en_startMetadata := \<lparr>RecordProcessed = k, Pos = Some p\<rparr>, en_writeSeenCounter := k, en_opsFlushedCounter := k\<rparr>, None)"
      using get un by (simp add: loadMetaValues_def)
    moreover have "p \<in> fst ` set ?D" by (simp add: es(1))
    ultimately show ?thesis using get un c(1) Some ws(1)
      by (intro exI [of _ "ws0 @ [(p, y)]"] exI [of _ ws1] exI [of _ "(\<lparr>RecordProcessed = k, Pos = Some p\<rparr>, k)"]) (auto simp: cp_def)
  qed
  then obtain es T c where cp: "wal_log L = es @ T" "cp = [] \<and> es = [] \<or> (\<exists>n es0 p x. cp = LE_PutUint64 n @ rp_Encode p \<and> es = es0 @ [(p, x)] \<and> SegmentID p \<noteq> 0)"
      "length (log_sops fb [] (decoded fb es)) \<le> length ?Q"
      "loadMetaValues bt ?e0 = (?e0\<lparr>en_startMetadata := fst c, en_writeSeenCounter := snd c, en_opsFlushedCounter := snd c\<rparr>, None)"
      "(case bt_RetrieveMetadata bt SysKeyWalCheckPoint ?d of Inl err \<Rightarrow> if errors_Is err ErrKeyNotFound then Inr [] else Inl err | Inr data \<Rightarrow> Inr data) = Inr cp"
      "cp \<noteq> [] \<longrightarrow> (\<exists>md p. UnmarshalMetadata cp = Inr md \<and> Pos md = Some p \<and> p \<in> fst ` set ?D)"
      "M ?d SysKeyWalCheckPoint = None \<and> snd c = 0 \<or> (\<exists>p. M ?d SysKeyWalCheckPoint = Some (LE_PutUint64 (snd c) @ rp_Encode p))" by blast
  let ?e1 = "?e0\<lparr>en_startMetadata := fst c, en_writeSeenCounter := snd c, en_opsFlushedCounter := snd c\<rparr>"
  have rec: "recoverable fb (decoded fb es) (decoded fb T)" using wal_okD(4) [OF assms(3)] by (simp add: cp(1))
  obtain wr where wr: "recoverWAL io fb bt cp (NewWalRecovery ?d w) = Some (wr, None)"
      "R (wre_store wr) (fold apply_sop (log_sops fb (decoded fb es) (decoded fb T)) (fold apply_sop ?Q u))" "M (wre_store wr) = M ?d"
      "wal_inv (wio_appendLog (wre_walIO wr)) L" "wio_reads L w (wre_walIO wr)" "wre_recoveredCount wr = recovered_count (decoded fb es) (decoded fb T)"
      "wre_lastRecoveredPos wr = (if T = [] then None else Some (fst (last T)))"
    using recoverWAL_ok [OF wal_okD(1) [OF assms(3)] assms(4) wal_okD(3) [OF assms(3)] d cp(2,1) rec] by blast
  have st: "fold apply_sop (log_sops fb (decoded fb es) (decoded fb T)) (fold apply_sop ?Q u) = view_of fb u L"
  proof -
    have "fold apply_sop (log_sops fb (decoded fb es) (decoded fb T)) (fold apply_sop ?Q u)
        = fold apply_sop (log_sops fb (decoded fb es) (decoded fb T)) (fold apply_sop (log_sops fb [] (decoded fb es)) u)"
      using crash_store [OF pre, of "decoded fb es" "decoded fb T"] cp(1,3) by (intro replay) simp
    then show ?thesis by (simp add: view_of_def cp(1))
  qed
  have lastp: "q \<in> fst ` set ?D \<and> covers fb ?D q (length (log_sops fb [] ?D))" if q: "wre_lastRecoveredPos wr = Some q" for q
  proof -
    have T: "T \<noteq> []" "q = fst (last T)" using q wr(7) by (auto split: if_splits)
    then obtain T0 y where "T = T0 @ [(q, y)]" by (metis append_butlast_last_id prod.collapse)
    then have "?D = decoded fb (es @ T0) @ [(q, DeserializeLogRecord fb y)]" by (simp add: cp(1))
    then show ?thesis using covers_last [of fb "decoded fb (es @ T0)" q "DeserializeLogRecord fb y"] by simp
  qed
  have act: "wal_ok fb (wre_walIO wr) L"
    using assms(3) wr(4,5) wal_active_reads [of "wio_appendLog w" L "wio_appendLog (wre_walIO wr)"] by (auto simp: wal_ok_def wio_reads_def)
  obtain e2 where e2: "en_recoverWAL io fb bt ?e1 = Some (e2, None)" "en_sealedMemTables e2 = []" "en_activeMemTable e2 = NewMemTable lib (ec_ArenaSize conf)"
      "en_dataStore e2 = wre_store wr" "en_walIO e2 = wre_walIO wr" "en_config e2 = conf" "\<not> en_shutdown e2" "\<not> en_flushPaused e2"
      "\<forall>fm \<in> set (en_pendingMetadata e2). Pos (fm_metadata fm) = wre_lastRecoveredPos wr"
      "en_currentOffset e2 = (if wre_lastRecoveredPos wr \<noteq> None then wre_lastRecoveredPos wr
        else if cp \<noteq> [] then (case UnmarshalMetadata cp of Inl _ \<Rightarrow> None | Inr md \<Rightarrow> Pos md) else None)"
      "en_recoveredEntriesCount e2 = wre_recoveredCount wr" "en_writeSeenCounter e2 = snd c + word_of_nat (wre_recoveredCount wr)"
    using recover_engine [OF cp(5), where io = io and fb = fb and w = w and c = c and wr = wr and lib = lib and conf = conf] wr(1) by blast
  have cur: "q \<in> fst ` set ?D" if "en_currentOffset e2 = Some q" for q
    using that e2(10) cp(6) lastp by (auto split: if_splits intro: rev_image_eqI)
  have "checkpoints_ok fb M ?D (length (log_sops fb [] ?D)) e2"
  proof -
    have "checkpoints_ok fb M ?D (length (log_sops fb [] ?D)) e"
      using checkpoints_mono [OF en_invD(7) [OF assms(2)]] prefix_length_le [OF pre] by simp
    then show ?thesis using e2(4,9) lastp wr(3) by (auto simp: checkpoints_ok_def)
  qed
  moreover have "tables_ok lib fb ?D e2 [] []" using mt_inv_New [OF assms(1)] by (simp add: tables_ok_def e2(2,3))
  moreover have "R (en_dataStore e2) (fold apply_sop (log_sops fb [] ?D) u)" using wr(2) st by (simp add: e2(4) view_of_def)
  ultimately have "en_inv lib fb R M u e2 L [] [] (log_sops fb [] ?D) []"
    using act cur by (simp add: en_inv_def tab_inv_def Let_def e2(2,3,5) NewMemTable_def)
  moreover have "NewStorageEngine lib io fb bt conf (Inr True) (Inr w) (Inr ?d) = Some (Inr e2)"
    using init cp(4) e2(1) by (simp add: NewStorageEngine_def)
  ultimately show ?thesis using e2(5-8,11,12) wr(5,6) cp(1,7)
    by (intro exI [of _ e2] exI [of _ "snd c"] exI [of _ es] exI [of _ T]) simp
qed

end

end
