(* ===== verification/EngineReads.thy ===== *)
theory EngineReads
  imports EngineSteps
begin

text \<open>
  The reads of the engine. A read looks through the active table, the sealed tables from new to old and the store; it returns what the log
  as a whole says, whatever part of the log has been flushed.
\<close>

section \<open>Tables over the store\<close>

lemma view_tables:
  assumes "en_inv lib fb R M u e L Hs H F P"
  shows "view_of fb u L = fold apply_sop (mem_sops fb (decoded fb (wal_log L)) (concat Hs @ H)) (fold apply_sop (F @ P) u)"
proof -
  let ?ops = "mem_sops fb (decoded fb (wal_log L)) (concat Hs @ H)"
  obtain S where S: "mem_sops fb (decoded fb (wal_log L)) (concat Hs) = P @ S" using en_invD(5) [OF assms] by (auto simp: prefix_def)
  have "fold apply_sop ?ops (fold apply_sop (F @ P) u) = fold apply_sop ?ops (fold apply_sop F u)"
  proof (rule replay)
    fix l assume "last_writer ?ops l = None"
    then have "last_writer P l = None" by (simp add: last_writer_None S)
    then show "same_at l (fold apply_sop (F @ P) u) (fold apply_sop F u)"
      using last_writer_effect [of l P "fold apply_sop F u"] by simp
  qed
  then show ?thesis using en_invD(4) [OF assms] by (simp add: view_of_def)
qed

lemma value_of_append: "value_of (H @ H') k = (case value_of H' k of None \<Rightarrow> value_of H k | Some v \<Rightarrow> Some v)"
  by (cases "value_of H' k") (simp_all add: value_of_def map_add_def)

lemma rows_of_append: "rows_of (H @ H') k = rows_of H k @ rows_of H' k"
  by (simp add: rows_of_def)

lemma value_of_in: "value_of H k = Some v \<Longrightarrow> (k, v) \<in> set H"
  by (auto simp: value_of_def dest!: map_of_SomeD)

lemma entry_meta: "entry_ok fb D (k, v) \<Longrightarrow> vs_Meta v \<noteq> LogOperationTypeNoOperation"
  by (auto simp: entry_ok_def split: LogEntryType.splits)

lemma sealedGet_ok:
  assumes "mem_laws lib" "list_all2 (mt_inv lib) ts Hs" "\<forall>x \<in> set (concat Hs). entry_ok fb D x"
  shows "sealedGet lib k (rev ts) = value_of (concat Hs) k"
  using assms(2,3)
proof (induction ts arbitrary: Hs rule: rev_induct)
  case (snoc t ts)
  obtain Hs' H where Hs: "Hs = Hs' @ [H]" "list_all2 (mt_inv lib) ts Hs'" "mt_inv lib t H"
    using snoc.prems(1) by (auto simp: list_all2_append1 list_all2_Cons1)
  have "sealedGet lib k (rev ts) = value_of (concat Hs') k" using snoc.IH [OF Hs(2)] snoc.prems(2) by (auto simp: Hs(1))
  moreover have "vs_Meta v \<noteq> LogOperationTypeNoOperation" if "value_of H k = Some v" for v
    using value_of_in [OF that] snoc.prems(2) entry_meta [of fb D k v] by (auto simp: Hs(1))
  ultimately show ?case using mt_Get_ok [OF assms(1) Hs(3), of k]
    by (cases "value_of H k") (auto simp: Hs(1) value_of_append noValue_def Let_def)
qed (simp add: value_of_def)

text \<open>The newest value of a key in the tables.\<close>

lemma tables_get:
  assumes "mem_laws lib" "tables_ok lib fb D e Hs H"
  shows "(let y = mt_Get lib k (en_activeMemTable e) in if vs_Meta y \<noteq> LogOperationTypeNoOperation then Some y
      else sealedGet lib k (rev (en_sealedMemTables e))) = value_of (concat Hs @ H) k"
proof -
  have ok: "\<forall>x \<in> set (concat Hs @ H). entry_ok fb D x" using assms(2) by (simp add: tables_ok_def)
  then have s: "sealedGet lib k (rev (en_sealedMemTables e)) = value_of (concat Hs) k"
    using assms(2) by (intro sealedGet_ok [OF assms(1), of _ Hs fb D]) (auto simp: tables_ok_def)
  have "vs_Meta v \<noteq> LogOperationTypeNoOperation" if "value_of H k = Some v" for v
    using value_of_in [OF that] ok entry_meta [of fb D k v] by auto
  then show ?thesis using mt_Get_ok [OF assms(1), of "en_activeMemTable e" H k] assms(2) s
    by (cases "value_of H k") (auto simp: tables_ok_def value_of_append noValue_def Let_def)
qed

text \<open>What the last value of a key says of the state.\<close>

lemma view_value:
  assumes "en_inv lib fb R M u e L Hs H F P" "l = PlaceKV k \<and> encKV k \<or> l = PlaceLob k \<and> encBlob k"
  shows "same_at l (view_of fb u L) (case value_of (concat Hs @ H) k of None \<Rightarrow> fold apply_sop (F @ P) u
    | Some v \<Rightarrow> apply_sop (the_op fb (decoded fb (wal_log L)) (k, v)) (fold apply_sop (F @ P) u))"
proof -
  let ?D = "decoded fb (wal_log L)"
  have ok: "\<forall>x \<in> set (concat Hs @ H). entry_ok fb ?D x" using en_invD(2) [OF assms(1)] by (simp add: tables_ok_def)
  show ?thesis
    using last_writer_effect [of l "mem_sops fb ?D (concat Hs @ H)" "fold apply_sop (F @ P) u"] last_writer_value [OF ok assms(2)]
    unfolding view_tables [OF assms(1), symmetric] by (cases "value_of (concat Hs @ H) k") simp_all
qed

section \<open>Rows\<close>

definition row_step :: "fb_api \<Rightarrow> ValueStruct \<Rightarrow> (bytes \<rightharpoonup> bytes) \<Rightarrow> bytes \<rightharpoonup> bytes" where
  "row_step fb v m = (let cols = re_Columns (DeserializeRowUpdateEntry fb (vs_Value v)) in
     if vs_Meta v = LogOperationTypeDeleteRowByKey then Map.empty
     else if vs_Meta v = LogOperationTypeDelete then fold (\<lambda>c m. m(c := None)) (map fst cols) m
     else fold (\<lambda>(c, v) m. m(c \<mapsto> v)) cols m)"

lemma row_step_at:
  assumes "m c = m' c" shows "row_step fb v m c = row_step fb v m' c"
proof -
  have "fold (\<lambda>(c, v) m. m(c \<mapsto> v)) cols m c = fold (\<lambda>(c, v) m. m(c \<mapsto> v)) cols m' c" for cols :: columns
  proof (cases "c \<in> fst ` set cols")
    case True
    then show ?thesis by (rule fold_put_same)
  next
    case False
    then show ?thesis using assms by (simp add: fold_put_other)
  qed
  then show ?thesis using assms by (simp add: row_step_def Let_def fold_del)
qed

lemma rows_at: "m c = m' c \<Longrightarrow> fold (row_step fb) vs m c = fold (row_step fb) vs m' c"
proof (induction vs arbitrary: m m')
  case (Cons v vs)
  show ?case using Cons.IH [of "row_step fb v m" "row_step fb v m'"] row_step_at [of m c m' fb v] Cons.prems by (simp only: fold_simps(2))
qed simp

lemma fold_alist:
  "map_of (fold (\<lambda>(cn, cv) m. AList.update cn cv m) es m) = fold (\<lambda>(c, v) m. m(c \<mapsto> v)) es (map_of m)"
  "map_of (fold (\<lambda>(cn, _) m. AList.delete cn m) es m) = fold (\<lambda>c m. m(c := None)) (map fst es) (map_of m)"
  by (induction es arbitrary: m) (auto simp: update_conv' delete_conv')

lemma BuildColumnMap_ok:
  assumes "\<forall>v \<in> set vs. entry_ok fb D (r, v) \<and> vs_UserMeta v = LogEntryTypeRow"
  shows "map_of (BuildColumnMap fb vs cols) = fold (row_step fb) vs (map_of cols)"
  using assms
proof (induction vs arbitrary: cols)
  case (Cons v vs)
  have "vs_Meta v \<in> {LogOperationTypeInsert, LogOperationTypeDelete, LogOperationTypeDeleteRowByKey}"
    using Cons.prems by (auto simp: entry_ok_def)
  then show ?case using Cons by (auto simp: row_step_def Let_def fold_alist comp_def)
qed simp

lemma rows_effect:
  assumes "\<forall>x \<in> set H. entry_ok fb D x" "encRow r"
  shows "u_cell (fold apply_sop (mem_sops fb D H) u) r = fold (row_step fb) (rows_of H r) (u_cell u r)"
  using assms(1)
proof (induction H rule: rev_induct)
  case (snoc x H)
  obtain k v where x: "x = (k, v)" by (cases x)
  have ok: "entry_ok fb D (k, v)" using snoc.prems by (simp add: x)
  have IH: "u_cell (fold apply_sop (mem_sops fb D H) u) r = fold (row_step fb) (rows_of H r) (u_cell u r)" using snoc by simp
  show ?case
  proof (cases "k = r \<and> is_row (k, v)")
    case True
    then have row: "vs_UserMeta v = LogEntryTypeRow" "rows_of (H @ [x]) r = rows_of H r @ [v]" by (simp_all add: x is_row_def rows_of_def)
    have "u_cell (fold apply_sop (mem_sops fb D [x]) s) r = row_step fb v (u_cell s r)" for s
      using True row(1) by (simp add: x mem_call_def row_step_def Let_def)
    then show ?thesis unfolding row(2) using IH by simp
  next
    case False
    have "\<not> touches (the_op fb D (k, v)) (PlaceCell r c)" for c
      using the_op(4) [OF ok, of r c] entry_kind(2) [OF ok] False by (auto simp: is_row_def)
    then have "u_cell (apply_sop (the_op fb D (k, v)) s) r c = u_cell s r c" for s c using untouched by (metis same_at.simps(2))
    moreover have "rows_of (H @ [x]) r = rows_of H r" using False by (auto simp: x rows_of_def)
    ultimately show ?thesis using IH by (simp add: x the_op(1) [OF ok] fun_eq_iff)
  qed
qed (simp add: rows_of_def)

lemma tables_rows:
  assumes "mem_laws lib" "tables_ok lib fb D e Hs H" "encRow r"
  shows "concat (map (GetRowYValue lib r) (en_sealedMemTables e)) = rows_of (concat Hs) r" "GetRowYValue lib r (en_activeMemTable e) = rows_of H r"
    "\<forall>v \<in> set (rows_of (concat Hs @ H) r). entry_ok fb D (r, v) \<and> vs_UserMeta v = LogEntryTypeRow"
proof -
  have ok: "\<forall>x \<in> set (concat Hs @ H). entry_ok fb D x" using assms(2) by (simp add: tables_ok_def)
  have none: "value_of H' r = None" if "set H' \<subseteq> set (concat Hs @ H)" for H'
  proof (rule ccontr)
    assume "value_of H' r \<noteq> None"
    then obtain v where "(r, v) \<in> set H'" "\<not> is_row (r, v)" by (auto simp: value_of_def dest!: map_of_SomeD)
    then show False using that ok entry_kind(2) [of fb D r v] assms(3) by (auto simp: is_row_def)
  qed
  show "GetRowYValue lib r (en_activeMemTable e) = rows_of H r"
    using assms(2) none [of H] by (intro GetRowYValue_ok [OF assms(1)]) (simp_all add: tables_ok_def)
  have "list_all2 (mt_inv lib) (en_sealedMemTables e) Hs" "\<forall>H' \<in> set Hs. value_of H' r = None" using assms(2) none by (auto simp: tables_ok_def)
  then show "concat (map (GetRowYValue lib r) (en_sealedMemTables e)) = rows_of (concat Hs) r"
  proof (induction rule: list_all2_induct)
    case (Cons t ts H' Hs)
    then show ?case using GetRowYValue_ok [OF assms(1)] by (simp add: rows_of_append)
  qed (simp add: rows_of_def)
  show "\<forall>v \<in> set (rows_of (concat Hs @ H) r). entry_ok fb D (r, v) \<and> vs_UserMeta v = LogEntryTypeRow"
    using ok by (auto simp: rows_of_def is_row_def)
qed

lemma map_of_filter_key: "map_of (filter (\<lambda>(k, _). p k) m) c = (if p c then map_of m c else None)"
  by (induction m) auto

section \<open>Large objects\<close>

lemma reconstruct_ok:
  assumes "wal_inv (wio_appendLog w) L" "linked [] (decoded fb (wal_log L))" "entry_ok fb (decoded fb (wal_log L)) (k, v)" "vs_UserMeta v = LogEntryTypeChunked"
  shows "\<exists>rec chunks s. GetWalRecord fb v w = Inr rec \<and> reconstructChunkedValue fb rec w = Some (Inr (concat chunks))
    \<and> the_op fb (decoded fb (wal_log L)) (k, v) = SetLob k chunks s"
proof -
  let ?D = "decoded fb (wal_log L)"
  obtain p pre r where r: "DecodeOffset (vs_Value v) = Some p" "log_at ?D p = Some (pre, r)" "TxnState r = TransactionStateCommit"
      "EntryType r = LogEntryTypeChunked" "record_ok fb pre r" "kve_Key (DeserializeKVEntry fb (hd (Entries r))) = k"
    using assms(3,4) by (auto simp: entry_ok_def)
  obtain es1 d es2 where es: "wal_log L = es1 @ (p, d) # es2" "pre = decoded fb es1" "r = DeserializeLogRecord fb d"
    using log_at_decoded [OF r(2)] by blast
  obtain ts where ts: "GetTransactionRecords fb (DecodeOffset (PrevTxnWalIndex r)) w = Some (Inr ts)"
      "map DeserializeFBRootLogRecord ts = map snd (txn_part pre (TxnID r))" "ts \<noteq> []"
    using GetTransactionRecords_ok [OF assms(1,2) es(1,3)] r(3) es(2) by auto
  let ?t = "GetRootAsLogRecord fb d"
  have rt: "r = DeserializeFBRootLogRecord ?t" using es(3) by (simp add: DeserializeLogRecord_def)
  have read: "GetWalRecord fb v w = Inr ?t"
    using r(1) wl_Read_entry [OF assms(1), of p d] es(1) by (simp add: GetWalRecord_def wio_Read_def)
  have ne: "\<forall>q \<in> set (map snd (tl (txn_part pre (TxnID r)))). Entries q \<noteq> []" using r(3-5) by (auto simp: record_ok_def)
  let ?chunks = "map (\<lambda>q. kve_Value (DeserializeKVEntry fb (hd (Entries q)))) (map snd (tl (txn_part pre (TxnID r))))"
  have vals: "firstValues fb (tl ts) = Inr ?chunks" using firstValues_ok [OF _ ne, of "tl ts"] ts(2) by (simp add: map_tl)
  have "mem_call fb ?D (k, v) = chunk_call fb r (map snd (tl (txn_part pre (TxnID r))))" using assms(4) r(1,2) by (simp add: mem_call_def)
  then have "the_op fb ?D (k, v) = SetLob k ?chunks (CRC32Checksum r)" by (simp add: the_op_def chunk_call_def r(6))
  moreover have "reconstructChunkedValue fb ?t w = Some (Inr (concat ?chunks))" using ts(1,3) vals rt by (simp add: reconstructChunkedValue_def)
  ultimately show ?thesis using read by blast
qed

section \<open>The reads\<close>

context btree_store
begin

lemma en_GetKV_ok:
  assumes "mem_laws lib" "en_inv lib fb R M u e L Hs H F P" "\<not> en_shutdown e"
  shows "en_GetKV lib bt k e = (case u_kv (view_of fb u L) (kc_KeyKV k) of None \<Rightarrow> Inl ErrKeyNotFound | Some v \<Rightarrow> Inr v)"
proof -
  let ?D = "decoded fb (wal_log L)" and ?k = "kc_KeyKV k"
  have ok: "\<forall>x \<in> set (concat Hs @ H). entry_ok fb ?D x" using en_invD(2) [OF assms(2)] by (simp add: tables_ok_def)
  have run: "en_GetKV lib bt k e = (case value_of (concat Hs @ H) ?k of None \<Rightarrow> bt_GetKV bt ?k (en_dataStore e)
      | Some y \<Rightarrow> if vs_Meta y = LogOperationTypeDelete then Inl ErrKeyNotFound else Inr (vs_Value y))"
    using tables_get [OF assms(1) en_invD(2) [OF assms(2)], of ?k, symmetric] assms(3) by (simp add: en_GetKV_def Let_def)
  have at: "u_kv (view_of fb u L) ?k = u_kv (case value_of (concat Hs @ H) ?k of None \<Rightarrow> fold apply_sop (F @ P) u
      | Some v \<Rightarrow> apply_sop (the_op fb ?D (?k, v)) (fold apply_sop (F @ P) u)) ?k"
    using view_value [OF assms(2), of "PlaceKV ?k" ?k] by simp
  show ?thesis
  proof (cases "value_of (concat Hs @ H) ?k")
    case None
    then show ?thesis using run at getkv [OF en_invD(6) [OF assms(2)], of ?k] by simp
  next
    case (Some v)
    then have "entry_ok fb ?D (?k, v)" using ok value_of_in by blast
    then have "vs_UserMeta v = LogEntryTypeKV" "entry_ok fb ?D (?k, v)" using entry_kind(1) by auto
    then show ?thesis using run at Some by (auto simp: the_op_def mem_call_def entry_ok_def)
  qed
qed

lemma en_GetLOB_ok:
  assumes "mem_laws lib" "en_inv lib fb R M u e L Hs H F P" "\<not> en_shutdown e" "encBlob (kc_KeyBlobChunk k 0)"
  shows "en_GetLOB lib fb bt k e = Some (case u_lob (view_of fb u L) (kc_KeyBlobChunk k 0) of None \<Rightarrow> Inl ErrKeyNotFound | Some (chunks, s) \<Rightarrow> Inr (concat chunks))"
proof -
  let ?D = "decoded fb (wal_log L)" and ?k = "kc_KeyBlobChunk k 0"
  have ok: "\<forall>x \<in> set (concat Hs @ H). entry_ok fb ?D x" using en_invD(2) [OF assms(2)] by (simp add: tables_ok_def)
  have w: "wal_inv (wio_appendLog (en_walIO e)) L" "linked [] ?D" using wal_okD(1,3) [OF en_invD(1) [OF assms(2)]] by blast+
  let ?y = "mt_Get lib ?k (en_activeMemTable e)"
  let ?yv = "if vs_Meta ?y = LogOperationTypeNoOperation then (case sealedGet lib ?k (rev (en_sealedMemTables e)) of Some val \<Rightarrow> val | None \<Rightarrow> ?y) else ?y"
  have get: "value_of (concat Hs @ H) ?k = None \<and> ?yv = noValue \<or> value_of (concat Hs @ H) ?k = Some ?yv"
    using tables_get [OF assms(1) en_invD(2) [OF assms(2)], of ?k] mt_Get_ok [OF assms(1), of "en_activeMemTable e" H ?k] en_invD(2) [OF assms(2)]
    by (auto simp: Let_def tables_ok_def value_of_append split: option.splits if_splits)
  have at: "u_lob (view_of fb u L) ?k = u_lob (case value_of (concat Hs @ H) ?k of None \<Rightarrow> fold apply_sop (F @ P) u
      | Some v \<Rightarrow> apply_sop (the_op fb ?D (?k, v)) (fold apply_sop (F @ P) u)) ?k"
    using view_value [OF assms(2), of "PlaceLob ?k" ?k] assms(4) by simp
  have run: "en_GetLOB lib fb bt k e = (if vs_UserMeta ?yv = LogEntryTypeChunked then
      (case GetWalRecord fb ?yv (en_walIO e) of Inl err \<Rightarrow> Some (Inl err) | Inr rec \<Rightarrow> reconstructChunkedValue fb rec (en_walIO e))
      else case bt_GetLOBChunks bt ?k (en_dataStore e) of Inl err \<Rightarrow> Some (Inl err) | Inr chunks \<Rightarrow> Some (Inr (concat chunks)))"
    using assms(3) by (simp only: en_GetLOB_def Let_def if_False)
  show ?thesis
  proof (cases "value_of (concat Hs @ H) ?k")
    case None
    then have "?yv = noValue" using get by simp
    then have "vs_UserMeta ?yv \<noteq> LogEntryTypeChunked" by (simp only: noValue_def) simp
    then show ?thesis unfolding run using at None getlob [OF en_invD(6) [OF assms(2)] assms(4)] by (simp split: option.split)
  next
    case (Some v)
    then have v: "?yv = v" using get by simp
    have e: "entry_ok fb ?D (?k, v)" using ok value_of_in [OF Some] by blast
    then have c: "vs_UserMeta v = LogEntryTypeChunked" using entry_kind(3) assms(4) by blast
    obtain rec chunks s where "GetWalRecord fb v (en_walIO e) = Inr rec" "reconstructChunkedValue fb rec (en_walIO e) = Some (Inr (concat chunks))"
        "the_op fb ?D (?k, v) = SetLob ?k chunks s"
      using reconstruct_ok [OF w e c] by blast
    then show ?thesis unfolding run v using at Some c by simp
  qed
qed

text \<open>A row: every column that has a name. The error says that the row has no such column.\<close>

lemma en_GetRowColumns_ok:
  assumes "mem_laws lib" "en_inv lib fb R M u e L Hs H F P" "\<not> en_shutdown e" "encRow (kc_RowKey r)"
  shows "case en_GetRowColumns lib fb bt r p e of
      Inl err \<Rightarrow> err = ErrKeyNotFound \<and> selected p (u_cell (view_of fb u L) (kc_RowKey r)) = Map.empty
    | Inr cols \<Rightarrow> \<forall>c. c \<noteq> [] \<longrightarrow> map_of cols c = selected p (u_cell (view_of fb u L) (kc_RowKey r)) c"
proof -
  let ?D = "decoded fb (wal_log L)" and ?r = "kc_RowKey r" and ?pf = "\<lambda>c. case p of None \<Rightarrow> True | Some q \<Rightarrow> q c"
  let ?vs = "rows_of (concat Hs @ H) ?r" and ?s = "u_cell (fold apply_sop (F @ P) u) ?r"
  note rows = tables_rows [OF assms(1) en_invD(2) [OF assms(2)] assms(4)]
  have ok: "\<forall>x \<in> set (concat Hs @ H). entry_ok fb ?D x" using en_invD(2) [OF assms(2)] by (simp add: tables_ok_def)
  have view: "u_cell (view_of fb u L) ?r = fold (row_step fb) ?vs ?s"
    unfolding view_tables [OF assms(2)] by (rule rows_effect [OF ok assms(4)])
  have sel: "selected p m c = (if c \<noteq> [] \<and> ?pf c then m c else None)" "selected (Some ?pf) = selected p" for m c
    by (cases p; simp add: selected_def fun_eq_iff)+
  have cols: "map_of (filter (\<lambda>(c, _). ?pf c) (BuildColumnMap fb ?vs cs)) c = selected p (u_cell (view_of fb u L) ?r) c"
    if "map_of cs c = selected p ?s c" "c \<noteq> []" for cs c
    using rows_at [of "map_of cs" c ?s fb ?vs] that
    by (cases "?pf c") (simp_all add: map_of_filter_key BuildColumnMap_ok [OF rows(3)] view sel(1))
  let ?first = "GetRowYValue lib ?r (en_activeMemTable e)"
  show ?thesis
  proof (cases "?first \<noteq> [] \<and> vs_Meta (last ?first) = LogOperationTypeDeleteRowByKey")
    case True
    then obtain vs v where "rows_of H ?r = vs @ [v]" "vs_Meta v = LogOperationTypeDeleteRowByKey" using rows(2) by (metis append_butlast_last_id)
    then have "u_cell (view_of fb u L) ?r = row_step fb v (fold (row_step fb) (rows_of (concat Hs) ?r @ vs) ?s)" by (simp add: view rows_of_append)
    also have "\<dots> = Map.empty" using \<open>vs_Meta v = LogOperationTypeDeleteRowByKey\<close> by (simp add: row_step_def)
    finally have "u_cell (view_of fb u L) ?r = Map.empty" .
    then show ?thesis using True assms(3) by (simp add: en_GetRowColumns_def Let_def fun_eq_iff sel(1))
  next
    case False
    have sc: "case bt_ScanRowCells bt ?r (Some ?pf) (en_dataStore e) of
        Inl er \<Rightarrow> er = ErrKeyNotFound \<and> selected p ?s = Map.empty | Inr es \<Rightarrow> map_of es = selected p ?s"
      using scan [OF en_invD(6) [OF assms(2)] assms(4), of "Some ?pf"] unfolding sel(2) by (auto split: sum.splits)
    show ?thesis
    proof (cases "bt_ScanRowCells bt ?r (Some ?pf) (en_dataStore e)")
      case (Inl er)
      then have er: "er = ErrKeyNotFound" "\<And>c. map_of [] c = selected p ?s c" using sc by (simp_all add: fun_eq_iff)
      let ?cs = "filter (\<lambda>(c, _). ?pf c) (BuildColumnMap fb ?vs [])"
      have run: "en_GetRowColumns lib fb bt r p e = (if ?cs = [] \<and> ?vs = [] then Inl ErrKeyNotFound else Inr ?cs)"
        using False assms(3) Inl er(1) by (simp add: en_GetRowColumns_def Let_def rows(1,2) rows_of_append)
      have all: "map_of ?cs c = selected p (u_cell (view_of fb u L) ?r) c" if "c \<noteq> []" for c using cols [OF er(2) that] .
      show ?thesis
      proof (cases "?cs = [] \<and> ?vs = []")
        case True
        then have "selected p (u_cell (view_of fb u L) ?r) c = None" for c using all [of c] by (cases "c = []") (simp_all add: sel(1))
        then show ?thesis using True unfolding run by (simp add: fun_eq_iff)
      next
        case False
        then have "en_GetRowColumns lib fb bt r p e = Inr ?cs" using run by (simp only: if_False)
        then show ?thesis using all by simp
      qed
    next
      case (Inr cs)
      then have cs: "map_of cs = selected p ?s" using sc by simp
      have "en_GetRowColumns lib fb bt r p e = Inr (filter (\<lambda>(c, _). ?pf c) (BuildColumnMap fb ?vs cs))"
        using False assms(3) Inr by (simp add: en_GetRowColumns_def Let_def rows(1,2) rows_of_append)
      then show ?thesis using cols [of cs] cs by (simp only: sum.case) blast
    qed
  qed
qed

end

end
