(* ===== verification/Txn.thy ===== *)
theory Txn
  imports EngineReads
begin

text \<open>
  Transactions, \<open>dbkernel/txn.go\<close>: the records of a transaction go to the log one by one, and the commit record makes them visible in the
  memory table.
\<close>

record txMemTableEntry =
  te_value :: ValueStruct
  te_key :: bytes
  te_offset :: "RecordPosition option"

text \<open>The engine of a transaction is passed to its methods. A nil row key is \<^const>\<open>None\<close>.\<close>

record Txn =
  tx_err :: "error option"
  tx_prevOffset :: "RecordPosition option"
  tx_memTableEntries :: "txMemTableEntry list"
  tx_rowKey :: "bytes option"
  tx_txnID :: bytes
  tx_valuesCount :: nat
  tx_checksum :: u32
  tx_chunkedValueChecksum :: u32
  tx_txnOperation :: LogOperationType
  tx_txnEntryType :: LogEntryType

text \<open>\<open>ksuid\<close> is the outcome of \<open>ksuid.New().MarshalBinary()\<close>.\<close>

definition NewTxn ::
  "fb_api \<Rightarrow> ioenv \<Rightarrow> (error + bytes) \<Rightarrow> u64 \<Rightarrow> LogOperationType \<Rightarrow> LogEntryType \<Rightarrow> ('s, 'b, 'd) Engine \<Rightarrow> ('s, 'b, 'd) Engine \<times> (error + Txn)" where
  "NewTxn fb io ksuid hlc txnType valueType e =
    (if ec_ReadOnly (en_config e) then (e, Inl ErrEngineReadOnly)
     else if txnType = LogOperationTypeNoOperation then (e, Inl ErrUnsupportedTxnType)
     else if txnType = LogOperationTypeDelete \<and> valueType = LogEntryTypeChunked then (e, Inl ErrUnsupportedTxnType)
     else case ksuid of
       Inl err \<Rightarrow> (e, Inl err)
     | Inr uuid \<Rightarrow>
       let index = en_writeSeenCounter e + 1;
           e = e\<lparr>en_writeSeenCounter := index\<rparr>;
           record = \<lparr>LSN = index, HLC = hlc, CRC32Checksum = 0, OperationType = LogOperationTypeNoOperation, TxnState = TransactionStateBegin,
             EntryType = valueType, TxnID = uuid, PrevTxnWalIndex = [], Entries = []\<rparr>
       in case wio_Append io (FBEncode fb record) (en_walIO e) of
            (w, Inl err) \<Rightarrow> (e\<lparr>en_walIO := w\<rparr>, Inl err)
          | (w, Inr offset) \<Rightarrow>
            (e\<lparr>en_walIO := w\<rparr>, Inr \<lparr>tx_err = None, tx_prevOffset = Some offset, tx_memTableEntries = [], tx_rowKey = None, tx_txnID = uuid,
               tx_valuesCount = 0, tx_checksum = 0, tx_chunkedValueChecksum = 0, tx_txnOperation = txnType, tx_txnEntryType = valueType\<rparr>))"

text \<open>The end of the two append methods: the prepare record with its entry.\<close>

definition prepare_record :: "u64 \<Rightarrow> u64 \<Rightarrow> bytes \<Rightarrow> Txn \<Rightarrow> LogRecord" where
  "prepare_record index hlc en t = \<lparr>LSN = index, HLC = hlc, CRC32Checksum = ChecksumIEEE en, OperationType = tx_txnOperation t,
     TxnState = TransactionStatePrepare, EntryType = tx_txnEntryType t, TxnID = tx_txnID t,
     PrevTxnWalIndex = (case tx_prevOffset t of None \<Rightarrow> [] | Some p \<Rightarrow> rp_Encode p), Entries = [en]\<rparr>"

definition AppendKVTxn ::
  "fb_api \<Rightarrow> ioenv \<Rightarrow> u64 \<Rightarrow> bytes \<Rightarrow> bytes \<Rightarrow> Txn \<Rightarrow> ('s, 'b, 'd) Engine \<Rightarrow> ('s, 'b, 'd) Engine \<times> Txn \<times> error option" where
  "AppendKVTxn fb io hlc key value t e =
    (if tx_err t \<noteq> None then (e, t, tx_err t)
     else if tx_txnEntryType t = LogEntryTypeRow then (e, t, Some ErrUnsupportedTxnType)
     else
       let insertOther = (tx_txnOperation t = LogOperationTypeInsert \<and> tx_txnEntryType t \<noteq> LogEntryTypeKV);
           t = (if insertOther \<and> tx_rowKey t = None then t\<lparr>tx_rowKey := Some (kc_KeyBlobChunk key 0)\<rparr> else t);
           key = (if tx_txnEntryType t = LogEntryTypeChunked then kc_KeyBlobChunk key 0 else kc_KeyKV key)
       in if insertOther \<and> tx_rowKey t \<noteq> Some key then (e, t\<lparr>tx_err := Some ErrKeyChangedForChunkedType\<rparr>, Some ErrKeyChangedForChunkedType)
          else
            let kvEncoded = SerializeKVEntry fb key value;
                t = t\<lparr>tx_chunkedValueChecksum := crc_update IEEE (tx_chunkedValueChecksum t) value\<rparr>;
                index = en_writeSeenCounter e + 1;
                e = e\<lparr>en_writeSeenCounter := index\<rparr>;
                record = prepare_record index hlc kvEncoded t
            in case wio_Append io (FBEncode fb record) (en_walIO e) of
                 (w, Inl err) \<Rightarrow> (e\<lparr>en_walIO := w\<rparr>, t\<lparr>tx_err := Some err\<rparr>, Some err)
               | (w, Inr offset) \<Rightarrow>
                 let t = t\<lparr>tx_prevOffset := Some offset\<rparr>;
                     t = (if tx_txnEntryType t \<noteq> LogEntryTypeChunked then
                            t\<lparr>tx_memTableEntries := tx_memTableEntries t @
                              [\<lparr>te_value = getValueStruct (tx_txnOperation t) (tx_txnEntryType t) value, te_key = key, te_offset = Some offset\<rparr>]\<rparr> else t)
                 in (e\<lparr>en_walIO := w\<rparr>,
                     t\<lparr>tx_checksum := crc_update IEEE (tx_checksum t) kvEncoded, tx_valuesCount := tx_valuesCount t + 1\<rparr>, None))"

definition AppendColumnTxn ::
  "fb_api \<Rightarrow> ioenv \<Rightarrow> u64 \<Rightarrow> bytes \<Rightarrow> columns \<Rightarrow> Txn \<Rightarrow> ('s, 'b, 'd) Engine \<Rightarrow> ('s, 'b, 'd) Engine \<times> Txn \<times> error option" where
  "AppendColumnTxn fb io hlc rowKey columnEntries t e =
    (if tx_err t \<noteq> None then (e, t, tx_err t)
     else if tx_txnEntryType t \<noteq> LogEntryTypeRow then (e, t, Some ErrUnsupportedTxnType)
     else if columnEntries = [] then (e, t, Some ErrEmptyColumns)
     else
       let rowKey = kc_RowKey rowKey;
           rce = SerializeRowUpdateEntry fb rowKey columnEntries;
           index = en_writeSeenCounter e + 1;
           e = e\<lparr>en_writeSeenCounter := index\<rparr>;
           encoded = FBEncode fb (prepare_record index hlc rce t)
       in case wio_Append io encoded (en_walIO e) of
            (w, Inl err) \<Rightarrow> (e\<lparr>en_walIO := w\<rparr>, t\<lparr>tx_err := Some err\<rparr>, Some err)
          | (w, Inr offset) \<Rightarrow>
            let memValue = getValueStruct (tx_txnOperation t) (tx_txnEntryType t) rce in
            (e\<lparr>en_walIO := w\<rparr>,
             t\<lparr>tx_prevOffset := Some offset,
               tx_memTableEntries := tx_memTableEntries t @ [\<lparr>te_value = memValue, te_key = rowKey, te_offset = Some offset\<rparr>],
               tx_checksum := crc_update IEEE (tx_checksum t) encoded, tx_valuesCount := tx_valuesCount t + 1\<rparr>, None))"

definition memWriteChunk ::
  "('s, 'b) mem_lib \<Rightarrow> (nat \<Rightarrow> u64) \<Rightarrow> bytes \<Rightarrow> Txn \<Rightarrow> ('s, 'b, 'd) Engine \<Rightarrow> ('s, 'b, 'd) Engine \<times> Txn \<times> error option" where
  "memWriteChunk lib clk encoded t e =
    (let memValue = getValueStruct LogOperationTypeInsert LogEntryTypeChunked encoded in
     case memTableWrite lib (clk 0) (case tx_rowKey t of None \<Rightarrow> [] | Some k \<Rightarrow> k) memValue e of
       (e, Some err) \<Rightarrow> (e, t\<lparr>tx_err := Some err\<rparr>, Some err)
     | (e, None) \<Rightarrow> (writeOffset (tx_prevOffset t) e, t, None))"

definition memWriteFull ::
  "('s, 'b) mem_lib \<Rightarrow> (nat \<Rightarrow> u64) \<Rightarrow> Txn \<Rightarrow> ('s, 'b, 'd) Engine \<Rightarrow> ('s, 'b, 'd) Engine \<times> Txn \<times> error option" where
  "memWriteFull lib clk t e =
    (case memTableWrites lib writeNilOffset clk (map (\<lambda>m. (te_key m, te_value m)) (tx_memTableEntries t)) e of
       (e, Some err) \<Rightarrow> (e, t\<lparr>tx_err := Some err\<rparr>, Some err)
     | (e, None) \<Rightarrow> (writeOffset (tx_prevOffset t) e, t, None))"

definition Commit ::
  "('s, 'b) mem_lib \<Rightarrow> fb_api \<Rightarrow> ioenv \<Rightarrow> (nat \<Rightarrow> u64) \<Rightarrow> u64 \<Rightarrow> Txn \<Rightarrow> ('s, 'b, 'd) Engine \<Rightarrow> ('s, 'b, 'd) Engine \<times> Txn \<times> error option" where
  "Commit lib fb io clk hlc t e =
    (if tx_err t \<noteq> None then (e, t, tx_err t)
     else
       let kv = SerializeKVEntry fb (case tx_rowKey t of None \<Rightarrow> [] | Some k \<Rightarrow> k) [];
           index = en_writeSeenCounter e + 1;
           e = e\<lparr>en_writeSeenCounter := index\<rparr>;
           record = \<lparr>LSN = index, HLC = hlc, CRC32Checksum = tx_checksum t, OperationType = tx_txnOperation t, TxnState = TransactionStateCommit,
             EntryType = tx_txnEntryType t, TxnID = tx_txnID t,
             PrevTxnWalIndex = (case tx_prevOffset t of None \<Rightarrow> [] | Some p \<Rightarrow> rp_Encode p), Entries = [kv]\<rparr>
       in case wio_Append io (FBEncode fb record) (en_walIO e) of
            (w, Inl err) \<Rightarrow> (e\<lparr>en_walIO := w\<rparr>, t\<lparr>tx_err := Some err\<rparr>, Some err)
          | (w, Inr offset) \<Rightarrow>
            let e = e\<lparr>en_walIO := w\<rparr>; t = t\<lparr>tx_prevOffset := Some offset\<rparr> in
            case (case tx_txnEntryType t of
                    LogEntryTypeKV \<Rightarrow> memWriteFull lib clk t e
                  | LogEntryTypeRow \<Rightarrow> memWriteFull lib clk t e
                  | LogEntryTypeChunked \<Rightarrow> memWriteChunk lib clk (rp_Encode offset) t e) of
              (e, t, Some mErr) \<Rightarrow> (e, t\<lparr>tx_err := Some mErr\<rparr>, Some mErr)
            | (e, t, None) \<Rightarrow> (e, t\<lparr>tx_err := Some ErrTxnAlreadyCommitted\<rparr>, None))"

end
