(* ===== verification/Replica.thy ===== *)
theory Replica
  imports Txn
begin

text \<open>
  The replica, \<open>dbkernel/replica.go\<close>: records of a leader are appended to the local log and applied to the memory table. The names carry the
  prefix \<open>rep_\<close> because recovery has handlers with the same names. Counters and latency histograms are left out, and the
  numbers in error messages. A result of \<^const>\<open>None\<close> is a call that does not return.
\<close>

definition isEqualOffset :: "RecordPosition \<Rightarrow> RecordPosition \<Rightarrow> bool" where
  "isEqualOffset local remote \<longleftrightarrow> SegmentID local = SegmentID remote \<and> Offset local = Offset remote"

text \<open>Entries as the memory table gets them.\<close>

definition kv_entry :: "fb_api \<Rightarrow> LogOperationType \<Rightarrow> bytes \<Rightarrow> bytes \<times> ValueStruct" where
  "kv_entry fb op en = (let kvEntry = DeserializeKVEntry fb en in (kve_Key kvEntry, getValueStruct op LogEntryTypeKV (kve_Value kvEntry)))"

definition row_entry :: "fb_api \<Rightarrow> LogOperationType \<Rightarrow> bytes \<Rightarrow> bytes \<times> ValueStruct" where
  "row_entry fb op en = (re_Key (DeserializeRowUpdateEntry fb en), getValueStruct op LogEntryTypeRow en)"

definition writeEntries ::
  "('s, 'b) mem_lib \<Rightarrow> (('s, 'b, 'd) Engine \<Rightarrow> ('s, 'b, 'd) Engine) \<Rightarrow> (nat \<Rightarrow> u64) \<Rightarrow> (bytes \<times> ValueStruct) list \<Rightarrow> RecordPosition
    \<Rightarrow> ('s, 'b, 'd) Engine \<Rightarrow> ('s, 'b, 'd) Engine \<times> error option" where
  "writeEntries lib post clk xs offset e =
    (case memTableWrites lib post clk xs e of (e, Some err) \<Rightarrow> (e, Some err) | (e, None) \<Rightarrow> (writeOffset (Some offset) e, None))"

definition rep_handleInsert ::
  "('s, 'b) mem_lib \<Rightarrow> fb_api \<Rightarrow> (nat \<Rightarrow> u64) \<Rightarrow> LogRecordTable \<Rightarrow> RecordPosition \<Rightarrow> ('s, 'b, 'd) Engine \<Rightarrow> ('s, 'b, 'd) Engine \<times> error option" where
  "rep_handleInsert lib fb clk record offset e =
    (let logEntry = DeserializeFBRootLogRecord record in
     case tb_EntryType record of
       LogEntryTypeKV \<Rightarrow> writeEntries lib id clk (map (kv_entry fb LogOperationTypeInsert) (Entries logEntry)) offset e
     | LogEntryTypeRow \<Rightarrow> writeEntries lib id clk (map (row_entry fb LogOperationTypeInsert) (Entries logEntry)) offset e
     | LogEntryTypeChunked \<Rightarrow> (e, None))"

definition rep_handleDelete ::
  "('s, 'b) mem_lib \<Rightarrow> fb_api \<Rightarrow> (nat \<Rightarrow> u64) \<Rightarrow> LogRecordTable \<Rightarrow> RecordPosition \<Rightarrow> ('s, 'b, 'd) Engine \<Rightarrow> ('s, 'b, 'd) Engine \<times> error option" where
  "rep_handleDelete lib fb clk record offset e =
    (let logEntry = DeserializeFBRootLogRecord record in
     case tb_EntryType record of
       LogEntryTypeKV \<Rightarrow> writeEntries lib id clk (map (kv_entry fb LogOperationTypeDelete) (Entries logEntry)) offset e
     | LogEntryTypeRow \<Rightarrow> writeEntries lib id clk (map (row_entry fb LogOperationTypeDelete) (Entries logEntry)) offset e
     | LogEntryTypeChunked \<Rightarrow> (e, None))"

definition rep_handleDeleteRowByKey ::
  "('s, 'b) mem_lib \<Rightarrow> fb_api \<Rightarrow> (nat \<Rightarrow> u64) \<Rightarrow> LogRecordTable \<Rightarrow> RecordPosition \<Rightarrow> ('s, 'b, 'd) Engine \<Rightarrow> ('s, 'b, 'd) Engine \<times> error option" where
  "rep_handleDeleteRowByKey lib fb clk record offset e =
    writeEntries lib id clk (map (row_entry fb LogOperationTypeDeleteRowByKey) (Entries (DeserializeFBRootLogRecord record))) offset e"

definition rep_handleKVValuesTxn ::
  "('s, 'b) mem_lib \<Rightarrow> fb_api \<Rightarrow> (nat \<Rightarrow> u64) \<Rightarrow> LogRecordTable \<Rightarrow> RecordPosition \<Rightarrow> ('s, 'b, 'd) Engine
    \<Rightarrow> (('s, 'b, 'd) Engine \<times> error option) option" where
  "rep_handleKVValuesTxn lib fb clk record offset e =
    (case GetTransactionRecords fb (DecodeOffset (PrevTxnWalIndexBytes record)) (en_walIO e) of
       None \<Rightarrow> None
     | Some (Inl err) \<Rightarrow> Some (e, Some err)
     | Some (Inr records) \<Rightarrow>
       if records = [] then Some (e, Some Panic)
       else
         let preparedRecords = tl records; e = writeNilOffset e in
         Some (writeEntries lib writeNilOffset clk
           (concat (map (\<lambda>pRecord. map (kv_entry fb (tb_OperationType record)) (Entries (DeserializeFBRootLogRecord pRecord))) preparedRecords)) offset e))"

text \<open>\<open>writeOffset(nil)\<close> does nothing.\<close>

definition rep_handleRowColumnTxn ::
  "('s, 'b) mem_lib \<Rightarrow> fb_api \<Rightarrow> (nat \<Rightarrow> u64) \<Rightarrow> LogRecordTable \<Rightarrow> RecordPosition \<Rightarrow> ('s, 'b, 'd) Engine
    \<Rightarrow> (('s, 'b, 'd) Engine \<times> error option) option" where
  "rep_handleRowColumnTxn lib fb clk record offset e =
    (case GetTransactionRecords fb (DecodeOffset (PrevTxnWalIndexBytes record)) (en_walIO e) of
       None \<Rightarrow> None
     | Some (Inl err) \<Rightarrow> Some (e, Some err)
     | Some (Inr records) \<Rightarrow>
       if records = [] then Some (e, Some Panic)
       else
         let preparedRecords = tl records; e = writeOffset None e in
         Some (writeEntries lib writeNilOffset clk
           (concat (map (\<lambda>pRecord. map (row_entry fb (tb_OperationType record)) (Entries (DeserializeFBRootLogRecord pRecord))) preparedRecords)) offset e))"

definition rep_handleChunkedValuesTxn ::
  "('s, 'b) mem_lib \<Rightarrow> fb_api \<Rightarrow> (nat \<Rightarrow> u64) \<Rightarrow> LogRecordTable \<Rightarrow> RecordPosition \<Rightarrow> ('s, 'b, 'd) Engine \<Rightarrow> ('s, 'b, 'd) Engine \<times> error option" where
  "rep_handleChunkedValuesTxn lib fb clk record offset e =
    (let logEntry = DeserializeFBRootLogRecord record in
     if Entries logEntry = [] then (e, Some Panic)
     else
       let chunkedKey = kve_Key (DeserializeKVEntry fb (hd (Entries logEntry)));
           memValue = getValueStruct LogOperationTypeInsert LogEntryTypeChunked (rp_Encode offset)
       in case memTableWrite lib (clk 0) chunkedKey memValue e of
            (e, Some err) \<Rightarrow> (e, Some err)
          | (e, None) \<Rightarrow> (writeOffset (Some offset) e, None))"

definition rep_handleTxnCommited ::
  "('s, 'b) mem_lib \<Rightarrow> fb_api \<Rightarrow> (nat \<Rightarrow> u64) \<Rightarrow> LogRecordTable \<Rightarrow> RecordPosition \<Rightarrow> ('s, 'b, 'd) Engine
    \<Rightarrow> (('s, 'b, 'd) Engine \<times> error option) option" where
  "rep_handleTxnCommited lib fb clk record offset e =
    (case tb_EntryType record of
       LogEntryTypeKV \<Rightarrow> rep_handleKVValuesTxn lib fb clk record offset e
     | LogEntryTypeChunked \<Rightarrow> Some (rep_handleChunkedValuesTxn lib fb clk record offset e)
     | LogEntryTypeRow \<Rightarrow> rep_handleRowColumnTxn lib fb clk record offset e)"

definition rep_handleRecord ::
  "('s, 'b) mem_lib \<Rightarrow> fb_api \<Rightarrow> (nat \<Rightarrow> u64) \<Rightarrow> LogRecordTable \<Rightarrow> RecordPosition \<Rightarrow> ('s, 'b, 'd) Engine
    \<Rightarrow> (('s, 'b, 'd) Engine \<times> error option) option" where
  "rep_handleRecord lib fb clk record offset e =
    (case tb_TxnState record of
       TransactionStateNone \<Rightarrow>
         (case tb_OperationType record of
            LogOperationTypeInsert \<Rightarrow> Some (rep_handleInsert lib fb clk record offset e)
          | LogOperationTypeDelete \<Rightarrow> Some (rep_handleDelete lib fb clk record offset e)
          | LogOperationTypeDeleteRowByKey \<Rightarrow> Some (rep_handleDeleteRowByKey lib fb clk record offset e)
          | _ \<Rightarrow> Some (e, None))
     | TransactionStateCommit \<Rightarrow> rep_handleTxnCommited lib fb clk record offset e
     | _ \<Rightarrow> Some (e, None))"

definition ApplyRecord ::
  "('s, 'b) mem_lib \<Rightarrow> fb_api \<Rightarrow> ioenv \<Rightarrow> (nat \<Rightarrow> u64) \<Rightarrow> bytes \<Rightarrow> RecordPosition \<Rightarrow> ('s, 'b, 'd) Engine
    \<Rightarrow> (('s, 'b, 'd) Engine \<times> error option) option" where
  "ApplyRecord lib fb io clk encodedWal receivedOffset e =
    (if Offset receivedOffset = 0 then Some (e, Some ErrInvalidOffset)
     else
       let lsn = en_writeSeenCounter e + 1; decoded = GetRootAsLogRecord fb encodedWal in
       if lsn \<noteq> tb_Lsn decoded then Some (e, Some (Wrapped ''expected'' ErrInvalidLSN))
       else
         let e = e\<lparr>en_writeSeenCounter := en_writeSeenCounter e + 1\<rparr> in
         case wio_Append io encodedWal (en_walIO e) of
           (w, Inl err) \<Rightarrow> Some (e\<lparr>en_walIO := w\<rparr>, Some err)
         | (w, Inr offset) \<Rightarrow>
           let e = e\<lparr>en_walIO := w\<rparr> in
           if \<not> isEqualOffset offset receivedOffset then Some (e, Some ErrInvalidOffset)
           else rep_handleRecord lib fb clk decoded offset e)"

text \<open>The loops of \<open>ApplyRecords\<close>: the checks before the append, the comparison of the offsets, and the records in order.\<close>

fun checkRecords :: "fb_api \<Rightarrow> u64 \<Rightarrow> (bytes \<times> RecordPosition) list \<Rightarrow> error option" where
  "checkRecords fb lsn [] = None"
| "checkRecords fb lsn ((encodedWal, receivedOffset) # rest) =
    (if Offset receivedOffset = 0 then Some ErrInvalidOffset
     else if lsn \<noteq> tb_Lsn (GetRootAsLogRecord fb encodedWal) then Some (Wrapped ''expected'' ErrInvalidLSN)
     else checkRecords fb (lsn + 1) rest)"

fun handleRecords ::
  "('s, 'b) mem_lib \<Rightarrow> fb_api \<Rightarrow> (nat \<Rightarrow> nat \<Rightarrow> u64) \<Rightarrow> (LogRecordTable \<times> RecordPosition) list \<Rightarrow> ('s, 'b, 'd) Engine
    \<Rightarrow> (('s, 'b, 'd) Engine \<times> error option) option" where
  "handleRecords lib fb clk [] e = Some (e, None)"
| "handleRecords lib fb clk ((decodedRecord, offset) # rest) e =
    (case rep_handleRecord lib fb (clk 0) decodedRecord offset e of
       None \<Rightarrow> None
     | Some (e, Some err) \<Rightarrow> Some (e, Some (Wrapped ''failed to handle record'' err))
     | Some (e, None) \<Rightarrow> handleRecords lib fb (\<lambda>i. clk (Suc i)) rest e)"

definition ApplyRecords ::
  "('s, 'b) mem_lib \<Rightarrow> fb_api \<Rightarrow> (nat \<Rightarrow> ioenv) \<Rightarrow> (nat \<Rightarrow> nat \<Rightarrow> u64) \<Rightarrow> bytes list \<Rightarrow> RecordPosition list \<Rightarrow> ('s, 'b, 'd) Engine
    \<Rightarrow> (('s, 'b, 'd) Engine \<times> error option) option" where
  "ApplyRecords lib fb io clk encodedWals receivedOffsets e =
    (if encodedWals = [] then Some (e, None)
     else if length encodedWals \<noteq> length receivedOffsets then Some (e, Some (ErrMsg ''mismatch: records and offsets''))
     else case checkRecords fb (en_writeSeenCounter e + 1) (zip encodedWals receivedOffsets) of
       Some err \<Rightarrow> Some (e, Some err)
     | None \<Rightarrow>
       case wio_BatchAppend io encodedWals (en_walIO e) of
         (w, Inl err) \<Rightarrow> Some (e\<lparr>en_walIO := w\<rparr>, Some err)
       | (w, Inr offsets) \<Rightarrow>
         let e = e\<lparr>en_walIO := w\<rparr> in
         if \<not> list_all2 isEqualOffset offsets receivedOffsets then Some (e, Some ErrInvalidOffset)
         else handleRecords lib fb clk (zip (map (GetRootAsLogRecord fb) encodedWals) offsets)
           (e\<lparr>en_writeSeenCounter := en_writeSeenCounter e + word_of_nat (length encodedWals)\<rparr>))"

end
