(* ===== verification/RecordApply.thy ===== *)
theory RecordApply
  imports Replica
begin

text \<open>
  What a record of the log puts into the memory table. Writes, commits and the replica all append a record and then write its entries;
  the entries of a record mean for the store what the record means for recovery.
\<close>

definition record_entries :: "fb_api \<Rightarrow> log \<Rightarrow> LogRecord \<Rightarrow> RecordPosition \<Rightarrow> history" where
  "record_entries fb pre r p = (let parts = concat (map (Entries \<circ> snd) (tl (txn_part pre (TxnID r)))); op = OperationType r in
     case TxnState r of
       TransactionStateNone \<Rightarrow>
         if op = LogOperationTypeDeleteRowByKey then map (row_entry fb op) (Entries r)
         else if op \<in> {LogOperationTypeInsert, LogOperationTypeDelete} then
           (case EntryType r of LogEntryTypeKV \<Rightarrow> map (kv_entry fb op) (Entries r) | LogEntryTypeRow \<Rightarrow> map (row_entry fb op) (Entries r)
            | LogEntryTypeChunked \<Rightarrow> [])
         else []
     | TransactionStateCommit \<Rightarrow>
         (case EntryType r of LogEntryTypeKV \<Rightarrow> map (kv_entry fb op) parts | LogEntryTypeRow \<Rightarrow> map (row_entry fb op) parts
          | LogEntryTypeChunked \<Rightarrow> [(kve_Key (DeserializeKVEntry fb (hd (Entries r))), getValueStruct LogOperationTypeInsert LogEntryTypeChunked (rp_Encode p))])
     | _ \<Rightarrow> [])"

text \<open>The operations of committed transactions that recovery knows.\<close>

definition known_op :: "LogRecord \<Rightarrow> bool" where
  "known_op r \<longleftrightarrow> (TxnState r = TransactionStateCommit \<longrightarrow>
     (case EntryType r of LogEntryTypeKV \<Rightarrow> OperationType r \<in> {LogOperationTypeInsert, LogOperationTypeDelete}
      | LogEntryTypeRow \<Rightarrow> OperationType r \<in> {LogOperationTypeInsert, LogOperationTypeDelete, LogOperationTypeDeleteRowByKey}
      | LogEntryTypeChunked \<Rightarrow> True))"

lemma kv_entries_ok:
  assumes "engine_call c" "entries_call fb op LogEntryTypeKV es = Some c" "op \<in> {LogOperationTypeInsert, LogOperationTypeDelete}"
  shows "(\<forall>x \<in> set (map (kv_entry fb op) es). entry_ok fb D x) \<and> mem_sops fb D (map (kv_entry fb op) es) = call_sops c"
proof (cases "op = LogOperationTypeInsert")
  case True
  then have c: "c = CBatchSetKV (map (kve_Key \<circ> DeserializeKVEntry fb) es) (map (kve_Value \<circ> DeserializeKVEntry fb) es)"
    using assms(2) by (simp add: entries_call_def)
  have "encKV (kve_Key (DeserializeKVEntry fb en))" if "en \<in> set es" for en
    using assms(1) that unfolding c by (auto simp: engine_call_def call_ok_def list_all_iff zip_map_map zip_same_conv_map)
  moreover have "mem_sops fb D (map (kv_entry fb op) es) = call_sops c" unfolding c
    by (induction es) (auto simp: True kv_entry_def mem_call_def Let_def)
  ultimately show ?thesis by (auto simp: True kv_entry_def entry_ok_def Let_def)
next
  case False
  then have op: "op = LogOperationTypeDelete" using assms(3) by simp
  then have c: "c = CBatchDeleteKV (map (kve_Key \<circ> DeserializeKVEntry fb) es)" using assms(2) by (simp add: entries_call_def)
  have "encKV (kve_Key (DeserializeKVEntry fb en))" if "en \<in> set es" for en
    using assms(1) that unfolding c by (auto simp: engine_call_def call_ok_def list_all_iff)
  moreover have "mem_sops fb D (map (kv_entry fb op) es) = call_sops c" unfolding c
    by (induction es) (auto simp: op kv_entry_def mem_call_def Let_def)
  ultimately show ?thesis by (auto simp: op kv_entry_def entry_ok_def Let_def)
qed

lemma row_entries_ok:
  assumes "engine_call c" "entries_call fb op LogEntryTypeRow es = Some c"
  shows "(\<forall>x \<in> set (map (row_entry fb op) es). entry_ok fb D x) \<and> mem_sops fb D (map (row_entry fb op) es) = call_sops c"
proof -
  let ?ks = "map (re_Key \<circ> DeserializeRowUpdateEntry fb) es" and ?cs = "map (re_Columns \<circ> DeserializeRowUpdateEntry fb) es"
  consider "op = LogOperationTypeInsert" "c = CBatchSetCells ?ks ?cs" | "op = LogOperationTypeDelete" "c = CBatchDeleteCells ?ks ?cs"
    | "op = LogOperationTypeDeleteRowByKey" "c = CBatchDeleteRows ?ks"
    using assms(2) by (cases op) (auto simp: entries_call_def Let_def)
  then show ?thesis
  proof cases
    case 1
    have "encRow (re_Key (DeserializeRowUpdateEntry fb en))" if "en \<in> set es" for en
      using assms(1) that unfolding 1 by (auto simp: engine_call_def call_ok_def list_all_iff zip_map_map zip_same_conv_map)
    moreover have "mem_sops fb D (map (row_entry fb op) es) = call_sops c" unfolding 1
      by (induction es) (auto simp: row_entry_def mem_call_def Let_def)
    ultimately show ?thesis by (auto simp: 1 row_entry_def entry_ok_def)
  next
    case 2
    have "encRow (re_Key (DeserializeRowUpdateEntry fb en))" if "en \<in> set es" for en
      using assms(1) that unfolding 2 by (auto simp: engine_call_def call_ok_def list_all_iff zip_map_map zip_same_conv_map)
    moreover have "mem_sops fb D (map (row_entry fb op) es) = call_sops c" unfolding 2
      by (induction es) (auto simp: row_entry_def mem_call_def Let_def)
    ultimately show ?thesis by (auto simp: 2 row_entry_def entry_ok_def)
  next
    case 3
    have "encRow (re_Key (DeserializeRowUpdateEntry fb en))" if "en \<in> set es" for en
      using assms(1) that unfolding 3 by (auto simp: engine_call_def call_ok_def list_all_iff)
    moreover have "mem_sops fb D (map (row_entry fb op) es) = call_sops c" unfolding 3
      by (induction es) (auto simp: row_entry_def mem_call_def Let_def)
    ultimately show ?thesis by (auto simp: 3 row_entry_def entry_ok_def)
  qed
qed

lemma chunk_entry_ok:
  assumes "record_ok fb pre r" "TxnState r = TransactionStateCommit" "EntryType r = LogEntryTypeChunked"
    and "p \<notin> fst ` set pre" "is_int64 (Offset p)"
  shows "(\<forall>x \<in> set (record_entries fb pre r p). entry_ok fb (pre @ [(p, r)]) x)
    \<and> mem_sops fb (pre @ [(p, r)]) (record_entries fb pre r p) = record_sops fb pre r"
proof -
  let ?k = "kve_Key (DeserializeKVEntry fb (hd (Entries r)))"
  have call: "record_call fb pre r = Some (chunk_call fb r (map snd (tl (txn_part pre (TxnID r)))))"
    using assms(2,3) by (simp add: record_call_def commit_call_def)
  then have "engine_call (chunk_call fb r (map snd (tl (txn_part pre (TxnID r)))))" using assms(1) by (simp add: record_ok_def)
  then have "encBlob ?k" by (simp add: engine_call_def call_ok_def chunk_call_def)
  moreover have "log_at (pre @ [(p, r)]) p = Some (pre, r)" by (rule log_at_last [OF assms(4)])
  moreover have "DecodeOffset (rp_Encode p) = Some p" by (rule DecodeOffset_Encode [OF assms(5)])
  ultimately show ?thesis using assms(1-3) call
    by (simp add: record_entries_def entry_ok_def mem_call_def record_sops_def getValueStruct_def)
qed

lemma record_entries_ok:
  assumes "record_ok fb pre r" "known_op r" "p \<notin> fst ` set pre" "is_int64 (Offset p)"
  shows "(\<forall>x \<in> set (record_entries fb pre r p). entry_ok fb (pre @ [(p, r)]) x)
    \<and> mem_sops fb (pre @ [(p, r)]) (record_entries fb pre r p) = record_sops fb pre r"
proof (cases "TxnState r")
  case TransactionStateNone
  let ?et = "if OperationType r = LogOperationTypeDeleteRowByKey then LogEntryTypeRow else EntryType r"
  have call: "record_call fb pre r = entries_call fb (OperationType r) ?et (Entries r)" by (simp add: record_call_def TransactionStateNone)
  show ?thesis
  proof (cases "record_call fb pre r")
    case None
    then have "record_entries fb pre r p = []" using call
      by (auto simp: record_entries_def TransactionStateNone entries_call_def Let_def split: LogEntryType.splits LogOperationType.splits if_splits)
    then show ?thesis by (simp add: record_sops_def None)
  next
    case (Some c)
    then have c: "engine_call c" "entries_call fb (OperationType r) ?et (Entries r) = Some c" using assms(1) call by (simp_all add: record_ok_def)
    have "?et = LogEntryTypeRow \<and> record_entries fb pre r p = map (row_entry fb (OperationType r)) (Entries r)
        \<or> ?et = LogEntryTypeKV \<and> OperationType r \<in> {LogOperationTypeInsert, LogOperationTypeDelete}
          \<and> record_entries fb pre r p = map (kv_entry fb (OperationType r)) (Entries r)"
      using c(2) by (cases "OperationType r"; cases "EntryType r") (simp_all add: record_entries_def TransactionStateNone entries_call_def Let_def)
    then show ?thesis using row_entries_ok [OF c(1)] kv_entries_ok [OF c(1)] c(2) Some by (auto simp: record_sops_def simp del: set_map)
  qed
next
  case TransactionStateCommit
  show ?thesis
  proof (cases "EntryType r = LogEntryTypeChunked")
    case True
    then show ?thesis using chunk_entry_ok [OF assms(1) TransactionStateCommit True assms(3,4)] by blast
  next
    case False
    let ?parts = "concat (map (Entries \<circ> snd) (tl (txn_part pre (TxnID r))))"
    have call: "record_call fb pre r = entries_call fb (OperationType r) (EntryType r) ?parts"
      using False by (simp add: record_call_def TransactionStateCommit commit_call_def comp_def)
    have "\<exists>c. entries_call fb (OperationType r) (EntryType r) ?parts = Some c" using assms(2) False
      by (auto simp: known_op_def TransactionStateCommit entries_call_def Let_def split: LogEntryType.splits)
    then obtain c where c: "entries_call fb (OperationType r) (EntryType r) ?parts = Some c" "engine_call c" using assms(1) call by (auto simp: record_ok_def)
    have "EntryType r = LogEntryTypeRow \<and> record_entries fb pre r p = map (row_entry fb (OperationType r)) ?parts
        \<or> EntryType r = LogEntryTypeKV \<and> OperationType r \<in> {LogOperationTypeInsert, LogOperationTypeDelete}
          \<and> record_entries fb pre r p = map (kv_entry fb (OperationType r)) ?parts"
      using assms(2) False by (cases "EntryType r") (auto simp: known_op_def record_entries_def TransactionStateCommit Let_def)
    then show ?thesis using row_entries_ok [OF c(2)] kv_entries_ok [OF c(2)] c(1) call by (auto simp: record_sops_def simp del: set_map)
  qed
qed (simp_all add: record_entries_def record_sops_def record_call_def)

end
