(* ===== verification/TxnCorrect.thy ===== *)
theory TxnCorrect
  imports RecordApply
begin

text \<open>
  Transactions are atomic: the records of an open transaction change nothing but the log, and the commit applies all its writes with one
  record. Other records may come between those of a transaction.
\<close>

section \<open>Appending a record\<close>

text \<open>What the log needs for a record, and a write for its entries, read off the engine.\<close>

definition can_log :: "fb_api \<Rightarrow> ioenv \<Rightarrow> ('s, 'b, 'd) Engine \<Rightarrow> bytes \<Rightarrow> bool" where
  "can_log fb io e d \<longleftrightarrow> all_ok io \<and> fits (en_walIO e) d
    \<and> (case wl_currentSegment (wio_appendLog (en_walIO e)) of None \<Rightarrow> False | Some sid \<Rightarrow> unat sid + 1 < 2 ^ 32)"

definition can_put :: "('s, 'b) mem_lib \<Rightarrow> (nat \<Rightarrow> u64) \<Rightarrow> ('s, 'b, 'd) Engine \<Rightarrow> history \<Rightarrow> bool" where
  "can_put lib clk e xs \<longleftrightarrow> (\<forall>i. clk i < 2 ^ 63) \<and> (\<forall>x \<in> set xs. fits_arena lib e x) \<and> mt_opCount (en_activeMemTable e) + length xs \<le> 2 ^ 62"

lemma can_log_last:
  assumes "wal_ok fb (en_walIO e) L" "can_log fb io e d"
  shows "all_ok io" "unat (fst (last L)) + 1 < 2 ^ 32" "fits (en_walIO e) d"
proof -
  have "wl_currentSegment (wio_appendLog (en_walIO e)) = Some (fst (last L))" using wal_okD(1) [OF assms(1)] by (simp add: wal_inv_def)
  then show "all_ok io" "unat (fst (last L)) + 1 < 2 ^ 32" "fits (en_walIO e) d" using assms(2) by (simp_all add: can_log_def)
qed

lemma can_put_length:
  assumes "en_inv lib fb R M u e L Hs H F P" "can_put lib clk e xs"
  shows "\<forall>i. clk i < 2 ^ 63" "\<forall>x \<in> set xs. fits_arena lib e x" "length H + length xs \<le> 2 ^ 62"
  using assms(2) en_invD(2) [OF assms(1)] by (simp_all add: can_put_def tables_ok_def mt_inv_def Let_def)

text \<open>A record that asks nothing of the store.\<close>

lemma log_record_ok:
  assumes "en_inv lib fb R M u e L Hs H F P" "can_log fb io e d" "r = DeserializeLogRecord fb d"
    and "link_ok (decoded fb (wal_log L)) r" "record_call fb (decoded fb (wal_log L)) r = None" "TxnState r \<noteq> TransactionStateCommit"
  shows "\<exists>w' L' p. wio_Append io d (en_walIO e) = (w', Inr p) \<and> decoded fb (wal_log L') = decoded fb (wal_log L) @ [(p, r)]
    \<and> en_inv lib fb R M u (e\<lparr>en_walIO := w', en_writeSeenCounter := c\<rparr>) L' Hs H F P \<and> p \<notin> fst ` set (decoded fb (wal_log L))
    \<and> kept e (e\<lparr>en_walIO := w', en_writeSeenCounter := c\<rparr>) \<and> wal_log L' = wal_log L @ [(p, d)]"
proof -
  have "record_ok fb (decoded fb (wal_log L)) r" using assms(5,6) by (simp add: record_ok_def)
  from log_append_data [OF en_invD(1) [OF assms(1)] can_log_last [OF en_invD(1) [OF assms(1)] assms(2)] assms(3,4) this]
  obtain w' L' p where w': "wio_Append io d (en_walIO e) = (w', Inr p)" "wal_ok fb w' L'" "wal_log L' = wal_log L @ [(p, d)]"
      "p \<notin> fst ` set (decoded fb (wal_log L))" "same_config (wio_appendLog (en_walIO e)) (wio_appendLog w')" by blast
  have D': "decoded fb (wal_log L') = decoded fb (wal_log L) @ [(p, r)]" using w'(3) assms(3) by simp
  have "en_inv lib fb R M u (e\<lparr>en_walIO := w', en_writeSeenCounter := c\<rparr>) L' Hs H F P"
    by (rule en_inv_log [OF assms(1) w'(2) D']) (simp add: record_sops_def assms(5))
  moreover have "kept e (e\<lparr>en_walIO := w', en_writeSeenCounter := c\<rparr>)" using w'(5) by (simp add: kept_def same_config_def)
  ultimately show ?thesis using w'(1,3,4) D' by blast
qed

text \<open>A record and its entries.\<close>

lemma apply_record_ok:
  assumes "mem_laws lib" "en_inv lib fb R M u e L Hs H F P" "can_log fb io e d" "r = DeserializeLogRecord fb d"
    and "link_ok (decoded fb (wal_log L)) r" "record_ok fb (decoded fb (wal_log L)) r" "known_op r"
    and "\<And>p. can_put lib clk e (record_entries fb (decoded fb (wal_log L)) r p)"
  shows "\<exists>w' L' p. wio_Append io d (en_walIO e) = (w', Inr p) \<and> wal_ok fb w' L' \<and> wal_log L' = wal_log L @ [(p, d)]
    \<and> (\<forall>post e1. (post = id \<or> post = writeNilOffset)
        \<and> (e1 = e\<lparr>en_walIO := w', en_writeSeenCounter := c\<rparr> \<or> e1 = writeNilOffset (e\<lparr>en_walIO := w', en_writeSeenCounter := c\<rparr>)) \<longrightarrow>
        (\<exists>e2 Hs' H'. memTableWrites lib post clk (record_entries fb (decoded fb (wal_log L)) r p) e1 = (e2, None)
          \<and> en_inv lib fb R M u (writeOffset (Some p) e2) L' Hs' H' F P \<and> kept e (writeOffset (Some p) e2)
          \<and> concat Hs' @ H' = concat Hs @ H @ record_entries fb (decoded fb (wal_log L)) r p \<and> prefix Hs Hs'
          \<and> en_writeSeenCounter (writeOffset (Some p) e2) = c))"
proof -
  let ?D = "decoded fb (wal_log L)"
  from log_append_data [OF en_invD(1) [OF assms(2)] can_log_last [OF en_invD(1) [OF assms(2)] assms(3)] assms(4-6)]
  obtain w' L' p where w': "wio_Append io d (en_walIO e) = (w', Inr p)" "wal_ok fb w' L'" "wal_log L' = wal_log L @ [(p, d)]"
      "p \<notin> fst ` set ?D" "is_int64 (Offset p)" "same_config (wio_appendLog (en_walIO e)) (wio_appendLog w')" by blast
  let ?xs = "record_entries fb ?D r p"
  have D': "decoded fb (wal_log L') = ?D @ [(p, r)]" using w'(3) assms(4) by simp
  note xs = record_entries_ok [OF assms(6,7) w'(4,5)]
  note put = can_put_length [OF assms(2) assms(8) [of p]]
  have ok: "\<forall>x \<in> set ?xs. entry_ok fb (decoded fb (wal_log L')) x \<and> fits_arena lib e x" "mem_sops fb (decoded fb (wal_log L')) ?xs = record_sops fb ?D r"
    using xs put(2) by (simp_all add: D')
  have "\<exists>e2 Hs' H'. memTableWrites lib post clk ?xs e1 = (e2, None) \<and> en_inv lib fb R M u (writeOffset (Some p) e2) L' Hs' H' F P
      \<and> kept e (writeOffset (Some p) e2) \<and> concat Hs' @ H' = concat Hs @ H @ ?xs \<and> prefix Hs Hs' \<and> en_writeSeenCounter (writeOffset (Some p) e2) = c"
    if "post = id \<or> post = writeNilOffset"
      and e1: "e1 = e\<lparr>en_walIO := w', en_writeSeenCounter := c\<rparr> \<or> e1 = writeNilOffset (e\<lparr>en_walIO := w', en_writeSeenCounter := c\<rparr>)" for post e1
  proof -
    from en_inv_apply [OF assms(1,2) w'(2) D' that(1) put(1) ok put(3) e1]
    obtain e2 Hs' H' where e2: "memTableWrites lib post clk ?xs e1 = (e2, None)" "en_inv lib fb R M u (writeOffset (Some p) e2) L' Hs' H' F P"
        "same_rest (e\<lparr>en_walIO := w', en_writeSeenCounter := c\<rparr>) e2" "concat Hs' @ H' = concat Hs @ H @ ?xs" "prefix Hs Hs'" by blast
    have "kept e (writeOffset (Some p) e2)" "en_writeSeenCounter (writeOffset (Some p) e2) = c"
      using e2(3) w'(6) by (simp_all add: kept_def same_rest_def same_config_def)
    then show ?thesis using e2 by blast
  qed
  then show ?thesis using w'(1-3) by (intro exI [of _ w'] exI [of _ L'] exI [of _ p] conjI allI impI) auto
qed

section \<open>The writes of a transaction\<close>

datatype txn_write = TKV bytes bytes | TColumns bytes columns

fun tw_key :: "LogEntryType \<Rightarrow> txn_write \<Rightarrow> bytes" where
  "tw_key et (TKV k v) = (if et = LogEntryTypeChunked then kc_KeyBlobChunk k 0 else kc_KeyKV k)"
| "tw_key et (TColumns r cs) = kc_RowKey r"

fun tw_value :: "txn_write \<Rightarrow> bytes" where
  "tw_value (TKV k v) = v"
| "tw_value (TColumns r cs) = []"

fun tw_columns :: "txn_write \<Rightarrow> columns" where
  "tw_columns (TKV k v) = []"
| "tw_columns (TColumns r cs) = cs"

fun tw_ok :: "LogEntryType \<Rightarrow> txn_write \<Rightarrow> bool" where
  "tw_ok et (TKV k v) = (et = LogEntryTypeKV \<or> et = LogEntryTypeChunked \<and> encBlob (kc_KeyBlobChunk k 0))"
| "tw_ok et (TColumns r cs) = (et = LogEntryTypeRow \<and> plain KeyTypeWideColumn r \<and> distinct (map fst cs) \<and> cs \<noteq> [])"

fun tw_entry :: "fb_api \<Rightarrow> LogEntryType \<Rightarrow> txn_write \<Rightarrow> bytes" where
  "tw_entry fb et (TKV k v) = SerializeKVEntry fb (tw_key et (TKV k v)) v"
| "tw_entry fb et (TColumns r cs) = SerializeRowUpdateEntry fb (kc_RowKey r) cs"

text \<open>The kinds of transactions that both the memory table and recovery handle.\<close>

definition txn_kind :: "LogOperationType \<Rightarrow> LogEntryType \<Rightarrow> bool" where
  "txn_kind op et = (case et of
     LogEntryTypeKV \<Rightarrow> op \<in> {LogOperationTypeInsert, LogOperationTypeDelete}
   | LogEntryTypeRow \<Rightarrow> op \<in> {LogOperationTypeInsert, LogOperationTypeDelete, LogOperationTypeDeleteRowByKey}
   | LogEntryTypeChunked \<Rightarrow> op = LogOperationTypeInsert)"

text \<open>What the commit asks of the store, all at once.\<close>

definition txn_call :: "LogOperationType \<Rightarrow> LogEntryType \<Rightarrow> u32 \<Rightarrow> txn_write list \<Rightarrow> storeCall" where
  "txn_call op et checksum xs = (let ks = map (tw_key et) xs in case et of
     LogEntryTypeKV \<Rightarrow> if op = LogOperationTypeInsert then CBatchSetKV ks (map tw_value xs) else CBatchDeleteKV ks
   | LogEntryTypeRow \<Rightarrow> if op = LogOperationTypeInsert then CBatchSetCells ks (map tw_columns xs)
       else if op = LogOperationTypeDelete then CBatchDeleteCells ks (map tw_columns xs) else CBatchDeleteRows ks
   | LogEntryTypeChunked \<Rightarrow> CSetLobChunks (hd ks) (map tw_value xs) checksum)"

text \<open>An open transaction with the writes \<open>xs\<close>.\<close>

definition txn_inv :: "fb_api \<Rightarrow> log \<Rightarrow> Txn \<Rightarrow> txn_write list \<Rightarrow> bool" where
  "txn_inv fb D t xs \<longleftrightarrow> (let et = tx_txnEntryType t; part = txn_part D (tx_txnID t) in
     tx_err t = None \<and> txn_kind (tx_txnOperation t) et \<and> (\<forall>x \<in> set xs. tw_ok et x)
     \<and> part \<noteq> [] \<and> tx_prevOffset t = Some (fst (last part)) \<and> map (Entries \<circ> snd) (tl part) = map (\<lambda>x. [tw_entry fb et x]) xs
     \<and> tx_valuesCount t = length xs
     \<and> (et \<noteq> LogEntryTypeRow \<longrightarrow> tx_checksum t = ChecksumIEEE (concat (map (tw_entry fb et) xs)))
     \<and> (if et = LogEntryTypeChunked then (xs = [] \<longrightarrow> tx_rowKey t = None) \<and> (\<forall>x \<in> set xs. tx_rowKey t = Some (tw_key et x))
        else map (\<lambda>m. (te_key m, te_value m)) (tx_memTableEntries t)
          = map (\<lambda>x. (tw_key et x, getValueStruct (tx_txnOperation t) et (if et = LogEntryTypeRow then tw_entry fb et x else tw_value x))) xs))"

lemma txn_inv_other:
  assumes "txn_inv fb D t xs" "TxnState r = TransactionStateNone \<or> TxnID r \<noteq> tx_txnID t"
  shows "txn_inv fb (D @ [(p, r)]) t xs"
  using assms by (auto simp: txn_inv_def Let_def)

lemma ChecksumIEEE_snoc: "crc_update IEEE (ChecksumIEEE xs) ys = ChecksumIEEE (xs @ ys)" "ChecksumIEEE [] = 0"
  by (simp_all add: ChecksumIEEE_def crc_update_def)

lemma tw_entry_laws [simp]:
  assumes "fb_laws fb" "tw_ok et x"
  shows "et \<noteq> LogEntryTypeRow \<Longrightarrow> DeserializeKVEntry fb (tw_entry fb et x) = \<lparr>kve_Key = tw_key et x, kve_Value = tw_value x\<rparr>"
    "et = LogEntryTypeRow \<Longrightarrow> re_Key (DeserializeRowUpdateEntry fb (tw_entry fb et x)) = tw_key et x"
    "et = LogEntryTypeRow \<Longrightarrow> re_Columns (DeserializeRowUpdateEntry fb (tw_entry fb et x)) = tw_columns x"
  using assms by (cases x; auto)+

section \<open>The methods\<close>

definition begin_record :: "u64 \<Rightarrow> u64 \<Rightarrow> LogEntryType \<Rightarrow> bytes \<Rightarrow> LogRecord" where
  "begin_record index hlc et uuid = \<lparr>LSN = index, HLC = hlc, CRC32Checksum = 0, OperationType = LogOperationTypeNoOperation,
     TxnState = TransactionStateBegin, EntryType = et, TxnID = uuid, PrevTxnWalIndex = [], Entries = []\<rparr>"

lemma NewTxn_ok:
  assumes "fb_laws fb" "en_inv lib fb R M u e L Hs H F P" "\<not> ec_ReadOnly (en_config e)" "txn_kind op et"
    and "txn_part (decoded fb (wal_log L)) uuid = []" "r = begin_record (en_writeSeenCounter e + 1) hlc et uuid" "can_log fb io e (FBEncode fb r)"
  shows "\<exists>e' t L' p. NewTxn fb io (Inr uuid) hlc op et e = (e', Inr t) \<and> en_inv lib fb R M u e' L' Hs H F P \<and> kept e e'
    \<and> decoded fb (wal_log L') = decoded fb (wal_log L) @ [(p, r)] \<and> txn_inv fb (decoded fb (wal_log L')) t [] \<and> tx_txnID t = uuid
    \<and> tx_txnOperation t = op \<and> tx_txnEntryType t = et \<and> en_writeSeenCounter e' = en_writeSeenCounter e + 1"
proof -
  have "r = DeserializeLogRecord fb (FBEncode fb r)" using assms(1) by (simp add: DeserializeLogRecord_def)
  moreover have "link_ok (decoded fb (wal_log L)) r" "record_call fb (decoded fb (wal_log L)) r = None" "TxnState r \<noteq> TransactionStateCommit"
    using assms(5) by (simp_all add: assms(6) begin_record_def link_ok_def record_call_def)
  ultimately obtain w' L' p where w': "wio_Append io (FBEncode fb r) (en_walIO e) = (w', Inr p)" "decoded fb (wal_log L') = decoded fb (wal_log L) @ [(p, r)]"
      "en_inv lib fb R M u (e\<lparr>en_walIO := w', en_writeSeenCounter := en_writeSeenCounter e + 1\<rparr>) L' Hs H F P"
      "kept e (e\<lparr>en_walIO := w', en_writeSeenCounter := en_writeSeenCounter e + 1\<rparr>)"
    using log_record_ok [OF assms(2,7), of r "en_writeSeenCounter e + 1"] by blast
  let ?t = "\<lparr>tx_err = None, tx_prevOffset = Some p, tx_memTableEntries = [], tx_rowKey = None, tx_txnID = uuid,
     tx_valuesCount = 0, tx_checksum = 0, tx_chunkedValueChecksum = 0, tx_txnOperation = op, tx_txnEntryType = et\<rparr>"
  have "NewTxn fb io (Inr uuid) hlc op et e = (e\<lparr>en_walIO := w', en_writeSeenCounter := en_writeSeenCounter e + 1\<rparr>, Inr ?t)"
    using assms(3,4,6) w'(1) by (auto simp: NewTxn_def begin_record_def txn_kind_def Let_def split: LogEntryType.splits)
  moreover have "txn_inv fb (decoded fb (wal_log L')) ?t []"
    using assms(4,5) by (simp add: txn_inv_def w'(2) assms(6) begin_record_def ChecksumIEEE_snoc)
  ultimately show ?thesis using w'(2-4) by (intro exI conjI) (assumption | simp)+
qed

text \<open>The prepare record of a write of an open transaction.\<close>

lemma prepare_ok:
  assumes "fb_laws fb" "en_inv lib fb R M u e L Hs H F P" "txn_inv fb (decoded fb (wal_log L)) t xs"
    and "r = prepare_record (en_writeSeenCounter e + 1) hlc en t" "can_log fb io e (FBEncode fb r)"
  shows "\<exists>w' L' p. wio_Append io (FBEncode fb r) (en_walIO e) = (w', Inr p) \<and> decoded fb (wal_log L') = decoded fb (wal_log L) @ [(p, r)]
    \<and> en_inv lib fb R M u (e\<lparr>en_walIO := w', en_writeSeenCounter := en_writeSeenCounter e + 1\<rparr>) L' Hs H F P
    \<and> kept e (e\<lparr>en_walIO := w', en_writeSeenCounter := en_writeSeenCounter e + 1\<rparr>)"
proof -
  have "r = DeserializeLogRecord fb (FBEncode fb r)" using assms(1) by (simp add: DeserializeLogRecord_def)
  moreover have "link_ok (decoded fb (wal_log L)) r" "record_call fb (decoded fb (wal_log L)) r = None" "TxnState r \<noteq> TransactionStateCommit"
    using assms(3) by (simp_all add: assms(4) prepare_record_def link_ok_def record_call_def txn_inv_def Let_def)
  ultimately show ?thesis using log_record_ok [OF assms(2,5), of r "en_writeSeenCounter e + 1"] by blast
qed

text \<open>What an append leaves of the transaction besides its state.\<close>

definition same_txn :: "Txn \<Rightarrow> Txn \<Rightarrow> bool" where
  "same_txn t t' \<longleftrightarrow> tx_txnID t' = tx_txnID t \<and> tx_txnOperation t' = tx_txnOperation t \<and> tx_txnEntryType t' = tx_txnEntryType t"

lemma AppendKVTxn_ok:
  assumes "fb_laws fb" "en_inv lib fb R M u e L Hs H F P" "txn_inv fb (decoded fb (wal_log L)) t xs" "x = TKV k v" "tw_ok (tx_txnEntryType t) x"
    and "tx_txnEntryType t = LogEntryTypeChunked \<longrightarrow> (\<forall>y \<in> set xs. tw_key LogEntryTypeChunked y = kc_KeyBlobChunk k 0)"
    and "r = prepare_record (en_writeSeenCounter e + 1) hlc (tw_entry fb (tx_txnEntryType t) x) t" "can_log fb io e (FBEncode fb r)"
  shows "\<exists>e' t' L' p. AppendKVTxn fb io hlc k v t e = (e', t', None) \<and> en_inv lib fb R M u e' L' Hs H F P \<and> kept e e' \<and> same_txn t t'
    \<and> decoded fb (wal_log L') = decoded fb (wal_log L) @ [(p, r)] \<and> txn_inv fb (decoded fb (wal_log L')) t' (xs @ [x])
    \<and> en_writeSeenCounter e' = en_writeSeenCounter e + 1"
proof -
  let ?et = "tx_txnEntryType t"
  obtain w' L' p where w': "wio_Append io (FBEncode fb r) (en_walIO e) = (w', Inr p)" "decoded fb (wal_log L') = decoded fb (wal_log L) @ [(p, r)]"
      "en_inv lib fb R M u (e\<lparr>en_walIO := w', en_writeSeenCounter := en_writeSeenCounter e + 1\<rparr>) L' Hs H F P"
      "kept e (e\<lparr>en_walIO := w', en_writeSeenCounter := en_writeSeenCounter e + 1\<rparr>)"
    using prepare_ok [OF assms(1-3,7,8)] by blast
  have inv: "tx_err t = None" "txn_kind (tx_txnOperation t) ?et" "\<forall>x \<in> set xs. tw_ok ?et x" "txn_part (decoded fb (wal_log L)) (tx_txnID t) \<noteq> []"
      "map (Entries \<circ> snd) (tl (txn_part (decoded fb (wal_log L)) (tx_txnID t))) = map (\<lambda>x. [tw_entry fb ?et x]) xs"
    using assms(3) by (simp_all add: txn_inv_def Let_def)
  have et: "?et \<noteq> LogEntryTypeRow" using assms(4,5) by auto
  then have ins: "?et = LogEntryTypeChunked \<Longrightarrow> tx_txnOperation t = LogOperationTypeInsert" "?et = LogEntryTypeKV \<or> ?et = LogEntryTypeChunked"
    using inv(2) by (cases ?et; simp add: txn_kind_def)+
  let ?key = "tw_key ?et x"
  let ?rk = "if ?et = LogEntryTypeChunked \<and> tx_rowKey t = None then Some (kc_KeyBlobChunk k 0) else tx_rowKey t"
  have rk: "?et = LogEntryTypeChunked \<Longrightarrow> ?rk = Some ?key"
    using assms(3,4,6) by (cases xs) (auto simp: txn_inv_def Let_def)
  let ?m = "\<lparr>te_value = getValueStruct (tx_txnOperation t) ?et v, te_key = ?key, te_offset = Some p\<rparr>"
  let ?t = "t\<lparr>tx_rowKey := ?rk, tx_chunkedValueChecksum := crc_update IEEE (tx_chunkedValueChecksum t) v, tx_prevOffset := Some p,
     tx_memTableEntries := (if ?et = LogEntryTypeChunked then tx_memTableEntries t else tx_memTableEntries t @ [?m]),
     tx_checksum := crc_update IEEE (tx_checksum t) (tw_entry fb ?et x), tx_valuesCount := tx_valuesCount t + 1\<rparr>"
  have "AppendKVTxn fb io hlc k v t e = (e\<lparr>en_walIO := w', en_writeSeenCounter := en_writeSeenCounter e + 1\<rparr>, ?t, None)"
    using inv(1) ins(2) w'(1) assms(4,7) rk ins(1)
    by (cases "?et = LogEntryTypeChunked"; cases "tx_rowKey t") (auto simp: AppendKVTxn_def prepare_record_def Let_def)
  moreover have "txn_inv fb (decoded fb (wal_log L')) ?t (xs @ [x])"
  proof -
    have part: "txn_part (decoded fb (wal_log L')) (tx_txnID t) = txn_part (decoded fb (wal_log L)) (tx_txnID t) @ [(p, r)]"
      by (simp add: w'(2) assms(7) prepare_record_def)
    have "Entries r = [tw_entry fb ?et x]" by (simp add: assms(7) prepare_record_def)
    then show ?thesis using assms(3,5) inv et rk assms(4)
      by (auto simp: txn_inv_def part ChecksumIEEE_snoc(1) Let_def tl_append2)
  qed
  moreover have "same_txn t ?t" by (simp add: same_txn_def)
  ultimately show ?thesis using w'(2-4) by (intro exI conjI) (assumption | simp)+
qed

lemma AppendColumnTxn_ok:
  assumes "fb_laws fb" "en_inv lib fb R M u e L Hs H F P" "txn_inv fb (decoded fb (wal_log L)) t xs" "x = TColumns row cs" "tw_ok (tx_txnEntryType t) x"
    and "r = prepare_record (en_writeSeenCounter e + 1) hlc (tw_entry fb (tx_txnEntryType t) x) t" "can_log fb io e (FBEncode fb r)"
  shows "\<exists>e' t' L' p. AppendColumnTxn fb io hlc row cs t e = (e', t', None) \<and> en_inv lib fb R M u e' L' Hs H F P \<and> kept e e' \<and> same_txn t t'
    \<and> decoded fb (wal_log L') = decoded fb (wal_log L) @ [(p, r)] \<and> txn_inv fb (decoded fb (wal_log L')) t' (xs @ [x])
    \<and> en_writeSeenCounter e' = en_writeSeenCounter e + 1"
proof -
  let ?et = "tx_txnEntryType t"
  obtain w' L' p where w': "wio_Append io (FBEncode fb r) (en_walIO e) = (w', Inr p)" "decoded fb (wal_log L') = decoded fb (wal_log L) @ [(p, r)]"
      "en_inv lib fb R M u (e\<lparr>en_walIO := w', en_writeSeenCounter := en_writeSeenCounter e + 1\<rparr>) L' Hs H F P"
      "kept e (e\<lparr>en_walIO := w', en_writeSeenCounter := en_writeSeenCounter e + 1\<rparr>)"
    using prepare_ok [OF assms(1-3,6,7)] by blast
  have et: "?et = LogEntryTypeRow" "cs \<noteq> []" using assms(4,5) by auto
  have inv: "tx_err t = None" "txn_part (decoded fb (wal_log L)) (tx_txnID t) \<noteq> []" using assms(3) by (simp_all add: txn_inv_def Let_def)
  let ?m = "\<lparr>te_value = getValueStruct (tx_txnOperation t) ?et (tw_entry fb ?et x), te_key = kc_RowKey row, te_offset = Some p\<rparr>"
  let ?t = "t\<lparr>tx_prevOffset := Some p, tx_memTableEntries := tx_memTableEntries t @ [?m],
     tx_checksum := crc_update IEEE (tx_checksum t) (FBEncode fb r), tx_valuesCount := tx_valuesCount t + 1\<rparr>"
  have "AppendColumnTxn fb io hlc row cs t e = (e\<lparr>en_walIO := w', en_writeSeenCounter := en_writeSeenCounter e + 1\<rparr>, ?t, None)"
    using inv(1) et w'(1) assms(4,6) by (simp add: AppendColumnTxn_def Let_def)
  moreover have "txn_inv fb (decoded fb (wal_log L')) ?t (xs @ [x])"
  proof -
    have part: "txn_part (decoded fb (wal_log L')) (tx_txnID t) = txn_part (decoded fb (wal_log L)) (tx_txnID t) @ [(p, r)]"
      by (simp add: w'(2) assms(6) prepare_record_def)
    have "Entries r = [tw_entry fb ?et x]" by (simp add: assms(6) prepare_record_def)
    then show ?thesis using assms(3,5) et inv assms(4) by (auto simp: txn_inv_def part Let_def tl_append2)
  qed
  moreover have "same_txn t ?t" by (simp add: same_txn_def)
  ultimately show ?thesis using w'(2-4) by (intro exI conjI) (assumption | simp)+
qed

section \<open>The commit\<close>

definition commit_record :: "fb_api \<Rightarrow> u64 \<Rightarrow> u64 \<Rightarrow> Txn \<Rightarrow> LogRecord" where
  "commit_record fb index hlc t = \<lparr>LSN = index, HLC = hlc, CRC32Checksum = tx_checksum t, OperationType = tx_txnOperation t,
     TxnState = TransactionStateCommit, EntryType = tx_txnEntryType t, TxnID = tx_txnID t,
     PrevTxnWalIndex = (case tx_prevOffset t of None \<Rightarrow> [] | Some p \<Rightarrow> rp_Encode p),
     Entries = [SerializeKVEntry fb (case tx_rowKey t of None \<Rightarrow> [] | Some k \<Rightarrow> k) []]\<rparr>"

definition commit_entries :: "Txn \<Rightarrow> RecordPosition \<Rightarrow> history" where
  "commit_entries t p = (if tx_txnEntryType t = LogEntryTypeChunked
     then [(case tx_rowKey t of None \<Rightarrow> [] | Some k \<Rightarrow> k, getValueStruct LogOperationTypeInsert LogEntryTypeChunked (rp_Encode p))]
     else map (\<lambda>m. (te_key m, te_value m)) (tx_memTableEntries t))"

lemma concat_singles: "map f ps = map (\<lambda>x. [g x]) xs \<Longrightarrow> concat (map f ps) = map g xs"
  by (simp add: concat_map_singleton)

lemma commit_record_call:
  assumes "fb_laws fb" "txn_inv fb D t xs" "xs \<noteq> []" "r = commit_record fb index hlc t"
  shows "record_call fb D r = Some (txn_call (tx_txnOperation t) (tx_txnEntryType t) (tx_checksum t) xs)"
proof -
  let ?et = "tx_txnEntryType t" and ?part = "txn_part D (tx_txnID t)"
  have inv: "txn_kind (tx_txnOperation t) ?et" "\<forall>x \<in> set xs. tw_ok ?et x" "map (Entries \<circ> snd) (tl ?part) = map (\<lambda>x. [tw_entry fb ?et x]) xs"
    using assms(2) by (simp_all add: txn_inv_def Let_def)
  have parts: "concat (map (Entries \<circ> snd) (tl ?part)) = map (tw_entry fb ?et) xs" by (rule concat_singles [OF inv(3)])
  show ?thesis
  proof (cases "?et = LogEntryTypeChunked")
    case True
    have "map (\<lambda>q. kve_Value (DeserializeKVEntry fb (hd (Entries q)))) (map snd (tl ?part)) = map (\<lambda>es. kve_Value (DeserializeKVEntry fb (hd es))) (map (Entries \<circ> snd) (tl ?part))"
      by simp
    also have "\<dots> = map tw_value xs" unfolding inv(3) using inv(2) tw_entry_laws(1) [OF assms(1)] True by auto
    finally have vals: "map (\<lambda>q. kve_Value (DeserializeKVEntry fb (hd (Entries q)))) (map snd (tl ?part)) = map tw_value xs" .
    have "tx_rowKey t = Some (tw_key ?et (hd xs))" using assms(2,3) True by (simp add: txn_inv_def Let_def)
    then show ?thesis using vals True assms(1,3)
      by (simp add: record_call_def commit_call_def chunk_call_def assms(4) commit_record_def txn_call_def hd_map)
  next
    case False
    have kv: "map (kve_Key \<circ> (DeserializeKVEntry fb \<circ> tw_entry fb ?et)) xs = map (tw_key ?et) xs"
        "map (kve_Value \<circ> (DeserializeKVEntry fb \<circ> tw_entry fb ?et)) xs = map tw_value xs" if "?et = LogEntryTypeKV"
      using inv(2) tw_entry_laws(1) [OF assms(1)] that by auto
    have row: "map (re_Key \<circ> (DeserializeRowUpdateEntry fb \<circ> tw_entry fb ?et)) xs = map (tw_key ?et) xs"
        "map (re_Columns \<circ> (DeserializeRowUpdateEntry fb \<circ> tw_entry fb ?et)) xs = map tw_columns xs" if "?et = LogEntryTypeRow"
      using inv(2) tw_entry_laws(2,3) [OF assms(1)] that by auto
    have "record_call fb D r = entries_call fb (tx_txnOperation t) ?et (map (tw_entry fb ?et) xs)"
      using False parts by (simp add: record_call_def commit_call_def assms(4) commit_record_def comp_def)
    then show ?thesis using inv(1) False kv row
      by (cases ?et) (auto simp: txn_kind_def entries_call_def txn_call_def Let_def)
  qed
qed

lemma txn_engine_call:
  assumes "txn_kind op et" "\<forall>x \<in> set xs. tw_ok et x" "xs \<noteq> []" "et = LogEntryTypeChunked \<longrightarrow> length xs < 2 ^ 32"
  shows "engine_call (txn_call op et s xs)"
proof -
  have enc: "(et = LogEntryTypeKV \<longrightarrow> encKV (tw_key et x)) \<and> (et = LogEntryTypeRow \<longrightarrow> encRow (tw_key et x)) \<and> (et = LogEntryTypeChunked \<longrightarrow> encBlob (tw_key et x))"
    if "x \<in> set xs" for x using assms(2) that by (cases x) auto
  have hd: "et = LogEntryTypeChunked \<Longrightarrow> encBlob (hd (map (tw_key et) xs))" using enc [of "hd xs"] assms(3) by (simp add: hd_map)
  show ?thesis using assms enc hd
    by (cases et) (auto simp: txn_call_def txn_kind_def engine_call_def call_ok_def valid_args_def list_all_iff Let_def zip_map_map zip_same_conv_map)
qed

lemma commit_record_ok:
  assumes "fb_laws fb" "txn_inv fb D t xs" "xs \<noteq> []" "length xs < 2 ^ 32" "r = commit_record fb index hlc t"
  shows "link_ok D r" "record_ok fb D r" "known_op r" "record_entries fb D r p = commit_entries t p"
    "record_sops fb D r = call_sops (txn_call (tx_txnOperation t) (tx_txnEntryType t) (tx_checksum t) xs)"
proof -
  let ?et = "tx_txnEntryType t" and ?part = "txn_part D (tx_txnID t)"
  have inv: "txn_kind (tx_txnOperation t) ?et" "\<forall>x \<in> set xs. tw_ok ?et x" "map (Entries \<circ> snd) (tl ?part) = map (\<lambda>x. [tw_entry fb ?et x]) xs"
      "?part \<noteq> []" "tx_prevOffset t = Some (fst (last ?part))"
    using assms(2) by (simp_all add: txn_inv_def Let_def)
  note call = commit_record_call [OF assms(1-3,5)]
  have "\<forall>es \<in> set (map (Entries \<circ> snd) (tl ?part)). es \<noteq> []" unfolding inv(3) by auto
  moreover have "TxnID r = tx_txnID t" "Entries r \<noteq> []" by (simp_all add: assms(5) commit_record_def)
  ultimately show "record_ok fb D r" using txn_engine_call [OF inv(1,2) assms(3)] assms(4) by (simp add: record_ok_def call)
  show "link_ok D r" using inv(4,5) by (simp add: link_ok_def assms(5) commit_record_def)
  show "known_op r" using inv(1) by (auto simp: known_op_def txn_kind_def assms(5) commit_record_def split: LogEntryType.splits)
  show "record_sops fb D r = call_sops (txn_call (tx_txnOperation t) ?et (tx_checksum t) xs)" by (simp add: record_sops_def call)
  have parts: "concat (map (Entries \<circ> snd) (tl ?part)) = map (tw_entry fb ?et) xs" by (rule concat_singles [OF inv(3)])
  show "record_entries fb D r p = commit_entries t p"
  proof (cases "?et = LogEntryTypeChunked")
    case True
    then show ?thesis using assms(1) by (simp add: record_entries_def commit_entries_def assms(5) commit_record_def)
  next
    case False
    have "map (\<lambda>m. (te_key m, te_value m)) (tx_memTableEntries t)
        = map (\<lambda>x. (tw_key ?et x, getValueStruct (tx_txnOperation t) ?et (if ?et = LogEntryTypeRow then tw_entry fb ?et x else tw_value x))) xs"
      using assms(2) False by (simp add: txn_inv_def Let_def)
    moreover have "map (kv_entry fb (tx_txnOperation t)) (map (tw_entry fb ?et) xs) = map (\<lambda>x. (tw_key ?et x, getValueStruct (tx_txnOperation t) LogEntryTypeKV (tw_value x))) xs"
      if "?et = LogEntryTypeKV" using inv(2) tw_entry_laws(1) [OF assms(1)] that by (auto simp: kv_entry_def Let_def)
    moreover have "map (row_entry fb (tx_txnOperation t)) (map (tw_entry fb ?et) xs) = map (\<lambda>x. (tw_key ?et x, getValueStruct (tx_txnOperation t) LogEntryTypeRow (tw_entry fb ?et x))) xs"
      if "?et = LogEntryTypeRow" using inv(2) tw_entry_laws(2) [OF assms(1)] that by (auto simp: row_entry_def Let_def)
    ultimately show ?thesis using False parts
      by (cases ?et) (simp_all add: record_entries_def commit_entries_def assms(5) commit_record_def Let_def)
  qed
qed

lemma Commit_ok:
  assumes "fb_laws fb" "mem_laws lib" "en_inv lib fb R M u e L Hs H F P" "txn_inv fb (decoded fb (wal_log L)) t xs" "xs \<noteq> []" "length xs < 2 ^ 32"
    and "r = commit_record fb (en_writeSeenCounter e + 1) hlc t" "can_log fb io e (FBEncode fb r)" "\<And>p. can_put lib clk e (commit_entries t p)"
  shows "\<exists>e' t' L' Hs' H' p. Commit lib fb io clk hlc t e = (e', t', None) \<and> tx_err t' = Some ErrTxnAlreadyCommitted
    \<and> en_inv lib fb R M u e' L' Hs' H' F P \<and> prefix Hs Hs' \<and> kept e e' \<and> decoded fb (wal_log L') = decoded fb (wal_log L) @ [(p, r)]
    \<and> record_sops fb (decoded fb (wal_log L)) r = call_sops (txn_call (tx_txnOperation t) (tx_txnEntryType t) (tx_checksum t) xs)
    \<and> en_writeSeenCounter e' = en_writeSeenCounter e + 1"
proof -
  let ?D = "decoded fb (wal_log L)" and ?c = "en_writeSeenCounter e + 1"
  note ok = commit_record_ok [OF assms(1,4-7)]
  have r: "r = DeserializeLogRecord fb (FBEncode fb r)" using assms(1) by (simp add: DeserializeLogRecord_def)
  have put: "can_put lib clk e (record_entries fb ?D r p)" for p using assms(9) by (simp add: ok(4))
  obtain w' L' p where w': "wio_Append io (FBEncode fb r) (en_walIO e) = (w', Inr p)" "wal_log L' = wal_log L @ [(p, FBEncode fb r)]"
      "\<And>post e1. (post = id \<or> post = writeNilOffset) \<and> (e1 = e\<lparr>en_walIO := w', en_writeSeenCounter := ?c\<rparr> \<or> e1 = writeNilOffset (e\<lparr>en_walIO := w', en_writeSeenCounter := ?c\<rparr>))
        \<Longrightarrow> (\<exists>e2 Hs' H'. memTableWrites lib post clk (commit_entries t p) e1 = (e2, None)
          \<and> en_inv lib fb R M u (writeOffset (Some p) e2) L' Hs' H' F P \<and> kept e (writeOffset (Some p) e2)
          \<and> concat Hs' @ H' = concat Hs @ H @ commit_entries t p \<and> prefix Hs Hs' \<and> en_writeSeenCounter (writeOffset (Some p) e2) = ?c)"
    using apply_record_ok [OF assms(2,3,8) r ok(1-3) put, of ?c] unfolding ok(4) by blast
  let ?post = "if tx_txnEntryType t = LogEntryTypeChunked then id else writeNilOffset"
  have "(?post = id \<or> ?post = writeNilOffset) \<and> (e\<lparr>en_walIO := w', en_writeSeenCounter := ?c\<rparr> = e\<lparr>en_walIO := w', en_writeSeenCounter := ?c\<rparr> \<or> e\<lparr>en_walIO := w', en_writeSeenCounter := ?c\<rparr> = writeNilOffset (e\<lparr>en_walIO := w', en_writeSeenCounter := ?c\<rparr>))"
    by simp
  from w'(3) [OF this] obtain e2 Hs' H' where e2: "memTableWrites lib ?post clk (commit_entries t p) (e\<lparr>en_walIO := w', en_writeSeenCounter := ?c\<rparr>) = (e2, None)"
      "en_inv lib fb R M u (writeOffset (Some p) e2) L' Hs' H' F P" "kept e (writeOffset (Some p) e2)" "en_writeSeenCounter (writeOffset (Some p) e2) = ?c" "prefix Hs Hs'" by blast
  have err: "tx_err t = None" using assms(4) by (simp add: txn_inv_def Let_def)
  have log: "wio_Append io (FBEncode fb \<lparr>LSN = ?c, HLC = hlc, CRC32Checksum = tx_checksum t, OperationType = tx_txnOperation t, TxnState = TransactionStateCommit,
             EntryType = tx_txnEntryType t, TxnID = tx_txnID t,
             PrevTxnWalIndex = (case tx_prevOffset t of None \<Rightarrow> [] | Some p \<Rightarrow> rp_Encode p), Entries = [SerializeKVEntry fb (case tx_rowKey t of None \<Rightarrow> [] | Some k \<Rightarrow> k) []]\<rparr>) (en_walIO e) = (w', Inr p)"
    using w'(1) by (simp add: assms(7) commit_record_def)
  have eq: "e\<lparr>en_writeSeenCounter := ?c, en_walIO := w'\<rparr> = e\<lparr>en_walIO := w', en_writeSeenCounter := ?c\<rparr>" by simp
  have "Commit lib fb io clk hlc t e = (writeOffset (Some p) e2, t\<lparr>tx_prevOffset := Some p, tx_err := Some ErrTxnAlreadyCommitted\<rparr>, None)"
  proof (cases "tx_txnEntryType t = LogEntryTypeChunked")
    case True
    then have "memTableWrite lib (clk 0) (case tx_rowKey t of None \<Rightarrow> [] | Some k \<Rightarrow> k) (getValueStruct LogOperationTypeInsert LogEntryTypeChunked (rp_Encode p))
        (e\<lparr>en_walIO := w', en_writeSeenCounter := ?c\<rparr>) = (e2, None)"
      using e2(1) by (auto simp: commit_entries_def split: prod.splits option.splits)
    then show ?thesis using err log True by (simp add: Commit_def memWriteChunk_def Let_def eq)
  next
    case False
    then show ?thesis using err log e2(1) by (cases "tx_txnEntryType t") (simp_all add: Commit_def memWriteFull_def commit_entries_def Let_def eq)
  qed
  moreover have "decoded fb (wal_log L') = ?D @ [(p, r)]" using w'(2) r by simp
  ultimately show ?thesis using e2(2-5) ok(5) by (intro exI conjI) (assumption | simp)+
qed

end
