(* ===== verification/ReplicaCorrect.thy ===== *)
theory ReplicaCorrect
  imports TxnCorrect
begin

text \<open>
  The replica applies the records of a leader one by one or in batches. A record that is accepted at the leader's position extends the log
  and the tables in the same way as on the leader.
\<close>

lemma writeOffset_None [simp]: "writeOffset None e = e"
  by (simp add: writeOffset_def)

text \<open>The handlers write the entries of the record.\<close>

lemma txn_records:
  assumes "wal_inv (wio_appendLog w) L" "linked [] (decoded fb (wal_log L))" "wal_log L = es @ (p, d) # es'"
    and "TxnState (DeserializeLogRecord fb d) = TransactionStateCommit"
  shows "\<exists>ts. GetTransactionRecords fb (DecodeOffset (PrevTxnWalIndexBytes (GetRootAsLogRecord fb d))) w = Some (Inr ts) \<and> ts \<noteq> []
    \<and> concat (map (\<lambda>q. map f (Entries (DeserializeFBRootLogRecord q))) (tl ts))
      = map f (concat (map (Entries \<circ> snd) (tl (txn_part (decoded fb es) (TxnID (DeserializeLogRecord fb d))))))"
proof -
  obtain ts where ts: "GetTransactionRecords fb (DecodeOffset (PrevTxnWalIndex (DeserializeLogRecord fb d))) w = Some (Inr ts)"
      "map DeserializeFBRootLogRecord ts = map snd (txn_part (decoded fb es) (TxnID (DeserializeLogRecord fb d)))" "ts \<noteq> []"
    using GetTransactionRecords_ok [OF assms(1-3) refl] assms(4) by auto
  have "map DeserializeFBRootLogRecord (tl ts) = map snd (tl (txn_part (decoded fb es) (TxnID (DeserializeLogRecord fb d))))" using ts(2) by (simp add: map_tl)
  then have "concat (map (\<lambda>q. map f (Entries q)) (map DeserializeFBRootLogRecord (tl ts)))
      = concat (map (\<lambda>q. map f (Entries q)) (map snd (tl (txn_part (decoded fb es) (TxnID (DeserializeLogRecord fb d))))))" by (simp only:)
  then show ?thesis using ts(1,3) by (simp add: map_concat comp_def DeserializeLogRecord_def)
qed

lemma rep_handleRecord_writes:
  assumes "wal_inv (wio_appendLog (en_walIO e)) L" "linked [] (decoded fb (wal_log L))" "wal_log L = es @ (p, d) # es'"
    and "r = DeserializeLogRecord fb d" "record_ok fb (decoded fb es) r"
  shows "rep_handleRecord lib fb clk (GetRootAsLogRecord fb d) p e = Some (e, None) \<and> record_sops fb (decoded fb es) r = []
    \<or> (\<exists>post e1. (post = id \<or> post = writeNilOffset) \<and> (e1 = e \<or> e1 = writeNilOffset e)
      \<and> rep_handleRecord lib fb clk (GetRootAsLogRecord fb d) p e = Some (writeEntries lib post clk (record_entries fb (decoded fb es) r p) p e1))"
proof -
  let ?t = "GetRootAsLogRecord fb d"
  have r: "r = DeserializeFBRootLogRecord ?t" using assms(4) by (simp add: DeserializeLogRecord_def)
  note f = r root_fields
  show ?thesis
  proof (cases "TxnState r")
    case TransactionStateNone
    then show ?thesis
      by (cases "OperationType r"; cases "EntryType r")
        (auto simp: f rep_handleRecord_def rep_handleInsert_def rep_handleDelete_def rep_handleDeleteRowByKey_def record_entries_def record_sops_def
          record_call_def entries_call_def Let_def)
  next
    case TransactionStateCommit
    note tr = txn_records [OF assms(1-3) TransactionStateCommit [unfolded assms(4)]]
    show ?thesis
    proof (cases "EntryType r")
      case LogEntryTypeKV
      obtain ts where ts: "GetTransactionRecords fb (DecodeOffset (PrevTxnWalIndexBytes ?t)) (en_walIO e) = Some (Inr ts)" "ts \<noteq> []"
          "concat (map (\<lambda>q. map (kv_entry fb (OperationType r)) (Entries (DeserializeFBRootLogRecord q))) (tl ts))
            = map (kv_entry fb (OperationType r)) (concat (map (Entries \<circ> snd) (tl (txn_part (decoded fb es) (TxnID r)))))"
        using tr [of "kv_entry fb (OperationType r)"] unfolding assms(4) by blast
      have "rep_handleRecord lib fb clk ?t p e = Some (writeEntries lib writeNilOffset clk (record_entries fb (decoded fb es) r p) p (writeNilOffset e))"
        using TransactionStateCommit LogEntryTypeKV ts by (simp add: f rep_handleRecord_def rep_handleTxnCommited_def rep_handleKVValuesTxn_def record_entries_def Let_def)
      then show ?thesis by blast
    next
      case LogEntryTypeRow
      obtain ts where ts: "GetTransactionRecords fb (DecodeOffset (PrevTxnWalIndexBytes ?t)) (en_walIO e) = Some (Inr ts)" "ts \<noteq> []"
          "concat (map (\<lambda>q. map (row_entry fb (OperationType r)) (Entries (DeserializeFBRootLogRecord q))) (tl ts))
            = map (row_entry fb (OperationType r)) (concat (map (Entries \<circ> snd) (tl (txn_part (decoded fb es) (TxnID r)))))"
        using tr [of "row_entry fb (OperationType r)"] unfolding assms(4) by blast
      have "rep_handleRecord lib fb clk ?t p e = Some (writeEntries lib writeNilOffset clk (record_entries fb (decoded fb es) r p) p e)"
        using TransactionStateCommit LogEntryTypeRow ts by (simp add: f rep_handleRecord_def rep_handleTxnCommited_def rep_handleRowColumnTxn_def record_entries_def Let_def)
      then show ?thesis by blast
    next
      case LogEntryTypeChunked
      have ne: "Entries r \<noteq> []" using assms(5) TransactionStateCommit LogEntryTypeChunked by (simp add: record_ok_def)
      have "memTableWrites lib id clk [(k, v)] e = memTableWrite lib (clk 0) k v e" for k v
        by (auto split: prod.splits option.splits)
      then have "rep_handleRecord lib fb clk ?t p e = Some (writeEntries lib id clk (record_entries fb (decoded fb es) r p) p e)"
        using TransactionStateCommit LogEntryTypeChunked ne
        by (simp add: f rep_handleRecord_def rep_handleTxnCommited_def rep_handleChunkedValuesTxn_def record_entries_def writeEntries_def Let_def)
      then show ?thesis by blast
    qed
  qed (auto simp: f rep_handleRecord_def record_sops_def record_call_def)
qed

lemma rep_handleRecord_ok:
  assumes "mem_laws lib" "tab_inv lib fb R M u e D Hs H F P" "wal_inv (wio_appendLog (en_walIO e)) L" "linked [] (decoded fb (wal_log L))"
    and "wal_log L = es @ (p, d) # es'" "D = decoded fb es" "r = DeserializeLogRecord fb d" "record_ok fb D r" "known_op r"
    and "can_put lib clk e (record_entries fb D r p)"
  shows "\<exists>e' Hs' H'. rep_handleRecord lib fb clk (GetRootAsLogRecord fb d) p e = Some (e', None) \<and> tab_inv lib fb R M u e' (D @ [(p, r)]) Hs' H' F P
    \<and> kept e e' \<and> en_walIO e' = en_walIO e \<and> en_writeSeenCounter e' = en_writeSeenCounter e \<and> length H' \<le> length H + length (record_entries fb D r p) \<and> prefix Hs Hs'"
proof -
  have p: "p \<notin> fst ` set D" "is_int64 (Offset p)"
    using wal_log_positions [OF assms(3)] wal_log_int64 [OF assms(3), of p d] by (auto simp: assms(5,6) positions_decoded)
  note xs = record_entries_ok [OF assms(8,9) p]
  have put: "\<forall>i. clk i < 2 ^ 63" "\<forall>x \<in> set (record_entries fb D r p). fits_arena lib e x" "length H + length (record_entries fb D r p) \<le> 2 ^ 62"
    using assms(10) tab_invD(1) [OF assms(2)] by (simp_all add: can_put_def tables_ok_def mt_inv_def Let_def)
  from rep_handleRecord_writes [OF assms(3-5,7), of lib clk] assms(8)
  consider "rep_handleRecord lib fb clk (GetRootAsLogRecord fb d) p e = Some (e, None)" "record_sops fb D r = []"
    | post e1 where "post = id \<or> post = writeNilOffset" "e1 = e \<or> e1 = writeNilOffset e"
      "rep_handleRecord lib fb clk (GetRootAsLogRecord fb d) p e = Some (writeEntries lib post clk (record_entries fb D r p) p e1)"
    by (auto simp: assms(6))
  then show ?thesis
  proof cases
    case 1
    then show ?thesis using tab_inv_log [OF assms(2) 1(2), of p] by (intro exI [of _ e] exI [of _ Hs] exI [of _ H]) (simp add: kept_def)
  next
    case 2
    from tab_inv_apply [OF assms(1,2) refl 2(1) put(1) _ conjunct2 [OF xs] put(3) 2(2)] xs put(2)
    obtain e2 Hs' H' where e2: "memTableWrites lib post clk (record_entries fb D r p) e1 = (e2, None)"
        "tab_inv lib fb R M u (writeOffset (Some p) e2) (D @ [(p, r)]) Hs' H' F P" "same_rest e e2" "length H' \<le> length H + length (record_entries fb D r p)" "prefix Hs Hs'" by blast
    moreover have "kept e (writeOffset (Some p) e2)" "en_walIO (writeOffset (Some p) e2) = en_walIO e" "en_writeSeenCounter (writeOffset (Some p) e2) = en_writeSeenCounter e"
      using e2(3) by (simp_all add: kept_def same_rest_def)
    ultimately show ?thesis using 2(3) by (auto simp: writeEntries_def)
  qed
qed

text \<open>One record. Whether it is accepted depends on the position alone.\<close>

lemma ApplyRecord_ok:
  assumes "mem_laws lib" "en_inv lib fb R M u e L Hs H F P" "can_log fb io e d" "r = DeserializeLogRecord fb d"
    and "link_ok (decoded fb (wal_log L)) r" "record_ok fb (decoded fb (wal_log L)) r" "known_op r"
    and "Offset q \<noteq> 0" "LSN r = en_writeSeenCounter e + 1" "can_put lib clk e (record_entries fb (decoded fb (wal_log L)) r q)"
  shows "\<exists>e' L' p. ApplyRecord lib fb io clk d q e = Some (e', if q = p then None else Some ErrInvalidOffset) \<and> wal_log L' = wal_log L @ [(p, d)]
    \<and> kept e e' \<and> en_writeSeenCounter e' = LSN r \<and> (q = p \<longrightarrow> (\<exists>Hs' H'. en_inv lib fb R M u e' L' Hs' H' F P \<and> prefix Hs Hs'))"
proof -
  let ?D = "decoded fb (wal_log L)"
  from log_append_data [OF en_invD(1) [OF assms(2)] can_log_last [OF en_invD(1) [OF assms(2)] assms(3)] assms(4-6)]
  obtain w' L' p where w': "wio_Append io d (en_walIO e) = (w', Inr p)" "wal_ok fb w' L'" "wal_log L' = wal_log L @ [(p, d)]"
      "same_config (wio_appendLog (en_walIO e)) (wio_appendLog w')" by blast
  let ?e = "e\<lparr>en_writeSeenCounter := LSN r, en_walIO := w'\<rparr>"
  have lsn: "tb_Lsn (GetRootAsLogRecord fb d) = LSN r" by (simp add: assms(4) DeserializeLogRecord_def)
  have eq: "isEqualOffset p q \<longleftrightarrow> q = p" by (auto simp: isEqualOffset_def)
  have k: "kept e ?e" using w'(4) by (simp add: kept_def same_config_def)
  show ?thesis
  proof (cases "q = p")
    case False
    then have "ApplyRecord lib fb io clk d q e = Some (?e, Some ErrInvalidOffset)"
      using assms(8,9) w'(1) lsn eq by (simp add: ApplyRecord_def Let_def)
    then show ?thesis using False w'(3) k by (intro exI [of _ ?e] exI [of _ L'] exI [of _ p]) simp
  next
    case True
    have "tab_inv lib fb R M u ?e ?D Hs H F P" using assms(2) by (simp add: en_inv_def)
    moreover have "wal_inv (wio_appendLog (en_walIO ?e)) L'" "linked [] (decoded fb (wal_log L'))" using wal_okD(1,3) [OF w'(2)] by simp_all
    moreover have "can_put lib clk ?e (record_entries fb ?D r p)" using assms(10) True by (simp add: can_put_def fits_arena_def)
    ultimately obtain e' Hs' H' where e': "rep_handleRecord lib fb clk (GetRootAsLogRecord fb d) p ?e = Some (e', None)"
        "tab_inv lib fb R M u e' (?D @ [(p, r)]) Hs' H' F P" "kept ?e e'" "en_walIO e' = w'" "en_writeSeenCounter e' = LSN r" "prefix Hs Hs'"
      using rep_handleRecord_ok [OF assms(1), where e = ?e and L = L' and es = "wal_log L" and es' = "[]" and p = p and d = d] w'(3) assms(4,6,7) by fastforce
    have "ApplyRecord lib fb io clk d q e = Some (e', None)"
      using assms(8,9) w'(1) lsn eq True e'(1) by (simp add: ApplyRecord_def Let_def)
    moreover have "en_inv lib fb R M u e' L' Hs' H' F P" using e'(2,4) w'(2,3) assms(4) by (simp add: en_inv_def)
    moreover have "kept e e'" using k e'(3) by (simp add: kept_def)
    ultimately show ?thesis using True w'(3) e'(5,6) by (intro exI [of _ e'] exI [of _ L'] exI [of _ p]) auto
  qed
qed

section \<open>Batches\<close>

fun log_entries :: "fb_api \<Rightarrow> log \<Rightarrow> log \<Rightarrow> history" where
  "log_entries fb pre [] = []"
| "log_entries fb pre (x # xs) = record_entries fb pre (snd x) (fst x) @ log_entries fb (pre @ [x]) xs"

lemma handleRecords_ok:
  assumes "mem_laws lib" "linked [] (decoded fb (wal_log L))"
  shows "tab_inv lib fb R M u e D Hs H F P \<Longrightarrow> wal_inv (wio_appendLog (en_walIO e)) L \<Longrightarrow> wal_log L = es @ zip ps ds \<Longrightarrow> D = decoded fb es
    \<Longrightarrow> length ps = length ds \<Longrightarrow> recoverable fb D (decoded fb (zip ps ds)) \<Longrightarrow> \<forall>x \<in> set (decoded fb (zip ps ds)). known_op (snd x)
    \<Longrightarrow> \<forall>i. can_put lib (clk i) e (log_entries fb D (decoded fb (zip ps ds)))
    \<Longrightarrow> \<exists>e' Hs' H'. handleRecords lib fb clk (zip (map (GetRootAsLogRecord fb) ds) ps) e = Some (e', None)
      \<and> tab_inv lib fb R M u e' (decoded fb (wal_log L)) Hs' H' F P \<and> prefix Hs Hs' \<and> kept e e' \<and> en_walIO e' = en_walIO e \<and> en_writeSeenCounter e' = en_writeSeenCounter e"
proof (induction ds arbitrary: ps e D Hs H es clk)
  case Nil
  then show ?case by (auto simp: kept_def)
next
  case (Cons d ds)
  obtain p qs where ps: "ps = p # qs" using Cons.prems(5) by (cases ps) auto
  let ?r = "DeserializeLogRecord fb d" and ?rest = "decoded fb (zip qs ds)"
  have len: "length (log_entries fb D (decoded fb (zip ps (d # ds)))) = length (record_entries fb D ?r p) + length (log_entries fb (D @ [(p, ?r)]) ?rest)" by (simp add: ps)
  have put: "can_put lib (clk 0) e (record_entries fb D ?r p)"
    using spec [OF Cons.prems(8), of 0] len by (auto simp: can_put_def ps)
  have "record_ok fb D ?r" "known_op ?r" "wal_log L = es @ (p, d) # zip qs ds" using Cons.prems(3,6,7) by (simp_all add: ps)
  from rep_handleRecord_ok [OF assms(1) Cons.prems(1,2) assms(2) this(3) Cons.prems(4) refl this(1,2) put]
  obtain e1 Hs1 H1 where e1: "rep_handleRecord lib fb (clk 0) (GetRootAsLogRecord fb d) p e = Some (e1, None)" "tab_inv lib fb R M u e1 (D @ [(p, ?r)]) Hs1 H1 F P"
      "kept e e1" "en_walIO e1 = en_walIO e" "en_writeSeenCounter e1 = en_writeSeenCounter e" "length H1 \<le> length H + length (record_entries fb D ?r p)" "prefix Hs Hs1" by blast
  have n: "mt_opCount (en_activeMemTable e) = length H" "mt_opCount (en_activeMemTable e1) = length H1"
    using tab_invD(1) [OF Cons.prems(1)] tab_invD(1) [OF e1(2)] by (simp_all add: tables_ok_def mt_inv_def Let_def)
  have "can_put lib (clk (Suc i)) e1 (log_entries fb (D @ [(p, ?r)]) ?rest)" for i
  proof -
    have "can_put lib (clk (Suc i)) e (log_entries fb D (decoded fb (zip ps (d # ds))))" using Cons.prems(8) by blast
    then show ?thesis using e1(3,6) n len by (auto simp: can_put_def fits_arena_def kept_def ps)
  qed
  then obtain e2 Hs2 H2 where "handleRecords lib fb (\<lambda>i. clk (Suc i)) (zip (map (GetRootAsLogRecord fb) ds) qs) e1 = Some (e2, None)"
      "tab_inv lib fb R M u e2 (decoded fb (wal_log L)) Hs2 H2 F P" "prefix Hs1 Hs2" "kept e1 e2" "en_walIO e2 = en_walIO e1" "en_writeSeenCounter e2 = en_writeSeenCounter e1"
    using Cons.IH [OF e1(2), of "es @ [(p, d)]" qs "\<lambda>i. clk (Suc i)"] Cons.prems(2-7) e1(4) by (auto simp: ps)
  moreover have "prefix Hs Hs2" using calculation(3) e1(7) prefix_order.trans by blast
  ultimately show ?case using e1(1,3,4,5) by (auto simp: ps kept_def)
qed

lemma isEqualOffset_all: "list_all2 isEqualOffset ps qs \<longleftrightarrow> ps = qs"
proof -
  have "isEqualOffset = (=)" by (auto simp: isEqualOffset_def fun_eq_iff)
  then show ?thesis by (simp add: list_all2_eq)
qed

text \<open>A batch whose records end up at the leader's positions.\<close>

lemma ApplyRecords_ok:
  assumes "mem_laws lib" "en_inv lib fb R M u e L Hs H F P" "\<forall>i d. d \<in> set ds \<longrightarrow> can_log fb (io i) e d"
    and "unat (fst (last L)) + length ds < 2 ^ 32" "ds \<noteq> []" "length qs = length ds"
    and "linked (decoded fb (wal_log L)) (decoded fb (zip qs ds))" "recoverable fb (decoded fb (wal_log L)) (decoded fb (zip qs ds))"
    and "\<forall>x \<in> set (decoded fb (zip qs ds)). known_op (snd x)" "checkRecords fb (en_writeSeenCounter e + 1) (zip ds qs) = None"
    and "\<forall>i. can_put lib (clk i) e (log_entries fb (decoded fb (wal_log L)) (decoded fb (zip qs ds)))"
  shows "\<exists>e' L' ps. ApplyRecords lib fb io clk ds qs e = Some (e', if qs = ps then None else Some ErrInvalidOffset)
    \<and> wal_log L' = wal_log L @ zip ps ds \<and> length ps = length ds
    \<and> kept e e' \<and> (qs = ps \<longrightarrow> (\<exists>Hs' H'. en_inv lib fb R M u e' L' Hs' H' F P \<and> prefix Hs Hs') \<and> en_writeSeenCounter e' = en_writeSeenCounter e + word_of_nat (length ds))"
proof -
  let ?D = "decoded fb (wal_log L)"
  have "\<forall>i. all_ok (io i)" "\<forall>d \<in> set ds. fits (en_walIO e) d" using assms(3,5) by (auto simp: can_log_def neq_Nil_conv)
  from wio_BatchAppend_ok [OF wal_okD(1,2) [OF en_invD(1) [OF assms(2)]] this(1) assms(4) this(2)]
  obtain w' L' ps where w': "wio_BatchAppend io ds (en_walIO e) = (w', Inr ps)" "wal_inv (wio_appendLog w') L'" "wal_active (wio_appendLog w')"
      "length ps = length ds" "extends L (zip ps ds) L'" "same_config (wio_appendLog (en_walIO e)) (wio_appendLog w')" by blast
  have log: "wal_log L' = wal_log L @ zip ps ds" and ids: "\<exists>ids. map fst L' = map fst L @ ids" using w'(5) by (auto simp: extends_def)
  let ?e = "e\<lparr>en_walIO := w'\<rparr>"
  have k: "kept e ?e" using w'(6) by (simp add: kept_def same_config_def)
  show ?thesis
  proof (cases "qs = ps")
    case False
    then have "ApplyRecords lib fb io clk ds qs e = Some (?e, Some ErrInvalidOffset)"
      using assms(5,6,10) w'(1) by (simp add: ApplyRecords_def isEqualOffset_all Let_def)
    then show ?thesis using False log w'(4) k by (intro exI [of _ ?e] exI [of _ L'] exI [of _ ps]) simp
  next
    case True
    have wal: "wal_ok fb w' L'"
    proof -
      have "L \<noteq> []" using wal_okD(1) [OF en_invD(1) [OF assms(2)]] by (auto elim: wal_inv_snoc)
      then have "fst (hd L') = fst (hd L)" using ids by (metis hd_append2 list.map_disc_iff hd_map append_is_Nil_conv)
      then show ?thesis using w'(2,3) en_invD(1) [OF assms(2)] assms(7,8) True by (simp add: wal_ok_def log)
    qed
    let ?e1 = "?e\<lparr>en_writeSeenCounter := en_writeSeenCounter e + word_of_nat (length ds)\<rparr>"
    have t: "tab_inv lib fb R M u ?e1 ?D Hs H F P" using assms(2) by (simp add: en_inv_def)
    have w1: "wal_inv (wio_appendLog (en_walIO ?e1)) L'" using w'(2) by simp
    have put: "\<forall>i. can_put lib (clk i) ?e1 (log_entries fb ?D (decoded fb (zip ps ds)))" using assms(11) True by (simp add: can_put_def fits_arena_def)
    from handleRecords_ok [OF assms(1) wal_okD(3) [OF wal] t w1 log refl w'(4) _ _ put] assms(8,9) True
    obtain e' Hs' H' where e': "handleRecords lib fb clk (zip (map (GetRootAsLogRecord fb) ds) ps) ?e1 = Some (e', None)"
        "tab_inv lib fb R M u e' (decoded fb (wal_log L')) Hs' H' F P" "kept ?e1 e'" "en_walIO e' = w'" "en_writeSeenCounter e' = en_writeSeenCounter ?e1" "prefix Hs Hs'" by auto
    have "ApplyRecords lib fb io clk ds qs e = Some (e', None)"
      using assms(5,6,10) w'(1,4) e'(1) True by (simp add: ApplyRecords_def isEqualOffset_all Let_def)
    moreover have "en_inv lib fb R M u e' L' Hs' H' F P" using e'(2,4) wal by (simp add: en_inv_def)
    moreover have "kept e e'" using k e'(3) by (simp add: kept_def)
    ultimately show ?thesis using True log w'(4) e'(5,6) by (intro exI [of _ e'] exI [of _ L'] exI [of _ ps]) auto
  qed
qed

end
