(* ===== verification/EngineRun.thy ===== *)
theory EngineRun
  imports ReplicaCorrect
begin

text \<open>
  Runs of an engine. Writes, transactions, flushes, checkpoints and restarts follow each other in any order; a restart may come at any
  point, also between the two parts of a flush, and takes the log and the store as they are. In every state that can be
  reached, reads return what the writes and commits so far say, in their order.
\<close>

section \<open>The engine between steps\<close>

text \<open>\<open>fl\<close>: the oldest sealed table is flushed and not dropped yet.\<close>

definition engine_at ::
  "('s, 'b) mem_lib \<Rightarrow> fb_api \<Rightarrow> ('d \<Rightarrow> ustore \<Rightarrow> bool) \<Rightarrow> ('d \<Rightarrow> bytes \<rightharpoonup> bytes) \<Rightarrow> ustore \<Rightarrow> bool \<Rightarrow> ('s, 'b, 'd) Engine \<Rightarrow> layout \<Rightarrow> bool" where
  "engine_at lib fb R M u fl e L \<longleftrightarrow> \<not> en_shutdown e \<and> (\<exists>Hs H F P. en_inv lib fb R M u e L Hs H F P
     \<and> (if fl then Hs \<noteq> [] \<and> P = mem_sops fb (decoded fb (wal_log L)) (hd Hs) else P = []))"

lemma engine_atE:
  assumes "engine_at lib fb R M u fl e L"
  obtains Hs H F P where "en_inv lib fb R M u e L Hs H F P" "\<not> en_shutdown e"
    "fl \<longrightarrow> Hs \<noteq> [] \<and> P = mem_sops fb (decoded fb (wal_log L)) (hd Hs)" "\<not> fl \<longrightarrow> P = []"
  using assms by (auto simp: engine_at_def split: if_splits)

lemma engine_at_extend:
  assumes "en_inv lib fb R M u e L Hs H F P" "en_inv lib fb R M u e' L' Hs' H' F P" "prefix Hs Hs'"
    and "decoded fb (wal_log L') = decoded fb (wal_log L) @ E" "\<not> en_shutdown e'"
    and "fl \<longrightarrow> Hs \<noteq> [] \<and> P = mem_sops fb (decoded fb (wal_log L)) (hd Hs)" "\<not> fl \<longrightarrow> P = []"
  shows "engine_at lib fb R M u fl e' L'"
proof -
  have "Hs' \<noteq> [] \<and> P = mem_sops fb (decoded fb (wal_log L')) (hd Hs')" if fl
  proof -
    have P: "Hs \<noteq> []" "P = mem_sops fb (decoded fb (wal_log L)) (hd Hs)" using assms(6) that by blast+
    have hd: "hd Hs' = hd Hs" "Hs' \<noteq> []" using P(1) assms(3) by (auto simp: prefix_def)
    have "hd Hs \<in> set Hs" using P(1) by simp
    then have "\<forall>x \<in> set (hd Hs). entry_ok fb (decoded fb (wal_log L)) x" using en_invD(2) [OF assms(1)] by (fastforce simp: tables_ok_def)
    then show ?thesis using P(2) hd mem_sops_mono [of "hd Hs" fb "decoded fb (wal_log L)" E] by (simp add: assms(4))
  qed
  then show ?thesis using assms(2,5,7) unfolding engine_at_def by (cases fl) auto
qed

section \<open>Runs\<close>

text \<open>The log was opened again with the records it had.\<close>

definition reopened :: "fb_api \<Rightarrow> WalIO \<Rightarrow> WalIO \<Rightarrow> bool" where
  "reopened fb w w' \<longleftrightarrow> (\<exists>L. wal_ok fb w L \<and> wal_ok fb w' L \<and> fresh_ids (wio_appendLog w') L)"

text \<open>The open transactions are known by their id, with their writes so far. \<open>rn_used\<close> holds the ids in use, and \<open>rn_view\<close> is the state
  that readers shall see.\<close>

record ('s, 'b, 'd) run =
  rn_engine :: "('s, 'b, 'd) Engine"
  rn_flushing :: bool
  rn_txns :: "bytes \<rightharpoonup> Txn \<times> txn_write list"
  rn_used :: "bytes set"
  rn_view :: ustore

definition append_txn ::
  "fb_api \<Rightarrow> ioenv \<Rightarrow> u64 \<Rightarrow> txn_write \<Rightarrow> Txn \<Rightarrow> ('s, 'b, 'd) Engine \<Rightarrow> ('s, 'b, 'd) Engine \<times> Txn \<times> error option" where
  "append_txn fb io hlc x = (case x of TKV k v \<Rightarrow> AppendKVTxn fb io hlc k v | TColumns r cs \<Rightarrow> AppendColumnTxn fb io hlc r cs)"

text \<open>A write the transaction accepts: of its kind, and for a large object with the key of the first one.\<close>

definition append_ok :: "Txn \<Rightarrow> txn_write list \<Rightarrow> txn_write \<Rightarrow> bool" where
  "append_ok t xs x \<longleftrightarrow> tw_ok (tx_txnEntryType t) x
    \<and> (tx_txnEntryType t = LogEntryTypeChunked \<longrightarrow> (\<forall>y \<in> set xs. tw_key LogEntryTypeChunked y = tw_key LogEntryTypeChunked x))"

definition order_ok :: "(bytes list \<Rightarrow> bytes list) \<Rightarrow> bool" where
  "order_ok order \<longleftrightarrow> (\<forall>rs. distinct rs \<longrightarrow> distinct (order rs) \<and> set (order rs) = set rs)"

inductive engine_run ::
  "('s, 'b) mem_lib \<Rightarrow> fb_api \<Rightarrow> ('d, 'q) btree_api \<Rightarrow> ('s, 'b, 'd) Engine \<Rightarrow> ustore \<Rightarrow> ('s, 'b, 'd) run \<Rightarrow> bool"
  for lib fb bt e0 u0 where
  start: "engine_run lib fb bt e0 u0 \<lparr>rn_engine = e0, rn_flushing = False, rn_txns = Map.empty, rn_used = {}, rn_view = u0\<rparr>"
| put: "engine_run lib fb bt e0 u0 s \<Longrightarrow> write_ok w \<Longrightarrow> \<not> ec_ReadOnly (en_config (rn_engine s))
    \<Longrightarrow> can_log fb io (rn_engine s) (FBEncode fb (write_record fb hlc (en_writeSeenCounter (rn_engine s) + 1) w))
    \<Longrightarrow> can_put lib clk (rn_engine s) (write_entries fb w) \<Longrightarrow> run_write lib fb io clk hlc w (rn_engine s) = (e', err)
    \<Longrightarrow> engine_run lib fb bt e0 u0 (s\<lparr>rn_engine := e', rn_view := fold apply_sop (call_sops (write_call w)) (rn_view s)\<rparr>)"
| begin_txn: "engine_run lib fb bt e0 u0 s \<Longrightarrow> txn_kind op et \<Longrightarrow> uuid \<notin> rn_used s \<Longrightarrow> \<not> ec_ReadOnly (en_config (rn_engine s))
    \<Longrightarrow> can_log fb io (rn_engine s) (FBEncode fb (begin_record (en_writeSeenCounter (rn_engine s) + 1) hlc et uuid))
    \<Longrightarrow> NewTxn fb io (Inr uuid) hlc op et (rn_engine s) = (e', Inr t)
    \<Longrightarrow> engine_run lib fb bt e0 u0 (s\<lparr>rn_engine := e', rn_txns := (rn_txns s)(uuid \<mapsto> (t, [])), rn_used := insert uuid (rn_used s)\<rparr>)"
| append: "engine_run lib fb bt e0 u0 s \<Longrightarrow> rn_txns s i = Some (t, xs) \<Longrightarrow> append_ok t xs x
    \<Longrightarrow> can_log fb io (rn_engine s) (FBEncode fb (prepare_record (en_writeSeenCounter (rn_engine s) + 1) hlc (tw_entry fb (tx_txnEntryType t) x) t))
    \<Longrightarrow> append_txn fb io hlc x t (rn_engine s) = (e', t', err)
    \<Longrightarrow> engine_run lib fb bt e0 u0 (s\<lparr>rn_engine := e', rn_txns := (rn_txns s)(i \<mapsto> (t', xs @ [x]))\<rparr>)"
| commit: "engine_run lib fb bt e0 u0 s \<Longrightarrow> rn_txns s i = Some (t, xs) \<Longrightarrow> xs \<noteq> [] \<Longrightarrow> length xs < 2 ^ 32
    \<Longrightarrow> can_log fb io (rn_engine s) (FBEncode fb (commit_record fb (en_writeSeenCounter (rn_engine s) + 1) hlc t))
    \<Longrightarrow> \<forall>p. can_put lib clk (rn_engine s) (commit_entries t p) \<Longrightarrow> Commit lib fb io clk hlc t (rn_engine s) = (e', t', err)
    \<Longrightarrow> engine_run lib fb bt e0 u0 (s\<lparr>rn_engine := e',
          rn_view := fold apply_sop (call_sops (txn_call (tx_txnOperation t) (tx_txnEntryType t) (tx_checksum t) xs)) (rn_view s),
          rn_txns := (rn_txns s)(i := None)\<rparr>)"
| abandon: "engine_run lib fb bt e0 u0 s \<Longrightarrow> engine_run lib fb bt e0 u0 (s\<lparr>rn_txns := (rn_txns s)(i := None)\<rparr>)"
| flush: "engine_run lib fb bt e0 u0 s \<Longrightarrow> \<not> rn_flushing s \<Longrightarrow> en_sealedMemTables (rn_engine s) = mt # ts \<Longrightarrow> \<forall>i. ctx i = None \<Longrightarrow> order_ok order
    \<Longrightarrow> flushTable lib fb bt ctx order mt (rn_engine s) = Some (e', err) \<Longrightarrow> engine_run lib fb bt e0 u0 (s\<lparr>rn_engine := e', rn_flushing := True\<rparr>)"
| drop: "engine_run lib fb bt e0 u0 s \<Longrightarrow> rn_flushing s \<Longrightarrow> engine_run lib fb bt e0 u0 (s\<lparr>rn_engine := dropTable (rn_engine s), rn_flushing := False\<rparr>)"
| checkpoint: "engine_run lib fb bt e0 u0 s \<Longrightarrow> \<forall>fm \<in> set (en_pendingMetadata (rn_engine s)). Pos (fm_metadata fm) \<noteq> None
    \<Longrightarrow> fSyncStore bt (rn_engine s) = (e', err) \<Longrightarrow> engine_run lib fb bt e0 u0 (s\<lparr>rn_engine := e'\<rparr>)"
| restart: "engine_run lib fb bt e0 u0 s \<Longrightarrow> reopened fb (en_walIO (rn_engine s)) w \<Longrightarrow> minArenaSize \<le> ec_ArenaSize conf
    \<Longrightarrow> NewStorageEngine lib io fb bt conf (Inr True) (Inr w) (Inr (en_dataStore (rn_engine s))) = Some (Inr e')
    \<Longrightarrow> engine_run lib fb bt e0 u0 (s\<lparr>rn_engine := e', rn_flushing := False, rn_txns := Map.empty\<rparr>)"

text \<open>What a replica needs of the log of its leader.\<close>

definition leader_log :: "fb_api \<Rightarrow> log \<Rightarrow> bool" where
  "leader_log fb D \<longleftrightarrow> linked [] D \<and> recoverable fb [] D \<and> (\<forall>x \<in> set D. known_op (snd x))"

definition run_inv ::
  "('s, 'b) mem_lib \<Rightarrow> fb_api \<Rightarrow> ('d \<Rightarrow> ustore \<Rightarrow> bool) \<Rightarrow> ('d \<Rightarrow> bytes \<rightharpoonup> bytes) \<Rightarrow> ustore \<Rightarrow> ('s, 'b, 'd) run \<Rightarrow> layout \<Rightarrow> bool" where
  "run_inv lib fb R M u s L \<longleftrightarrow> engine_at lib fb R M u (rn_flushing s) (rn_engine s) L \<and> view_of fb u L = rn_view s
    \<and> (\<forall>x \<in> set (decoded fb (wal_log L)). known_op (snd x))
    \<and> (\<forall>i. txn_part (decoded fb (wal_log L)) i \<noteq> [] \<longrightarrow> i \<in> rn_used s)
    \<and> (\<forall>i t xs. rn_txns s i = Some (t, xs) \<longrightarrow> tx_txnID t = i \<and> txn_inv fb (decoded fb (wal_log L)) t xs)"

lemma run_engineE:
  assumes "run_inv lib fb R M u s L"
  obtains Hs H F P where "en_inv lib fb R M u (rn_engine s) L Hs H F P" "\<not> en_shutdown (rn_engine s)"
    "rn_flushing s \<longrightarrow> Hs \<noteq> [] \<and> P = mem_sops fb (decoded fb (wal_log L)) (hd Hs)" "\<not> rn_flushing s \<longrightarrow> P = []"
proof -
  have "engine_at lib fb R M u (rn_flushing s) (rn_engine s) L" using assms by (simp add: run_inv_def)
  then show thesis using that by (rule engine_atE)
qed

text \<open>A step that adds a record to the log.\<close>

lemma run_inv_record:
  assumes "run_inv lib fb R M u s L" "engine_at lib fb R M u (rn_flushing s) e' L'" "decoded fb (wal_log L') = decoded fb (wal_log L) @ [(p, r)]"
    and "known_op r" "TxnState r \<noteq> TransactionStateNone \<Longrightarrow> TxnID r \<in> used" "rn_used s \<subseteq> used"
    and "v = fold apply_sop (record_sops fb (decoded fb (wal_log L)) r) (rn_view s)"
    and "\<And>i t xs. txns i = Some (t, xs) \<Longrightarrow>
      (rn_txns s i = Some (t, xs) \<and> (TxnState r = TransactionStateNone \<or> TxnID r \<noteq> i)) \<or> tx_txnID t = i \<and> txn_inv fb (decoded fb (wal_log L')) t xs"
  shows "run_inv lib fb R M u (s\<lparr>rn_engine := e', rn_view := v, rn_txns := txns, rn_used := used\<rparr>) L'"
proof -
  have "txn_inv fb (decoded fb (wal_log L')) t xs \<and> tx_txnID t = i" if t: "txns i = Some (t, xs)" for i t xs
  proof -
    from assms(8) [OF t] consider (other) "rn_txns s i = Some (t, xs)" "TxnState r = TransactionStateNone \<or> TxnID r \<noteq> i"
      | (own) "tx_txnID t = i" "txn_inv fb (decoded fb (wal_log L')) t xs" by blast
    then show ?thesis
    proof cases
      case other
      then have "tx_txnID t = i" "txn_inv fb (decoded fb (wal_log L)) t xs" using assms(1) by (simp_all add: run_inv_def)
      then show ?thesis using txn_inv_other [of fb "decoded fb (wal_log L)" t xs r p] other(2) by (simp add: assms(3))
    qed simp
  qed
  moreover have "i \<in> used" if "txn_part (decoded fb (wal_log L')) i \<noteq> []" for i
    using that assms(1,5,6) by (auto simp: assms(3) run_inv_def split: if_splits)
  moreover have "view_of fb u L' = v" using view_of_snoc [OF assms(3)] assms(1,7) by (simp add: run_inv_def)
  ultimately show ?thesis using assms(1-4) by (auto simp: run_inv_def)
qed

section \<open>The steps\<close>

lemma put_step:
  assumes "fb_laws fb" "mem_laws lib" "run_inv lib fb R M u s L" "write_ok w" "\<not> ec_ReadOnly (en_config (rn_engine s))"
    and "can_log fb io (rn_engine s) (FBEncode fb (write_record fb hlc (en_writeSeenCounter (rn_engine s) + 1) w))"
    and "can_put lib clk (rn_engine s) (write_entries fb w)"
  shows "\<exists>e' L'. run_write lib fb io clk hlc w (rn_engine s) = (e', None)
    \<and> run_inv lib fb R M u (s\<lparr>rn_engine := e', rn_view := fold apply_sop (call_sops (write_call w)) (rn_view s)\<rparr>) L'"
proof -
  let ?e = "rn_engine s" and ?D = "decoded fb (wal_log L)"
  let ?r = "write_record fb hlc (en_writeSeenCounter ?e + 1) w"
  obtain Hs H F P where at: "en_inv lib fb R M u ?e L Hs H F P" "\<not> en_shutdown ?e" "rn_flushing s \<longrightarrow> Hs \<noteq> [] \<and> P = mem_sops fb ?D (hd Hs)"
      "\<not> rn_flushing s \<longrightarrow> P = []" using assms(3) by (rule run_engineE)
  have "room lib fb io clk ?e L (length H) ?r (write_entries fb w)"
    using can_log_last [OF en_invD(1) [OF at(1)] assms(6)] can_put_length [OF at(1) assms(7)] by (simp add: room_def)
  from run_write_ok [OF assms(1,2) at(1) assms(4) at(2) assms(5) refl this] obtain e' L' Hs' H' p where
    e': "run_write lib fb io clk hlc w ?e = (e', None)" "en_inv lib fb R M u e' L' Hs' H' F P" "decoded fb (wal_log L') = ?D @ [(p, ?r)]"
      "prefix Hs Hs'" "kept ?e e'" by blast
  have "engine_at lib fb R M u (rn_flushing s) e' L'"
    by (rule engine_at_extend [OF at(1) e'(2,4,3)]) (use at(2-4) e'(5) in \<open>auto simp: kept_def\<close>)
  then have "run_inv lib fb R M u (s\<lparr>rn_engine := e', rn_view := fold apply_sop (record_sops fb ?D ?r) (rn_view s), rn_txns := rn_txns s, rn_used := rn_used s\<rparr>) L'"
    by (intro run_inv_record [OF assms(3) _ e'(3)]) (simp_all add: known_op_def)
  then show ?thesis using e'(1) by (auto simp: write_sops [OF assms(1,4)])
qed

lemma begin_step:
  assumes "fb_laws fb" "run_inv lib fb R M u s L" "txn_kind op et" "uuid \<notin> rn_used s" "\<not> ec_ReadOnly (en_config (rn_engine s))"
    and "can_log fb io (rn_engine s) (FBEncode fb (begin_record (en_writeSeenCounter (rn_engine s) + 1) hlc et uuid))"
  shows "\<exists>e' t L'. NewTxn fb io (Inr uuid) hlc op et (rn_engine s) = (e', Inr t)
    \<and> run_inv lib fb R M u (s\<lparr>rn_engine := e', rn_txns := (rn_txns s)(uuid \<mapsto> (t, [])), rn_used := insert uuid (rn_used s)\<rparr>) L'"
proof -
  let ?e = "rn_engine s" and ?D = "decoded fb (wal_log L)"
  let ?r = "begin_record (en_writeSeenCounter ?e + 1) hlc et uuid"
  obtain Hs H F P where at: "en_inv lib fb R M u ?e L Hs H F P" "\<not> en_shutdown ?e" "rn_flushing s \<longrightarrow> Hs \<noteq> [] \<and> P = mem_sops fb ?D (hd Hs)"
      "\<not> rn_flushing s \<longrightarrow> P = []" using assms(2) by (rule run_engineE)
  have "txn_part ?D uuid = []" using assms(2,4) by (auto simp: run_inv_def)
  from NewTxn_ok [OF assms(1) at(1) assms(5,3) this refl assms(6)] obtain e' t L' p where
    e': "NewTxn fb io (Inr uuid) hlc op et ?e = (e', Inr t)" "en_inv lib fb R M u e' L' Hs H F P" "decoded fb (wal_log L') = ?D @ [(p, ?r)]" "kept ?e e'"
      "txn_inv fb (decoded fb (wal_log L')) t []" "tx_txnID t = uuid" by blast
  have "engine_at lib fb R M u (rn_flushing s) e' L'"
    by (rule engine_at_extend [OF at(1) e'(2) _ e'(3)]) (use at(2-4) e'(4) in \<open>auto simp: kept_def\<close>)
  then have "run_inv lib fb R M u (s\<lparr>rn_engine := e', rn_view := rn_view s, rn_txns := (rn_txns s)(uuid \<mapsto> (t, [])), rn_used := insert uuid (rn_used s)\<rparr>) L'"
    using e'(5,6) by (intro run_inv_record [OF assms(2) _ e'(3)]) (auto simp: known_op_def begin_record_def record_sops_def record_call_def split: if_splits)
  then show ?thesis using e'(1) by auto
qed

lemma append_step:
  assumes "fb_laws fb" "run_inv lib fb R M u s L" "rn_txns s i = Some (t, xs)" "append_ok t xs x"
    and "can_log fb io (rn_engine s) (FBEncode fb (prepare_record (en_writeSeenCounter (rn_engine s) + 1) hlc (tw_entry fb (tx_txnEntryType t) x) t))"
  shows "\<exists>e' t' L'. append_txn fb io hlc x t (rn_engine s) = (e', t', None)
    \<and> run_inv lib fb R M u (s\<lparr>rn_engine := e', rn_txns := (rn_txns s)(i \<mapsto> (t', xs @ [x]))\<rparr>) L'"
proof -
  let ?e = "rn_engine s" and ?D = "decoded fb (wal_log L)"
  let ?r = "prepare_record (en_writeSeenCounter ?e + 1) hlc (tw_entry fb (tx_txnEntryType t) x) t"
  obtain Hs H F P where at: "en_inv lib fb R M u ?e L Hs H F P" "\<not> en_shutdown ?e" "rn_flushing s \<longrightarrow> Hs \<noteq> [] \<and> P = mem_sops fb ?D (hd Hs)"
      "\<not> rn_flushing s \<longrightarrow> P = []" using assms(2) by (rule run_engineE)
  have t: "tx_txnID t = i" "txn_inv fb ?D t xs" using assms(2,3) by (auto simp: run_inv_def)
  have ok: "tw_ok (tx_txnEntryType t) x" using assms(4) by (simp add: append_ok_def)
  have "\<exists>e' t' L' p. append_txn fb io hlc x t ?e = (e', t', None) \<and> en_inv lib fb R M u e' L' Hs H F P \<and> kept ?e e' \<and> same_txn t t'
      \<and> decoded fb (wal_log L') = ?D @ [(p, ?r)] \<and> txn_inv fb (decoded fb (wal_log L')) t' (xs @ [x])"
  proof (cases x)
    case (TKV k v)
    have "tx_txnEntryType t = LogEntryTypeChunked \<longrightarrow> (\<forall>y \<in> set xs. tw_key LogEntryTypeChunked y = kc_KeyBlobChunk k 0)"
      using assms(4) by (simp add: append_ok_def TKV)
    note a = AppendKVTxn_ok [OF assms(1) at(1) t(2) TKV ok this refl assms(5)]
    have "append_txn fb io hlc x t ?e = AppendKVTxn fb io hlc k v t ?e" by (simp add: append_txn_def TKV)
    then show ?thesis using a by (simp only:) blast
  next
    case (TColumns row cs)
    note a = AppendColumnTxn_ok [OF assms(1) at(1) t(2) TColumns ok refl assms(5)]
    have "append_txn fb io hlc x t ?e = AppendColumnTxn fb io hlc row cs t ?e" by (simp add: append_txn_def TColumns)
    then show ?thesis using a by (simp only:) blast
  qed
  then obtain e' t' L' p where e': "append_txn fb io hlc x t ?e = (e', t', None)" "en_inv lib fb R M u e' L' Hs H F P"
      "decoded fb (wal_log L') = ?D @ [(p, ?r)]" "kept ?e e'" "same_txn t t'" "txn_inv fb (decoded fb (wal_log L')) t' (xs @ [x])" by blast
  have part: "txn_part ?D (tx_txnID t) \<noteq> []" using t(2) by (simp add: txn_inv_def Let_def)
  have used: "i \<in> rn_used s" using part t(1) assms(2) by (auto simp: run_inv_def)
  have "engine_at lib fb R M u (rn_flushing s) e' L'"
    by (rule engine_at_extend [OF at(1) e'(2) _ e'(3)]) (use at(2-4) e'(4) in \<open>auto simp: kept_def\<close>)
  then have "run_inv lib fb R M u (s\<lparr>rn_engine := e', rn_view := rn_view s, rn_txns := (rn_txns s)(i \<mapsto> (t', xs @ [x])), rn_used := rn_used s\<rparr>) L'"
    using e'(5,6) t(1) used
    by (intro run_inv_record [OF assms(2) _ e'(3)]) (auto simp: known_op_def prepare_record_def record_sops_def record_call_def same_txn_def split: if_splits)
  then show ?thesis using e'(1) by auto
qed

lemma commit_step:
  assumes "fb_laws fb" "mem_laws lib" "run_inv lib fb R M u s L" "rn_txns s i = Some (t, xs)" "xs \<noteq> []" "length xs < 2 ^ 32"
    and "can_log fb io (rn_engine s) (FBEncode fb (commit_record fb (en_writeSeenCounter (rn_engine s) + 1) hlc t))"
    and "\<forall>p. can_put lib clk (rn_engine s) (commit_entries t p)"
  shows "\<exists>e' t' L'. Commit lib fb io clk hlc t (rn_engine s) = (e', t', None)
    \<and> run_inv lib fb R M u (s\<lparr>rn_engine := e',
        rn_view := fold apply_sop (call_sops (txn_call (tx_txnOperation t) (tx_txnEntryType t) (tx_checksum t) xs)) (rn_view s),
        rn_txns := (rn_txns s)(i := None)\<rparr>) L'"
proof -
  let ?e = "rn_engine s" and ?D = "decoded fb (wal_log L)"
  let ?r = "commit_record fb (en_writeSeenCounter ?e + 1) hlc t"
  obtain Hs H F P where at: "en_inv lib fb R M u ?e L Hs H F P" "\<not> en_shutdown ?e" "rn_flushing s \<longrightarrow> Hs \<noteq> [] \<and> P = mem_sops fb ?D (hd Hs)"
      "\<not> rn_flushing s \<longrightarrow> P = []" using assms(3) by (rule run_engineE)
  have t: "tx_txnID t = i" "txn_inv fb ?D t xs" using assms(3,4) by (auto simp: run_inv_def)
  note cr = commit_record_ok [OF assms(1) t(2) assms(5,6) refl]
  obtain e' t' L' Hs' H' p where e': "Commit lib fb io clk hlc t ?e = (e', t', None)" "en_inv lib fb R M u e' L' Hs' H' F P" "prefix Hs Hs'" "kept ?e e'"
      "decoded fb (wal_log L') = ?D @ [(p, ?r)]"
    using Commit_ok [OF assms(1,2) at(1) t(2) assms(5,6) refl assms(7)] assms(8) by blast
  have part: "txn_part ?D (tx_txnID t) \<noteq> []" using t(2) by (simp add: txn_inv_def Let_def)
  have used: "i \<in> rn_used s" using part t(1) assms(3) by (auto simp: run_inv_def)
  have id: "TxnID ?r = i" using t(1) by (simp add: commit_record_def)
  have "engine_at lib fb R M u (rn_flushing s) e' L'"
    by (rule engine_at_extend [OF at(1) e'(2,3,5)]) (use at(2-4) e'(4) in \<open>auto simp: kept_def\<close>)
  then have "run_inv lib fb R M u (s\<lparr>rn_engine := e', rn_view := fold apply_sop (record_sops fb ?D ?r) (rn_view s), rn_txns := (rn_txns s)(i := None), rn_used := rn_used s\<rparr>) L'"
    by (intro run_inv_record [OF assms(3) _ e'(5) cr(3)]) (auto simp: id used split: if_splits)
  then show ?thesis using e'(1) by (auto simp: cr(5))
qed

lemma run_inv_engine:
  assumes "run_inv lib fb R M u s L" "engine_at lib fb R M u fl e' L"
  shows "run_inv lib fb R M u (s\<lparr>rn_engine := e', rn_flushing := fl\<rparr>) L"
  using assms by (simp add: run_inv_def)

lemma drop_at:
  assumes "engine_at lib fb R M u True e L" shows "engine_at lib fb R M u False (dropTable e) L"
proof -
  obtain Hs H F P where at: "en_inv lib fb R M u e L Hs H F P" "\<not> en_shutdown e"
      "True \<longrightarrow> Hs \<noteq> [] \<and> P = mem_sops fb (decoded fb (wal_log L)) (hd Hs)" "\<not> True \<longrightarrow> P = []"
    using assms by (rule engine_atE)
  obtain H1 Hs' where Hs: "Hs = H1 # Hs'" "P = mem_sops fb (decoded fb (wal_log L)) H1" using at(3) by (cases Hs) auto
  have "en_inv lib fb R M u (dropTable e) L Hs' H (F @ P) []" using dropTable_ok [of lib fb R M u e L H1 Hs' H F] at(1) by (simp add: Hs)
  moreover have "\<not> en_shutdown (dropTable e)" using at(2) by (simp add: dropTable_def Let_def)
  ultimately show ?thesis by (auto simp: engine_at_def)
qed

context btree_store
begin

lemma flush_at:
  assumes "mem_laws lib" "engine_at lib fb R M u False e L" "en_sealedMemTables e = mt # ts" "\<forall>i. ctx i = None" "order_ok order"
  shows "\<exists>e'. flushTable lib fb bt ctx order mt e = Some (e', None) \<and> engine_at lib fb R M u True e' L \<and> en_config e' = en_config e"
proof -
  obtain Hs H F P where at: "en_inv lib fb R M u e L Hs H F P" "\<not> en_shutdown e"
      "False \<longrightarrow> Hs \<noteq> [] \<and> P = mem_sops fb (decoded fb (wal_log L)) (hd Hs)" "\<not> False \<longrightarrow> P = []"
    using assms(2) by (rule engine_atE)
  have "en_inv lib fb R M u e L Hs H F []" using at(1,4) by simp
  from flushTable_ok [OF assms(1) this assms(3,4)] assms(5) obtain e' H1 Hs' where
    e': "flushTable lib fb bt ctx order mt e = Some (e', None)" "Hs = H1 # Hs'"
      "en_inv lib fb R M u e' L Hs H F (mem_sops fb (decoded fb (wal_log L)) H1)" "en_shutdown e' = en_shutdown e" "en_config e' = en_config e" unfolding order_ok_def by blast
  have "engine_at lib fb R M u True e' L" unfolding engine_at_def
    using e'(2-4) at(2) by (intro conjI exI [of _ Hs] exI [of _ H] exI [of _ F] exI [of _ "mem_sops fb (decoded fb (wal_log L)) H1"]) simp_all
  then show ?thesis using e'(1,5) by blast
qed

lemma checkpoint_at:
  assumes "engine_at lib fb R M u fl e L" "\<forall>d. bt_FSync bt d = None" "\<forall>fm \<in> set (en_pendingMetadata e). Pos (fm_metadata fm) \<noteq> None"
  shows "\<exists>e'. fSyncStore bt e = (e', None) \<and> engine_at lib fb R M u fl e' L"
proof -
  obtain Hs H F P where at: "en_inv lib fb R M u e L Hs H F P" "\<not> en_shutdown e"
      "fl \<longrightarrow> Hs \<noteq> [] \<and> P = mem_sops fb (decoded fb (wal_log L)) (hd Hs)" "\<not> fl \<longrightarrow> P = []"
    using assms(1) by (rule engine_atE)
  from fSyncStore_ok [OF at(1) assms(2)] assms(3) obtain e' where e': "fSyncStore bt e = (e', None)" "en_inv lib fb R M u e' L Hs H F P"
      "en_shutdown e' = en_shutdown e" by auto
  have "engine_at lib fb R M u fl e' L" using e'(2,3) at(2-4) unfolding engine_at_def by auto
  then show ?thesis using e'(1) by blast
qed

lemma restart_at:
  assumes "mem_laws lib" "engine_at lib fb R M u fl e L" "reopened fb (en_walIO e) w" "minArenaSize \<le> ec_ArenaSize conf"
  shows "\<exists>e'. NewStorageEngine lib io fb bt conf (Inr True) (Inr w) (Inr (en_dataStore e)) = Some (Inr e') \<and> engine_at lib fb R M u False e' L"
proof -
  obtain Hs H F P where at: "en_inv lib fb R M u e L Hs H F P" "\<not> en_shutdown e"
      "fl \<longrightarrow> Hs \<noteq> [] \<and> P = mem_sops fb (decoded fb (wal_log L)) (hd Hs)" "\<not> fl \<longrightarrow> P = []"
    using assms(2) by (rule engine_atE)
  have "wal_ok fb w L" "fresh_ids (wio_appendLog w) L"
    using assms(3) wal_inv_unique [OF wal_okD(1) [OF en_invD(1) [OF at(1)]]] wal_okD(1) unfolding reopened_def by blast+
  from restart_ok [OF assms(1) at(1) this assms(4), of io] obtain e' where
    e': "NewStorageEngine lib io fb bt conf (Inr True) (Inr w) (Inr (en_dataStore e)) = Some (Inr e')"
      "en_inv lib fb R M u e' L [] [] (log_sops fb [] (decoded fb (wal_log L))) []" "\<not> en_shutdown e'" by blast
  have "engine_at lib fb R M u False e' L" using e'(2,3) unfolding engine_at_def by auto
  then show ?thesis using e'(1) by blast
qed

text \<open>The reads between steps.\<close>

lemma reads_at:
  assumes "mem_laws lib" "engine_at lib fb R M u fl e L"
  shows "en_GetKV lib bt k e = (case u_kv (view_of fb u L) (kc_KeyKV k) of None \<Rightarrow> Inl ErrKeyNotFound | Some v \<Rightarrow> Inr v)"
    "encBlob (kc_KeyBlobChunk k 0) \<Longrightarrow> en_GetLOB lib fb bt k e =
      Some (case u_lob (view_of fb u L) (kc_KeyBlobChunk k 0) of None \<Rightarrow> Inl ErrKeyNotFound | Some (chunks, s) \<Rightarrow> Inr (concat chunks))"
    "encRow (kc_RowKey k) \<Longrightarrow> case en_GetRowColumns lib fb bt k p e of
        Inl err \<Rightarrow> err = ErrKeyNotFound \<and> selected p (u_cell (view_of fb u L) (kc_RowKey k)) = Map.empty
      | Inr cols \<Rightarrow> \<forall>c. c \<noteq> [] \<longrightarrow> map_of cols c = selected p (u_cell (view_of fb u L) (kc_RowKey k)) c"
proof -
  obtain Hs H F P where at: "en_inv lib fb R M u e L Hs H F P" "\<not> en_shutdown e"
      "fl \<longrightarrow> Hs \<noteq> [] \<and> P = mem_sops fb (decoded fb (wal_log L)) (hd Hs)" "\<not> fl \<longrightarrow> P = []"
    using assms(2) by (rule engine_atE)
  show "en_GetKV lib bt k e = (case u_kv (view_of fb u L) (kc_KeyKV k) of None \<Rightarrow> Inl ErrKeyNotFound | Some v \<Rightarrow> Inr v)"
    by (rule en_GetKV_ok [OF assms(1) at(1,2)])
  show "encBlob (kc_KeyBlobChunk k 0) \<Longrightarrow> en_GetLOB lib fb bt k e =
      Some (case u_lob (view_of fb u L) (kc_KeyBlobChunk k 0) of None \<Rightarrow> Inl ErrKeyNotFound | Some (chunks, s) \<Rightarrow> Inr (concat chunks))"
    by (rule en_GetLOB_ok [OF assms(1) at(1,2)])
  show "encRow (kc_RowKey k) \<Longrightarrow> case en_GetRowColumns lib fb bt k p e of
        Inl err \<Rightarrow> err = ErrKeyNotFound \<and> selected p (u_cell (view_of fb u L) (kc_RowKey k)) = Map.empty
      | Inr cols \<Rightarrow> \<forall>c. c \<noteq> [] \<longrightarrow> map_of cols c = selected p (u_cell (view_of fb u L) (kc_RowKey k)) c"
    by (rule en_GetRowColumns_ok [OF assms(1) at(1,2)])
qed

text \<open>A new engine over an empty log.\<close>

lemma new_engine_inv:
  assumes "mem_laws lib" "wal_ok fb w L" "wal_log L = []" "R d u" "M d SysKeyWalCheckPoint = None"
  shows "en_inv lib fb R M u (newEngine lib conf w d) L [] [] [] []"
proof -
  have "tables_ok lib fb [] (newEngine lib conf w d) [] []" using mt_inv_New [OF assms(1)] by (simp add: tables_ok_def)
  then show ?thesis using assms(2-5) by (simp add: en_inv_def tab_inv_def checkpoints_ok_def newEngine_def NewMemTable_def)
qed

lemma start_ok:
  assumes "mem_laws lib" "wal_ok fb w L" "wal_log L = []" "fresh_ids (wio_appendLog w) L" "R d u" "M d SysKeyWalCheckPoint = None"
    and "NewStorageEngine lib io fb bt conf (Inr True) (Inr w) (Inr d) = Some (Inr e0)"
  shows "run_inv lib fb R M u \<lparr>rn_engine = e0, rn_flushing = False, rn_txns = Map.empty, rn_used = {}, rn_view = u\<rparr> L
    \<and> en_config e0 = conf \<and> wio_reads L w (en_walIO e0) \<and> en_writeSeenCounter e0 = 0"
proof -
  have arena: "minArenaSize \<le> ec_ArenaSize conf" using assms(7) by (auto simp: NewStorageEngine_def initStorage_def split: if_splits)
  note inv = new_engine_inv [OF assms(1-3,5,6), of conf]
  from restart_ok [OF assms(1) inv assms(2,4) arena, of io, unfolded newEngine_fields] obtain e' k es T where
    e': "NewStorageEngine lib io fb bt conf (Inr True) (Inr w) (Inr d) = Some (Inr e')" "en_inv lib fb R M u e' L [] [] (log_sops fb [] (decoded fb (wal_log L))) []"
      "\<not> en_shutdown e'" "en_config e' = conf" "wio_reads L w (en_walIO e')" "wal_log L = es @ T"
      "en_recoveredEntriesCount e' = recovered_count (decoded fb es) (decoded fb T)"
      "M d SysKeyWalCheckPoint = None \<and> k = 0 \<or> (\<exists>p. M d SysKeyWalCheckPoint = Some (LE_PutUint64 k @ rp_Encode p))"
      "en_writeSeenCounter e' = k + word_of_nat (en_recoveredEntriesCount e')" by blast
  have "e' = e0" using e'(1) assms(7) by simp
  moreover have "engine_at lib fb R M u False e' L" using e'(2,3) unfolding engine_at_def by auto
  ultimately show ?thesis using e'(4-9) assms(3,6) by (simp add: run_inv_def view_of_def)
qed

lemma engine_run_ok:
  assumes "fb_laws fb" "mem_laws lib" "\<forall>d. bt_FSync bt d = None"
    and "\<exists>L. run_inv lib fb R M u \<lparr>rn_engine = e0, rn_flushing = False, rn_txns = Map.empty, rn_used = {}, rn_view = u\<rparr> L"
  shows "engine_run lib fb bt e0 u s \<Longrightarrow> \<exists>L. run_inv lib fb R M u s L"
proof (induction rule: engine_run.induct)
  case start
  then show ?case by (rule assms(4))
next
  case (put s w io hlc clk e' err)
  then show ?case using put_step [OF assms(1,2) _ put.hyps(2-5), where R = R and M = M and u = u] by fastforce
next
  case (begin_txn s op et uuid io hlc e' t)
  then show ?case using begin_step [OF assms(1) _ begin_txn.hyps(2-5), where lib = lib and R = R and M = M and u = u] by fastforce
next
  case (append s i t xs x io hlc e' t' err)
  then show ?case using append_step [OF assms(1) _ append.hyps(2-4), where lib = lib and R = R and M = M and u = u] by fastforce
next
  case (commit s i t xs io hlc clk e' t' err)
  then show ?case using commit_step [OF assms(1,2) _ commit.hyps(2-6), where R = R and M = M and u = u] by fastforce
next
  case (abandon s i)
  then show ?case by (auto simp: run_inv_def split: if_splits)
next
  case (flush s mt ts ctx order e' err)
  then obtain L where L: "run_inv lib fb R M u s L" by blast
  then have "engine_at lib fb R M u False (rn_engine s) L" using flush.hyps(2) by (simp add: run_inv_def)
  from flush_at [OF assms(2) this flush.hyps(3-5)] flush.hyps(6) have "engine_at lib fb R M u True e' L" by auto
  then show ?case using run_inv_engine [OF L] by blast
next
  case (drop s)
  then obtain L where L: "run_inv lib fb R M u s L" by blast
  then have "engine_at lib fb R M u False (dropTable (rn_engine s)) L" using drop.hyps(2) by (intro drop_at) (simp add: run_inv_def)
  then show ?case using run_inv_engine [OF L] by blast
next
  case (checkpoint s e' err)
  then obtain L where L: "run_inv lib fb R M u s L" by blast
  then have "engine_at lib fb R M u (rn_flushing s) (rn_engine s) L" by (simp add: run_inv_def)
  from checkpoint_at [OF this assms(3) checkpoint.hyps(2)] checkpoint.hyps(3) have "engine_at lib fb R M u (rn_flushing s) e' L" by auto
  then have "run_inv lib fb R M u (s\<lparr>rn_engine := e', rn_flushing := rn_flushing s\<rparr>) L" by (rule run_inv_engine [OF L])
  then show ?case by auto
next
  case (restart s w conf io e')
  then obtain L where L: "run_inv lib fb R M u s L" by blast
  then have "engine_at lib fb R M u (rn_flushing s) (rn_engine s) L" by (simp add: run_inv_def)
  from restart_at [OF assms(2) this restart.hyps(2,3), of io] restart.hyps(4) have "engine_at lib fb R M u False e' L" by auto
  then show ?case using L by (auto simp: run_inv_def)
qed

end

end
