(* ===== verification/ReplicaRun.thy ===== *)
theory ReplicaRun
  imports EngineRun
begin

text \<open>
  Runs of a replica. It receives the records \<open>es\<close> of a leader in order, one by one or in batches, and flushes, saves checkpoints and restarts
  as any engine. Whatever it has accepted, its reads return what the accepted part of the leader's log says.
\<close>

text \<open>What a batch needs of the log.\<close>

definition can_log_all :: "fb_api \<Rightarrow> (nat \<Rightarrow> ioenv) \<Rightarrow> ('s, 'b, 'd) Engine \<Rightarrow> bytes list \<Rightarrow> bool" where
  "can_log_all fb io e ds \<longleftrightarrow> (\<forall>i. \<forall>d \<in> set ds. can_log fb (io i) e d)
    \<and> (case wl_currentSegment (wio_appendLog (en_walIO e)) of None \<Rightarrow> False | Some sid \<Rightarrow> unat sid + length ds < 2 ^ 32)"

inductive replica_run ::
  "('s, 'b) mem_lib \<Rightarrow> fb_api \<Rightarrow> ('d, 'q) btree_api \<Rightarrow> (RecordPosition \<times> bytes) list \<Rightarrow> ('s, 'b, 'd) Engine \<Rightarrow> ('s, 'b, 'd) Engine \<Rightarrow> bool \<Rightarrow> nat \<Rightarrow> bool"
  for lib fb bt es e0 where
  start: "replica_run lib fb bt es e0 e0 False 0"
| apply_one: "replica_run lib fb bt es e0 e fl n \<Longrightarrow> n < length es \<Longrightarrow> es ! n = (q, d) \<Longrightarrow> can_log fb io e d
    \<Longrightarrow> can_put lib clk e (record_entries fb (decoded fb (take n es)) (DeserializeLogRecord fb d) q)
    \<Longrightarrow> ApplyRecord lib fb io clk d q e = Some (e', None) \<Longrightarrow> replica_run lib fb bt es e0 e' fl (n + 1)"
| apply_batch: "replica_run lib fb bt es e0 e fl n \<Longrightarrow> n + k \<le> length es \<Longrightarrow> new = take k (drop n es) \<Longrightarrow> can_log_all fb io e (map snd new)
    \<Longrightarrow> \<forall>i. can_put lib (clk i) e (log_entries fb (decoded fb (take n es)) (decoded fb new))
    \<Longrightarrow> ApplyRecords lib fb io clk (map snd new) (map fst new) e = Some (e', None) \<Longrightarrow> replica_run lib fb bt es e0 e' fl (n + k)"
| flush: "replica_run lib fb bt es e0 e False n \<Longrightarrow> en_sealedMemTables e = mt # ts \<Longrightarrow> \<forall>i. ctx i = None \<Longrightarrow> order_ok order
    \<Longrightarrow> flushTable lib fb bt ctx order mt e = Some (e', err) \<Longrightarrow> replica_run lib fb bt es e0 e' True n"
| drop: "replica_run lib fb bt es e0 e True n \<Longrightarrow> replica_run lib fb bt es e0 (dropTable e) False n"
| checkpoint: "replica_run lib fb bt es e0 e fl n \<Longrightarrow> \<forall>fm \<in> set (en_pendingMetadata e). Pos (fm_metadata fm) \<noteq> None
    \<Longrightarrow> fSyncStore bt e = (e', err) \<Longrightarrow> replica_run lib fb bt es e0 e' fl n"
| restart: "replica_run lib fb bt es e0 e fl n \<Longrightarrow> reopened fb (en_walIO e) w \<Longrightarrow> minArenaSize \<le> ec_ArenaSize conf
    \<Longrightarrow> NewStorageEngine lib io fb bt conf (Inr True) (Inr w) (Inr (en_dataStore e)) = Some (Inr e') \<Longrightarrow> replica_run lib fb bt es e0 e' False n"

text \<open>What the leader's log gives for its next records.\<close>

lemma leader_next:
  assumes "leader_log fb (decoded fb es)" "n + k \<le> length es" "new = take k (drop n es)"
  shows "linked (decoded fb (take n es)) (decoded fb new)" "recoverable fb (decoded fb (take n es)) (decoded fb new)" "\<forall>x \<in> set (decoded fb new). known_op (snd x)"
    "take (n + k) es = take n es @ new"
proof -
  have es: "es = take n es @ new @ drop k (drop n es)" unfolding assms(3) append_take_drop_id ..
  have D: "decoded fb es = decoded fb (take n es) @ decoded fb new @ decoded fb (drop k (drop n es))" by (subst es) (simp only: decoded_append)
  have l: "linked [] (decoded fb es)" "recoverable fb [] (decoded fb es)" "\<forall>x \<in> set (decoded fb es). known_op (snd x)" using assms(1) by (simp_all add: leader_log_def)
  show "linked (decoded fb (take n es)) (decoded fb new)" using l(1) unfolding D by simp
  show "recoverable fb (decoded fb (take n es)) (decoded fb new)" using l(2) unfolding D by simp
  show "\<forall>x \<in> set (decoded fb new). known_op (snd x)" using l(3) unfolding D by simp
  show "take (n + k) es = take n es @ new" by (simp add: assms(3) take_add)
qed

lemma ApplyRecord_accepts:
  assumes "ApplyRecord lib fb io clk d q e = Some (e', None)"
  shows "Offset q \<noteq> 0" "LSN (DeserializeLogRecord fb d) = en_writeSeenCounter e + 1"
  using assms by (auto simp: ApplyRecord_def DeserializeLogRecord_def Let_def split: if_splits)

lemma ApplyRecords_accepts:
  assumes "ApplyRecords lib fb io clk ds qs e = Some (e', None)" "ds \<noteq> []" "length qs = length ds"
  shows "checkRecords fb (en_writeSeenCounter e + 1) (zip ds qs) = None"
  using assms by (auto simp: ApplyRecords_def split: option.splits)

lemma apply_one_at:
  assumes "mem_laws lib" "leader_log fb (decoded fb es)" "engine_at lib fb R M u fl e L" "wal_log L = take n es" "n < length es" "es ! n = (q, d)"
    and "can_log fb io e d" "can_put lib clk e (record_entries fb (decoded fb (take n es)) (DeserializeLogRecord fb d) q)"
    and "ApplyRecord lib fb io clk d q e = Some (e', None)"
  shows "\<exists>L'. engine_at lib fb R M u fl e' L' \<and> wal_log L' = take (n + 1) es"
proof -
  obtain Hs H F P where at: "en_inv lib fb R M u e L Hs H F P" "\<not> en_shutdown e"
      "fl \<longrightarrow> Hs \<noteq> [] \<and> P = mem_sops fb (decoded fb (wal_log L)) (hd Hs)" "\<not> fl \<longrightarrow> P = []"
    using assms(3) by (rule engine_atE)
  have new: "[(q, d)] = take 1 (drop n es)" using assms(5,6) by (simp add: take_Suc_conv_app_nth hd_drop_conv_nth take_Suc)
  have "n + 1 \<le> length es" using assms(5) by simp
  note next_rec = leader_next [OF assms(2) this new]
  let ?r = "DeserializeLogRecord fb d"
  have r: "link_ok (decoded fb (wal_log L)) ?r" "record_ok fb (decoded fb (wal_log L)) ?r" "known_op ?r" using next_rec(1-3) by (simp_all add: assms(4))
  have put: "can_put lib clk e (record_entries fb (decoded fb (wal_log L)) ?r q)" using assms(8) by (simp add: assms(4))
  from ApplyRecord_ok [OF assms(1) at(1) assms(7) refl r ApplyRecord_accepts [OF assms(9)] put] assms(9) obtain L' Hs' H' where
    e': "wal_log L' = wal_log L @ [(q, d)]" "kept e e'" "en_inv lib fb R M u e' L' Hs' H' F P" "prefix Hs Hs'"
    by (auto split: if_splits)
  have "decoded fb (wal_log L') = decoded fb (wal_log L) @ [(q, ?r)]" by (simp add: e'(1))
  then have "engine_at lib fb R M u fl e' L'"
    by (rule engine_at_extend [OF at(1) e'(3,4)]) (use at(2-4) e'(2) in \<open>auto simp: kept_def\<close>)
  then show ?thesis using e'(1) next_rec(4) by (auto simp: assms(4))
qed

lemma apply_batch_at:
  assumes "mem_laws lib" "leader_log fb (decoded fb es)" "engine_at lib fb R M u fl e L" "wal_log L = take n es" "n + k \<le> length es" "new = take k (drop n es)"
    and "can_log_all fb io e (map snd new)" "\<forall>i. can_put lib (clk i) e (log_entries fb (decoded fb (take n es)) (decoded fb new))"
    and "ApplyRecords lib fb io clk (map snd new) (map fst new) e = Some (e', None)"
  shows "\<exists>L'. engine_at lib fb R M u fl e' L' \<and> wal_log L' = take (n + k) es"
proof (cases "new = []")
  case True
  then have "e' = e" using assms(9) by (simp add: ApplyRecords_def)
  moreover have "take (n + k) es = take n es" using leader_next(4) [OF assms(2,5,6)] True by simp
  ultimately show ?thesis using assms(3,4) by auto
next
  case False
  obtain Hs H F P where at: "en_inv lib fb R M u e L Hs H F P" "\<not> en_shutdown e"
      "fl \<longrightarrow> Hs \<noteq> [] \<and> P = mem_sops fb (decoded fb (wal_log L)) (hd Hs)" "\<not> fl \<longrightarrow> P = []"
    using assms(3) by (rule engine_atE)
  note next_recs = leader_next [OF assms(2,5,6)]
  have z: "zip (map fst new) (map snd new) = new" by (simp add: zip_map_fst_snd)
  have ne: "map snd new \<noteq> []" "length (map fst new) = length (map snd new)" using False by simp_all
  have cl: "\<forall>i d. d \<in> set (map snd new) \<longrightarrow> can_log fb (io i) e d" using assms(7) by (auto simp: can_log_all_def)
  have seg: "unat (fst (last L)) + length (map snd new) < 2 ^ 32"
  proof -
    have "wl_currentSegment (wio_appendLog (en_walIO e)) = Some (fst (last L))" using wal_okD(1) [OF en_invD(1) [OF at(1)]] by (simp add: wal_inv_def)
    then show ?thesis using assms(7) by (simp add: can_log_all_def)
  qed
  have log: "linked (decoded fb (wal_log L)) (decoded fb (zip (map fst new) (map snd new)))"
      "recoverable fb (decoded fb (wal_log L)) (decoded fb (zip (map fst new) (map snd new)))"
      "\<forall>x \<in> set (decoded fb (zip (map fst new) (map snd new))). known_op (snd x)"
      "\<forall>i. can_put lib (clk i) e (log_entries fb (decoded fb (wal_log L)) (decoded fb (zip (map fst new) (map snd new))))"
    using next_recs(1-3) assms(8) by (simp_all add: z assms(4))
  from ApplyRecords_ok [OF assms(1) at(1) cl seg ne log(1-3) ApplyRecords_accepts [OF assms(9) ne] log(4)] assms(9) obtain L' Hs' H' where
    e': "wal_log L' = wal_log L @ zip (map fst new) (map snd new)" "kept e e'" "en_inv lib fb R M u e' L' Hs' H' F P" "prefix Hs Hs'"
    by (auto split: if_splits)
  have "decoded fb (wal_log L') = decoded fb (wal_log L) @ decoded fb new" by (simp add: e'(1) z)
  then have "engine_at lib fb R M u fl e' L'"
    by (rule engine_at_extend [OF at(1) e'(3,4)]) (use at(2-4) e'(2) in \<open>auto simp: kept_def\<close>)
  then show ?thesis using e'(1) next_recs(4) by (auto simp: assms(4) z)
qed

context btree_store
begin

lemma replica_run_ok:
  assumes "mem_laws lib" "\<forall>d. bt_FSync bt d = None" "leader_log fb (decoded fb es)" "engine_at lib fb R M u False e0 L0" "wal_log L0 = []"
  shows "replica_run lib fb bt es e0 e fl n \<Longrightarrow> \<exists>L. engine_at lib fb R M u fl e L \<and> wal_log L = take n es"
proof (induction rule: replica_run.induct)
  case start
  then show ?case using assms(4,5) by auto
next
  case (apply_one e fl n q d io clk e')
  then show ?case using apply_one_at [OF assms(1,3) _ _ apply_one.hyps(2-6)] by blast
next
  case (apply_batch e fl n k new io clk e')
  then show ?case using apply_batch_at [OF assms(1,3) _ _ apply_batch.hyps(2-6)] by blast
next
  case (flush e n mt ts ctx order e' err)
  then show ?case using flush_at [OF assms(1) _ flush.hyps(2-4), of fb u] by fastforce
next
  case (drop e n)
  then show ?case using drop_at by blast
next
  case (checkpoint e fl n e' err)
  then show ?case using checkpoint_at [OF _ assms(2) checkpoint.hyps(2), of lib fb u fl] by fastforce
next
  case (restart e fl n w conf io e')
  then show ?case using restart_at [OF assms(1) _ restart.hyps(2,3), where u = u and io = io] by fastforce
qed

end

end
