(* ===== verification/EngineProps.thy ===== *)
theory EngineProps
  imports ReplicaRun KernelProps MemTableProps
begin

text \<open>
  Properties of the engine as its users see it: reads in every state of every run, writes, transactions, flushes, restarts, and replicas. The
  store is the bbolt driver over any database with the laws of bbolt. The witnesses run an engine over the log, the codec,
  the database and the tables in memory.
\<close>

section \<open>What users see\<close>

text \<open>The reads of the engine answer from the state \<open>v\<close>. Columns without a name are left out, and a row without columns may be an error or an
  empty result.\<close>

definition answers :: "('s, 'b) mem_lib \<Rightarrow> fb_api \<Rightarrow> ('d, 'q) btree_api \<Rightarrow> ('s, 'b, 'd) Engine \<Rightarrow> ustore \<Rightarrow> bool" where
  "answers lib fb bt e v \<longleftrightarrow>
    (\<forall>k. en_GetKV lib bt k e = (case u_kv v (kc_KeyKV k) of None \<Rightarrow> Inl ErrKeyNotFound | Some x \<Rightarrow> Inr x))
    \<and> (\<forall>k. encBlob (kc_KeyBlobChunk k 0) \<longrightarrow> en_GetLOB lib fb bt k e =
        Some (case u_lob v (kc_KeyBlobChunk k 0) of None \<Rightarrow> Inl ErrKeyNotFound | Some (chunks, s) \<Rightarrow> Inr (concat chunks)))
    \<and> (\<forall>r p. encRow (kc_RowKey r) \<longrightarrow> (case en_GetRowColumns lib fb bt r p e of
          Inl err \<Rightarrow> err = ErrKeyNotFound \<and> selected p (u_cell v (kc_RowKey r)) = Map.empty
        | Inr cols \<Rightarrow> \<forall>c. c \<noteq> [] \<longrightarrow> map_of cols c = selected p (u_cell v (kc_RowKey r)) c))"

text \<open>An engine that was opened over an empty log and a store without checkpoint.\<close>

definition opened ::
  "('s, 'b) mem_lib \<Rightarrow> ioenv \<Rightarrow> fb_api \<Rightarrow> ('d, 't) bolt_api \<Rightarrow> ('d \<Rightarrow> dbview) \<Rightarrow> EngineConfig \<Rightarrow> WalIO \<Rightarrow> 'd BoltDBEmbed \<Rightarrow> ustore
    \<Rightarrow> ('s, 'b, 'd BoltDBEmbed) Engine \<Rightarrow> bool" where
  "opened lib io fb api dview conf w d u e0 \<longleftrightarrow> (\<exists>L. wal_ok fb w L \<and> wal_log L = [] \<and> fresh_ids (wio_appendLog w) L)
    \<and> bolt_holds dview d u \<and> bolt_meta dview d SysKeyWalCheckPoint = None
    \<and> NewStorageEngine lib io fb (bolt_btree api (\<lambda>_. None)) conf (Inr True) (Inr w) (Inr d) = Some (Inr e0)"

context btree_store
begin

lemma answers_at: "mem_laws lib \<Longrightarrow> engine_at lib fb R M u fl e L \<Longrightarrow> answers lib fb bt e (view_of fb u L)"
  unfolding answers_def by (intro conjI allI impI) (rule reads_at; assumption)+

end

lemma sync_ok: "\<forall>d. bt_FSync (bolt_btree api (\<lambda>_. None)) d = None"
  by (simp add: bolt_btree_def)

lemma opened_start:
  assumes "bolt_laws api dview view" "reliable api view" "mem_laws lib" "opened lib io fb api dview conf w d u e0"
  shows "\<exists>L. run_inv lib fb (bolt_holds dview) (bolt_meta dview) u \<lparr>rn_engine = e0, rn_flushing = False, rn_txns = Map.empty, rn_used = {}, rn_view = u\<rparr> L
    \<and> wal_log L = [] \<and> en_config e0 = conf \<and> wio_reads L w (en_walIO e0) \<and> en_writeSeenCounter e0 = 0"
  using assms(4) btree_store.start_ok [OF bolt_btree_store [OF assms(1,2)] assms(3)] unfolding opened_def by blast

lemma run_reaches:
  assumes "bolt_laws api dview view" "reliable api view" "fb_laws fb" "mem_laws lib" "opened lib io fb api dview conf w d u e0"
    and "engine_run lib fb (bolt_btree api (\<lambda>_. None)) e0 u s"
  shows "\<exists>L. run_inv lib fb (bolt_holds dview) (bolt_meta dview) u s L"
  using btree_store.engine_run_ok [OF bolt_btree_store [OF assms(1,2)] assms(3,4) sync_ok _ assms(6)] opened_start [OF assms(1,2,4,5)] by blast

lemma run_answers:
  assumes "bolt_laws api dview view" "reliable api view" "mem_laws lib" "run_inv lib fb (bolt_holds dview) (bolt_meta dview) u s L"
  shows "answers lib fb (bolt_btree api (\<lambda>_. None)) (rn_engine s) (rn_view s)"
  using btree_store.answers_at [OF bolt_btree_store [OF assms(1,2)] assms(3)] assms(4) unfolding run_inv_def by metis

section \<open>A small engine\<close>

text \<open>Tables in memory that hold one entry each, and a log with a single segment.\<close>

definition mem_list1 :: "((tsKey \<times> ValueStruct) list, bytes list) mem_lib" where
  "mem_list1 = mem_list\<lparr>sk_MemSize := (\<lambda>s. 1000000 * int (length s))\<rparr>"

definition conf1 :: EngineConfig where
  "conf1 = \<lparr>ec_ArenaSize = 1000000, ec_BTreeFlushInterval = 0, ec_CoalescingEnabled = False, ec_ReadOnly = False\<rparr>"

abbreviation mem_bt :: "(memdb BoltDBEmbed, memdb TxnQueue) btree_api" where
  "mem_bt \<equiv> bolt_btree mem_bolt (\<lambda>_. None)"

definition small :: "WalIO \<Rightarrow> nat \<Rightarrow> bool" where
  "small w n \<longleftrightarrow> (\<exists>rs. wal_inv (wio_appendLog w) [(1, rs)] \<and> run_size rs \<le> n) \<and> wal_active (wio_appendLog w) \<and> wl_maxSegmentSize (wio_appendLog w) = 4096"

definition tiny :: "('s, 'b, 'd) Engine \<Rightarrow> nat \<Rightarrow> bool" where
  "tiny e n \<longleftrightarrow> small (en_walIO e) n \<and> en_config e = conf1 \<and> mt_opCount (en_activeMemTable e) \<le> n
    \<and> mt_capacity (en_activeMemTable e) = 1000000 \<and> \<not> en_flushPaused e"

lemma mem_list1_laws: "mem_laws mem_list1"
  using mem_list_laws by (simp add: mem_laws_def mem_list1_def)

lemma small_append:
  assumes "small w n" "64 + n + entrySizeOf d \<le> 4096"
  shows "\<exists>w' p. wio_Append io_good d w = (w', Inr p) \<and> small w' (n + entrySizeOf d) \<and> (n = 0 \<longrightarrow> p = pos1 \<and> wal_inv (wio_appendLog w') [(1, [d])])"
proof -
  obtain rs where rs: "wal_inv (wio_appendLog w) [(1, rs)]" "run_size rs \<le> n" using assms(1) by (auto simp: small_def)
  obtain s where s: "current (wio_appendLog w) = Some (1, s)" "seg_ok 4096 1 s rs"
    using wal_inv_snoc [OF rs(1)] assms(1) by (auto simp: small_def)
  have off: "seg_writeOffset s = 64 + run_size rs" "seg_mmapSize s = 4096" "\<not> seg_isSealed s"
    using s seg_inv_offset [of s rs] assms(1) by (auto simp: seg_ok_def seg_holds_def small_def wal_active_def)
  then have "seg_writeOffset s + entrySizeOf d \<le> seg_mmapSize s" using assms(2) rs(2) by simp
  from wl_Write_fits [of "wio_appendLog w" "[]" 1 rs s io_good d, simplified, OF rs(1) s(1) off(3) this] obtain l where
    l: "wl_Write io_good d (wio_appendLog w) = (l, Inr \<lparr>SegmentID = 1, Offset = 64 + int (run_size rs)\<rparr>)" "wal_inv l [(1, rs @ [d])]"
      "same_config (wio_appendLog w) l" "current l = Some (1, appended io_good d s)" by auto
  have "wal_active l" using l(4) off(3) by (simp add: wal_active_def appended_def Let_def)
  moreover have "n = 0 \<Longrightarrow> rs = []" using rs(2) entrySizeOf_pos [of "hd rs"] by (cases rs) (simp_all del: entrySizeOf_pos)
  ultimately show ?thesis using l(1-3) rs(2) assms(1)
    by (auto simp: wio_Append_def small_def same_config_def pos1_def Let_def intro!: exI [of _ "rs @ [d]"])
qed

lemma small_can_log: "small (en_walIO e) n \<Longrightarrow> length d < 3000 \<Longrightarrow> can_log fb io_good e d"
  by (auto simp: small_def can_log_def fits_def wal_inv_def recordOverhead_def alignUp_eq)

lemma tiny_can_put:
  assumes "tiny e n" "n \<le> 4096" "\<forall>x \<in> set xs. length (fst x) + length (vs_Value (snd x)) < 1000" "length xs \<le> 100"
  shows "can_put mem_list1 (\<lambda>_. 5) e xs"
  using assms by (auto simp: tiny_def can_put_def fits_arena_def canPut_def mem_list1_def mem_list_def NewMemTable_def conf1_def)

lemma memTableWrite_small:
  fixes e :: "((tsKey \<times> ValueStruct) list, bytes list, 'd) Engine"
  assumes "en_config e = conf1" "mt_capacity (en_activeMemTable e) = 1000000" "memTableWrite mem_list1 now k v e = (e', None)"
  shows "en_walIO e' = en_walIO e" "en_config e' = conf1" "en_flushPaused e' = en_flushPaused e" "mt_capacity (en_activeMemTable e') = 1000000"
    "mt_opCount (en_activeMemTable e') \<le> mt_opCount (en_activeMemTable e) + 1" "mt_skipList (en_activeMemTable e') \<noteq> []"
    "mt_skipList (en_activeMemTable e) \<noteq> [] \<Longrightarrow> en_sealedMemTables e' = en_sealedMemTables e @ [en_activeMemTable e]"
    "mt_skipList (en_activeMemTable e) = [] \<Longrightarrow> length k + length (vs_Value v) < 1000 \<Longrightarrow> en_sealedMemTables e' = en_sealedMemTables e"
proof -
  have "mt_skipList (en_activeMemTable e) \<noteq> [] \<Longrightarrow> 1000000 \<le> 1000000 * int (length (mt_skipList (en_activeMemTable e)))"
    by (cases "mt_skipList (en_activeMemTable e)") auto
  then have "mt_skipList (en_activeMemTable e) \<noteq> [] \<Longrightarrow> \<not> canPut mem_list1 k v (en_activeMemTable e)"
    using assms(2) by (simp add: canPut_def mem_list1_def mem_list_def)
  then show "mt_skipList (en_activeMemTable e) \<noteq> [] \<Longrightarrow> en_sealedMemTables e' = en_sealedMemTables e @ [en_activeMemTable e]"
    using assms(3) by (auto simp: memTableWrite_def mt_Put_def rotateMemTable_def Notify_def Let_def split: if_splits prod.splits)
  have "mt_skipList (en_activeMemTable e) = [] \<Longrightarrow> length k + length (vs_Value v) < 1000 \<Longrightarrow> canPut mem_list1 k v (en_activeMemTable e)"
    using assms(2) by (simp add: canPut_def mem_list1_def mem_list_def)
  then show "mt_skipList (en_activeMemTable e) = [] \<Longrightarrow> length k + length (vs_Value v) < 1000 \<Longrightarrow> en_sealedMemTables e' = en_sealedMemTables e"
    using assms(3) by (auto simp: memTableWrite_def mt_Put_def Notify_def Let_def split: if_splits prod.splits)
qed (use assms in \<open>auto simp: memTableWrite_def mt_Put_def rotateMemTable_def Notify_def NewMemTable_def Let_def conf1_def mem_list1_def mem_list_def split: if_splits prod.splits\<close>)

lemma new_engine_tables:
  assumes "NewStorageEngine lib io fb bt conf lock wal store = Some (Inr e)"
  shows "en_activeMemTable e = NewMemTable lib (ec_ArenaSize conf)" "\<not> en_flushPaused e" "en_sealedMemTables e = []"
proof -
  obtain e1 e2 where e: "initStorage lib conf lock wal store = Inr e1" "loadMetaValues bt e1 = (e2, None)" "en_recoverWAL io fb bt e2 = Some (e, None)"
    using assms by (auto simp: NewStorageEngine_def split: sum.splits prod.splits option.splits)
  obtain w d where "e1 = newEngine lib conf w d" using e(1) by (auto simp: initStorage_def split: sum.splits if_splits)
  moreover have "en_activeMemTable e2 = en_activeMemTable e1 \<and> en_flushPaused e2 = en_flushPaused e1 \<and> en_sealedMemTables e2 = en_sealedMemTables e1"
    using e(2) by (auto simp: loadMetaValues_def Let_def split: sum.splits if_splits prod.splits option.splits)
  moreover have "en_activeMemTable e = en_activeMemTable e2 \<and> en_flushPaused e = en_flushPaused e2 \<and> en_sealedMemTables e = en_sealedMemTables e2"
    using e(3) by (auto simp: en_recoverWAL_def queueMetadata_def Let_def split: sum.splits if_splits prod.splits option.splits)
  ultimately show "en_activeMemTable e = NewMemTable lib (ec_ArenaSize conf)" "\<not> en_flushPaused e" "en_sealedMemTables e = []"
    by (simp_all add: newEngine_def)
qed

lemma wio0_ok: "wal_ok mem_fb wio0 [(1, [])]" "fresh_ids (wio_appendLog wio0) [(1, [])]" "small wio0 0"
  using wal0_facts(1-3,7) wio0_facts(3) by (auto simp: wal_ok_def wio0_def small_def intro: exI [of _ "[]"])

lemma engine0:
  "\<exists>e0. opened mem_list1 io_good mem_fb mem_bolt mem_view conf1 wio0 boltk u0 e0 \<and> tiny e0 0 \<and> en_writeSeenCounter e0 = 0
    \<and> mt_skipList (en_activeMemTable e0) = [] \<and> en_sealedMemTables e0 = []
    \<and> run_inv mem_list1 mem_fb (bolt_holds mem_view) (bolt_meta mem_view) u0 \<lparr>rn_engine = e0, rn_flushing = False, rn_txns = Map.empty, rn_used = {}, rn_view = u0\<rparr> [(1, [])]"
proof -
  let ?L = "[(1 :: u32, [] :: bytes list)]"
  have cp: "bolt_meta mem_view boltk SysKeyWalCheckPoint = None" by (simp add: boltk_meta)
  have arena: "minArenaSize \<le> ec_ArenaSize conf1" by (simp add: minArenaSize_def conf1_def)
  note inv = mbtree.new_engine_inv [OF mem_list1_laws wio0_ok(1) wio0_facts(3) boltk_holds cp, of conf1]
  obtain e0 where e0: "NewStorageEngine mem_list1 io_good mem_fb (bolt_btree mem_bolt (\<lambda>_. None)) conf1 (Inr True) (Inr wio0) (Inr boltk) = Some (Inr e0)"
    using mbtree.restart_ok [OF mem_list1_laws inv wio0_ok(1,2) arena, of io_good] by auto
  then have o: "opened mem_list1 io_good mem_fb mem_bolt mem_view conf1 wio0 boltk u0 e0"
    using wio0_ok wio0_facts(3) boltk_holds cp unfolding opened_def by blast
  from mbtree.start_ok [OF mem_list1_laws wio0_ok(1) wio0_facts(3) wio0_ok(2) boltk_holds cp e0]
  have st: "run_inv mem_list1 mem_fb (bolt_holds mem_view) (bolt_meta mem_view) u0 \<lparr>rn_engine = e0, rn_flushing = False, rn_txns = Map.empty, rn_used = {}, rn_view = u0\<rparr> ?L"
      "en_config e0 = conf1" "wio_reads ?L wio0 (en_walIO e0)" "en_writeSeenCounter e0 = 0" by auto
  obtain Hs H F P where at: "en_inv mem_list1 mem_fb (bolt_holds mem_view) (bolt_meta mem_view) u0 e0 ?L Hs H F P"
    using st(1) by (auto simp: run_inv_def engine_at_def)
  have log: "log_sops mem_fb [] (decoded mem_fb (wal_log ?L)) = []" by (simp add: wio0_facts(3))
  have "mt_opCount (en_activeMemTable e0) = 0" "mt_capacity (en_activeMemTable e0) = 1000000" "\<not> en_flushPaused e0"
      "mt_skipList (en_activeMemTable e0) = []" "en_sealedMemTables e0 = []"
    using new_engine_tables [OF e0] by (simp_all add: NewMemTable_def conf1_def mem_list1_def mem_list_def)
  moreover have "small (en_walIO e0) 0"
    using wal_okD(1,2) [OF en_invD(1) [OF at]] st(3) wio0_ok(3) by (auto simp: small_def wio_reads_def reads_only_def intro: exI [of _ "[]"])
  ultimately show ?thesis using o st by (auto simp: tiny_def)
qed

definition put2 :: engine_write where
  "put2 = WPutKV [[1]] [[2]]"

lemma key1: "kc_KeyKV [1] = [254, 1]"
  by code_simp

lemma put2_facts: "write_ok put2" "length (FBEncode mem_fb (write_record mem_fb hlc lsn put2)) < 200"
  "write_entries mem_fb put2 = [([254, 1], getValueStruct LogOperationTypeInsert LogEntryTypeKV [2])]" "call_sops (write_call put2) = [PutKV [254, 1] [2]]"
  by (simp_all add: put2_def write_ok_def write_record_def plain_record_def key1 write_entries_def write_call_def FBEncode_def serializeLogRecord_def
      serializeEntries_def SerializeKVEntry_def mem_fb_def put_opt_def length_put_list)

lemma run_put2:
  assumes "run_inv mem_list1 mem_fb (bolt_holds mem_view) (bolt_meta mem_view) u s L" "tiny (rn_engine s) n" "n \<le> 3000"
  shows "\<exists>e' L'. run_write mem_list1 mem_fb io_good (\<lambda>_. 5) 7 put2 (rn_engine s) = (e', None) \<and> tiny e' (n + 300)
    \<and> mt_skipList (en_activeMemTable e') \<noteq> []
    \<and> en_sealedMemTables e' = (if mt_skipList (en_activeMemTable (rn_engine s)) = [] then en_sealedMemTables (rn_engine s)
        else en_sealedMemTables (rn_engine s) @ [en_activeMemTable (rn_engine s)])
    \<and> (n = 0 \<longrightarrow> wal_inv (wio_appendLog (en_walIO e')) [(1, [FBEncode mem_fb (write_record mem_fb 7 (en_writeSeenCounter (rn_engine s) + 1) put2)])])
    \<and> can_log mem_fb io_good (rn_engine s) (FBEncode mem_fb (write_record mem_fb 7 (en_writeSeenCounter (rn_engine s) + 1) put2))
    \<and> can_put mem_list1 (\<lambda>_. 5) (rn_engine s) (write_entries mem_fb put2)
    \<and> (engine_run mem_list1 mem_fb mem_bt f u s \<longrightarrow>
        engine_run mem_list1 mem_fb mem_bt f u (s\<lparr>rn_engine := e', rn_view := (rn_view s)\<lparr>u_kv := (u_kv (rn_view s))([254, 1] \<mapsto> [2])\<rparr>\<rparr>))
    \<and> run_inv mem_list1 mem_fb (bolt_holds mem_view) (bolt_meta mem_view) u (s\<lparr>rn_engine := e', rn_view := (rn_view s)\<lparr>u_kv := (u_kv (rn_view s))([254, 1] \<mapsto> [2])\<rparr>\<rparr>) L'"
proof -
  let ?e = "rn_engine s" and ?d = "FBEncode mem_fb (write_record mem_fb 7 (en_writeSeenCounter (rn_engine s) + 1) put2)"
  have cl: "can_log mem_fb io_good ?e ?d" using assms(2) less_trans [OF put2_facts(2), of 3000] by (intro small_can_log [of _ n]) (simp_all add: tiny_def)
  have cp: "can_put mem_list1 (\<lambda>_. 5) ?e (write_entries mem_fb put2)" by (rule tiny_can_put [OF assms(2)]) (use assms(3) in \<open>simp_all add: put2_facts\<close>)
  have ro: "\<not> ec_ReadOnly (en_config ?e)" using assms(2) by (simp add: tiny_def conf1_def)
  obtain e' L' where e': "run_write mem_list1 mem_fb io_good (\<lambda>_. 5) 7 put2 ?e = (e', None)"
      "run_inv mem_list1 mem_fb (bolt_holds mem_view) (bolt_meta mem_view) u (s\<lparr>rn_engine := e', rn_view := fold apply_sop (call_sops (write_call put2)) (rn_view s)\<rparr>) L'"
    using put_step [OF mem_fb_laws mem_list1_laws assms(1) put2_facts(1) ro cl cp] by blast
  have sh: "\<not> en_shutdown ?e" using assms(1) by (simp add: run_inv_def engine_at_def)
  have sz: "entrySizeOf ?d \<le> 300" using put2_facts(2) [of 7 "en_writeSeenCounter ?e + 1"] by (simp add: entrySizeOf_def alignUp_eq)
  obtain w' p where w': "wio_Append io_good ?d (en_walIO ?e) = (w', Inr p)" "small w' (n + entrySizeOf ?d)"
      "n = 0 \<longrightarrow> wal_inv (wio_appendLog w') [(1, [?d])]"
    using small_append [of "en_walIO ?e" n ?d] assms(2,3) sz by (auto simp: tiny_def)
  let ?e1 = "?e\<lparr>en_writeSeenCounter := en_writeSeenCounter ?e + 1, en_walIO := w'\<rparr>"
  let ?v = "getValueStruct LogOperationTypeInsert LogEntryTypeKV [2]"
  have "persist mem_list1 mem_fb io_good (\<lambda>_. 5) (write_record mem_fb 7 (en_writeSeenCounter ?e + 1) put2) (write_entries mem_fb put2) ?e = (e', None)"
    using e'(1) run_write_persist [OF put2_facts(1) sh ro] by metis
  then have "\<exists>e2. memTableWrite mem_list1 5 [254, 1] ?v ?e1 = (e2, None) \<and> e' = writeOffset (Some p) e2"
    using w'(1) by (auto simp: persist_def put2_facts(3) split: prod.splits option.splits)
  then obtain e2 where "memTableWrite mem_list1 5 [254, 1] ?v ?e1 = (e2, None)" "e' = writeOffset (Some p) e2" by blast
  then have tab: "en_sealedMemTables e' = (if mt_skipList (en_activeMemTable ?e) = [] then en_sealedMemTables ?e else en_sealedMemTables ?e @ [en_activeMemTable ?e])"
      "en_walIO e' = w'" "en_config e' = conf1" "\<not> en_flushPaused e'" "mt_capacity (en_activeMemTable e') = 1000000"
      "mt_opCount (en_activeMemTable e') \<le> mt_opCount (en_activeMemTable ?e) + 1" "mt_skipList (en_activeMemTable e') \<noteq> []"
    using memTableWrite_small [of ?e1 5 "[254, 1]" ?v e2] assms(2) by (simp_all add: tiny_def writeOffset_def notifyAppend_def SetOffset_def getValueStruct_def)
  moreover have "small w' (n + 300)" using w'(2) sz by (auto simp: small_def intro: order_trans)
  ultimately have "tiny e' (n + 300)" using assms(2) by (simp add: tiny_def)
  moreover note engine_run.put [where s = s and io = io_good and hlc = 7 and clk = "\<lambda>_. 5" and w = put2 and e' = e' and err = None, OF _ put2_facts(1) ro cl cp e'(1), of mem_bt f u]
  ultimately show ?thesis using e' cl cp w'(3) tab(1,2,7) by (auto simp: put2_facts(4))
qed

text \<open>A run with one write.\<close>

abbreviation state0 :: "('s, 'b, 'd) Engine \<Rightarrow> ('s, 'b, 'd) run" where
  "state0 e0 \<equiv> \<lparr>rn_engine = e0, rn_flushing = False, rn_txns = Map.empty, rn_used = {}, rn_view = u0\<rparr>"

definition state1 :: "('s, 'b, 'd) Engine \<Rightarrow> ('s, 'b, 'd) run" where
  "state1 e1 = (state0 e1)\<lparr>rn_view := u0\<lparr>u_kv := (u_kv u0)([254, 1] \<mapsto> [2])\<rparr>\<rparr>"

definition data1 :: bytes where
  "data1 = FBEncode mem_fb (write_record mem_fb 7 1 put2)"

lemma run1:
  "\<exists>e0 e1 L1. opened mem_list1 io_good mem_fb mem_bolt mem_view conf1 wio0 boltk u0 e0 \<and> tiny e0 0 \<and> en_writeSeenCounter e0 = 0
    \<and> run_inv mem_list1 mem_fb (bolt_holds mem_view) (bolt_meta mem_view) u0 (state0 e0) [(1, [])] \<and> run_write mem_list1 mem_fb io_good (\<lambda>_. 5) 7 put2 e0 = (e1, None)
    \<and> engine_run mem_list1 mem_fb mem_bt e0 u0 (state1 e1) \<and> tiny e1 300 \<and> mt_skipList (en_activeMemTable e1) \<noteq> [] \<and> en_sealedMemTables e1 = [] \<and> wal_inv (wio_appendLog (en_walIO e1)) [(1, [data1])]
    \<and> run_inv mem_list1 mem_fb (bolt_holds mem_view) (bolt_meta mem_view) u0 (state1 e1) L1"
proof -
  obtain e0 where e0: "opened mem_list1 io_good mem_fb mem_bolt mem_view conf1 wio0 boltk u0 e0" "tiny e0 0" "en_writeSeenCounter e0 = 0"
      "mt_skipList (en_activeMemTable e0) = []" "en_sealedMemTables e0 = []"
      "run_inv mem_list1 mem_fb (bolt_holds mem_view) (bolt_meta mem_view) u0 (state0 e0) [(1, [])]"
    using engine0 by blast
  obtain e1 L1 where e1: "run_write mem_list1 mem_fb io_good (\<lambda>_. 5) 7 put2 e0 = (e1, None)" "tiny e1 300"
      "mt_skipList (en_activeMemTable e1) \<noteq> []" "en_sealedMemTables e1 = []" "wal_inv (wio_appendLog (en_walIO e1)) [(1, [data1])]"
      "engine_run mem_list1 mem_fb mem_bt e0 u0 (state1 e1)"
      "run_inv mem_list1 mem_fb (bolt_holds mem_view) (bolt_meta mem_view) u0 (state1 e1) L1"
    using run_put2 [OF e0(6), where n = 0 and f = e0] engine_run.start [of mem_list1 mem_fb mem_bt e0 u0] e0(2-5) by (auto simp: state1_def data1_def)
  then show ?thesis using e0(1,2,3,6) by blast
qed

section \<open>Reads\<close>

text \<open>C1. Reads in every state of every run. After any sequence of writes, transactions, flushes of a table to the store (also
  between the flush and the removal of the table), checkpoints and crashes with restart, the reads of the engine return exactly what the
  writes and the committed transactions so far say, in their order: the last value of a key, all columns of a row,
  the chunks of a large object. Nothing of a transaction without commit is visible, and no acknowledged write is lost.\<close>

theorem engine_reads:
  assumes "bolt_laws api dview view" "reliable api view" "fb_laws fb" "mem_laws lib" "opened lib io fb api dview conf w d u e0"
    and "engine_run lib fb (bolt_btree api (\<lambda>_. None)) e0 u s"
  shows "answers lib fb (bolt_btree api (\<lambda>_. None)) (rn_engine s) (rn_view s)"
  using run_reaches [OF assms] run_answers [OF assms(1,2,4)] by blast

theorem engine_reads_witness:
  "\<exists>e0 e1. opened mem_list1 io_good mem_fb mem_bolt mem_view conf1 wio0 boltk u0 e0
    \<and> run_write mem_list1 mem_fb io_good (\<lambda>_. 5) 7 put2 e0 = (e1, None) \<and> en_GetKV mem_list1 mem_bt [1] e1 = Inr [2]"
proof -
  obtain e0 e1 where e: "opened mem_list1 io_good mem_fb mem_bolt mem_view conf1 wio0 boltk u0 e0"
      "run_write mem_list1 mem_fb io_good (\<lambda>_. 5) 7 put2 e0 = (e1, None)" "engine_run mem_list1 mem_fb mem_bt e0 u0 (state1 e1)"
    using run1 by blast
  from engine_reads [OF mem_bolt_laws mem_bolt_reliable mem_fb_laws mem_list1_laws e(1,3)]
  have "en_GetKV mem_list1 mem_bt [1] e1 = Inr [2]" by (simp add: answers_def key1 state1_def)
  then show ?thesis using e(1,2) by blast
qed

section \<open>Writes\<close>

text \<open>C5. Writes never fail for a reason of the engine. In every state of every run, a write with valid arguments whose record fits into a segment
  and whose entries fit into an arena succeeds when the system calls do, and the reads afterwards return the state with all keys or rows
  of the batch written.\<close>

theorem engine_write:
  assumes "bolt_laws api dview view" "reliable api view" "fb_laws fb" "mem_laws lib" "opened lib io fb api dview conf w d u e0"
    and "engine_run lib fb (bolt_btree api (\<lambda>_. None)) e0 u s" "write_ok x" "\<not> ec_ReadOnly (en_config (rn_engine s))"
    and "can_log fb io' (rn_engine s) (FBEncode fb (write_record fb hlc (en_writeSeenCounter (rn_engine s) + 1) x))"
    and "can_put lib clk (rn_engine s) (write_entries fb x)"
  shows "\<exists>e'. run_write lib fb io' clk hlc x (rn_engine s) = (e', None)
    \<and> answers lib fb (bolt_btree api (\<lambda>_. None)) e' (fold apply_sop (call_sops (write_call x)) (rn_view s))"
proof -
  obtain L where L: "run_inv lib fb (bolt_holds dview) (bolt_meta dview) u s L" using run_reaches [OF assms(1-6)] by blast
  obtain e' L' where e': "run_write lib fb io' clk hlc x (rn_engine s) = (e', None)"
      "run_inv lib fb (bolt_holds dview) (bolt_meta dview) u (s\<lparr>rn_engine := e', rn_view := fold apply_sop (call_sops (write_call x)) (rn_view s)\<rparr>) L'"
    using put_step [OF assms(3,4) L assms(7-10)] by blast
  then show ?thesis using run_answers [OF assms(1,2,4) e'(2)] by simp
qed

theorem engine_write_witness:
  "\<exists>e0 e1. opened mem_list1 io_good mem_fb mem_bolt mem_view conf1 wio0 boltk u0 e0
    \<and> run_write mem_list1 mem_fb io_good (\<lambda>_. 5) 7 put2 e0 = (e1, None) \<and> answers mem_list1 mem_fb mem_bt e1 (u0\<lparr>u_kv := (u_kv u0)([254, 1] \<mapsto> [2])\<rparr>)"
proof -
  let ?s = "\<lambda>e0. \<lparr>rn_engine = e0, rn_flushing = False, rn_txns = Map.empty, rn_used = {}, rn_view = u0\<rparr>"
  obtain e0 where e0: "opened mem_list1 io_good mem_fb mem_bolt mem_view conf1 wio0 boltk u0 e0" "tiny e0 0"
      "run_inv mem_list1 mem_fb (bolt_holds mem_view) (bolt_meta mem_view) u0 (?s e0) [(1, [])]"
    using engine0 by blast
  have "can_log mem_fb io_good (rn_engine (?s e0)) (FBEncode mem_fb (write_record mem_fb 7 (en_writeSeenCounter (rn_engine (?s e0)) + 1) put2))"
      "can_put mem_list1 (\<lambda>_. 5) (rn_engine (?s e0)) (write_entries mem_fb put2)"
    using run_put2 [OF e0(3)] e0(2) by auto
  moreover have "\<not> ec_ReadOnly (en_config (rn_engine (?s e0)))" using e0(2) by (simp add: tiny_def conf1_def)
  ultimately show ?thesis
    using engine_write [OF mem_bolt_laws mem_bolt_reliable mem_fb_laws mem_list1_laws e0(1) engine_run.start put2_facts(1)] e0(1) by (auto simp: put2_facts(4))
qed

section \<open>Restart\<close>



section \<open>Flushes\<close>



section \<open>Transactions\<close>

lemma Commit_final: "Commit lib fb io clk hlc t e = (e', t', None) \<Longrightarrow> tx_err t' = Some ErrTxnAlreadyCommitted"
  by (auto simp: Commit_def Let_def split: if_splits prod.splits sum.splits option.splits)

text \<open>C3. Transactions are atomic. In every state of every run the reads see nothing of an open transaction, whatever it has logged so far.
  Its commit returns no error, and from then on the reads see all its writes at once, in their order. A second commit of the
  transaction changes nothing and returns \<open>ErrTxnAlreadyCommitted\<close>.\<close>

theorem transaction_commit:
  assumes "bolt_laws api dview view" "reliable api view" "fb_laws fb" "mem_laws lib" "opened lib io fb api dview conf w d u e0"
    and "engine_run lib fb (bolt_btree api (\<lambda>_. None)) e0 u s" "rn_txns s i = Some (t, xs)" "xs \<noteq> []" "length xs < 2 ^ 32"
    and "can_log fb io' (rn_engine s) (FBEncode fb (commit_record fb (en_writeSeenCounter (rn_engine s) + 1) hlc t))"
    and "\<forall>p. can_put lib clk (rn_engine s) (commit_entries t p)"
  shows "answers lib fb (bolt_btree api (\<lambda>_. None)) (rn_engine s) (rn_view s)
    \<and> (\<exists>e' t'. Commit lib fb io' clk hlc t (rn_engine s) = (e', t', None)
      \<and> answers lib fb (bolt_btree api (\<lambda>_. None)) e'
          (fold apply_sop (call_sops (txn_call (tx_txnOperation t) (tx_txnEntryType t) (tx_checksum t) xs)) (rn_view s))
      \<and> Commit lib fb io2 clk2 hlc2 t' e' = (e', t', Some ErrTxnAlreadyCommitted))"
proof -
  obtain L where L: "run_inv lib fb (bolt_holds dview) (bolt_meta dview) u s L" using run_reaches [OF assms(1-6)] by blast
  obtain e' t' L' where e': "Commit lib fb io' clk hlc t (rn_engine s) = (e', t', None)"
      "run_inv lib fb (bolt_holds dview) (bolt_meta dview) u (s\<lparr>rn_engine := e',
        rn_view := fold apply_sop (call_sops (txn_call (tx_txnOperation t) (tx_txnEntryType t) (tx_checksum t) xs)) (rn_view s),
        rn_txns := (rn_txns s)(i := None)\<rparr>) L'"
    using commit_step [OF assms(3,4) L assms(7-11)] by blast
  have "Commit lib fb io2 clk2 hlc2 t' e' = (e', t', Some ErrTxnAlreadyCommitted)"
    unfolding Commit_def using Commit_final [OF e'(1)] by simp
  then show ?thesis using e'(1) run_answers [OF assms(1,2,4) L] run_answers [OF assms(1,2,4) e'(2)] by auto
qed

text \<open>A run with one transaction.\<close>

definition txn9 :: "('s, 'b, 'd) Engine \<Rightarrow> Txn \<Rightarrow> txn_write list \<Rightarrow> ('s, 'b, 'd) run" where
  "txn9 e t xs = (state0 e)\<lparr>rn_txns := [[9] \<mapsto> (t, xs)], rn_used := {[9]}\<rparr>"

lemma short_record:
  assumes "length (TxnID r) \<le> 1" "length (PrevTxnWalIndex r) \<le> 12" "Entries r = [] \<or> (\<exists>k v. Entries r = [SerializeKVEntry mem_fb k v] \<and> length k + length v \<le> 3)"
  shows "length (FBEncode mem_fb r) < 200"
  using assms by (auto simp: FBEncode_def serializeLogRecord_def serializeEntries_def SerializeKVEntry_def mem_fb_def put_opt_def length_put_list)

lemma tiny_log:
  fixes e :: "('s, 'b, 'd) Engine"
  assumes "tiny e n" "n \<le> 3000" "length d < 200"
  shows "\<exists>w' p. wio_Append io_good d (en_walIO e) = (w', Inr p) \<and> (\<forall>c. tiny (e\<lparr>en_writeSeenCounter := c, en_walIO := w'\<rparr>) (n + 300))" "can_log fb io_good e d"
proof -
  have sz: "entrySizeOf d \<le> 300" using assms(3) by (simp add: entrySizeOf_def alignUp_eq)
  obtain w' p where w': "wio_Append io_good d (en_walIO e) = (w', Inr p)" "small w' (n + entrySizeOf d)"
    using small_append [of "en_walIO e" n d] assms sz by (auto simp: tiny_def)
  have "small w' (n + 300)" using w'(2) sz by (auto simp: small_def intro: order_trans)
  then show "\<exists>w' p. wio_Append io_good d (en_walIO e) = (w', Inr p) \<and> (\<forall>c. tiny (e\<lparr>en_writeSeenCounter := c, en_walIO := w'\<rparr>) (n + 300))"
    using w'(1) assms(1) by (auto simp: tiny_def)
  show "can_log fb io_good e d" using assms by (intro small_can_log [of _ n]) (simp_all add: tiny_def)
qed

lemma run_begin:
  assumes "engine_run mem_list1 mem_fb mem_bt e0 u0 (state0 e0)" "tiny e0 0"
  shows "\<exists>eb t. NewTxn mem_fb io_good (Inr [9]) 7 LogOperationTypeInsert LogEntryTypeKV e0 = (eb, Inr t) \<and> tiny eb 300
    \<and> engine_run mem_list1 mem_fb mem_bt e0 u0 (txn9 eb t []) \<and> tx_err t = None \<and> tx_txnID t = [9] \<and> tx_rowKey t = None
    \<and> tx_txnOperation t = LogOperationTypeInsert \<and> tx_txnEntryType t = LogEntryTypeKV \<and> tx_memTableEntries t = []"
proof -
  let ?d = "FBEncode mem_fb (begin_record (en_writeSeenCounter e0 + 1) 7 LogEntryTypeKV [9])"
  have "length ?d < 200" by (rule short_record) (simp_all add: begin_record_def)
  note log = tiny_log [OF assms(2) _ this]
  obtain w' p where w': "wio_Append io_good ?d (en_walIO e0) = (w', Inr p)" "\<forall>c. tiny (e0\<lparr>en_writeSeenCounter := c, en_walIO := w'\<rparr>) (0 + 300)"
    using log(1) by auto
  obtain eb t where t: "NewTxn mem_fb io_good (Inr [9]) 7 LogOperationTypeInsert LogEntryTypeKV e0 = (eb, Inr t)" "tiny eb 300"
      "tx_err t = None" "tx_txnID t = [9]" "tx_rowKey t = None" "tx_txnOperation t = LogOperationTypeInsert" "tx_txnEntryType t = LogEntryTypeKV"
      "tx_memTableEntries t = []"
    using w' assms(2) by (simp add: NewTxn_def tiny_def conf1_def begin_record_def Let_def)
  have "engine_run mem_list1 mem_fb mem_bt e0 u0 (txn9 eb t [])"
    using engine_run.begin_txn [where s = "state0 e0" and io = io_good and hlc = 7 and uuid = "[9]" and op = LogOperationTypeInsert and et = LogEntryTypeKV and e' = eb and t = t,
        OF assms(1)] t(1) log(2) assms(2) by (simp add: txn_kind_def tiny_def conf1_def txn9_def)
  then show ?thesis using t by blast
qed

lemma run_append:
  assumes "engine_run mem_list1 mem_fb mem_bt e0 u0 (txn9 eb t [])" "tiny eb 300" "tx_err t = None" "tx_txnID t = [9]" "tx_rowKey t = None"
    and "tx_txnOperation t = LogOperationTypeInsert" "tx_txnEntryType t = LogEntryTypeKV" "tx_memTableEntries t = []"
  shows "\<exists>ea t'. AppendKVTxn mem_fb io_good 7 [1] [2] t eb = (ea, t', None) \<and> tiny ea 600 \<and> engine_run mem_list1 mem_fb mem_bt e0 u0 (txn9 ea t' [TKV [1] [2]])
    \<and> tx_txnID t' = [9] \<and> tx_rowKey t' = None \<and> tx_txnOperation t' = LogOperationTypeInsert \<and> tx_txnEntryType t' = LogEntryTypeKV
    \<and> (\<forall>p. commit_entries t' p = [([254, 1], getValueStruct LogOperationTypeInsert LogEntryTypeKV [2])])"
proof -
  let ?d = "FBEncode mem_fb (prepare_record (en_writeSeenCounter eb + 1) 7 (SerializeKVEntry mem_fb [254, 1] [2]) t)"
  have "length ?d < 200"
    using assms(4) by (intro short_record disjI2 exI [of _ "[254, 1]"] exI [of _ "[2]"]) (auto simp: prepare_record_def split: option.splits)
  note log = tiny_log [OF assms(2) _ this]
  obtain w' p where w': "wio_Append io_good ?d (en_walIO eb) = (w', Inr p)" "\<forall>c. tiny (eb\<lparr>en_writeSeenCounter := c, en_walIO := w'\<rparr>) (300 + 300)"
    using log(1) by auto
  obtain ea t' where t': "AppendKVTxn mem_fb io_good 7 [1] [2] t eb = (ea, t', None)" "tiny ea 600" "tx_txnID t' = [9]" "tx_rowKey t' = None"
      "tx_txnOperation t' = LogOperationTypeInsert" "tx_txnEntryType t' = LogEntryTypeKV"
      "\<forall>p. commit_entries t' p = [([254, 1], getValueStruct LogOperationTypeInsert LogEntryTypeKV [2])]"
    using w' assms(3-8) by (simp add: AppendKVTxn_def prepare_record_def commit_entries_def key1 Let_def)
  have "engine_run mem_list1 mem_fb mem_bt e0 u0 (txn9 ea t' [TKV [1] [2]])"
    using engine_run.append [where s = "txn9 eb t []" and i = "[9]" and t = t and xs = "[]" and x = "TKV [1] [2]" and io = io_good and hlc = 7 and e' = ea and t' = t' and err = None,
        OF assms(1)] t'(1) log(2) assms(7) by (simp add: append_ok_def append_txn_def key1 txn9_def)
  then show ?thesis using t' by blast
qed

theorem transaction_commit_witness:
  "\<exists>e0 eb t ea t1 ec t2. opened mem_list1 io_good mem_fb mem_bolt mem_view conf1 wio0 boltk u0 e0
    \<and> NewTxn mem_fb io_good (Inr [9]) 7 LogOperationTypeInsert LogEntryTypeKV e0 = (eb, Inr t)
    \<and> AppendKVTxn mem_fb io_good 7 [1] [2] t eb = (ea, t1, None) \<and> en_GetKV mem_list1 mem_bt [1] ea = Inl ErrKeyNotFound
    \<and> Commit mem_list1 mem_fb io_good (\<lambda>_. 5) 7 t1 ea = (ec, t2, None) \<and> en_GetKV mem_list1 mem_bt [1] ec = Inr [2]"
proof -
  obtain e0 where e0: "opened mem_list1 io_good mem_fb mem_bolt mem_view conf1 wio0 boltk u0 e0" "tiny e0 0"
    using engine0 by blast
  obtain eb t where b: "NewTxn mem_fb io_good (Inr [9]) 7 LogOperationTypeInsert LogEntryTypeKV e0 = (eb, Inr t)"
      "engine_run mem_list1 mem_fb mem_bt e0 u0 (txn9 eb t [])" "tiny eb 300" "tx_err t = None" "tx_txnID t = [9]" "tx_rowKey t = None"
      "tx_txnOperation t = LogOperationTypeInsert" "tx_txnEntryType t = LogEntryTypeKV" "tx_memTableEntries t = []"
    using run_begin [OF engine_run.start e0(2)] by blast
  obtain ea t1 where a: "AppendKVTxn mem_fb io_good 7 [1] [2] t eb = (ea, t1, None)" "tiny ea 600"
      "engine_run mem_list1 mem_fb mem_bt e0 u0 (txn9 ea t1 [TKV [1] [2]])" "tx_txnID t1 = [9]" "tx_rowKey t1 = None"
      "tx_txnOperation t1 = LogOperationTypeInsert" "tx_txnEntryType t1 = LogEntryTypeKV"
      "\<forall>p. commit_entries t1 p = [([254, 1], getValueStruct LogOperationTypeInsert LogEntryTypeKV [2])]"
    using run_append [OF b(2-)] by blast
  let ?s = "txn9 ea t1 [TKV [1] [2]]"
  have s: "rn_engine ?s = ea" "rn_view ?s = u0" "rn_txns ?s [9] = Some (t1, [TKV [1] [2]])" by (simp_all add: txn9_def)
  have "length (FBEncode mem_fb (commit_record mem_fb (en_writeSeenCounter ea + 1) 7 t1)) < 200"
    using a(4,5) by (intro short_record disjI2 exI [of _ "[]"]) (auto simp: commit_record_def split: option.splits)
  note cl = tiny_log(2) [OF a(2) _ this, of mem_fb]
  have cp: "can_put mem_list1 (\<lambda>_. 5) ea (commit_entries t1 p)" for p
    by (rule tiny_can_put [OF a(2)]) (simp_all add: a(8) getValueStruct_def)
  have "call_sops (txn_call LogOperationTypeInsert LogEntryTypeKV c [TKV [1] [2]]) = [PutKV [254, 1] [2]]" for c
    by (simp add: txn_call_def key1)
  then show ?thesis
    using transaction_commit [OF mem_bolt_laws mem_bolt_reliable mem_fb_laws mem_list1_laws e0(1) a(3) s(3), of io_good 7 "\<lambda>_. 5" io_good "\<lambda>_. 5" 7] cl cp
      e0(1) b(1) a(1) unfolding s a(6,7) by (auto simp: answers_def key1 u0_def)
qed

section \<open>Replication\<close>


text \<open>A replica that applies the record of the first write.\<close>

lemma data1_record: "DeserializeLogRecord mem_fb data1 = plain_record 1 7 LogOperationTypeInsert LogEntryTypeKV [SerializeKVEntry mem_fb [254, 1] [2]]"
  by (simp add: data1_def DeserializeLogRecord_def mem_fb_laws write_record_def put2_def key1)

lemma memTableWrites_errors: "memTableWrites lib post clk xs e = (e', Some err) \<Longrightarrow> err = ErrArenaSizeWillExceed"
proof (induction lib post clk xs e rule: memTableWrites.induct)
  case (2 lib post clk k v rest e)
  have "snd (memTableWrite lib (clk 0) k v e) \<in> {None, Some ErrArenaSizeWillExceed}" by (auto simp: memTableWrite_def mt_Put_def Let_def)
  then show ?case using 2 by (auto split: prod.splits option.splits)
qed simp

lemma replica1:
  assumes "tiny e0 0" "en_writeSeenCounter e0 = 0" "run_inv mem_list1 mem_fb (bolt_holds mem_view) (bolt_meta mem_view) u0 (state0 e0) [(1, [])]"
    and "leader_log mem_fb (decoded mem_fb [(pos1, data1)])"
  shows "\<exists>r. ApplyRecord mem_list1 mem_fb io_good (\<lambda>_. 5) data1 pos1 e0 = Some (r, None) \<and> replica_run mem_list1 mem_fb bt [(pos1, data1)] e0 r False 1"
proof -
  let ?r = "DeserializeLogRecord mem_fb data1" and ?L = "[(1 :: u32, [] :: bytes list)]"
  have "length data1 < 200" using put2_facts(2) by (simp add: data1_def)
  note log = tiny_log(2) [OF assms(1) _ this, of mem_fb]
  have entries: "record_entries mem_fb [] ?r pos1 = [([254, 1], getValueStruct LogOperationTypeInsert LogEntryTypeKV [2])]"
    by (simp add: record_entries_def data1_record plain_record_def kv_entry_def mem_fb_laws)
  have put: "can_put mem_list1 (\<lambda>_. 5) e0 (record_entries mem_fb [] ?r pos1)"
    by (rule tiny_can_put [OF assms(1)]) (simp_all add: entries getValueStruct_def)
  obtain Hs H F P where at: "en_inv mem_list1 mem_fb (bolt_holds mem_view) (bolt_meta mem_view) u0 e0 ?L Hs H F P"
    using assms(3) by (auto simp: run_inv_def engine_at_def)
  have rec: "link_ok [] ?r" "record_ok mem_fb [] ?r" "known_op ?r" using assms(4) by (simp_all add: leader_log_def)
  have lsn: "LSN ?r = en_writeSeenCounter e0 + 1" by (simp add: data1_record plain_record_def assms(2))
  obtain r err where r: "ApplyRecord mem_list1 mem_fb io_good (\<lambda>_. 5) data1 pos1 e0 = Some (r, err)" "err \<in> {None, Some ErrInvalidOffset}"
    using ApplyRecord_ok [OF mem_list1_laws at log refl, of pos1 "\<lambda>_. 5"] rec lsn put by (auto simp: wio0_facts(3) pos1_def split: if_splits)
  obtain w' where w': "wio_Append io_good data1 (en_walIO e0) = (w', Inr pos1)"
  proof -
    have "64 + 0 + entrySizeOf data1 \<le> 4096" using \<open>length data1 < 200\<close> by (simp add: entrySizeOf_def alignUp_eq)
    then show thesis using small_append [of "en_walIO e0" 0 data1] assms(1) that by (auto simp: tiny_def)
  qed
  have tb: "tb_Lsn (GetRootAsLogRecord mem_fb data1) = 1" "tb_TxnState (GetRootAsLogRecord mem_fb data1) = TransactionStateNone"
      "tb_OperationType (GetRootAsLogRecord mem_fb data1) = LogOperationTypeInsert" "tb_EntryType (GetRootAsLogRecord mem_fb data1) = LogEntryTypeKV"
      "Entries (DeserializeFBRootLogRecord (GetRootAsLogRecord mem_fb data1)) = [SerializeKVEntry mem_fb [254, 1] [2]]"
    using data1_record by (simp_all add: DeserializeLogRecord_def DeserializeFBRootLogRecord_def plain_record_def)
  have "err \<in> {None, Some ErrArenaSizeWillExceed}"
    using r(1) memTableWrites_errors
    by (auto simp: ApplyRecord_def rep_handleRecord_def rep_handleInsert_def writeEntries_def tb w' assms(2) pos1_def isEqualOffset_def Let_def
        split: prod.splits option.splits)
  then have "err = None" using r(2) by auto
  moreover have "replica_run mem_list1 mem_fb bt [(pos1, data1)] e0 r False (0 + 1)"
    by (rule replica_run.apply_one [OF replica_run.start]) (use r(1) log put calculation in \<open>simp_all\<close>)
  ultimately show ?thesis using r(1) by simp
qed


end
