(* ===== verification/Spec2Isabelle.thy ===== *)
theory Spec2Isabelle
  imports WALogProps StoreProps KernelProps MemTableProps EngineProps
begin

text \<open>
  A verification development for UnisonDB, a log-structured database with streaming replication (Go sources under
  \<open>src/\<close>).

  \<^bold>\<open>The program.\<close> A namespace of the database is an engine (\<open>dbkernel\<close>). A write is encoded as a log record and appended to a
  write-ahead log (\<open>pkg/walfs\<close>), kept in a memory table and later flushed from there to an embedded B-tree store
  (\<open>pkg/kvdrivers\<close>, bbolt or LMDB). Replicas read the log from an offset on and apply its records.

  \<^bold>\<open>Conventions.\<close> Go functions are HOL functions. Methods with side effects take and return the record of the receiver.
  An error is a value of the datatype \<open>error\<close> (theory \<open>Prelude\<close>), a fallible function returns \<open>error + 'a\<close> or an
  \<open>error option\<close>, and a run-time panic is the error \<open>Panic\<close>. Integers keep their width (\<open>u32\<close>, \<open>u64\<close>) where the code stores or
  compares them in that width. The outcome of a system call is an argument (\<open>ioenv\<close>). Mutexes are left out: a method is
  one step, which is what the lock of the receiver provides. Third-party code is a parameter of the definitions that
  use it, with the behaviour the code relies on as hypotheses.

  \<^bold>\<open>The write-ahead log.\<close>
  \<^item> \<open>Checksum\<close>: CRC-32 and the rolling checksum of a record.
  \<^item> \<open>Segment\<close>, \<open>SegmentFrames\<close>, \<open>SegmentCorrect\<close>: \<open>pkg/walfs/segment.go\<close>, a segment file mapped into memory: header, records
    with header, checksum, trailer and padding, \<open>Write\<close>, \<open>WriteBatch\<close>, \<open>Read\<close>, \<open>SealSegment\<close>. The invariant \<open>seg_holds\<close> says which
    records a segment holds; writing extends it, reading returns it.
  \<^item> \<open>SegmentRecovery\<close>: the scan that finds the end of a segment after a crash; torn and damaged tails are cut off.
  \<^item> \<open>ReaderTracker\<close>, \<open>SegmentLifecycle\<close>: reader registration, reference counts and deletion of segment files.
  \<^item> \<open>SegmentLog\<close>, \<open>SegmentProps\<close>: a segment as an append-only log (locale \<open>append_log\<close>) and the properties of segments.
  \<^item> \<open>SegmentNames\<close>, \<open>WALog\<close>, \<open>WALogCorrect\<close>, \<open>WALogRecovery\<close>: \<open>pkg/walfs/walog.go\<close>, the log over many segments, with rotation,
    batches and recovery. \<open>wal_inv w L\<close> relates a log to the list \<open>L\<close> of its segments and records.
  \<^item> \<open>WALogReader\<close>, \<open>WALogReaderCorrect\<close>: readers across segments. \<open>Retention\<close>: retention, cleaning and backup of segments.
  \<^item> \<open>WALogProps\<close>: the properties of the log.

  \<^bold>\<open>The storage drivers.\<close>
  \<^item> \<open>KeyCodec\<close>: the storage keys of \<open>internal/keycodec\<close> and \<open>pkg/kvdrivers/util.go\<close>.
  \<^item> \<open>StoreSpec\<close>: what a driver promises, as an abstract store of values, cells and large objects, and its representation by
    byte keys. The locale \<open>key_names\<close> states when names are told apart; it is interpreted for plain and for encoded names.
  \<^item> \<open>TxnApi\<close>: the embedded databases as a parameter, their laws, and databases in memory that satisfy the laws.
  \<^item> \<open>BoltStore\<close>, \<open>LmdbStore\<close>: the drivers \<open>bolt.go\<close> and \<open>lmdb.go\<close>. Each writing method refines its abstract operations.
    \<open>BoltProgress\<close>: the methods succeed when the database does.
  \<^item> \<open>TxnQueue\<close>, \<open>BoltQueue\<close>, \<open>LmdbQueue\<close>: the transaction queues. The locale \<open>txn_writer\<close> states the contract of a flush.
  \<^item> \<open>StoreProps\<close>: the properties of the drivers.

  \<^bold>\<open>Log records and recovery.\<close>
  \<^item> \<open>LogCodec\<close>: \<open>internal/logcodec\<close>, log records and their entries, over FlatBuffers as a parameter. \<open>LogSpec\<close>: what a sequence of records
    says: the abstract operations of each record, with the parts of a transaction applied by its commit.
  \<^item> \<open>WalIO\<close>, \<open>WalIOCorrect\<close>: \<open>dbkernel/internal/wal\<close>, the log of an engine. \<open>Replay\<close>: reading back from a position. \<open>Metadata\<close>: the checkpoint.
  \<^item> \<open>BTree\<close>: the interface of the store that the engine uses (locale \<open>btree_store\<close>, interpreted on the bbolt driver).
  \<^item> \<open>Recovery\<close>: \<open>dbkernel/internal/recovery\<close>; \<open>KernelProps\<close>: the log codec, transaction records and recovery.

  \<^bold>\<open>The engine.\<close>
  \<^item> \<open>MemTable\<close>, \<open>MemTableCorrect\<close>, \<open>FlushCorrect\<close>, \<open>MemTableProps\<close>: \<open>dbkernel/internal/memtable\<close>, the table in memory over a skip list and a Bloom
    filter as parameters, related by \<open>mt_inv\<close> to the history of its puts, and its flush to the store.
  \<^item> \<open>Engine\<close>: \<open>dbkernel/engine.go\<close> and \<open>engine_public.go\<close>. The invariant \<open>en_inv\<close> (theory \<open>EngineCorrect\<close>) relates the log, the sealed and the active
    tables, the store and the checkpoints: the operations in the store and then those in the tables are the operations of the log.
    \<open>EngineSteps\<close>: writes, flushes, checkpoints and restarts keep it. \<open>EngineReads\<close>: the reads return what the log says.
  \<^item> \<open>Txn\<close>, \<open>TxnCorrect\<close>: \<open>dbkernel/txn.go\<close>, transactions. \<open>Replica\<close>, \<open>RecordApply\<close>, \<open>ReplicaCorrect\<close>: \<open>dbkernel/replica.go\<close>, records of a leader.
  \<^item> \<open>EngineRun\<close>, \<open>ReplicaRun\<close>: the inductive relations \<open>engine_run\<close> and \<open>replica_run\<close>. Their rules are the methods, in any order, with a crash and
    restart possible after every step, also between the flush of a table and its removal; their invariants by rule induction.
  \<^item> \<open>EngineProps\<close>: what users see. Reads are exact in every state, writes succeed and become visible, commits are atomic, flushes are
    invisible, restarts lose nothing, and a replica shows what the log of its leader says.

  \<^bold>\<open>Bounds and fuel.\<close> Loops are structural recursions or \<open>function\<close>s with a measure. The scan of a segment has the mapped
  bytes behind the cursor as its measure; \<open>WriteBatch\<close> is proved to end after finitely many rotations. Only the observers
  that drain a reader take a number of steps, and the properties hold for every number that is large enough. Following the links of a
  transaction may not end on a damaged log: there the result \<open>None\<close> is a call that does not return, and the properties show that
  calls on the logs of a run return. The bounds in the properties of the engine are those of the code: a record fits into a segment
  (\<open>can_log\<close>), an entry fits into an arena, segment ids and counters do not wrap (\<open>can_put\<close>).

  \<^bold>\<open>Not modelled.\<close> The services around the engine (HTTP, gRPC streams, relayer, server application, notifiers) move bytes between
  sockets and the methods above; they have no state of the data of their own. The snapshot and backup files of the engine
  are file system calls. The loops of the background goroutines are represented by the steps they run. Interleavings within
  a method are not modelled beyond the two parts of a flush and the three looks of \<open>WaitForAppendOrDone\<close>. Clocks are arguments,
  metrics and log lines are left out, and generated code is a parameter.
\<close>

end
